(* ===== verification/Prelude.thy ===== *)
theory Prelude
  imports Main "HOL-Library.Multiset" "HOL-Library.List_Lexorder" "HOL-Library.Char_ord"
begin

section \<open>Shared notions: errors, 64-bit integers, sorting and searching\<close>

text \<open>
  What every component of the model shares.
  \<^item> \<open>goerr\<close> and \<open>'a res\<close>: a Go \<open>error\<close> value and the result of a fallible
    function, \<open>Inl\<close> for the error.
  \<^item> \<open>wrap64\<close>, \<open>sat64\<close>, \<open>quot\<close>, \<open>rem\<close>: Go's two's complement \<open>int64\<close>,
    the saturation of \<open>time.Time.Sub\<close> and truncating division.
  \<^item> \<open>slice_sort\<close>: the contract of \<open>sort.Slice\<close> and \<open>slices.SortFunc\<close>, which
    promise a sorted permutation and nothing about the order of equal elements.
  \<^item> \<open>sort_search\<close>: \<open>sort.Search\<close>, the binary search of the standard library.
\<close>

named_theorems go_defs \<open>definitions of the small operations, unfolded by the proofs\<close>
named_theorems seg_simps \<open>simplification rules on segments and time ranges\<close>

subsection \<open>Errors\<close>

text \<open>
  An error is a message, a message wrapped around another error (\<open>fmt.Errorf\<close> with
  \<open>%w\<close>), one of the two context errors, or one of the GraphQL classes the repository
  maps errors to.
\<close>

datatype goerr =
    Err string
  | Wrap string goerr
  | ErrCanceled
  | ErrDeadlineExceeded
  | BadRequestError goerr
  | ServiceUnavailableError goerr string
  | InternalError goerr string

type_synonym 'a res = "goerr + 'a"

text \<open>\<open>errors.Is\<close> for a sentinel: the error itself or an error it wraps.\<close>

fun errors_Is :: "goerr \<Rightarrow> goerr \<Rightarrow> bool" where
  "errors_Is (Wrap m e) t = (Wrap m e = t \<or> errors_Is e t)"
| "errors_Is (BadRequestError e) t = (BadRequestError e = t \<or> errors_Is e t)"
| "errors_Is (ServiceUnavailableError e m) t = (ServiceUnavailableError e m = t \<or> errors_Is e t)"
| "errors_Is (InternalError e m) t = (InternalError e m = t \<or> errors_Is e t)"
| "errors_Is e t = (e = t)"

definition is_ok :: "'a res \<Rightarrow> bool" where
  "is_ok r = (case r of Inl _ \<Rightarrow> False | Inr _ \<Rightarrow> True)"

lemma is_ok_simps [simp]: "is_ok (Inr x) = True" "is_ok (Inl e) = False"
  by (simp_all add: is_ok_def)

subsection \<open>64-bit integers\<close>

definition maxInt64 :: int where "maxInt64 = 9223372036854775807"
definition minInt64 :: int where "minInt64 = -9223372036854775808"

definition wrap64 :: "int \<Rightarrow> int" where
  "wrap64 x = (x + 9223372036854775808) mod 18446744073709551616 - 9223372036854775808"

definition sat64 :: "int \<Rightarrow> int" where
  "sat64 x = max minInt64 (min maxInt64 x)"

text \<open>Go's \<open>/\<close> and \<open>%\<close> truncate towards zero.\<close>

definition quot :: "int \<Rightarrow> int \<Rightarrow> int" where
  "quot a b = sgn a * sgn b * (\<bar>a\<bar> div \<bar>b\<bar>)"

definition rem :: "int \<Rightarrow> int \<Rightarrow> int" where
  "rem a b = a - b * quot a b"

lemma wrap64_id: "minInt64 \<le> x \<Longrightarrow> x \<le> maxInt64 \<Longrightarrow> wrap64 x = x"
  by (simp add: wrap64_def minInt64_def maxInt64_def)

lemma wrap64_range: "minInt64 \<le> wrap64 x \<and> wrap64 x \<le> maxInt64"
proof -
  have "0 \<le> (x + 9223372036854775808) mod 18446744073709551616"
    and "(x + 9223372036854775808) mod 18446744073709551616 < 18446744073709551616" by simp_all
  then show ?thesis unfolding wrap64_def minInt64_def maxInt64_def by linarith
qed

lemma sat64_id: "minInt64 \<le> x \<Longrightarrow> x \<le> maxInt64 \<Longrightarrow> sat64 x = x"
  by (simp add: sat64_def)

lemma sat64_mono: "x \<le> y \<Longrightarrow> sat64 x \<le> sat64 y"
  by (auto simp: sat64_def)

lemma sat64_nonneg_iff [simp]: "0 \<le> sat64 x \<longleftrightarrow> 0 \<le> x"
  by (auto simp: sat64_def minInt64_def maxInt64_def)

lemma sat64_pos_iff [simp]: "0 < sat64 x \<longleftrightarrow> 0 < x"
  by (auto simp: sat64_def minInt64_def maxInt64_def)

lemma sat64_le_iff: "minInt64 \<le> b \<Longrightarrow> b < maxInt64 \<Longrightarrow> sat64 x \<le> b \<longleftrightarrow> x \<le> b"
  by (auto simp: sat64_def minInt64_def maxInt64_def)

lemma sat64_ge_iff: "minInt64 < b \<Longrightarrow> b \<le> maxInt64 \<Longrightarrow> b \<le> sat64 x \<longleftrightarrow> b \<le> x"
  by (auto simp: sat64_def minInt64_def maxInt64_def)

lemma quot_nonneg: "0 \<le> a \<Longrightarrow> 0 < b \<Longrightarrow> quot a b = a div b"
  by (cases "a = 0") (auto simp: quot_def)

lemma rem_nonneg: "0 \<le> a \<Longrightarrow> 0 < b \<Longrightarrow> rem a b = a mod b"
  by (simp add: rem_def quot_nonneg minus_mult_div_eq_mod)

subsection \<open>Decimal printing\<close>

text \<open>The \<open>%d\<close> of \<open>fmt\<close>.\<close>

definition digit :: "nat \<Rightarrow> char" where "digit n = char_of (48 + n)"

fun nat_str :: "nat \<Rightarrow> string" where
  "nat_str n = (if n < 10 then [digit n] else nat_str (n div 10) @ [digit (n mod 10)])"

declare nat_str.simps [simp del]

definition int_str :: "int \<Rightarrow> string" where
  "int_str i = (if i < 0 then CHR ''-'' # nat_str (nat (- i)) else nat_str (nat i))"

subsection \<open>Sequences of checks\<close>

text \<open>
  A Go \<open>error\<close> that a check returns is \<open>None\<close> for nil. \<open>or_err a b\<close> is
  \<open>if err := a; err != nil { return err }; return b\<close>, and \<open>first_err\<close> a loop of such checks.
\<close>

definition or_err :: "goerr option \<Rightarrow> goerr option \<Rightarrow> goerr option" where
  "or_err a b = (case a of Some e \<Rightarrow> Some e | None \<Rightarrow> b)"

fun first_err :: "goerr option list \<Rightarrow> goerr option" where
  "first_err [] = None"
| "first_err (x # xs) = or_err x (first_err xs)"

lemma or_err_None [simp]: "or_err a b = None \<longleftrightarrow> a = None \<and> b = None"
  by (simp add: or_err_def split: option.splits)

lemma or_err_simps [simp]: "or_err None b = b" "or_err (Some e) b = Some e"
  by (simp_all add: or_err_def)

lemma first_err_None [simp]: "first_err xs = None \<longleftrightarrow> (\<forall>x \<in> set xs. x = None)"
  by (induction xs) auto

subsection \<open>Sorting\<close>

text \<open>
  The contract of a sort that need not be stable. A function that sorts takes the sort
  as an argument \<open>srt\<close>, so that its properties hold for every order the library may
  leave equal elements in.
\<close>

locale slice_sort =
  fixes key :: "'a \<Rightarrow> 'k::linorder"
    and srt :: "'a list \<Rightarrow> 'a list"
  assumes srt_perm: "mset (srt xs) = mset xs"
    and srt_sorted: "sorted (map key (srt xs))"
begin

lemma set_srt: "set (srt xs) = set xs"
  using srt_perm [of xs] by (metis set_mset_mset)

lemma length_srt: "length (srt xs) = length xs"
  using srt_perm [of xs] by (metis size_mset)

lemma srt_Nil: "srt [] = []"
  using length_srt [of "[]"] by simp

lemma srt_eq_Nil: "srt xs = [] \<longleftrightarrow> xs = []"
  using length_srt [of xs] by (metis length_0_conv)

lemma distinct_srt: "distinct (srt xs) \<longleftrightarrow> distinct xs"
  using srt_perm [of xs] by (rule mset_eq_imp_distinct_iff)

end

interpretation stable_sort: slice_sort key "sort_key key" for key :: "'a \<Rightarrow> 'k::linorder"
  by unfold_locales simp_all

lemma slice_sort_sort_key: "slice_sort key (sort_key key)"
  by (rule stable_sort.slice_sort_axioms)

subsection \<open>Binary search\<close>

text \<open>\<open>sort.Search(n, f)\<close>: the loop on \<open>i, j\<close> with \<open>h = (i + j) / 2\<close>.\<close>

function search_loop :: "(nat \<Rightarrow> bool) \<Rightarrow> nat \<Rightarrow> nat \<Rightarrow> nat" where
  "search_loop f i j =
     (if i < j
      then let h = (i + j) div 2 in
           if \<not> f h then search_loop f (h + 1) j else search_loop f i h
      else i)"
  by pat_completeness auto
termination
  by (relation "measure (\<lambda>(f, i, j). j - i)") auto

declare search_loop.simps [simp del]

definition sort_search :: "nat \<Rightarrow> (nat \<Rightarrow> bool) \<Rightarrow> nat" where
  "sort_search n f = search_loop f 0 n"

lemma search_loop_correct:
  assumes "i \<le> j" and "\<And>a b. a \<le> b \<Longrightarrow> b < n \<Longrightarrow> f a \<Longrightarrow> f b"
    and "j \<le> n" and "\<And>k. k < i \<Longrightarrow> \<not> f k" and "\<And>k. j \<le> k \<Longrightarrow> k < n \<Longrightarrow> f k"
  shows "search_loop f i j \<le> n \<and> (\<forall>k < search_loop f i j. \<not> f k)
     \<and> (\<forall>k. search_loop f i j \<le> k \<and> k < n \<longrightarrow> f k)"
  using assms
proof (induction f i j rule: search_loop.induct)
  case (1 f i j)
  show ?case
  proof (cases "i < j")
    case False
    then have "search_loop f i j = i" by (simp add: search_loop.simps [of f i j])
    with False "1.prems" show ?thesis by auto
  next
    case True
    define h where "h = (i + j) div 2"
    have h: "i \<le> h" "h < j" using True by (auto simp: h_def)
    show ?thesis
    proof (cases "f h")
      case True
      have "search_loop f i j = search_loop f i h"
        using \<open>i < j\<close> True by (simp add: search_loop.simps [of f i j] h_def Let_def)
      moreover have "search_loop f i h \<le> n \<and> (\<forall>k < search_loop f i h. \<not> f k)
          \<and> (\<forall>k. search_loop f i h \<le> k \<and> k < n \<longrightarrow> f k)"
      proof (rule "1.IH"(2) [OF \<open>i < j\<close> h_def])
        show "\<not> \<not> f h" using True by simp
        show "\<And>k. h \<le> k \<Longrightarrow> k < n \<Longrightarrow> f k" using True "1.prems"(2) by blast
      qed (use "1.prems" h in auto)
      ultimately show ?thesis by simp
    next
      case False
      have "search_loop f i j = search_loop f (h + 1) j"
        using \<open>i < j\<close> False by (simp add: search_loop.simps [of f i j] h_def Let_def)
      moreover have "search_loop f (h + 1) j \<le> n \<and> (\<forall>k < search_loop f (h + 1) j. \<not> f k)
          \<and> (\<forall>k. search_loop f (h + 1) j \<le> k \<and> k < n \<longrightarrow> f k)"
      proof (rule "1.IH"(1) [OF \<open>i < j\<close> h_def False])
        show "h + 1 \<le> j" using h by simp
        show "\<And>k. k < h + 1 \<Longrightarrow> \<not> f k"
          using False "1.prems"(2,3) h by (metis Suc_eq_plus1 less_Suc_eq_le order_less_le_trans)
      qed (use "1.prems" in auto)
      ultimately show ?thesis by simp
    qed
  qed
qed

text \<open>For a predicate that stays true once true, the search returns its least index.\<close>

lemma sort_search_least:
  assumes "\<forall>a b. a \<le> b \<longrightarrow> b < n \<longrightarrow> f a \<longrightarrow> f b"
  shows "sort_search n f \<le> n"
    and "k < sort_search n f \<Longrightarrow> \<not> f k"
    and "sort_search n f \<le> k \<Longrightarrow> k < n \<Longrightarrow> f k"
  using search_loop_correct [of 0 n n f] assms by (auto simp: sort_search_def)

lemma sort_search_le: "sort_search n f \<le> n"
proof -
  have "i \<le> j \<Longrightarrow> search_loop f i j \<le> j" for i j
  proof (induction f i j rule: search_loop.induct)
    case (1 f i j)
    then show ?case by (subst search_loop.simps) (force simp: Let_def)
  qed
  then show ?thesis by (simp add: sort_search_def)
qed

text \<open>On a list the search finds the length of the prefix where the predicate fails.\<close>

lemma sort_search_takeWhile:
  assumes "\<And>a b. a \<le> b \<Longrightarrow> b < length xs \<Longrightarrow> P (xs ! a) \<Longrightarrow> P (xs ! b)"
  shows "sort_search (length xs) (\<lambda>i. P (xs ! i)) = length (takeWhile (\<lambda>x. \<not> P x) xs)"
proof -
  let ?r = "sort_search (length xs) (\<lambda>i. P (xs ! i))"
  have "\<forall>a b. a \<le> b \<longrightarrow> b < length xs \<longrightarrow> P (xs ! a) \<longrightarrow> P (xs ! b)" using assms by blast
  note least = sort_search_least [where n = "length xs" and f = "\<lambda>i. P (xs ! i)", OF this]
  have "takeWhile (\<lambda>x. \<not> P x) xs = take ?r xs"
  proof (rule takeWhile_eq_take_P_nth)
    show "\<And>i. i < ?r \<Longrightarrow> i < length xs \<Longrightarrow> \<not> P (xs ! i)" by (rule least(2))
    show "?r < length xs \<Longrightarrow> \<not> \<not> P (xs ! ?r)" using least(3) [OF order_refl] by blast
  qed
  then show ?thesis using sort_search_le by (simp add: min_absorb2)
qed

lemma sorted_nth_mono_key:
  "sorted (map key xs) \<Longrightarrow> i \<le> j \<Longrightarrow> j < length xs \<Longrightarrow> key (xs ! i) \<le> key (xs ! j)"
  using sorted_nth_mono [of "map key xs" i j] by simp

lemma filter_between_sorted:
  "sorted (map key xs) \<Longrightarrow>
   filter (\<lambda>x. a \<le> key x \<and> key x \<le> b) xs = takeWhile (\<lambda>x. key x \<le> b) (dropWhile (\<lambda>x. key x < a) xs)"
proof (induction xs)
  case (Cons x xs)
  show ?case
  proof (cases "key x < a")
    case True
    with Cons show ?thesis by auto
  next
    case False
    have ge: "\<forall>y \<in> set xs. key x \<le> key y" using Cons.prems by simp
    then have dw: "dropWhile (\<lambda>x. key x < a) xs = xs"
      using False by (cases xs) auto
    show ?thesis
    proof (cases "key x \<le> b")
      case True
      with False Cons dw show ?thesis by auto
    next
      case n: False
      with ge have "filter (\<lambda>x. a \<le> key x \<and> key x \<le> b) xs = []" by (auto simp: filter_empty_conv)
      with False n show ?thesis by simp
    qed
  qed
qed simp

lemma takeWhile_append_dropWhile_mono:
  assumes "\<And>x. P x \<Longrightarrow> Q x"
  shows "takeWhile Q xs = takeWhile P xs @ takeWhile Q (dropWhile P xs)"
  using assms by (induction xs) auto

end
