(* ===== verification/Go_Float.thy ===== *)
theory Go_Float
  imports Complex_Main Prelude
begin

section \<open>Go's float64\<close>

text \<open>
  IEEE 754 binary64 as the code uses it: a value is NaN, an infinity or a rational
  number, and every operation computes exactly and then rounds to the nearest
  representable value, ties to even (\<open>f64_round\<close>). The two zeros are one value: the
  code compares, adds, subtracts, averages and divides by values it has checked to be
  nonzero, and none of these tells them apart. Comparisons with NaN are false.

  \<open>f64_round_exact\<close> and \<open>f64_round_error\<close> are the two facts the components use: a
  representable value is kept, and the error is at most half a unit in the last place.
\<close>

datatype f64 = NaN | PInf | NInf | Fin rat

subsection \<open>Rounding\<close>

definition pow2 :: "int \<Rightarrow> rat" where
  "pow2 e = (if 0 \<le> e then 2 ^ nat e else 1 / 2 ^ nat (- e))"

fun bitlen :: "nat \<Rightarrow> nat" where
  "bitlen n = (if n = 0 then 0 else Suc (bitlen (n div 2)))"

declare bitlen.simps [simp del]

text \<open>The exponent of a positive rational: \<open>2 ^ ilog2 x \<le> x < 2 ^ (ilog2 x + 1)\<close>.\<close>

definition ilog2 :: "rat \<Rightarrow> int" where
  "ilog2 x = (let (p, q) = quotient_of x;
                  k = int (bitlen (nat p)) - int (bitlen (nat q))
              in if pow2 k \<le> x then k else k - 1)"

text \<open>Round to the nearest integer, ties to even.\<close>

definition rhe :: "rat \<Rightarrow> int" where
  "rhe q = (let f = \<lfloor>q\<rfloor>; d = q - of_int f in
            if d < 1 / 2 then f else if 1 / 2 < d then f + 1
            else if even f then f else f + 1)"

definition ulp_exp :: "rat \<Rightarrow> int" where
  "ulp_exp x = max (ilog2 \<bar>x\<bar> - 52) (- 1074)"

definition f64_round :: "rat \<Rightarrow> f64" where
  "f64_round x =
     (if x = 0 then Fin 0
      else let e = ulp_exp x; y = of_int (rhe (x / pow2 e)) * pow2 e in
           if pow2 1024 \<le> y then PInf else if y \<le> - pow2 1024 then NInf else Fin y)"

subsection \<open>Operations\<close>

definition f64_of_int :: "int \<Rightarrow> f64" where
  "f64_of_int n = f64_round (of_int n)"

fun f64_neg :: "f64 \<Rightarrow> f64" where
  "f64_neg NaN = NaN"
| "f64_neg PInf = NInf"
| "f64_neg NInf = PInf"
| "f64_neg (Fin x) = Fin (- x)"

fun f64_add :: "f64 \<Rightarrow> f64 \<Rightarrow> f64" where
  "f64_add (Fin x) (Fin y) = f64_round (x + y)"
| "f64_add NaN b = NaN"
| "f64_add a NaN = NaN"
| "f64_add PInf NInf = NaN"
| "f64_add NInf PInf = NaN"
| "f64_add PInf b = PInf"
| "f64_add NInf b = NInf"
| "f64_add a PInf = PInf"
| "f64_add a NInf = NInf"

definition f64_sub :: "f64 \<Rightarrow> f64 \<Rightarrow> f64" where
  "f64_sub a b = f64_add a (f64_neg b)"

definition f64_sign :: "f64 \<Rightarrow> int" where
  "f64_sign a = (case a of NaN \<Rightarrow> 0 | PInf \<Rightarrow> 1 | NInf \<Rightarrow> -1
     | Fin x \<Rightarrow> if 0 < x then 1 else if x < 0 then -1 else 0)"

definition f64_signed_inf :: "int \<Rightarrow> f64" where
  "f64_signed_inf s = (if 0 < s then PInf else if s < 0 then NInf else NaN)"

fun f64_mul :: "f64 \<Rightarrow> f64 \<Rightarrow> f64" where
  "f64_mul (Fin x) (Fin y) = f64_round (x * y)"
| "f64_mul a b = (if a = NaN \<or> b = NaN then NaN else f64_signed_inf (f64_sign a * f64_sign b))"

fun f64_div :: "f64 \<Rightarrow> f64 \<Rightarrow> f64" where
  "f64_div (Fin x) (Fin y) =
     (if y = 0 then f64_signed_inf (f64_sign (Fin x)) else f64_round (x / y))"
| "f64_div NaN b = NaN"
| "f64_div a NaN = NaN"
| "f64_div (Fin x) b = Fin 0"
| "f64_div a (Fin y) = f64_signed_inf (f64_sign a * (if y < 0 then -1 else 1))"
| "f64_div a b = NaN"

fun f64_lt :: "f64 \<Rightarrow> f64 \<Rightarrow> bool" where
  "f64_lt (Fin x) (Fin y) = (x < y)"
| "f64_lt NInf (Fin y) = True"
| "f64_lt NInf PInf = True"
| "f64_lt (Fin x) PInf = True"
| "f64_lt a b = False"

definition f64_eq :: "f64 \<Rightarrow> f64 \<Rightarrow> bool" where
  "f64_eq a b = (a = b \<and> a \<noteq> NaN)"

definition f64_le :: "f64 \<Rightarrow> f64 \<Rightarrow> bool" where
  "f64_le a b = (f64_lt a b \<or> f64_eq a b)"

definition f64_ne :: "f64 \<Rightarrow> f64 \<Rightarrow> bool" where
  "f64_ne a b = (\<not> f64_eq a b)"

definition f64_abs :: "f64 \<Rightarrow> f64" where
  "f64_abs a = (case a of Fin x \<Rightarrow> Fin \<bar>x\<bar> | NInf \<Rightarrow> PInf | b \<Rightarrow> b)"

text \<open>The builtin \<open>max\<close>: NaN if an argument is NaN.\<close>

definition f64_max :: "f64 \<Rightarrow> f64 \<Rightarrow> f64" where
  "f64_max a b = (if a = NaN \<or> b = NaN then NaN else if f64_lt a b then b else a)"

definition isNaN :: "f64 \<Rightarrow> bool" where "isNaN a = (a = NaN)"
definition isInf :: "f64 \<Rightarrow> bool" where "isInf a = (a = PInf \<or> a = NInf)"

text \<open>
  \<open>int(f)\<close> truncates towards zero. Outside the range of the integer type Go leaves the
  result to the platform; the model takes the value the amd64 instruction gives.
\<close>

definition trunc_rat :: "rat \<Rightarrow> int" where
  "trunc_rat x = (if 0 \<le> x then \<lfloor>x\<rfloor> else - \<lfloor>- x\<rfloor>)"

definition f64_to_bounded :: "int \<Rightarrow> int \<Rightarrow> f64 \<Rightarrow> int" where
  "f64_to_bounded lo hi a = (case a of
     Fin x \<Rightarrow> let n = trunc_rat x in if lo \<le> n \<and> n \<le> hi then n else lo
   | _ \<Rightarrow> lo)"

definition f64_to_int :: "f64 \<Rightarrow> int" where
  "f64_to_int = f64_to_bounded minInt64 maxInt64"

definition f64_to_int32 :: "f64 \<Rightarrow> int" where
  "f64_to_int32 = f64_to_bounded (-2147483648) 2147483647"

lemmas f64_defs [go_defs] = f64_sub_def f64_le_def f64_eq_def f64_ne_def f64_max_def
  isNaN_def isInf_def f64_abs_def

subsection \<open>Rounding facts\<close>

lemma pow2_pos [simp]: "0 < pow2 e"
  by (simp add: pow2_def)

lemma pow2_nz [simp]: "pow2 e \<noteq> 0"
  using pow2_pos [of e] by (rule less_imp_neq [THEN not_sym])

lemma abs_pow2 [simp]: "\<bar>pow2 e\<bar> = pow2 e"
  by (simp add: less_imp_le)

lemma pow2_eq: "pow2 e = 2 powi e"
  by (auto simp: pow2_def power_int_def field_simps)

lemma pow2_add: "pow2 (a + b) = pow2 a * pow2 b"
  by (simp add: pow2_eq power_int_add)

lemma pow2_nat: "pow2 (int n) = 2 ^ n"
  by (simp add: pow2_def)

lemma pow2_mono: "a \<le> b \<Longrightarrow> pow2 a \<le> pow2 b"
  by (simp add: pow2_eq power_int_increasing)

lemma pow2_less_iff: "pow2 a < pow2 b \<longleftrightarrow> a < b"
  using pow2_mono [of b a] by (metis linorder_not_le order_less_imp_le order_less_le pow2_eq power_int_strict_increasing one_less_numeral_iff semiring_norm(76))

lemma bitlen_bounds: "0 < n \<Longrightarrow> 2 ^ (bitlen n - 1) \<le> n \<and> n < 2 ^ bitlen n \<and> 0 < bitlen n"
proof (induction n rule: bitlen.induct)
  case (1 n)
  show ?case
  proof (cases "n div 2 = 0")
    case True
    with "1.prems" have "n = 1" by simp
    then show ?thesis by (simp add: bitlen.simps [of "Suc 0"] bitlen.simps [of 0])
  next
    case False
    with "1" have IH: "2 ^ (bitlen (n div 2) - 1) \<le> n div 2" "n div 2 < 2 ^ bitlen (n div 2)"
      "0 < bitlen (n div 2)" by auto
    have b: "bitlen n = Suc (bitlen (n div 2))" using "1.prems" by (simp add: bitlen.simps [of n])
    have "2 * 2 ^ (bitlen (n div 2) - 1) = (2 :: nat) ^ bitlen (n div 2)"
      using IH(3) by (metis Suc_diff_1 power_Suc)
    with IH(1,2) have "2 ^ bitlen (n div 2) \<le> n" "n < 2 * 2 ^ bitlen (n div 2)" by linarith+
    with b show ?thesis by simp
  qed
qed

lemma ilog2_bounds:
  assumes "0 < x"
  shows "pow2 (ilog2 x) \<le> x" and "x < pow2 (ilog2 x + 1)"
proof -
  obtain p q where pq: "quotient_of x = (p, q)" by (cases "quotient_of x")
  have q: "0 < q" using quotient_of_denom_pos [OF pq] .
  have x: "x = of_int p / of_int q" using quotient_of_div [OF pq] .
  with assms q have p: "0 < p" by (simp add: zero_less_divide_iff)
  define a b where "a = bitlen (nat p)" and "b = bitlen (nat q)"
  have pa: "2 ^ (a - 1) \<le> nat p" "nat p < 2 ^ a" "0 < a"
    using bitlen_bounds [of "nat p"] p by (auto simp: a_def)
  have qb: "2 ^ (b - 1) \<le> nat q" "nat q < 2 ^ b" "0 < b"
    using bitlen_bounds [of "nat q"] q by (auto simp: b_def)
  have P: "pow2 (int a - 1) \<le> of_int p" "of_int p < pow2 (int a)"
    using pa p pow2_nat [of "a - 1"] pow2_nat [of a]
    by (simp_all add: of_nat_diff of_int_less_iff of_nat_less_iff flip: of_nat_nat)
  have Q: "pow2 (int b - 1) \<le> of_int q" "of_int q < pow2 (int b)"
    using qb q pow2_nat [of "b - 1"] pow2_nat [of b]
    by (simp_all add: of_nat_diff of_int_less_iff of_nat_less_iff flip: of_nat_nat)
  have up: "x < pow2 (int a - int b + 1)"
  proof -
    have "x < pow2 (int a) / of_int q" using P(2) q by (simp add: x divide_strict_right_mono)
    also have "\<dots> \<le> pow2 (int a) / pow2 (int b - 1)"
      using Q(1) q by (intro divide_left_mono) (auto simp: less_imp_le)
    also have "\<dots> = pow2 (int a - int b + 1)"
      using pow2_add [of "int a - int b + 1" "int b - 1"] by (simp add: field_simps)
    finally show ?thesis .
  qed
  have lo: "pow2 (int a - int b - 1) \<le> x"
  proof -
    have "pow2 (int a - int b - 1) = pow2 (int a - 1) / pow2 (int b)"
      using pow2_add [of "int a - int b - 1" "int b"] by (simp add: field_simps)
    also have "\<dots> \<le> pow2 (int a - 1) / of_int q"
      using Q(2) q by (intro divide_left_mono) (auto simp: less_imp_le)
    also have "\<dots> \<le> x" using P(1) q by (simp add: x divide_right_mono)
    finally show ?thesis .
  qed
  have il: "ilog2 x = (if pow2 (int a - int b) \<le> x then int a - int b else int a - int b - 1)"
    by (simp add: ilog2_def pq a_def b_def Let_def)
  from il lo show "pow2 (ilog2 x) \<le> x" by auto
  from il up show "x < pow2 (ilog2 x + 1)" by auto
qed

lemma ilog2_less: "0 < x \<Longrightarrow> x < pow2 e \<Longrightarrow> ilog2 x < e"
  using ilog2_bounds(1) [of x] by (metis order_le_less_trans pow2_less_iff)

lemma rhe_of_int [simp]: "rhe (of_int n) = n"
  by (simp add: rhe_def)

lemma rhe_error: "\<bar>of_int (rhe q) - q\<bar> \<le> 1 / 2"
  using floor_correct [of q] by (auto simp: rhe_def Let_def)

text \<open>A value with a 53-bit significand and an exponent in range is its own rounding.\<close>

lemma f64_round_exact:
  assumes "x = of_int m * pow2 e" and "\<bar>m\<bar> < 2 ^ 53" and "- 1074 \<le> e" and "e \<le> 971"
  shows "f64_round x = Fin x"
proof (cases "x = 0")
  case False
  have m: "\<bar>of_int m :: rat\<bar> < pow2 53"
    using assms(2) pow2_nat [of 53] by (metis of_int_abs of_int_less_iff of_int_numeral of_int_power of_nat_numeral)
  have ax: "\<bar>x\<bar> < pow2 (53 + e)"
    using m assms(1) by (simp add: abs_mult pow2_add)
  then have "ilog2 \<bar>x\<bar> < 53 + e" using False by (intro ilog2_less) auto
  then have le: "ulp_exp x \<le> e" using assms(3) by (simp add: ulp_exp_def)
  define k where "k = nat (e - ulp_exp x)"
  have "pow2 e = pow2 (ulp_exp x) * 2 ^ k"
    using le pow2_add [of "ulp_exp x" "e - ulp_exp x"] pow2_nat [of k] by (simp add: k_def)
  with assms(1) have "x = of_int (m * 2 ^ k) * pow2 (ulp_exp x)"
    by (metis mult.assoc mult.commute of_int_mult of_int_numeral of_int_power)
  then have "x / pow2 (ulp_exp x) = of_int (m * 2 ^ k)" by (metis nonzero_divide_eq_eq pow2_nz)
  then have y: "of_int (rhe (x / pow2 (ulp_exp x))) * pow2 (ulp_exp x) = x"
    by (metis nonzero_divide_eq_eq pow2_nz rhe_of_int)
  have "\<bar>x\<bar> < pow2 1024"
    using ax assms(4) pow2_mono [of "53 + e" 1024] by linarith
  then show ?thesis using False y by (auto simp: f64_round_def Let_def)
qed (simp add: f64_round_def)

lemma f64_of_int_exact: "\<bar>n\<bar> < 2 ^ 53 \<Longrightarrow> f64_of_int n = Fin (of_int n)"
  unfolding f64_of_int_def by (rule f64_round_exact [where m = n and e = 0]) (auto simp: pow2_def)

text \<open>Evaluation on small integers.\<close>

lemma f64_round_numeral:
  "numeral n < (2 ^ 53 :: int) \<Longrightarrow> f64_round (numeral n) = Fin (numeral n)"
  "numeral n < (2 ^ 53 :: int) \<Longrightarrow> f64_round (- numeral n) = Fin (- numeral n)"
  "f64_round 1 = Fin 1" "f64_round (- 1) = Fin (- 1)" "f64_round 0 = Fin 0"
  using f64_of_int_exact [of "numeral n"] f64_of_int_exact [of "- numeral n"]
    f64_of_int_exact [of 1] f64_of_int_exact [of "- 1"] f64_of_int_exact [of 0]
  by (simp_all add: f64_of_int_def)

lemmas f64_eval = f64_round_numeral f64_of_int_exact f64_sub_def f64_le_def f64_eq_def f64_abs_def

text \<open>The rounding error is at most half a unit in the last place.\<close>

lemma f64_round_error:
  assumes "0 < x" and "x < pow2 k" and "- 1021 \<le> k" and "k \<le> 1023"
  obtains y where "f64_round x = Fin y" and "\<bar>y - x\<bar> \<le> pow2 (k - 54)"
proof -
  define e y where "e = ulp_exp x" and "y = of_int (rhe (x / pow2 e)) * pow2 e"
  have "ilog2 \<bar>x\<bar> < k" using assms(1,2) by (simp add: ilog2_less)
  then have e: "e \<le> k - 53" using assms(3) by (simp add: e_def ulp_exp_def)
  have "y - x = (of_int (rhe (x / pow2 e)) - x / pow2 e) * pow2 e"
    by (simp add: y_def field_simps)
  then have "\<bar>y - x\<bar> \<le> 1 / 2 * pow2 e"
    using mult_right_mono [OF rhe_error [of "x / pow2 e"], of "pow2 e"]
    by (simp add: abs_mult less_imp_le)
  also have "\<dots> \<le> 1 / 2 * pow2 (k - 53)" using pow2_mono [OF e] by simp
  also have "\<dots> = pow2 (k - 54)" using pow2_add [of "k - 54" 1] by (simp add: pow2_def [of 1])
  finally have err: "\<bar>y - x\<bar> \<le> pow2 (k - 54)" .
  have "pow2 (k - 54) \<le> pow2 k" "pow2 k + pow2 k \<le> pow2 1024" "pow2 (k - 54) < pow2 1024"
    using pow2_mono [of "k - 54" k] pow2_add [of k 1] pow2_mono [of "k + 1" 1024] assms(4)
    by (simp_all add: pow2_def [of 1] pow2_less_iff)
  then have "y < pow2 1024" "- pow2 1024 < y" using err assms(1,2) by linarith+
  then have "f64_round x = Fin y" using assms(1) by (auto simp: f64_round_def Let_def y_def e_def)
  with err that show thesis by blast
qed

subsection \<open>Rounding keeps lower bounds\<close>

text \<open>Rounding is monotone against a positive representable value.\<close>

definition f64_at_least :: "rat \<Rightarrow> f64 \<Rightarrow> bool" where
  "f64_at_least c a = (case a of PInf \<Rightarrow> True | Fin x \<Rightarrow> c \<le> x | _ \<Rightarrow> False)"

lemma rhe_ge: "of_int n \<le> q \<Longrightarrow> n \<le> rhe q"
  using rhe_error [of q] floor_mono [of "of_int n" q] by (auto simp: rhe_def Let_def)

lemma f64_round_ge:
  assumes c: "c = of_int m * pow2 e" "\<bar>m\<bar> < 2 ^ 53" "- 1074 \<le> e" "0 < c" and x: "c \<le> x"
  shows "f64_at_least c (f64_round x)"
proof -
  define u y where "u = ulp_exp x" and "y = of_int (rhe (x / pow2 u)) * pow2 u"
  have pos: "0 < x" using c(4) x by linarith
  have "c \<le> y"
  proof (cases "u \<le> e")
    case True
    define k where "k = nat (e - u)"
    have "pow2 e = 2 ^ k * pow2 u" using True pow2_add [of "e - u" u] pow2_nat [of k] by (simp add: k_def)
    then have c2: "c = of_int (m * 2 ^ k) * pow2 u" by (simp add: c(1))
    then have "of_int (m * 2 ^ k) \<le> x / pow2 u" using x by (simp add: le_divide_eq)
    then have "m * 2 ^ k \<le> rhe (x / pow2 u)" by (rule rhe_ge)
    then have "(of_int (m * 2 ^ k) :: rat) \<le> of_int (rhe (x / pow2 u))" by (simp only: of_int_le_iff)
    then show ?thesis unfolding c2 y_def by (rule mult_right_mono) (simp add: less_imp_le)
  next
    case False
    then have u: "u = ilog2 x - 52" using pos c(3) by (simp add: u_def ulp_exp_def)
    have "(of_int (2 ^ 52) :: rat) * pow2 u = pow2 (ilog2 x)"
      using pow2_add [of 52 u] pow2_nat [of 52] by (simp add: u)
    then have "of_int (2 ^ 52) \<le> x / pow2 u" using ilog2_bounds(1) [OF pos] by (simp add: le_divide_eq)
    then have "2 ^ 52 \<le> rhe (x / pow2 u)" by (rule rhe_ge)
    then have "(of_int (2 ^ 52) :: rat) \<le> of_int (rhe (x / pow2 u))" by (simp only: of_int_le_iff)
    then have "of_int (2 ^ 52) * pow2 u \<le> y" unfolding y_def by (rule mult_right_mono) (simp add: less_imp_le)
    then have yb: "pow2 (52 + u) \<le> y" using pow2_add [of 52 u] pow2_nat [of 52] by simp
    have "(of_int m :: rat) < pow2 53"
      using c(2) pow2_nat [of 53] by (metis abs_less_iff of_int_less_iff of_int_numeral of_int_power of_nat_numeral)
    then have "c < pow2 (53 + e)" by (simp add: c(1) pow2_add)
    also have "\<dots> \<le> pow2 (52 + u)" using False by (intro pow2_mono) simp
    finally show ?thesis using yb by linarith
  qed
  moreover have "0 < y" using \<open>c \<le> y\<close> c(4) by linarith
  ultimately show ?thesis
    using pos less_trans [OF _ pow2_pos [of 1024], of "- pow2 1024"]
    by (auto simp: f64_at_least_def f64_round_def Let_def u_def y_def not_le)
qed

lemma f64_at_least_add:
  assumes "f64_at_least a x" "f64_at_least b y" and "a + b = of_int m * pow2 e" "\<bar>m\<bar> < 2 ^ 53"
    "- 1074 \<le> e" "0 < a + b"
  shows "f64_at_least (a + b) (f64_add x y)"
  using assms(1,2) f64_round_ge [OF assms(3-6)]
  by (cases x; cases y) (auto simp: f64_at_least_def)

lemma f64_at_least_mono: "f64_at_least a x \<Longrightarrow> b \<le> a \<Longrightarrow> f64_at_least b x"
  by (auto simp: f64_at_least_def split: f64.splits)

lemma f64_at_least_of_int:
  assumes "m \<le> n" "0 < m" "m < 2 ^ 53"
  shows "f64_at_least (of_int m) (f64_of_int n)"
  unfolding f64_of_int_def
  by (rule f64_round_ge [where m = m and e = 0]) (use assms in \<open>auto simp: pow2_def\<close>)

end
