(* ===== verification/Go_Time.thy ===== *)
theory Go_Time
  imports Go_Float
begin

section \<open>Go's time.Time and time.Duration\<close>

text \<open>
  An instant is the number of nanoseconds since Go's zero time (January 1 of year 1,
  UTC), so that \<open>IsZero\<close> is equality with 0 and \<open>Truncate\<close>, which Go defines on the
  absolute duration since the zero time, is subtraction of the remainder. Monotonic
  clock readings and locations do not change \<open>Before\<close>, \<open>After\<close>, \<open>Equal\<close> or \<open>Sub\<close>
  on the instants the code compares. A duration is an \<open>int64\<close> number of nanoseconds;
  \<open>Sub\<close> saturates at its bounds, and multiplying a count by a unit wraps.
\<close>

type_synonym time = int
type_synonym duration = int

definition nanosecond :: duration where "nanosecond = 1"
definition microsecond :: duration where "microsecond = 1000"
definition millisecond :: duration where "millisecond = 1000000"
definition second :: duration where "second = 1000000000"
definition minute :: duration where "minute = 60000000000"
definition hour :: duration where "hour = 3600000000000"

text \<open>\<open>time.Unix(0, 0)\<close>.\<close>

definition unixEpoch :: time where "unixEpoch = 62135596800 * 1000000000"

definition zeroTime :: time where "zeroTime = 0"

definition IsZero :: "time \<Rightarrow> bool" where "IsZero t = (t = 0)"
definition Before :: "time \<Rightarrow> time \<Rightarrow> bool" where "Before a b = (a < b)"
definition After :: "time \<Rightarrow> time \<Rightarrow> bool" where "After a b = (b < a)"
definition Equal :: "time \<Rightarrow> time \<Rightarrow> bool" where "Equal a b = (a = b)"
definition Add :: "time \<Rightarrow> duration \<Rightarrow> time" where "Add t d = t + d"
definition Sub :: "time \<Rightarrow> time \<Rightarrow> duration" where "Sub a b = sat64 (a - b)"
definition Truncate :: "time \<Rightarrow> duration \<Rightarrow> time" where
  "Truncate t d = (if d \<le> 0 then t else t - t mod d)"

text \<open>\<open>time.Duration(n) * unit\<close> on int64.\<close>

definition dur_of :: "int \<Rightarrow> duration \<Rightarrow> duration" where
  "dur_of n u = wrap64 (n * u)"

text \<open>\<open>d.Seconds()\<close>: whole seconds plus the remaining nanoseconds over 1e9, in float64.\<close>

definition Seconds :: "duration \<Rightarrow> f64" where
  "Seconds d = f64_add (f64_of_int (quot d second))
                       (f64_div (f64_of_int (rem d second)) (f64_of_int second))"

definition Microseconds :: "duration \<Rightarrow> int" where
  "Microseconds d = quot d microsecond"

text \<open>The two conversions the code writes: \<open>int(d.Seconds())\<close> and \<open>int32(d.Seconds())\<close>.\<close>

definition int_seconds :: "duration \<Rightarrow> int" where
  "int_seconds d = f64_to_int (Seconds d)"

definition int32_seconds :: "duration \<Rightarrow> int" where
  "int32_seconds d = f64_to_int32 (Seconds d)"

lemmas time_defs [go_defs] = IsZero_def Before_def After_def Equal_def Add_def

lemmas unit_defs = nanosecond_def microsecond_def millisecond_def second_def minute_def hour_def

lemma Sub_nonneg_iff [simp]: "0 \<le> Sub a b \<longleftrightarrow> b \<le> a"
  by (simp add: Sub_def)

lemma Sub_pos_iff [simp]: "0 < Sub a b \<longleftrightarrow> b < a"
  by (simp add: Sub_def)

lemma Sub_eq: "minInt64 \<le> a - b \<Longrightarrow> a - b \<le> maxInt64 \<Longrightarrow> Sub a b = a - b"
  by (simp add: Sub_def sat64_id)

lemma Sub_le_iff: "minInt64 \<le> d \<Longrightarrow> d < maxInt64 \<Longrightarrow> Sub a b \<le> d \<longleftrightarrow> a - b \<le> d"
  by (simp add: Sub_def sat64_le_iff)

lemma Sub_mono: "a \<le> a' \<Longrightarrow> b' \<le> b \<Longrightarrow> Sub a b \<le> Sub a' b'"
  by (simp add: Sub_def sat64_mono)

lemma dur_of_second: "\<bar>n\<bar> \<le> 9000000000 \<Longrightarrow> dur_of n second = n * second"
  unfolding dur_of_def second_def by (rule wrap64_id) (auto simp: minInt64_def maxInt64_def)

lemma Truncate_le: "0 < d \<Longrightarrow> 0 \<le> t mod d \<and> Truncate t d \<le> t \<and> t < Truncate t d + d"
  by (auto simp: Truncate_def)

text \<open>
  The conversion of a duration to whole seconds goes through float64. For a duration
  of less than \<open>2 ^ 23\<close> seconds (about 97 days) the detour is exact: the result is the
  number of whole seconds. Segment queries span at most 32 days and a seed 30 days back.
\<close>

definition exact_span :: int where "exact_span = 8388608 * 1000000000"

lemma fraction_of_second:
  assumes "0 \<le> r" "r < 1000000000"
  obtains f where "f64_div (f64_of_int r) (f64_of_int second) = Fin f"
    and "\<bar>f - of_int r / 1000000000\<bar> \<le> pow2 (- 54)" and "r = 0 \<Longrightarrow> f = 0"
proof (cases "r = 0")
  case True
  then show thesis using that [of 0] f64_of_int_exact [of r] f64_of_int_exact [of second]
    by (simp add: second_def f64_round_def less_imp_le)
next
  case False
  let ?x = "of_int r / 1000000000 :: rat"
  have x: "0 < ?x" "?x < pow2 0" using assms False by (auto simp: pow2_def)
  obtain f where f: "f64_round ?x = Fin f" "\<bar>f - ?x\<bar> \<le> pow2 (0 - 54)"
    using f64_round_error [OF x] by auto
  have "f64_div (f64_of_int r) (f64_of_int second) = Fin f"
    using f(1) assms f64_of_int_exact [of r] f64_of_int_exact [of second] by (simp add: second_def)
  with f(2) False that show thesis by simp
qed

lemma Seconds_whole:
  assumes "0 \<le> d" "d < exact_span"
  obtains g where "Seconds d = Fin g" "of_int (d div second) \<le> g" "g < of_int (d div second) + 1"
proof -
  define s r where "s = d div second" and "r = d mod second"
  have s: "0 \<le> s" "s < 8388608" and r: "0 \<le> r" "r < 1000000000"
    using assms by (auto simp: s_def r_def second_def exact_span_def)
  obtain f where f: "f64_div (f64_of_int r) (f64_of_int second) = Fin f"
    "\<bar>f - of_int r / 1000000000\<bar> \<le> pow2 (- 54)" "r = 0 \<Longrightarrow> f = 0"
    using fraction_of_second [OF r] by blast
  have sec: "Seconds d = f64_round (of_int s + f)"
    using f(1) s f64_of_int_exact [of s] assms(1)
    by (simp add: Seconds_def quot_nonneg rem_nonneg s_def r_def second_def)
  show thesis
  proof (cases "r = 0")
    case True
    then have "Seconds d = Fin (of_int s)"
      using f(3) s sec f64_of_int_exact [of s] by (simp add: f64_of_int_def)
    then show thesis using that [of "of_int s"] by (simp add: s_def)
  next
    case False
    have p54: "pow2 (- 54) = 1 / 18014398509481984" "pow2 (- 31) = 1 / 2147483648"
      "pow2 23 = 8388608" by (simp_all add: pow2_def)
    have rr: "(1 :: rat) \<le> of_int r" "of_int r \<le> (999999999 :: rat)"
      using False r by (simp_all add: of_int_le_iff [of _ 999999999, simplified])
    have ss: "(0 :: rat) \<le> of_int s" "of_int s \<le> (8388607 :: rat)"
      using s by (simp_all add: of_int_le_iff [of _ 8388607, simplified])
    have fb: "f - of_int r / 1000000000 \<le> 1 / 18014398509481984"
      "- (f - of_int r / 1000000000) \<le> 1 / 18014398509481984"
      using f(2) unfolding p54 by linarith+
    have x: "0 < of_int s + f" "of_int s + f < pow2 23"
      using fb rr ss unfolding p54 by linarith+
    obtain g where g: "f64_round (of_int s + f) = Fin g" "\<bar>g - (of_int s + f)\<bar> \<le> pow2 (23 - 54)"
      using f64_round_error [OF x] by auto
    have "pow2 (23 - 54) = 1 / 2147483648" using p54 by simp
    then have "of_int s \<le> g" "g < of_int s + 1"
      using g(2) fb rr by linarith+
    with g(1) sec show thesis using that by (simp add: s_def)
  qed
qed

lemma int_seconds_exact:
  assumes "0 \<le> d" "d < exact_span"
  shows "int_seconds d = d div second" and "int32_seconds d = d div second"
proof -
  obtain g where g: "Seconds d = Fin g" "of_int (d div second) \<le> g" "g < of_int (d div second) + 1"
    using Seconds_whole [OF assms] by blast
  have "0 \<le> d div second" "d div second < 8388608"
    using assms by (auto simp: second_def exact_span_def)
  moreover from this g have "trunc_rat g = d div second"
    by (simp add: trunc_rat_def floor_unique)
  ultimately show "int_seconds d = d div second" "int32_seconds d = d div second"
    using g(1) by (simp_all add: int_seconds_def int32_seconds_def f64_to_int_def f64_to_int32_def
      f64_to_bounded_def minInt64_def maxInt64_def)
qed

end
