(* ===== verification/Latest_Kv.thy ===== *)
theory Latest_Kv
  imports Go_Time
begin

section \<open>The latest-value entry and its fold (internal/latestkv/latestkv.go)\<close>

text \<open>
  One entry per subject holds the latest reading of every signal name. A reading has a
  value part and, for a nonzero fix, a location part; the two advance independently under
  the order (timestamp descending, cloud event id ascending).

  The locale \<open>lww_register\<close> is the theory of one last-write-wins register over a strict
  total order; it is interpreted for the value part and for the location part, and
  \<open>foldRows\<close> is shown to be the two registers of each name side by side. Shown here:
  folding is idempotent under redelivery, its result does not depend on the order or the
  multiplicity of the readings, and a (0,0) reading never disturbs a stored fix.
\<close>

definition EntryVersion :: int where "EntryVersion = 1"

record row =
  RSubject :: string
  RName :: string
  RTimestamp :: time
  RCloudEventID :: string
  RValueNumber :: f64
  RValueString :: string
  RLocLat :: f64
  RLocLon :: f64
  RLocHDOP :: f64
  RLocHeading :: f64

record locValue =
  LvTS :: time
  LvCEID :: string
  LvLat :: f64
  LvLon :: f64
  LvHDOP :: f64
  LvHeading :: f64

record signalValue =
  SvTS :: time
  SvCEID :: string
  SvNum :: f64
  SvStr :: string
  SvLoc :: "locValue option"

record entry =
  EntryV :: int
  EntrySignals :: "string \<rightharpoonup> signalValue"

definition newerThan :: "time \<Rightarrow> string \<Rightarrow> time \<Rightarrow> string \<Rightarrow> bool" where
  "newerThan ts ceid oldTS oldCEID =
     (if After ts oldTS then True else Equal ts oldTS \<and> ceid < oldCEID)"

definition zeroSignalValue :: signalValue where
  "zeroSignalValue = \<lparr>SvTS = zeroTime, SvCEID = [], SvNum = Fin 0, SvStr = [], SvLoc = None\<rparr>"

text \<open>The result is the entry after the call and the reported \<open>changed\<close>.\<close>

definition FoldValue :: "entry \<Rightarrow> string \<Rightarrow> signalValue \<Rightarrow> entry \<times> bool" where
  "FoldValue e name new =
     (let ok = (EntrySignals e name \<noteq> None);
          cur = (case EntrySignals e name of Some sv \<Rightarrow> sv | None \<Rightarrow> zeroSignalValue);
          (cur, changed) =
            (if \<not> ok \<or> newerThan (SvTS new) (SvCEID new) (SvTS cur) (SvCEID cur)
             then (cur\<lparr>SvTS := SvTS new, SvCEID := SvCEID new, SvNum := SvNum new, SvStr := SvStr new\<rparr>, True)
             else (cur, False));
          (cur, changed) =
            (case SvLoc new of
               None \<Rightarrow> (cur, changed)
             | Some l \<Rightarrow>
                 (case SvLoc cur of
                    None \<Rightarrow> (cur\<lparr>SvLoc := Some l\<rparr>, True)
                  | Some cl \<Rightarrow>
                      if newerThan (LvTS l) (LvCEID l) (LvTS cl) (LvCEID cl)
                      then (cur\<lparr>SvLoc := Some l\<rparr>, True) else (cur, changed)))
      in (if changed then e\<lparr>EntrySignals := (EntrySignals e)(name \<mapsto> cur)\<rparr> else e, changed))"

definition rowLoc :: "row \<Rightarrow> locValue option" where
  "rowLoc r =
     (if f64_ne (RLocLat r) (Fin 0) \<or> f64_ne (RLocLon r) (Fin 0)
      then Some \<lparr>LvTS = RTimestamp r, LvCEID = RCloudEventID r, LvLat = RLocLat r, LvLon = RLocLon r,
                 LvHDOP = RLocHDOP r, LvHeading = RLocHeading r\<rparr>
      else None)"

definition rowValue :: "row \<Rightarrow> signalValue" where
  "rowValue r = \<lparr>SvTS = RTimestamp r, SvCEID = RCloudEventID r, SvNum = RValueNumber r,
                 SvStr = RValueString r, SvLoc = rowLoc r\<rparr>"

definition Fold :: "entry \<Rightarrow> row \<Rightarrow> entry \<times> bool" where
  "Fold e r = FoldValue e (RName r) (rowValue r)"

text \<open>
  \<open>LastSeen\<close> ranges over the map; Go leaves the order open, so the order of the names is
  an argument, an enumeration of the domain.
\<close>

definition LastSeen :: "string list \<Rightarrow> entry \<Rightarrow> time" where
  "LastSeen order e =
     fold (\<lambda>name last. case EntrySignals e name of
             Some sv \<Rightarrow> if After (SvTS sv) last then SvTS sv else last
           | None \<Rightarrow> last) order zeroTime"

text \<open>The folds of the callers: a batch of readings, or of shaped values by name.\<close>

fun foldStep :: "string \<times> signalValue \<Rightarrow> entry \<times> bool \<Rightarrow> entry \<times> bool" where
  "foldStep (name, sv) (e, changed) = (let (e', c) = FoldValue e name sv in (e', if c then True else changed))"

definition foldValues :: "entry \<Rightarrow> (string \<times> signalValue) list \<Rightarrow> entry \<times> bool" where
  "foldValues e vals = fold foldStep vals (e, False)"

definition foldRows :: "entry \<Rightarrow> row list \<Rightarrow> entry \<times> bool" where
  "foldRows e rows =
     fold (\<lambda>r (e, changed). let (e', c) = Fold e r in (e', if c then True else changed)) rows (e, False)"

subsection \<open>Last-write-wins registers\<close>

locale lww_register =
  fixes newer :: "'k \<Rightarrow> 'k \<Rightarrow> bool"
    and key :: "'a \<Rightarrow> 'k"
  assumes irrefl: "\<not> newer k k"
    and trans: "newer a b \<Longrightarrow> newer b c \<Longrightarrow> newer a c"
    and total: "a \<noteq> b \<Longrightarrow> newer a b \<or> newer b a"
begin

definition put :: "'a \<Rightarrow> 'a option \<Rightarrow> 'a option" where
  "put x cur = (case cur of None \<Rightarrow> Some x | Some c \<Rightarrow> if newer (key x) (key c) then Some x else cur)"

definition settled :: "'a \<Rightarrow> 'a option \<Rightarrow> bool" where
  "settled x cur = (case cur of None \<Rightarrow> False | Some c \<Rightarrow> \<not> newer (key x) (key c))"

lemma settled_iff: "settled x cur \<longleftrightarrow> cur \<noteq> None \<and> put x cur = cur"
  by (auto simp: settled_def put_def irrefl split: option.splits if_splits)

lemma settled_put: "settled x (put x cur)"
  by (auto simp: settled_def put_def irrefl split: option.splits)

lemma settled_mono: "settled x cur \<Longrightarrow> settled x (put y cur)"
  using trans by (auto simp: settled_def put_def split: option.splits)

lemma settled_fold: "settled x cur \<Longrightarrow> settled x (fold put ys cur)"
  by (induction ys arbitrary: cur) (simp_all add: settled_mono)

lemma settled_member: "x \<in> set ys \<Longrightarrow> settled x (fold put ys cur)"
  by (induction ys arbitrary: cur) (auto simp: settled_fold settled_put)

lemma fold_origin: "fold put ys cur = Some w \<Longrightarrow> w \<in> set ys \<or> cur = Some w"
  by (induction ys arbitrary: cur) (fastforce simp: put_def split: option.splits if_splits)+

lemma fold_None: "fold put ys None = None \<longleftrightarrow> ys = []"
proof (cases ys)
  case (Cons y zs)
  then have "settled y (fold put ys None)" by (intro settled_member) simp
  then show ?thesis using Cons by (auto simp: settled_def split: option.splits)
qed simp

text \<open>Equal keys carry equal values: then the winner is determined by the set.\<close>

lemma fold_set_eq:
  assumes "set xs = set ys" and "\<forall>a \<in> set xs. \<forall>b \<in> set xs. key a = key b \<longrightarrow> a = b"
  shows "fold put xs None = fold put ys None"
proof (cases "fold put xs None")
  case None
  then show ?thesis using assms(1) by (metis fold_None set_empty)
next
  case (Some v)
  then have "ys \<noteq> []" using assms(1) by (metis fold_None option.distinct(1) set_empty2)
  then obtain w where w: "fold put ys None = Some w" by (metis fold_None option.exhaust)
  have v: "v \<in> set xs" and wx: "w \<in> set xs"
    using fold_origin [OF Some] fold_origin [OF w] assms(1) by auto
  have "\<not> newer (key w) (key v)" "\<not> newer (key v) (key w)"
    using settled_member [OF wx, of None] settled_member [of v ys None] v assms(1) Some w
    by (auto simp: settled_def)
  then have "key v = key w" using total by blast
  with assms(2) v wx have "v = w" by blast
  with Some w show ?thesis by simp
qed

end

text \<open>The recency order of \<open>newerThan\<close> as a relation on keys.\<close>

definition newerKey :: "time \<times> string \<Rightarrow> time \<times> string \<Rightarrow> bool" where
  "newerKey a b = newerThan (fst a) (snd a) (fst b) (snd b)"

definition valKey :: "signalValue \<Rightarrow> time \<times> string" where
  "valKey sv = (SvTS sv, SvCEID sv)"

definition locKey :: "locValue \<Rightarrow> time \<times> string" where
  "locKey l = (LvTS l, LvCEID l)"

lemma newerKey_order:
  "\<not> newerKey k k" "newerKey a b \<Longrightarrow> newerKey b c \<Longrightarrow> newerKey a c" "a \<noteq> b \<Longrightarrow> newerKey a b \<or> newerKey b a"
  by (auto simp: newerKey_def newerThan_def go_defs prod_eq_iff split: if_splits)

interpretation val: lww_register newerKey valKey
  by unfold_locales (fact newerKey_order(1), fact newerKey_order(2), fact newerKey_order(3))

interpretation loc: lww_register newerKey locKey
  by unfold_locales

subsection \<open>An entry is two registers per name\<close>

definition valPart :: "signalValue \<Rightarrow> signalValue" where
  "valPart sv = sv\<lparr>SvLoc := None\<rparr>"

definition valReg :: "entry \<Rightarrow> string \<Rightarrow> signalValue option" where
  "valReg e n = map_option valPart (EntrySignals e n)"

definition locReg :: "entry \<Rightarrow> string \<Rightarrow> locValue option" where
  "locReg e n = (case EntrySignals e n of None \<Rightarrow> None | Some sv \<Rightarrow> SvLoc sv)"

lemma valReg_Some: "EntrySignals e n = Some sv \<Longrightarrow> valReg e n = Some (valPart sv)"
  by (simp add: valReg_def)

lemma valReg_None_iff: "valReg e n = None \<longleftrightarrow> EntrySignals e n = None"
  by (simp add: valReg_def)

lemma valPart_key_fields [simp]: "SvTS (valPart sv) = SvTS sv" "SvCEID (valPart sv) = SvCEID sv"
  by (simp_all add: valPart_def)

lemma valKey_valPart [simp]: "valKey (valPart sv) = valKey sv"
  by (simp add: valKey_def valPart_def)

lemma valPart_eq_iff:
  "valPart a = valPart b \<longleftrightarrow> SvTS a = SvTS b \<and> SvCEID a = SvCEID b \<and> SvNum a = SvNum b \<and> SvStr a = SvStr b"
  by (cases a; cases b) (simp add: valPart_def)

lemma signalValue_partsI: "valPart a = valPart b \<Longrightarrow> SvLoc a = SvLoc b \<Longrightarrow> a = b"
  by (cases a; cases b) (simp add: valPart_def)

lemma entry_regs_eqI:
  assumes "\<And>n. valReg a n = valReg b n" and "\<And>n. locReg a n = locReg b n" and "EntryV a = EntryV b"
  shows "a = (b :: entry)"
proof -
  have "EntrySignals a n = EntrySignals b n" for n
    using assms(1,2) [of n]
    by (cases "EntrySignals a n"; cases "EntrySignals b n") (auto simp: valReg_def locReg_def intro: signalValue_partsI)
  then have "EntrySignals a = EntrySignals b" by (rule ext)
  then show ?thesis using assms(3) by simp
qed

lemma FoldValue_regs:
  "valReg (fst (FoldValue e name sv)) n = (if n = name then val.put (valPart sv) (valReg e n) else valReg e n)"
  "locReg (fst (FoldValue e name sv)) n =
     (if n = name then (case SvLoc sv of None \<Rightarrow> locReg e n | Some l \<Rightarrow> loc.put l (locReg e n)) else locReg e n)"
  by (auto simp: FoldValue_def Let_def valReg_def locReg_def val.put_def loc.put_def newerKey_def valKey_def
      locKey_def valPart_def zeroSignalValue_def split: option.splits)

lemma FoldValue_V [simp]: "EntryV (fst (FoldValue e name sv)) = EntryV e"
  by (auto simp: FoldValue_def Let_def split: option.splits)

lemma FoldValue_unchanged: "snd (FoldValue e name sv) = False \<Longrightarrow> fst (FoldValue e name sv) = e"
  by (auto simp: FoldValue_def Let_def split: option.splits if_splits)

lemma FoldValue_changed_iff:
  "snd (FoldValue e name sv) \<longleftrightarrow>
   \<not> (val.settled (valPart sv) (valReg e name) \<and> (\<forall>l. SvLoc sv = Some l \<longrightarrow> loc.settled l (locReg e name)))"
  by (auto simp: FoldValue_def Let_def valReg_def locReg_def val.settled_def loc.settled_def newerKey_def
      valKey_def locKey_def valPart_def zeroSignalValue_def split: option.splits)

text \<open>An entry has absorbed a value when folding it again changes nothing.\<close>

definition absorbed :: "entry \<Rightarrow> string \<Rightarrow> signalValue \<Rightarrow> bool" where
  "absorbed e name sv = (\<not> snd (FoldValue e name sv))"

lemma absorbed_regs:
  "absorbed e name sv \<longleftrightarrow>
   val.settled (valPart sv) (valReg e name) \<and> (\<forall>l. SvLoc sv = Some l \<longrightarrow> loc.settled l (locReg e name))"
  by (simp add: absorbed_def FoldValue_changed_iff)

lemma absorbed_FoldValue: "absorbed (fst (FoldValue e name sv)) name sv"
  by (auto simp: absorbed_regs FoldValue_regs val.settled_put loc.settled_put)

lemma absorbed_mono: "absorbed e name sv \<Longrightarrow> absorbed (fst (FoldValue e name' sv')) name sv"
  by (auto simp: absorbed_regs FoldValue_regs val.settled_mono loc.settled_mono split: option.splits)

subsection \<open>Batches\<close>

lemma foldValues_Nil [simp]: "foldValues e [] = (e, False)"
  by (simp add: foldValues_def)

lemma foldStep_acc:
  "fold foldStep vals (e, ch) = (fst (fold foldStep vals (e, False)), ch \<or> snd (fold foldStep vals (e, False)))"
proof (induction vals arbitrary: e ch)
  case (Cons v vals)
  obtain name sv where v: "v = (name, sv)" by (cases v)
  obtain e' c where f: "FoldValue e name sv = (e', c)" by (cases "FoldValue e name sv")
  show ?case using Cons.IH [of e' c] Cons.IH [of e' ch] Cons.IH [of e' True] by (simp add: v f)
qed simp

lemma foldValues_Cons:
  "foldValues e ((name, sv) # vals) =
   (let (e', c) = FoldValue e name sv; (e'', c') = foldValues e' vals in (e'', c \<or> c'))"
proof -
  obtain e' c where f: "FoldValue e name sv = (e', c)" by (cases "FoldValue e name sv")
  show ?thesis
    using foldStep_acc [of vals e' c] by (cases c) (simp_all add: foldValues_def f case_prod_beta Let_def)
qed

lemma foldRows_foldValues: "foldRows e rows = foldValues e (map (\<lambda>r. (RName r, rowValue r)) rows)"
proof -
  have "(\<lambda>r (e, changed). let (e', c) = Fold e r in (e', if c then True else changed))
      = foldStep \<circ> (\<lambda>r. (RName r, rowValue r))"
    by (auto simp: fun_eq_iff Fold_def)
  then show ?thesis by (simp add: foldRows_def foldValues_def fold_map)
qed

lemma foldValues_append: "fst (foldValues e (xs @ ys)) = fst (foldValues (fst (foldValues e xs)) ys)"
  by (induction xs arbitrary: e) (auto simp: foldValues_Cons case_prod_beta Let_def)

lemma foldValues_unchanged: "snd (foldValues e vals) = False \<Longrightarrow> fst (foldValues e vals) = e"
  by (induction vals arbitrary: e) (auto simp: foldValues_Cons case_prod_beta Let_def FoldValue_unchanged)

lemma foldValues_V [simp]: "EntryV (fst (foldValues e vals)) = EntryV e"
  by (induction vals arbitrary: e) (auto simp: foldValues_Cons case_prod_beta Let_def)

lemma absorbed_foldValues_mono: "absorbed e n sv \<Longrightarrow> absorbed (fst (foldValues e vals)) n sv"
  by (induction vals arbitrary: e) (auto simp: foldValues_Cons case_prod_beta Let_def absorbed_mono)

lemma absorbed_foldValues: "(n, sv) \<in> set vals \<Longrightarrow> absorbed (fst (foldValues e vals)) n sv"
  by (induction vals arbitrary: e)
    (auto simp: foldValues_Cons case_prod_beta Let_def absorbed_FoldValue absorbed_foldValues_mono)

lemma absorbed_all_unchanged:
  "\<forall>(n, sv) \<in> set vals. absorbed e n sv \<Longrightarrow> foldValues e vals = (e, False)"
proof (induction vals)
  case (Cons v vals)
  obtain n sv where v: "v = (n, sv)" by (cases v)
  then have "FoldValue e n sv = (e, False)"
    using Cons.prems FoldValue_unchanged [of e n sv] by (auto simp: absorbed_def prod_eq_iff)
  then show ?case using Cons by (simp add: v foldValues_Cons)
qed simp

lemma foldValues_regs:
  "valReg (fst (foldValues e vals)) n
     = fold val.put (map (valPart \<circ> snd) (filter (\<lambda>v. fst v = n) vals)) (valReg e n)"
  "locReg (fst (foldValues e vals)) n
     = fold loc.put (List.map_filter (\<lambda>v. if fst v = n then SvLoc (snd v) else None) vals) (locReg e n)"
  by (induction vals arbitrary: e)
    (auto simp: foldValues_Cons case_prod_beta Let_def FoldValue_regs map_filter_simps split: option.splits)

text \<open>
  A reading that has been folded stays folded: after any batch, folding any reading
  of that batch again, or of an earlier one, changes nothing and reports no change, so a
  redelivered batch writes nothing.
\<close>

theorem fold_redelivery:
  "fst (foldRows e rows) = e1 \<Longrightarrow> fst (foldRows e1 later) = e2 \<Longrightarrow> set again \<subseteq> set rows \<union> set later \<Longrightarrow>
   foldRows e2 again = (e2, False)"
proof -
  assume e: "fst (foldRows e rows) = e1" "fst (foldRows e1 later) = e2" and sub: "set again \<subseteq> set rows \<union> set later"
  have "absorbed e2 (RName r) (rowValue r)" if "r \<in> set rows \<union> set later" for r
    using that e absorbed_foldValues absorbed_foldValues_mono by (force simp: foldRows_foldValues)
  then show "foldRows e2 again = (e2, False)"
    using sub unfolding foldRows_foldValues by (intro absorbed_all_unchanged) auto
qed

definition demo_row :: "time \<Rightarrow> string \<Rightarrow> rat \<Rightarrow> row" where
  "demo_row ts ceid v = \<lparr>RSubject = ''veh'', RName = ''speed'', RTimestamp = ts, RCloudEventID = ceid,
     RValueNumber = Fin v, RValueString = [], RLocLat = Fin 0, RLocLon = Fin 0, RLocHDOP = Fin 0, RLocHeading = Fin 0\<rparr>"

definition emptyEntry :: entry where
  "emptyEntry = \<lparr>EntryV = EntryVersion, EntrySignals = Map.empty\<rparr>"

lemma emptyEntry_regs [simp]: "valReg emptyEntry n = None" "locReg emptyEntry n = None"
  by (simp_all add: emptyEntry_def valReg_def locReg_def)

theorem fold_redelivery_witness:
  "foldRows (fst (foldRows (fst (foldRows emptyEntry [demo_row 5 ''a'' 1])) [demo_row 4 ''b'' 2]))
     [demo_row 4 ''b'' 2, demo_row 5 ''a'' 1]
   = (fst (foldRows (fst (foldRows emptyEntry [demo_row 5 ''a'' 1])) [demo_row 4 ''b'' 2]), False)"
  by (rule fold_redelivery [OF refl refl]) simp

text \<open>
  Readings that agree on signal name, timestamp and event id are the same reading: the
  identity of a decoded row in the lake.
\<close>

definition keyed :: "row set \<Rightarrow> bool" where
  "keyed rs = (\<forall>a \<in> rs. \<forall>b \<in> rs. RName a = RName b \<and> RTimestamp a = RTimestamp b
     \<and> RCloudEventID a = RCloudEventID b \<longrightarrow> rowValue a = rowValue b)"

lemma rowLoc_key: "rowLoc r = Some l \<Longrightarrow> locKey l = (RTimestamp r, RCloudEventID r)"
  by (auto simp: rowLoc_def locKey_def split: if_splits)

lemma foldRows_valReg:
  "valReg (fst (foldRows e rows)) n = fold val.put (map (valPart \<circ> rowValue) (filter (\<lambda>r. RName r = n) rows)) (valReg e n)"
  by (simp add: foldRows_foldValues foldValues_regs filter_map comp_def)

lemma foldRows_locReg:
  "locReg (fst (foldRows e rows)) n = fold loc.put (List.map_filter rowLoc (filter (\<lambda>r. RName r = n) rows)) (locReg e n)"
proof -
  have "List.map_filter (\<lambda>v. if fst v = n then SvLoc (snd v) else None) (map (\<lambda>r. (RName r, rowValue r)) rows)
      = List.map_filter rowLoc (filter (\<lambda>r. RName r = n) rows)"
    by (induction rows) (auto simp: map_filter_simps rowValue_def split: option.splits)
  then show ?thesis by (simp add: foldRows_foldValues foldValues_regs)
qed

text \<open>
  C9. The entry after a batch depends only on the set of readings in it: order,
  redelivery and splitting into other batches do not matter.
\<close>

theorem fold_converges:
  assumes "keyed (set rows)" and "set rows = set rows'"
  shows "fst (foldRows emptyEntry rows) = fst (foldRows emptyEntry rows')"
proof (rule entry_regs_eqI)
  fix n
  let ?xs = "filter (\<lambda>r. RName r = n) rows" and ?ys = "filter (\<lambda>r. RName r = n) rows'"
  have s: "set ?xs = set ?ys" using assms(2) by auto
  have "fold val.put (map (valPart \<circ> rowValue) ?xs) None = fold val.put (map (valPart \<circ> rowValue) ?ys) None"
  proof (rule val.fold_set_eq)
    show "\<forall>a \<in> set (map (valPart \<circ> rowValue) ?xs). \<forall>b \<in> set (map (valPart \<circ> rowValue) ?xs).
        valKey a = valKey b \<longrightarrow> a = b"
      using assms(1) by (auto simp: keyed_def valKey_def rowValue_def valPart_def)
  qed (use s in \<open>simp only: set_map\<close>)
  then show "valReg (fst (foldRows emptyEntry rows)) n = valReg (fst (foldRows emptyEntry rows')) n"
    by (simp add: foldRows_valReg)
  have l: "set (List.map_filter rowLoc zs) = {l. \<exists>r \<in> set zs. rowLoc r = Some l}" for zs
    by (induction zs) (auto simp: map_filter_simps split: option.splits)
  have "fold loc.put (List.map_filter rowLoc ?xs) None = fold loc.put (List.map_filter rowLoc ?ys) None"
  proof (rule loc.fold_set_eq)
    show "\<forall>a \<in> set (List.map_filter rowLoc ?xs). \<forall>b \<in> set (List.map_filter rowLoc ?xs).
        locKey a = locKey b \<longrightarrow> a = b"
      using assms(1) unfolding l by (fastforce simp: keyed_def rowValue_def dest: rowLoc_key)
  qed (use s l in simp)
  then show "locReg (fst (foldRows emptyEntry rows)) n = locReg (fst (foldRows emptyEntry rows')) n"
    by (simp add: foldRows_locReg)
qed (simp add: foldRows_foldValues)

theorem fold_converges_witness:
  "fst (foldRows emptyEntry [demo_row 5 ''b'' 1, demo_row 5 ''a'' 2])
   = fst (foldRows emptyEntry [demo_row 5 ''a'' 2, demo_row 5 ''b'' 1, demo_row 5 ''a'' 2])"
  by (rule fold_converges) (auto simp: keyed_def demo_row_def rowValue_def)

subsection \<open>The winner\<close>

lemma set_map_filter_rowLoc: "l \<in> set (List.map_filter rowLoc rs) \<longleftrightarrow> (\<exists>r \<in> set rs. rowLoc r = Some l)"
  by (induction rs) (auto simp: map_filter_simps split: option.splits)

definition newestOf :: "row \<Rightarrow> row set \<Rightarrow> bool" where
  "newestOf r rs = (r \<in> rs \<and> (\<forall>r' \<in> rs.
     \<not> newerThan (RTimestamp r') (RCloudEventID r') (RTimestamp r) (RCloudEventID r)))"

lemma fold_value_winner:
  assumes "EntrySignals (fst (foldRows emptyEntry rows)) n = Some sv"
  shows "\<exists>r. newestOf r {r \<in> set rows. RName r = n} \<and> valPart sv = valPart (rowValue r)"
proof -
  let ?xs = "filter (\<lambda>r. RName r = n) rows"
  have w: "fold val.put (map (valPart \<circ> rowValue) ?xs) None = Some (valPart sv)"
    using valReg_Some [OF assms] by (simp add: foldRows_valReg)
  obtain r where r: "r \<in> set ?xs" "valPart sv = valPart (rowValue r)" using val.fold_origin [OF w] by auto
  have "\<not> newerThan (RTimestamp r') (RCloudEventID r') (RTimestamp r) (RCloudEventID r)" if "r' \<in> set ?xs" for r'
    using val.settled_member [of "valPart (rowValue r')" "map (valPart \<circ> rowValue) ?xs" None] that
      w r(2) [unfolded valPart_eq_iff]
    by (auto simp: val.settled_def newerKey_def valKey_def rowValue_def)
  with r show ?thesis by (auto simp: newestOf_def)
qed

lemma fold_loc_winner:
  assumes "locReg (fst (foldRows emptyEntry rows)) n = Some l"
  shows "\<exists>r. newestOf r {r \<in> set rows. RName r = n \<and> rowLoc r \<noteq> None} \<and> rowLoc r = Some l"
proof -
  let ?xs = "filter (\<lambda>r. RName r = n) rows"
  have w: "fold loc.put (List.map_filter rowLoc ?xs) None = Some l"
    using assms by (simp add: foldRows_locReg)
  obtain r where r: "r \<in> set ?xs" "rowLoc r = Some l"
    using loc.fold_origin [OF w] by (auto simp: set_map_filter_rowLoc)
  have "\<not> newerThan (RTimestamp r') (RCloudEventID r') (RTimestamp r) (RCloudEventID r)"
    if r': "r' \<in> set ?xs" "rowLoc r' = Some y" for r' y
  proof -
    have "y \<in> set (List.map_filter rowLoc ?xs)" using r' by (auto simp: set_map_filter_rowLoc)
    from loc.settled_member [OF this, of None] show ?thesis
      using w rowLoc_key [OF r(2)] rowLoc_key [OF r'(2)] by (simp add: loc.settled_def newerKey_def)
  qed
  with r show ?thesis by (auto simp: newestOf_def)
qed

lemma fold_loc_none:
  "locReg (fst (foldRows emptyEntry rows)) n = None \<longleftrightarrow> (\<forall>r \<in> set rows. RName r = n \<longrightarrow> rowLoc r = None)"
proof -
  have "List.map_filter rowLoc rs = [] \<longleftrightarrow> (\<forall>r \<in> set rs. rowLoc r = None)" for rs
    by (induction rs) (auto simp: map_filter_simps split: option.splits)
  then show ?thesis by (simp add: foldRows_locReg loc.fold_None) blast
qed

text \<open>
  After a batch into an empty entry, a signal is present exactly when it has a
  reading; its value is that of a reading no other reading of the name is newer than; and
  its location is that of a newest reading with a nonzero fix, absent when there is none.
\<close>

theorem fold_latest:
  assumes "fst (foldRows emptyEntry rows) = e"
  shows "(EntrySignals e n = None \<longleftrightarrow> (\<forall>r \<in> set rows. RName r \<noteq> n))
    \<and> (\<forall>sv. EntrySignals e n = Some sv \<longrightarrow>
         (\<exists>r. newestOf r {r \<in> set rows. RName r = n} \<and> valPart sv = valPart (rowValue r))
       \<and> (case SvLoc sv of
            None \<Rightarrow> \<forall>r \<in> set rows. RName r = n \<longrightarrow> rowLoc r = None
          | Some l \<Rightarrow> \<exists>r. newestOf r {r \<in> set rows. RName r = n \<and> rowLoc r \<noteq> None} \<and> rowLoc r = Some l))"
proof -
  have "EntrySignals e n = None \<longleftrightarrow> (\<forall>r \<in> set rows. RName r \<noteq> n)"
    using assms valReg_None_iff [of e n] foldRows_valReg [of emptyEntry rows n]
    by (auto simp: val.fold_None filter_empty_conv)
  then show ?thesis
    using fold_value_winner [of rows n] fold_loc_winner [of rows n] fold_loc_none [of rows n] assms
    by (auto simp: locReg_def split: option.splits)
qed

definition demo_fix :: row where
  "demo_fix = (demo_row 3 ''c'' 0)\<lparr>RLocLat := Fin 48, RLocLon := Fin 2\<rparr>"

theorem fold_latest_witness:
  "\<exists>sv l. EntrySignals (fst (foldRows emptyEntry [demo_fix, demo_row 5 ''a'' 1])) ''speed'' = Some sv
     \<and> SvLoc sv = Some l"
proof -
  let ?rows = "[demo_fix, demo_row 5 ''a'' 1]"
  note fl = fold_latest [OF refl, of ?rows "''speed''"]
  have n: "RName demo_fix = ''speed''" "rowLoc demo_fix \<noteq> None"
    by (simp_all add: demo_fix_def demo_row_def rowLoc_def f64_ne_def f64_eq_def)
  then obtain sv where sv: "EntrySignals (fst (foldRows emptyEntry ?rows)) ''speed'' = Some sv" using fl by auto
  have "SvLoc sv \<noteq> None" using fl sv n by (auto split: option.splits)
  with sv show ?thesis by auto
qed

subsection \<open>Last seen\<close>

lemma Max_insert_max: "finite A \<Longrightarrow> Max (insert (max m x) A) = Max (insert m (insert x A))"
  for A :: "int set"
  by (cases "A = {}") (simp_all add: max.assoc)

lemma LastSeen_Max:
  "LastSeen order e = Max (insert 0 ((\<lambda>n. SvTS (the (EntrySignals e n))) ` (set order \<inter> dom (EntrySignals e))))"
proof -
  have "fold (\<lambda>name last. case EntrySignals e name of
             Some sv \<Rightarrow> if After (SvTS sv) last then SvTS sv else last
           | None \<Rightarrow> last) order m
      = Max (insert m ((\<lambda>n. SvTS (the (EntrySignals e n))) ` (set order \<inter> dom (EntrySignals e))))" for m
  proof (induction order arbitrary: m)
    case (Cons n order)
    show ?case
    proof (cases "EntrySignals e n")
      case None
      then show ?thesis using Cons by (simp add: Int_insert_left domIff)
    next
      case (Some sv)
      then have "set (n # order) \<inter> dom (EntrySignals e) = insert n (set order \<inter> dom (EntrySignals e))" by auto
      moreover have "(if After (SvTS sv) m then SvTS sv else m) = max m (SvTS sv)" by (simp add: go_defs max_def)
      ultimately show ?thesis using Cons [of "max m (SvTS sv)"] Some
        by (simp add: Max_insert_max del: Max_insert)
    qed
  qed simp
  then show ?thesis by (simp add: LastSeen_def zeroTime_def)
qed

subsection \<open>Bootstrapped values\<close>

text \<open>
  A value bootstrapped from the rollup has no event id. At an equal timestamp it stays,
  also against a reading whose event id the rollup's own order prefers to the event the
  bootstrapped value came from.
\<close>

lemma bootstrap_tie_sticks:
  assumes "EntrySignals e name = Some cur" and "SvCEID cur = []" and "SvTS sv = SvTS cur"
  shows "valReg (fst (FoldValue e name sv)) name = valReg e name"
  using assms by (simp add: FoldValue_regs val.put_def valReg_Some newerKey_def valKey_def newerThan_def go_defs)

end
