(* ===== verification/Kv_Store.thy ===== *)
theory Kv_Store
  imports Latest_Kv
begin

section \<open>The key-value store client (internal/latestkv/store.go)\<close>

text \<open>
  The store runs read-modify-write updates of one subject's entry under compare-and-swap.
  The JetStream bucket is outside this repository: the calls the code makes are the fields
  of a \<open>kvClient\<close>, each taking and returning the state of the world, and the locale
  \<open>kv_bucket\<close> states what their documentation promises while nobody else writes
  (\<open>Kv_Cas\<close> treats several writers). A SQL result is a list argument.

  \<open>encoding/json\<close> is represented by its outcome: an entry encodes unless a number is NaN
  or infinite or a time lies outside the years 0 to 9999, and a stored value is an encoded
  entry or bytes that do not decode. Strings are those Go encodes as they are: \<open>json.Marshal\<close> would
  replace bytes that are not UTF-8, and a name or value with such bytes would be read back with
  the replacement.

  Shown here: a successful publish leaves exactly the folded entry, on every error path
  entries only advance, contention is retried at most eight times, and a successful merge
  pass leaves a key for every subject of the rollup and of the tail.
\<close>

subsection \<open>Values and client\<close>

datatype kvValue = Encoded entry | Undecodable string

datatype getResult = Found kvValue nat | KeyNotFound | GetError goerr

datatype writeResult = Written | KeyExists | WriteError goerr

record 's kvClient =
  KvGet :: "'s \<Rightarrow> string \<Rightarrow> getResult \<times> 's"
  KvCreate :: "'s \<Rightarrow> string \<Rightarrow> kvValue \<Rightarrow> writeResult \<times> 's"
  KvUpdate :: "'s \<Rightarrow> string \<Rightarrow> kvValue \<Rightarrow> nat \<Rightarrow> writeResult \<times> 's"
  KvPut :: "'s \<Rightarrow> string \<Rightarrow> kvValue \<Rightarrow> goerr option \<times> 's"
  KvDelete :: "'s \<Rightarrow> string \<Rightarrow> goerr option \<times> 's"
  CancelCtx :: "'s \<Rightarrow> 's"
  SleepCtx :: "'s \<Rightarrow> nat \<Rightarrow> goerr option \<times> 's"

text \<open>
  \<open>KeyForSubject\<close>: base64url without padding, written out for the bytes of the subject.
\<close>

definition b64alphabet :: string where
  "b64alphabet = ''ABCDEFGHIJKLMNOPQRSTUVWXYZabcdefghijklmnopqrstuvwxyz0123456789-_''"

definition b64char :: "nat \<Rightarrow> char" where "b64char n = b64alphabet ! (n mod 64)"

definition byte :: "char \<Rightarrow> nat" where "byte c = of_char c"

fun RawURLEncoding :: "string \<Rightarrow> string" where
  "RawURLEncoding [] = []"
| "RawURLEncoding [a] = [b64char (byte a div 4), b64char (byte a mod 4 * 16)]"
| "RawURLEncoding [a, b] =
     [b64char (byte a div 4), b64char (byte a mod 4 * 16 + byte b div 16), b64char (byte b mod 16 * 4)]"
| "RawURLEncoding (a # b # c # rest) =
     [b64char (byte a div 4), b64char (byte a mod 4 * 16 + byte b div 16),
      b64char (byte b mod 16 * 4 + byte c div 64), b64char (byte c mod 64)] @ RawURLEncoding rest"

definition subjectKeyPrefix :: string where "subjectKeyPrefix = ''s.''"

definition KeyForSubject :: "string \<Rightarrow> string" where
  "KeyForSubject subject = subjectKeyPrefix @ RawURLEncoding subject"

definition jsonTimeOk :: "time \<Rightarrow> bool" where
  "jsonTimeOk t = (- (366 * 86400 * second) \<le> t \<and> t < 3652059 * 86400 * second)"

definition jsonNumOk :: "f64 \<Rightarrow> bool" where "jsonNumOk x = (\<not> isNaN x \<and> \<not> isInf x)"

definition jsonValueOk :: "signalValue \<Rightarrow> bool" where
  "jsonValueOk sv =
     (jsonTimeOk (SvTS sv) \<and> jsonNumOk (SvNum sv)
      \<and> (case SvLoc sv of None \<Rightarrow> True
         | Some l \<Rightarrow> jsonTimeOk (LvTS l) \<and> jsonNumOk (LvLat l) \<and> jsonNumOk (LvLon l)
             \<and> jsonNumOk (LvHDOP l) \<and> jsonNumOk (LvHeading l)))"

definition jsonEntryOk :: "entry \<Rightarrow> bool" where
  "jsonEntryOk e = (\<forall>sv \<in> ran (EntrySignals e). jsonValueOk sv)"

subsection \<open>Reading and writing an entry\<close>

definition getEntry :: "'s kvClient \<Rightarrow> 's \<Rightarrow> string \<Rightarrow> (entry \<times> nat) res \<times> 's" where
  "getEntry kv s key =
     (let entry = \<lparr>EntryV = EntryVersion, EntrySignals = Map.empty\<rparr> in
      case KvGet kv s key of
        (KeyNotFound, s) \<Rightarrow> (Inr (entry, 0), s)
      | (GetError err, s) \<Rightarrow> (Inl (Wrap ''kv get'' err), s)
      | (Found v rv, s) \<Rightarrow>
          (case v of
             Undecodable _ \<Rightarrow> (Inr (\<lparr>EntryV = EntryVersion, EntrySignals = Map.empty\<rparr>, rv), s)
           | Encoded e \<Rightarrow> (Inr (e, rv), s)))"

definition GetEntry :: "'s kvClient \<Rightarrow> 's \<Rightarrow> string \<Rightarrow> entry option res \<times> 's" where
  "GetEntry kv s subject =
     (case KvGet kv s (KeyForSubject subject) of
        (KeyNotFound, s) \<Rightarrow> (Inr None, s)
      | (GetError err, s) \<Rightarrow> (Inl (Wrap ''kv get'' err), s)
      | (Found v rv, s) \<Rightarrow>
          (case v of
             Undecodable b \<Rightarrow> (Inl (Wrap (''decoding entry for '' @ subject) (Err b)), s)
           | Encoded e \<Rightarrow> (Inr (Some e), s)))"

definition errCASConflict :: goerr where "errCASConflict = Err ''entry changed concurrently''"

text \<open>\<open>putEntry\<close>: \<open>Inl\<close> an error, which is \<open>errCASConflict\<close> for a lost race.\<close>

definition putEntry :: "'s kvClient \<Rightarrow> 's \<Rightarrow> string \<Rightarrow> entry \<Rightarrow> nat \<Rightarrow> unit res \<times> 's" where
  "putEntry kv s key entry rv =
     (let entry = entry\<lparr>EntryV := EntryVersion\<rparr> in
      if \<not> jsonEntryOk entry then (Inl (Wrap ''marshal entry'' (Err ''json: unsupported value'')), s)
      else let (r, s) = (if rv = 0 then KvCreate kv s key (Encoded entry)
                         else KvUpdate kv s key (Encoded entry) rv)
           in (case r of
                 KeyExists \<Rightarrow> (Inl errCASConflict, s)
               | WriteError err \<Rightarrow> (Inl (Wrap ''kv write'' err), s)
               | Written \<Rightarrow> (Inr (), s)))"

definition casAttempts :: nat where "casAttempts = 8"

text \<open>
  The retry loop, with the number of attempts left; the length of the backoff is the
  environment's, the attempt number is passed to it. \<open>mutate\<close> returns the entry and
  whether it changed.
\<close>

fun updateEntryLoop ::
  "'s kvClient \<Rightarrow> string \<Rightarrow> (entry \<Rightarrow> entry \<times> bool) \<Rightarrow> nat \<Rightarrow> 's \<Rightarrow> unit res \<times> 's" where
  "updateEntryLoop kv key mutate 0 s = (Inr (), s)"
| "updateEntryLoop kv key mutate (Suc left) s =
     (case getEntry kv s key of
        (Inl err, s) \<Rightarrow> (Inl err, s)
      | (Inr (entry, rv), s) \<Rightarrow>
          (case mutate entry of
             (_, False) \<Rightarrow> (Inr (), s)
           | (entry, True) \<Rightarrow>
               (case putEntry kv s key entry rv of
                  (Inr _, s) \<Rightarrow> (Inr (), s)
                | (Inl err, s) \<Rightarrow>
                    if \<not> errors_Is err errCASConflict then (Inl err, s)
                    else if left = 0 then (Inl (Wrap (''entry '' @ key) err), s)
                    else (case SleepCtx kv s (casAttempts - Suc left) of
                            (Some err, s) \<Rightarrow> (Inl err, s)
                          | (None, s) \<Rightarrow> updateEntryLoop kv key mutate left s))))"

definition updateEntry ::
  "'s kvClient \<Rightarrow> 's \<Rightarrow> string \<Rightarrow> (entry \<Rightarrow> entry \<times> bool) \<Rightarrow> unit res \<times> 's" where
  "updateEntry kv s key mutate = updateEntryLoop kv key mutate casAttempts s"

definition publishSubject ::
  "'s kvClient \<Rightarrow> 's \<Rightarrow> string \<Rightarrow> row list \<Rightarrow> unit res \<times> 's" where
  "publishSubject kv s subject rows =
     updateEntry kv s (KeyForSubject subject) (\<lambda>e. foldRows e rows)"

text \<open>
  \<open>PublishSignals\<close>: the subjects run in an \<open>errgroup\<close>, in the order \<open>subjects\<close> in which
  Go ranges over the map of rows by subject. The group's context is cancelled at the first
  failure (\<open>CancelCtx\<close>), and \<open>Wait\<close> returns the first error. The goroutines touch
  different keys; they are run one after the other here.
\<close>

fun publishGroup ::
  "'s kvClient \<Rightarrow> row list \<Rightarrow> string list \<Rightarrow> goerr option \<Rightarrow> 's \<Rightarrow> goerr option \<times> 's" where
  "publishGroup kv rows [] firstErr s = (firstErr, s)"
| "publishGroup kv rows (subject # rest) firstErr s =
     (case publishSubject kv s subject (filter (\<lambda>r. RSubject r = subject) rows) of
        (Inr _, s) \<Rightarrow> publishGroup kv rows rest firstErr s
      | (Inl err, s) \<Rightarrow>
          (case firstErr of
             None \<Rightarrow> publishGroup kv rows rest (Some (Wrap (''subject '' @ subject) err)) (CancelCtx kv s)
           | Some e \<Rightarrow> publishGroup kv rows rest (Some e) s))"

definition PublishSignals :: "'s kvClient \<Rightarrow> string list \<Rightarrow> 's \<Rightarrow> row list \<Rightarrow> unit res \<times> 's" where
  "PublishSignals kv subjects s rows =
     (if length rows = 0 then (Inr (), s)
      else case publishGroup kv rows subjects None s of
             (None, s) \<Rightarrow> (Inr (), s)
           | (Some err, s) \<Rightarrow> (Inl err, s))"

definition DeleteSubject :: "'s kvClient \<Rightarrow> 's \<Rightarrow> string \<Rightarrow> unit res \<times> 's" where
  "DeleteSubject kv s subject =
     (case KvDelete kv s (KeyForSubject subject) of
        (Some err, s) \<Rightarrow> (Inl (Wrap (''kv delete '' @ subject) err), s)
      | (None, s) \<Rightarrow> (Inr (), s))"

subsection \<open>Merging the rollup into the bucket\<close>

record rollupRow =
  RoSubject :: string
  RoName :: string
  RoTS :: time
  RoNum :: f64
  RoStr :: string
  RoLat :: f64
  RoLon :: f64
  RoHDOP :: f64
  RoHeading :: f64
  RoLocTS :: time

record tailRow =
  TaSubject :: string
  TaName :: string
  TaTS :: time
  TaCEID :: string
  TaNum :: f64
  TaStr :: string
  TaLocTS :: "time option"
  TaLocCEID :: string
  TaLat :: f64
  TaLon :: f64
  TaHDOP :: f64
  TaHeading :: f64

text \<open>
  A result set: the rows, each with the outcome of \<open>Scan\<close>, and \<open>rows.Err()\<close>. The lake
  is the three queries of this file; \<open>parseRFC3339\<close> is \<open>time.Parse\<close>.
\<close>

type_synonym 'r resultSet = "('r res list \<times> goerr option) res"

record lakeDb =
  RollupRows :: "rollupRow resultSet"
  WatermarkCursor :: "string option res"
  TailRows :: "time \<Rightarrow> tailRow resultSet"
  parseRFC3339 :: "string \<Rightarrow> time res"

definition rollupValue :: "rollupRow \<Rightarrow> string \<times> string \<times> signalValue" where
  "rollupValue r =
     (RoSubject r, RoName r,
      \<lparr>SvTS = RoTS r, SvCEID = [], SvNum = RoNum r, SvStr = RoStr r,
       SvLoc = (if f64_ne (RoLat r) (Fin 0) \<or> f64_ne (RoLon r) (Fin 0)
                then Some \<lparr>LvTS = RoLocTS r, LvCEID = [], LvLat = RoLat r, LvLon = RoLon r,
                           LvHDOP = RoHDOP r, LvHeading = RoHeading r\<rparr> else None)\<rparr>)"

definition tailValue :: "tailRow \<Rightarrow> string \<times> string \<times> signalValue" where
  "tailValue r =
     (TaSubject r, TaName r,
      \<lparr>SvTS = TaTS r, SvCEID = TaCEID r, SvNum = TaNum r, SvStr = TaStr r,
       SvLoc = (case TaLocTS r of
                  Some t \<Rightarrow>
                    if f64_ne (TaLat r) (Fin 0) \<or> f64_ne (TaLon r) (Fin 0)
                    then Some \<lparr>LvTS = t, LvCEID = TaLocCEID r, LvLat = TaLat r, LvLon = TaLon r,
                               LvHDOP = TaHDOP r, LvHeading = TaHeading r\<rparr> else None
                | None \<Rightarrow> None)\<rparr>)"

text \<open>
  The two passes share their shape: rows are collected per subject in the map \<open>pending\<close>
  (here the list of its entries in insertion order) and flushed when the subject changes.
\<close>

definition setPending :: "string \<Rightarrow> signalValue \<Rightarrow> (string \<times> signalValue) list \<Rightarrow> (string \<times> signalValue) list" where
  "setPending name sv pending =
     (if name \<in> set (map fst pending) then map (\<lambda>(n, v). if n = name then (n, sv) else (n, v)) pending
      else pending @ [(name, sv)])"

definition flushPending ::
  "'s kvClient \<Rightarrow> string \<Rightarrow> (string \<times> signalValue) list \<Rightarrow> nat \<Rightarrow> 's \<Rightarrow> nat res \<times> 's" where
  "flushPending kv curSubject pending subjects s =
     (if length pending = 0 then (Inr subjects, s)
      else case updateEntry kv s (KeyForSubject curSubject) (\<lambda>e. foldValues e pending) of
             (Inr _, s) \<Rightarrow> (Inr (subjects + 1), s)
           | (Inl err, s) \<Rightarrow> (Inl err, s))"

fun mergeRowsLoop ::
  "'s kvClient \<Rightarrow> string \<Rightarrow> string \<Rightarrow> string \<Rightarrow> ('r \<Rightarrow> string \<times> string \<times> signalValue) \<Rightarrow> 'r res list \<Rightarrow> goerr option \<Rightarrow>
   string \<Rightarrow> (string \<times> signalValue) list \<Rightarrow> nat \<Rightarrow> 's \<Rightarrow> nat res \<times> 's" where
  "mergeRowsLoop kv merging scanRow scanning conv [] rowsErr curSubject pending subjects s =
     (case rowsErr of
        Some err \<Rightarrow> (Inl (Wrap scanning err), s)
      | None \<Rightarrow>
          (case flushPending kv curSubject pending subjects s of
             (Inl err, s) \<Rightarrow> (Inl (Wrap (merging @ curSubject) err), s)
           | (Inr n, s) \<Rightarrow> (Inr n, s)))"
| "mergeRowsLoop kv merging scanRow scanning conv (Inl err # rows) rowsErr curSubject pending subjects s =
     (Inl (Wrap scanRow err), s)"
| "mergeRowsLoop kv merging scanRow scanning conv (Inr r # rows) rowsErr curSubject pending subjects s =
     (let (subject, name, sv) = conv r in
      if subject \<noteq> curSubject
      then (case flushPending kv curSubject pending subjects s of
              (Inl err, s) \<Rightarrow> (Inl (Wrap (merging @ curSubject) err), s)
            | (Inr n, s) \<Rightarrow>
                mergeRowsLoop kv merging scanRow scanning conv rows rowsErr subject (setPending name sv []) n s)
      else mergeRowsLoop kv merging scanRow scanning conv rows rowsErr curSubject (setPending name sv pending) subjects s)"

definition rollupWatermark :: "lakeDb \<Rightarrow> time res" where
  "rollupWatermark db =
     (case WatermarkCursor db of
        Inl err \<Rightarrow> Inl (Wrap ''reading rollup watermark'' err)
      | Inr None \<Rightarrow> Inr zeroTime
      | Inr (Some raw) \<Rightarrow>
          (case parseRFC3339 db raw of
             Inl perr \<Rightarrow> Inl (Wrap (''unparseable rollup watermark '' @ raw) perr)
           | Inr w \<Rightarrow> Inr w))"

definition mergeTailSinceWatermark :: "'s kvClient \<Rightarrow> lakeDb \<Rightarrow> 's \<Rightarrow> nat res \<times> 's" where
  "mergeTailSinceWatermark kv db s =
     (case rollupWatermark db of
        Inl err \<Rightarrow> (Inl err, s)
      | Inr w \<Rightarrow>
          if IsZero w then (Inr 0, s)
          else (case TailRows db w of
                  Inl err \<Rightarrow> (Inl (Wrap ''scanning signals tail since watermark'' err), s)
                | Inr (rows, rowsErr) \<Rightarrow>
                    mergeRowsLoop kv ''merging tail subject '' ''scanning tail row'' ''tail scan'' tailValue rows rowsErr [] [] 0 s))"

definition mergeFromRollup :: "'s kvClient \<Rightarrow> lakeDb \<Rightarrow> 's \<Rightarrow> nat res \<times> 's" where
  "mergeFromRollup kv db s =
     (case RollupRows db of
        Inl err \<Rightarrow> (Inl (Wrap ''scanning lake.signals_latest'' err), s)
      | Inr (rows, rowsErr) \<Rightarrow>
          (case mergeRowsLoop kv ''merging subject '' ''scanning rollup row'' ''rollup scan'' rollupValue rows rowsErr [] [] 0 s of
             (Inl err, s) \<Rightarrow> (Inl err, s)
           | (Inr subjects, s) \<Rightarrow>
               (case mergeTailSinceWatermark kv db s of
                  (Inl err, s) \<Rightarrow> (Inl err, s)
                | (Inr tailSubjects, s) \<Rightarrow> (Inr (subjects + tailSubjects), s))))"

definition ReconcileFromRollup :: "'s kvClient \<Rightarrow> lakeDb \<Rightarrow> 's \<Rightarrow> unit res \<times> 's" where
  "ReconcileFromRollup kv db s =
     (case mergeFromRollup kv db s of (Inl err, s) \<Rightarrow> (Inl err, s) | (Inr _, s) \<Rightarrow> (Inr (), s))"

definition bootstrapMarkerKey :: string where "bootstrapMarkerKey = ''meta.bootstrap''"

definition BootstrapFromRollup :: "'s kvClient \<Rightarrow> lakeDb \<Rightarrow> bool \<Rightarrow> string \<Rightarrow> 's \<Rightarrow> unit res \<times> 's" where
  "BootstrapFromRollup kv db force nowStr s =
     (let (skip, err, s) =
            (if force then (False, None, s)
             else case KvGet kv s bootstrapMarkerKey of
                    (Found _ _, s) \<Rightarrow> (True, None, s)
                  | (GetError err, s) \<Rightarrow> (False, Some (Wrap ''checking bootstrap marker'' err), s)
                  | (KeyNotFound, s) \<Rightarrow> (False, None, s))
      in case err of
           Some err \<Rightarrow> (Inl err, s)
         | None \<Rightarrow>
             if skip then (Inr (), s)
             else (case mergeFromRollup kv db s of
                     (Inl err, s) \<Rightarrow> (Inl err, s)
                   | (Inr _, s) \<Rightarrow>
                       (case KvPut kv s bootstrapMarkerKey (Undecodable nowStr) of
                          (Some err, s) \<Rightarrow> (Inl (Wrap ''writing bootstrap marker'' err), s)
                        | (None, s) \<Rightarrow> (Inr (), s))))"

subsection \<open>The bucket's contract\<close>

text \<open>
  What the JetStream KV interface documents, for a client that is the only writer:
  a read reports the stored value and its revision, \<open>Create\<close> writes only an absent key,
  \<open>Update\<close> only a key at the given revision, a failed write may or may not have taken
  effect, and nothing else changes the contents.
\<close>

type_synonym contents = "string \<rightharpoonup> kvValue \<times> nat"

definition storedAt :: "contents \<Rightarrow> string \<Rightarrow> kvValue \<Rightarrow> contents \<Rightarrow> bool" where
  "storedAt m k v m' = (\<exists>rv > 0. m' = m(k \<mapsto> (v, rv)))"

locale kv_bucket =
  fixes kv :: "'s kvClient"
    and contents :: "'s \<Rightarrow> contents"
  assumes get_found: "KvGet kv s k = (Found v rv, s') \<Longrightarrow> contents s' = contents s \<and> contents s k = Some (v, rv) \<and> 0 < rv"
    and get_absent: "KvGet kv s k = (KeyNotFound, s') \<Longrightarrow> contents s' = contents s \<and> contents s k = None"
    and get_error: "KvGet kv s k = (GetError err, s') \<Longrightarrow> contents s' = contents s"
    and create_written: "KvCreate kv s k v = (Written, s') \<Longrightarrow> contents s k = None \<and> storedAt (contents s) k v (contents s')"
    and create_exists: "KvCreate kv s k v = (KeyExists, s') \<Longrightarrow> contents s k \<noteq> None \<and> contents s' = contents s"
    and create_error: "KvCreate kv s k v = (WriteError err, s') \<Longrightarrow>
      contents s' = contents s \<or> contents s k = None \<and> storedAt (contents s) k v (contents s')"
    and update_written: "KvUpdate kv s k v rv = (Written, s') \<Longrightarrow>
      (\<exists>u. contents s k = Some (u, rv)) \<and> storedAt (contents s) k v (contents s')"
    and update_exists: "KvUpdate kv s k v rv = (KeyExists, s') \<Longrightarrow>
      (\<forall>u. contents s k \<noteq> Some (u, rv)) \<and> contents s' = contents s"
    and update_error: "KvUpdate kv s k v rv = (WriteError err, s') \<Longrightarrow>
      contents s' = contents s \<or> (\<exists>u. contents s k = Some (u, rv)) \<and> storedAt (contents s) k v (contents s')"
    and sleep: "SleepCtx kv s n = (r, s') \<Longrightarrow> contents s' = contents s"
    and cancel: "contents (CancelCtx kv s) = contents s"

definition entryAt :: "contents \<Rightarrow> string \<Rightarrow> entry" where
  "entryAt m k = (case m k of Some (Encoded e, _) \<Rightarrow> e | _ \<Rightarrow> \<lparr>EntryV = EntryVersion, EntrySignals = Map.empty\<rparr>)"

lemma entryAt_update [simp]:
  "entryAt (m(k \<mapsto> (Encoded e, rv))) k' = (if k' = k then e else entryAt m k')"
  by (simp add: entryAt_def)

text \<open>Entries of \<open>m\<close> only advance in \<open>m'\<close>: nothing absorbed is lost, no key disappears.\<close>

definition advances :: "contents \<Rightarrow> contents \<Rightarrow> bool" where
  "advances m m' =
     (\<forall>k. (m k \<noteq> None \<longrightarrow> m' k \<noteq> None)
        \<and> (\<forall>n sv. absorbed (entryAt m k) n sv \<longrightarrow> absorbed (entryAt m' k) n sv))"

lemma advances_refl [simp]: "advances m m"
  by (simp add: advances_def)

lemma advances_trans: "advances a b \<Longrightarrow> advances b c \<Longrightarrow> advances a c"
  by (auto simp: advances_def)

lemma absorbed_V [simp]: "absorbed (e\<lparr>EntryV := v\<rparr>) n sv = absorbed e n sv"
  by (simp add: absorbed_regs valReg_def locReg_def)

text \<open>What an update by a fold leaves behind: \<open>vals\<close> are folded into the entry at \<open>k\<close>.\<close>

definition foldedAt :: "contents \<Rightarrow> string \<Rightarrow> (string \<times> signalValue) list \<Rightarrow> contents \<Rightarrow> bool" where
  "foldedAt m k vals m' =
     (EntrySignals (entryAt m' k) = EntrySignals (fst (foldValues (entryAt m k) vals))
      \<and> (vals \<noteq> [] \<longrightarrow> m' k \<noteq> None) \<and> (\<forall>k'. k' \<noteq> k \<longrightarrow> m' k' = m k'))"

lemma entryAt_other: "m' k = m k \<Longrightarrow> entryAt m' k = entryAt m k"
  by (simp add: entryAt_def)

lemma absorbed_signals: "EntrySignals a = EntrySignals b \<Longrightarrow> absorbed a n sv = absorbed b n sv"
  by (simp add: absorbed_regs valReg_def locReg_def)

lemma foldedAt_advances:
  assumes "foldedAt m k vals m'" and "m k \<noteq> None \<Longrightarrow> m' k \<noteq> None"
  shows "advances m m'"
proof -
  have "absorbed (entryAt m' k') n sv" if "absorbed (entryAt m k') n sv" for k' n sv
  proof (cases "k' = k")
    case True
    then show ?thesis
      using assms(1) that absorbed_foldValues_mono
      by (auto simp: foldedAt_def absorbed_signals [of "entryAt m' k" "fst (foldValues (entryAt m k) vals)"])
  next
    case False
    then show ?thesis using assms(1) that entryAt_other [of m' k' m] by (simp add: foldedAt_def)
  qed
  moreover have "m k' \<noteq> None \<longrightarrow> m' k' \<noteq> None" for k'
    using assms by (cases "k' = k") (auto simp: foldedAt_def)
  ultimately show ?thesis by (simp add: advances_def)
qed

lemma storedAt_folded:
  assumes "storedAt m k (Encoded ((fst (foldValues (entryAt m k) vals))\<lparr>EntryV := v\<rparr>)) m'"
  shows "foldedAt m k vals m' \<and> m' k \<noteq> None"
  using assms by (auto simp: storedAt_def foldedAt_def)

lemma FoldValue_fresh: "EntrySignals e n = None \<Longrightarrow> snd (FoldValue e n sv)"
  by (simp add: FoldValue_changed_iff valReg_def val.settled_def)

lemma foldValues_fresh: "snd (foldValues \<lparr>EntryV = v, EntrySignals = Map.empty\<rparr> vals) \<longleftrightarrow> vals \<noteq> []"
proof (cases vals)
  case (Cons x xs)
  then show ?thesis
    using FoldValue_fresh [of "\<lparr>EntryV = v, EntrySignals = Map.empty\<rparr>" "fst x" "snd x"]
    by (cases x) (simp add: foldValues_Cons case_prod_beta Let_def)
qed simp

lemma foldValues_signals:
  "EntrySignals a = EntrySignals b \<Longrightarrow>
   EntrySignals (fst (foldValues a vals)) = EntrySignals (fst (foldValues b vals))"
proof (induction vals arbitrary: a b)
  case (Cons x vals)
  obtain n sv where x: "x = (n, sv)" by (cases x)
  have "EntrySignals (fst (FoldValue a n sv)) = EntrySignals (fst (FoldValue b n sv))"
    using Cons.prems by (simp add: FoldValue_def Let_def split: option.splits)
  from Cons.IH [OF this] show ?case by (simp add: x foldValues_Cons case_prod_beta Let_def)
qed simp

text \<open>Folding the same values again, as a retry does, is folding them once.\<close>

lemma foldedAt_again:
  assumes "foldedAt m k vals m1" and "foldedAt m1 k vals m2"
  shows "foldedAt m k vals m2"
proof -
  let ?f = "fst (foldValues (entryAt m k) vals)"
  have "foldValues ?f vals = (?f, False)"
    using absorbed_foldValues by (intro absorbed_all_unchanged) auto
  moreover have "EntrySignals (fst (foldValues (entryAt m1 k) vals)) = EntrySignals (fst (foldValues ?f vals))"
    using assms(1) by (intro foldValues_signals) (simp add: foldedAt_def)
  ultimately show ?thesis using assms by (simp add: foldedAt_def)
qed

definition rowKey :: "('r \<Rightarrow> string \<times> string \<times> signalValue) \<Rightarrow> 'r res \<Rightarrow> string \<times> string" where
  "rowKey conv x = (case x of Inl _ \<Rightarrow> ([], []) | Inr r \<Rightarrow> (fst (conv r), fst (snd (conv r))))"

lemma rowKey_Inr [simp]: "rowKey conv (Inr y) = (fst (conv y), fst (snd (conv y)))"
  by (simp add: rowKey_def)

context kv_bucket
begin

lemma getEntry_result:
  assumes "getEntry kv s k = (r, s')"
  shows "contents s' = contents s"
    and "r = Inr (e, rv) \<Longrightarrow> e = entryAt (contents s) k \<and> (if rv = 0 then contents s k = None else \<exists>u. contents s k = Some (u, rv))"
  using assms get_found [of s k] get_absent [of s k] get_error [of s k]
  by (auto simp: getEntry_def entryAt_def Let_def split: prod.splits getResult.splits kvValue.splits)

lemma putEntry_result:
  assumes "putEntry kv s k e rv = (r, s')" and "if rv = 0 then contents s k = None else \<exists>u. contents s k = Some (u, rv)"
  shows "(r = Inr () \<longrightarrow> storedAt (contents s) k (Encoded (e\<lparr>EntryV := EntryVersion\<rparr>)) (contents s'))
    \<and> (contents s' = contents s \<or> storedAt (contents s) k (Encoded (e\<lparr>EntryV := EntryVersion\<rparr>)) (contents s'))
    \<and> r \<noteq> Inl errCASConflict"
proof -
  let ?v = "Encoded (e\<lparr>EntryV := EntryVersion\<rparr>)"
  show ?thesis
    using assms create_written [of s k ?v s'] create_exists [of s k ?v s'] create_error [of s k ?v _ s']
      update_written [of s k ?v rv s'] update_exists [of s k ?v rv s'] update_error [of s k ?v rv _ s']
    by (auto simp: putEntry_def Let_def errCASConflict_def split: prod.splits writeResult.splits if_splits)
qed

text \<open>
  The loop, sole writer: on success the values are folded in; on an error they may be, and
  in both cases nothing else changed.
\<close>

lemma updateEntryLoop_fold:
  assumes "updateEntryLoop kv k (\<lambda>e. foldValues e vals) left s = (r, s')" and "0 < left"
  shows "(is_ok r \<longrightarrow> foldedAt (contents s) k vals (contents s'))
    \<and> (contents s' = contents s \<or> foldedAt (contents s) k vals (contents s') \<and> contents s' k \<noteq> None)"
  using assms
proof (induction left arbitrary: s)
  case (Suc left)
  obtain g s1 where g: "getEntry kv s k = (g, s1)" by (cases "getEntry kv s k")
  have c1: "contents s1 = contents s" using getEntry_result(1) [OF g] .
  show ?case
  proof (cases g)
    case (Inl err)
    with Suc.prems g c1 show ?thesis by auto
  next
    case (Inr x)
    obtain e rv where x: "g = Inr (e, rv)" using Inr by (cases x) auto
    have e: "e = entryAt (contents s) k"
      and rv: "if rv = 0 then contents s1 k = None else \<exists>u. contents s1 k = Some (u, rv)"
      using getEntry_result(2) [OF g x] c1 by auto
    obtain f ch where f: "foldValues e vals = (f, ch)" by (cases "foldValues e vals")
    show ?thesis
    proof (cases ch)
      case False
      then have fe: "f = e" using foldValues_unchanged [of e vals] f by simp
      have "vals = [] \<or> contents s k \<noteq> None"
        using False f e foldValues_fresh [of EntryVersion vals] by (auto simp: entryAt_def split: option.splits)
      then show ?thesis
        using Suc.prems g x f False c1 fe e by (auto simp: foldedAt_def)
    next
      case True
      obtain p s2 where p: "putEntry kv s1 k f rv = (p, s2)" by (cases "putEntry kv s1 k f rv")
      note pr = putEntry_result [OF p rv]
      have st: "foldedAt (contents s) k vals (contents s2) \<and> contents s2 k \<noteq> None"
        if "storedAt (contents s1) k (Encoded (f\<lparr>EntryV := EntryVersion\<rparr>)) (contents s2)"
        using storedAt_folded [of "contents s" k EntryVersion vals "contents s2"] that c1 e f by simp
      have step: "(is_ok r \<longrightarrow> foldedAt (contents s) k vals (contents s'))
          \<and> (contents s' = contents s \<or> foldedAt (contents s) k vals (contents s') \<and> contents s' k \<noteq> None)"
        if "updateEntryLoop kv k (\<lambda>e. foldValues e vals) left s3 = (r, s')" "0 < left" "contents s3 = contents s2" for s3
        using Suc.IH [OF that(1,2)] pr st c1 that(3) foldedAt_again by metis
      show ?thesis
        using Suc.prems g x f True p pr st c1 step sleep
        by (auto split: sum.splits if_splits prod.splits option.splits)
    qed
  qed
qed simp

lemma updateEntry_fold:
  assumes "updateEntry kv s k (\<lambda>e. foldValues e vals) = (r, s')"
  shows "is_ok r \<Longrightarrow> foldedAt (contents s) k vals (contents s')" and "advances (contents s) (contents s')"
proof -
  note f = updateEntryLoop_fold [OF assms [unfolded updateEntry_def], unfolded casAttempts_def, simplified]
  show "is_ok r \<Longrightarrow> foldedAt (contents s) k vals (contents s')" using f by blast
  show "advances (contents s) (contents s')" using f foldedAt_advances [of "contents s" k vals "contents s'"] by auto
qed

lemma publishSubject_fold:
  assumes "publishSubject kv s subject rows = (r, s')"
  shows "is_ok r \<Longrightarrow> foldedAt (contents s) (KeyForSubject subject) (map (\<lambda>r. (RName r, rowValue r)) rows) (contents s')"
    and "advances (contents s) (contents s')"
  using updateEntry_fold [of s "KeyForSubject subject" "map (\<lambda>r. (RName r, rowValue r)) rows" r s'] assms
  by (auto simp: publishSubject_def foldRows_foldValues)

lemma publishGroup_advances:
  "publishGroup kv rows subjects err s = (r, s') \<Longrightarrow> advances (contents s) (contents s')"
proof (induction subjects arbitrary: err s)
  case (Cons subject subjects)
  obtain p s1 where p: "publishSubject kv s subject (filter (\<lambda>r. RSubject r = subject) rows) = (p, s1)"
    by (cases "publishSubject kv s subject (filter (\<lambda>r. RSubject r = subject) rows)")
  have a: "advances (contents s) (contents s1)" using publishSubject_fold(2) [OF p] .
  have "\<exists>err' s2. contents s2 = contents s1 \<and> publishGroup kv rows subjects err' s2 = (r, s')"
    using Cons.prems p cancel by (auto split: sum.splits option.splits)
  then show ?case using Cons.IH advances_trans [OF a] by metis
qed simp

lemma publishGroup_complete:
  assumes "publishGroup kv rows subjects None s = (None, s')" and "x \<in> set rows" and "RSubject x \<in> set subjects"
  shows "absorbed (entryAt (contents s') (KeyForSubject (RSubject x))) (RName x) (rowValue x)"
  using assms(1,3)
proof (induction subjects arbitrary: s)
  case (Cons subject subjects)
  let ?rows = "filter (\<lambda>r. RSubject r = subject) rows"
  have fe: "publishGroup kv rows ss (Some e) s2 = (None, s') \<Longrightarrow> False" for ss e s2
    by (induction ss arbitrary: s2) (auto split: sum.splits prod.splits)
  obtain p s1 where p: "publishSubject kv s subject ?rows = (p, s1)" by (cases "publishSubject kv s subject ?rows")
  have ok: "is_ok p" and rest: "publishGroup kv rows subjects None s1 = (None, s')"
    using Cons.prems p fe by (auto split: sum.splits)
  show ?case
  proof (cases "RSubject x = subject")
    case True
    then have "absorbed (entryAt (contents s1) (KeyForSubject subject)) (RName x) (rowValue x)"
      using publishSubject_fold(1) [OF p ok] assms(2)
        absorbed_foldValues [of "RName x" "rowValue x" "map (\<lambda>r. (RName r, rowValue r)) ?rows"]
      by (auto simp: foldedAt_def cong: absorbed_signals)
    then show ?thesis using publishGroup_advances [OF rest] True by (auto simp: advances_def)
  qed (use Cons.IH [OF rest] Cons.prems in simp)
qed simp

lemma flushPending_result:
  assumes "flushPending kv cur pending n s = (r, s')"
  shows "advances (contents s) (contents s')"
    and "is_ok r \<Longrightarrow> (name, sv) \<in> set pending \<Longrightarrow> absorbed (entryAt (contents s') (KeyForSubject cur)) name sv"
proof -
  show "advances (contents s) (contents s')"
    using assms updateEntry_fold(2) [of s "KeyForSubject cur" pending]
    by (auto simp: flushPending_def split: if_splits prod.splits sum.splits)
  assume "is_ok r" and m: "(name, sv) \<in> set pending"
  then obtain q where q: "updateEntry kv s (KeyForSubject cur) (\<lambda>e. foldValues e pending) = (q, s')" "is_ok q"
    using assms by (auto simp: flushPending_def split: if_splits prod.splits sum.splits)
  from updateEntry_fold(1) [OF this]
  have "EntrySignals (entryAt (contents s') (KeyForSubject cur))
      = EntrySignals (fst (foldValues (entryAt (contents s) (KeyForSubject cur)) pending))"
    by (simp add: foldedAt_def)
  from absorbed_signals [OF this] show "absorbed (entryAt (contents s') (KeyForSubject cur)) name sv"
    using absorbed_foldValues [OF m] by simp
qed

lemma mergeRowsLoop_advances:
  "mergeRowsLoop kv m1 m2 m3 conv rows err cur pending n s = (r, s') \<Longrightarrow> advances (contents s) (contents s')"
proof (induction rows arbitrary: cur pending n s)
  case Nil
  then show ?case using flushPending_result(1) by (auto split: option.splits prod.splits sum.splits)
next
  case (Cons x rows)
  show ?case
  proof (cases x)
    case (Inr y)
    obtain subject name sv where y: "conv y = (subject, name, sv)" by (cases "conv y")
    obtain f s1 where f: "flushPending kv cur pending n s = (f, s1)" by (cases "flushPending kv cur pending n s")
    then have a: "advances (contents s) (contents s1)" by (rule flushPending_result(1))
    show ?thesis
      using Cons Inr y f a by (auto split: if_splits sum.splits intro: advances_trans [OF a])
  qed (use Cons in auto)
qed

lemma mergeRowsLoop_complete:
  assumes "mergeRowsLoop kv m1 m2 m3 conv rows err cur pending n s = (Inr k, s')"
    and "distinct (map (\<lambda>v. (cur, fst v)) pending @ map (rowKey conv) rows)"
  shows "(\<forall>(name, sv) \<in> set pending. absorbed (entryAt (contents s') (KeyForSubject cur)) name sv)
    \<and> (\<forall>r. Inr r \<in> set rows \<longrightarrow> (let (subject, name, sv) = conv r in
          absorbed (entryAt (contents s') (KeyForSubject subject)) name sv))"
  using assms
proof (induction rows arbitrary: cur pending n s)
  case Nil
  then show ?case
    using flushPending_result(2) by (fastforce split: option.splits prod.splits sum.splits)
next
  case (Cons x rows)
  obtain y where x: "x = Inr y" using Cons.prems by (cases x) auto
  obtain subject name sv where y: "conv y = (subject, name, sv)" by (cases "conv y")
  show ?case
  proof (cases "subject = cur")
    case True
    have "setPending name sv pending = pending @ [(name, sv)]"
      using Cons.prems(2) x y True by (auto simp: setPending_def)
    then have r: "mergeRowsLoop kv m1 m2 m3 conv rows err cur (pending @ [(name, sv)]) n s = (Inr k, s')"
      using Cons.prems(1) x y True by simp
    have "distinct (map (\<lambda>v. (cur, fst v)) (pending @ [(name, sv)]) @ map (rowKey conv) rows)"
      using Cons.prems(2) x y True by auto
    from Cons.IH [OF r this] show ?thesis using x y True by auto
  next
    case False
    obtain f s1 where f: "flushPending kv cur pending n s = (Inr f, s1)"
      and r: "mergeRowsLoop kv m1 m2 m3 conv rows err subject [(name, sv)] f s1 = (Inr k, s')"
      using Cons.prems(1) x y False by (auto simp: setPending_def split: sum.splits prod.splits)
    have "distinct (map (\<lambda>v. (subject, fst v)) [(name, sv)] @ map (rowKey conv) rows)"
      using Cons.prems(2) x y by auto
    from Cons.IH [OF r this] have IH: "(\<forall>(name, sv) \<in> set [(name, sv)]. absorbed (entryAt (contents s') (KeyForSubject subject)) name sv)
      \<and> (\<forall>r. Inr r \<in> set rows \<longrightarrow> (let (subject, name, sv) = conv r in
          absorbed (entryAt (contents s') (KeyForSubject subject)) name sv))" .
    have "absorbed (entryAt (contents s') (KeyForSubject cur)) n' sv'" if "(n', sv') \<in> set pending" for n' sv'
      using flushPending_result(2) [OF f _ that] mergeRowsLoop_advances [OF r] by (simp add: advances_def)
    with IH x y show ?thesis by auto
  qed
qed

lemma mergeFromRollup_absorbs:
  assumes "mergeFromRollup kv db s = (Inr k, s')" and "RollupRows db = Inr (rows, err)"
    and "distinct (map (rowKey rollupValue) rows)"
  shows "Inr r \<in> set rows \<Longrightarrow> rollupValue r = (subject, name, sv) \<Longrightarrow>
      absorbed (entryAt (contents s') (KeyForSubject subject)) name sv"
    and "rollupWatermark db = Inr w \<Longrightarrow> w \<noteq> 0 \<Longrightarrow> TailRows db w = Inr (trows, terr) \<Longrightarrow>
      distinct (map (rowKey tailValue) trows) \<Longrightarrow> Inr t \<in> set trows \<Longrightarrow> tailValue t = (subject, name, sv) \<Longrightarrow>
      absorbed (entryAt (contents s') (KeyForSubject subject)) name sv"
proof -
  obtain m s1 n where m: "mergeRowsLoop kv ''merging subject '' ''scanning rollup row'' ''rollup scan'' rollupValue
        rows err [] [] 0 s = (Inr m, s1)" and t: "mergeTailSinceWatermark kv db s1 = (Inr n, s')"
    using assms(1,2) by (auto simp: mergeFromRollup_def split: prod.splits sum.splits)
  have adv: "advances (contents s1) (contents s')"
    using t mergeRowsLoop_advances
    by (auto simp: mergeTailSinceWatermark_def split: sum.splits prod.splits if_splits)
  show "Inr r \<in> set rows \<Longrightarrow> rollupValue r = (subject, name, sv) \<Longrightarrow>
      absorbed (entryAt (contents s') (KeyForSubject subject)) name sv"
    using mergeRowsLoop_complete [OF m] assms(3) adv by (auto simp: advances_def)
  assume w: "rollupWatermark db = Inr w" "w \<noteq> 0" "TailRows db w = Inr (trows, terr)"
    and d: "distinct (map (rowKey tailValue) trows)" and t': "Inr t \<in> set trows" "tailValue t = (subject, name, sv)"
  have "mergeRowsLoop kv ''merging tail subject '' ''scanning tail row'' ''tail scan'' tailValue trows terr [] [] 0 s1
      = (Inr n, s')"
    using t w by (simp add: mergeTailSinceWatermark_def go_defs)
  from mergeRowsLoop_complete [OF this] d t'
  show "absorbed (entryAt (contents s') (KeyForSubject subject)) name sv" by auto
qed

end

subsection \<open>A bucket in memory\<close>

text \<open>
  The contract is satisfiable: a map with a sequence number, whose calls fail once the
  context is cancelled.
\<close>

record memBucket =
  cells :: contents
  seqNo :: nat
  canceled :: bool

definition memWrite :: "memBucket \<Rightarrow> string \<Rightarrow> kvValue \<Rightarrow> memBucket" where
  "memWrite s k v = s\<lparr>cells := (cells s)(k \<mapsto> (v, Suc (seqNo s))), seqNo := Suc (seqNo s)\<rparr>"

definition memClient :: "memBucket kvClient" where
  "memClient =
     \<lparr>KvGet = (\<lambda>s k. (if canceled s then GetError ErrCanceled
        else case cells s k of None \<Rightarrow> KeyNotFound
          | Some (v, rv) \<Rightarrow> if rv = 0 then GetError (Err ''bad revision'') else Found v rv, s)),
      KvCreate = (\<lambda>s k v. if canceled s then (WriteError ErrCanceled, s)
        else if cells s k = None then (Written, memWrite s k v) else (KeyExists, s)),
      KvUpdate = (\<lambda>s k v rv. if canceled s then (WriteError ErrCanceled, s)
        else case cells s k of None \<Rightarrow> (KeyExists, s)
          | Some (u, r) \<Rightarrow> if r = rv then (Written, memWrite s k v) else (KeyExists, s)),
      KvPut = (\<lambda>s k v. if canceled s then (Some ErrCanceled, s) else (None, memWrite s k v)),
      KvDelete = (\<lambda>s k. if canceled s then (Some ErrCanceled, s) else (None, s\<lparr>cells := (cells s)(k := None)\<rparr>)),
      CancelCtx = (\<lambda>s. s\<lparr>canceled := True\<rparr>),
      SleepCtx = (\<lambda>s n. (if canceled s then Some ErrCanceled else None, s))\<rparr>"

lemma memWrite_stored: "storedAt (cells s) k v (cells (memWrite s k v))"
  by (auto simp: storedAt_def memWrite_def)

interpretation mem: kv_bucket memClient cells
  by unfold_locales
    (auto simp: memClient_def memWrite_stored split: if_splits option.splits prod.splits)

definition emptyBucket :: memBucket where
  "emptyBucket = \<lparr>cells = Map.empty, seqNo = 0, canceled = False\<rparr>"

lemma cells_emptyBucket [simp]: "cells emptyBucket = Map.empty"
  by (simp add: emptyBucket_def)

subsection \<open>Properties\<close>

text \<open>
  A publish that reports success has folded every row of the batch into the entry of
  its subject, and whether it succeeds or not, no entry loses a reading and no key is lost.
\<close>

theorem publish_absorbs:
  assumes "kv_bucket kv contents" and "PublishSignals kv subjects s rows = (r, s')"
    and "set subjects = RSubject ` set rows"
  shows "advances (contents s) (contents s')
    \<and> (is_ok r \<longrightarrow> (\<forall>x \<in> set rows.
         absorbed (entryAt (contents s') (KeyForSubject (RSubject x))) (RName x) (rowValue x)))"
proof (cases "rows = []")
  case True
  then show ?thesis using assms(2) by (auto simp: PublishSignals_def)
next
  case False
  obtain err where g: "publishGroup kv rows subjects None s = (err, s')" and r: "is_ok r \<longleftrightarrow> err = None"
    using assms(2) False by (auto simp: PublishSignals_def split: option.splits prod.splits)
  have "absorbed (entryAt (contents s') (KeyForSubject (RSubject x))) (RName x) (rowValue x)"
    if "is_ok r" "x \<in> set rows" for x
    using kv_bucket.publishGroup_complete [OF assms(1), of rows subjects s s' x] g r that assms(3) by simp
  then show ?thesis using kv_bucket.publishGroup_advances [OF assms(1) g] by blast
qed

lemma mem_publish_ok:
  "fst (PublishSignals memClient [''veh''] emptyBucket [demo_row 5 ''a'' 1]) = Inr ()"
  by (simp add: PublishSignals_def publishSubject_def updateEntry_def casAttempts_def getEntry_def putEntry_def
      memClient_def emptyBucket_def demo_row_def foldRows_def Fold_def FoldValue_def rowValue_def rowLoc_def
      jsonEntryOk_def jsonValueOk_def jsonTimeOk_def jsonNumOk_def isNaN_def isInf_def second_def f64_ne_def
      f64_eq_def zeroSignalValue_def eval_nat_numeral Let_def)

theorem publish_absorbs_witness:
  "absorbed (entryAt (cells (snd (PublishSignals memClient [''veh''] emptyBucket [demo_row 5 ''a'' 1])))
     (KeyForSubject ''veh'')) ''speed'' (rowValue (demo_row 5 ''a'' 1))"
proof -
  let ?p = "PublishSignals memClient [''veh''] emptyBucket [demo_row 5 ''a'' 1]"
  have "?p = (Inr (), snd ?p)" using mem_publish_ok by (metis prod.collapse)
  from publish_absorbs [OF mem.kv_bucket_axioms this] show ?thesis by (simp add: demo_row_def)
qed

text \<open>
  C21. Reading back: after a publish of at least one row to a subject succeeds, a read of
  that subject that does not fail returns an entry, and its signals are exactly the rows
  folded into the entry stored before.
\<close>

theorem publish_read_back:
  assumes "kv_bucket kv contents" and "publishSubject kv s subject rows = (Inr (), s')" and "rows \<noteq> []"
    and "GetEntry kv s' subject = (Inr found, s'')"
  shows "\<exists>e. found = Some e
    \<and> EntrySignals e = EntrySignals (fst (foldRows (entryAt (contents s) (KeyForSubject subject)) rows))"
proof -
  have f: "foldedAt (contents s) (KeyForSubject subject) (map (\<lambda>r. (RName r, rowValue r)) rows) (contents s')"
    using kv_bucket.publishSubject_fold(1) [OF assms(1,2)] by simp
  then have "contents s' (KeyForSubject subject) \<noteq> None" using assms(3) by (simp add: foldedAt_def)
  then show ?thesis
    using f assms(4) kv_bucket.get_absent [OF assms(1), of s' "KeyForSubject subject"]
      kv_bucket.get_found [OF assms(1), of s' "KeyForSubject subject"]
    by (auto simp: GetEntry_def foldedAt_def foldRows_foldValues entryAt_def split: prod.splits getResult.splits kvValue.splits)
qed

lemma mem_publishSubject:
  "publishSubject memClient emptyBucket ''veh'' [demo_row 5 ''a'' 1]
   = (Inr (), memWrite emptyBucket (KeyForSubject ''veh'') (Encoded (fst (foldRows emptyEntry [demo_row 5 ''a'' 1]))))"
  by (simp add: publishSubject_def updateEntry_def casAttempts_def getEntry_def putEntry_def
      memClient_def emptyBucket_def demo_row_def foldRows_def Fold_def FoldValue_def rowValue_def rowLoc_def
      jsonEntryOk_def jsonValueOk_def jsonTimeOk_def jsonNumOk_def isNaN_def isInf_def second_def f64_ne_def
      f64_eq_def zeroSignalValue_def eval_nat_numeral emptyEntry_def EntryVersion_def Let_def)

theorem publish_read_back_witness:
  "\<exists>e. EntrySignals e = EntrySignals (fst (foldRows (entryAt Map.empty (KeyForSubject ''veh'')) [demo_row 5 ''a'' 1]))
     \<and> fst (GetEntry memClient (snd (publishSubject memClient emptyBucket ''veh'' [demo_row 5 ''a'' 1])) ''veh'') = Inr (Some e)"
proof -
  let ?s = "memWrite emptyBucket (KeyForSubject ''veh'') (Encoded (fst (foldRows emptyEntry [demo_row 5 ''a'' 1])))"
  obtain found where g: "GetEntry memClient ?s ''veh'' = (Inr found, ?s)"
    by (simp add: GetEntry_def memClient_def memWrite_def emptyBucket_def)
  from publish_read_back [OF mem.kv_bucket_axioms mem_publishSubject _ g] g show ?thesis
    by (auto simp: mem_publishSubject)
qed

lemma absorbed_key: "absorbed (entryAt m k) n sv \<Longrightarrow> m k \<noteq> None"
  by (rule notI) (simp add: absorbed_def entryAt_def FoldValue_fresh)

text \<open>
  A reconcile that reports success has folded every row of the rollup, and every row of
  the tail since a nonzero watermark, into the bucket: each of those subjects has a key.
\<close>

theorem reconcile_complete:
  assumes "kv_bucket kv contents" and "ReconcileFromRollup kv db s = (Inr (), s')"
    and "RollupRows db = Inr (rows, err)" and "distinct (map (rowKey rollupValue) rows)"
    and "rollupWatermark db = Inr w" and "w \<noteq> 0" and "TailRows db w = Inr (tail, terr)"
    and "distinct (map (rowKey tailValue) tail)"
    and "(\<exists>r. Inr r \<in> set rows \<and> rollupValue r = (subject, name, sv))
       \<or> (\<exists>t. Inr t \<in> set tail \<and> tailValue t = (subject, name, sv))"
  shows "contents s' (KeyForSubject subject) \<noteq> None
    \<and> absorbed (entryAt (contents s') (KeyForSubject subject)) name sv"
proof -
  obtain k where "mergeFromRollup kv db s = (Inr k, s')"
    using assms(2) by (auto simp: ReconcileFromRollup_def split: prod.splits sum.splits)
  from kv_bucket.mergeFromRollup_absorbs [OF assms(1) this assms(3,4)] assms(5-9)
  have "absorbed (entryAt (contents s') (KeyForSubject subject)) name sv" by blast
  then show ?thesis by (simp add: absorbed_key)
qed

definition demo_tail :: tailRow where
  "demo_tail = \<lparr>TaSubject = ''veh'', TaName = ''speed'', TaTS = 7, TaCEID = ''c'', TaNum = Fin 3, TaStr = [],
     TaLocTS = None, TaLocCEID = [], TaLat = Fin 0, TaLon = Fin 0, TaHDOP = Fin 0, TaHeading = Fin 0\<rparr>"

definition demo_lake :: lakeDb where
  "demo_lake = \<lparr>RollupRows = Inr ([], None), WatermarkCursor = Inr (Some ''w''),
     TailRows = (\<lambda>w. Inr ([Inr demo_tail], None)), parseRFC3339 = (\<lambda>raw. Inr 6)\<rparr>"

lemma demo_reconcile_ok: "fst (ReconcileFromRollup memClient demo_lake emptyBucket) = Inr ()"
  by (simp add: ReconcileFromRollup_def mergeFromRollup_def mergeTailSinceWatermark_def rollupWatermark_def
      demo_lake_def demo_tail_def tailValue_def flushPending_def setPending_def go_defs
      updateEntry_def casAttempts_def getEntry_def putEntry_def memClient_def emptyBucket_def
      foldValues_def FoldValue_def jsonEntryOk_def jsonValueOk_def jsonTimeOk_def jsonNumOk_def second_def
      zeroSignalValue_def eval_nat_numeral Let_def)

theorem reconcile_complete_witness:
  "cells (snd (ReconcileFromRollup memClient demo_lake emptyBucket)) (KeyForSubject ''veh'') \<noteq> None"
proof -
  let ?p = "ReconcileFromRollup memClient demo_lake emptyBucket"
  have "?p = (Inr (), snd ?p)" using demo_reconcile_ok by (metis prod.collapse)
  from reconcile_complete [OF mem.kv_bucket_axioms this, of "[]" None 6 "[Inr demo_tail]" None]
  show ?thesis
    by (simp add: demo_lake_def rollupWatermark_def tailValue_def demo_tail_def)
qed

subsection \<open>Keys\<close>

lemma b64alphabet: "length b64alphabet = 64" "distinct b64alphabet"
  by (simp_all add: b64alphabet_def)

lemma b64char_inj: "b64char m = b64char n \<longleftrightarrow> m mod 64 = n mod 64"
  using nth_eq_iff_index_eq [OF b64alphabet(2), of "m mod 64" "n mod 64"] b64alphabet(1) by (auto simp: b64char_def)

lemma byte_less: "byte c < 256"
  using of_char_mod_256 [of c, where 'a = nat] by (metis byte_def mod_less_divisor zero_less_numeral)

lemma byte_inj: "byte a = byte b \<longleftrightarrow> a = b"
  by (auto simp: byte_def)

lemma b64_first: "b64char (byte a div 4) = b64char (byte b div 4) \<longleftrightarrow> byte a div 4 = byte b div 4"
  using byte_less [of a] byte_less [of b] by (simp add: b64char_inj)

lemma digit_eq:
  assumes "x < c" "y < c"
  shows "a * c + x = b * c + y \<longleftrightarrow> a = b \<and> x = (y :: nat)"
proof
  assume e: "a * c + x = b * c + y"
  have "(a * c + x) div c = a" "(b * c + y) div c = b" "(a * c + x) mod c = x" "(b * c + y) mod c = y"
    using assms by simp_all
  then show "a = b \<and> x = y" using e by metis
qed simp

lemma b64_digits:
  assumes "x < c" "y < c" "m < d" "n < d" "d * c \<le> 64"
  shows "b64char (m * c + x) = b64char (n * c + y) \<longleftrightarrow> m = n \<and> x = y"
proof -
  have "m * c + x < 64" if "m < d" "x < c" for m x
  proof -
    have "m * c + x < Suc m * c" using that by simp
    also have "\<dots> \<le> d * c" using that by (intro mult_le_mono1) simp
    finally show ?thesis using assms(5) by simp
  qed
  then have "m * c + x < 64" "n * c + y < 64" using assms by blast+
  then show ?thesis using digit_eq [OF assms(1,2), of m n] by (simp add: b64char_inj)
qed

lemma div_mod_eq: "(a :: nat) div n = b div n \<Longrightarrow> a mod n = b mod n \<Longrightarrow> a = b"
  by (metis div_mult_mod_eq)

lemma b64_second:
  "b64char (byte a mod 4 * 16 + byte b div 16) = b64char (byte a' mod 4 * 16 + byte b' div 16)
   \<longleftrightarrow> byte a mod 4 = byte a' mod 4 \<and> byte b div 16 = byte b' div 16"
  using byte_less [of b] byte_less [of b'] by (intro b64_digits [where d = 4]) auto

lemma b64_second_short:
  "b64char (byte a mod 4 * 16) = b64char (byte a' mod 4 * 16) \<longleftrightarrow> byte a mod 4 = byte a' mod 4"
  using b64_digits [of 0 16 0 "byte a mod 4" 4 "byte a' mod 4"] by simp

lemma b64_third:
  "b64char (byte b mod 16 * 4 + byte c div 64) = b64char (byte b' mod 16 * 4 + byte c' div 64)
   \<longleftrightarrow> byte b mod 16 = byte b' mod 16 \<and> byte c div 64 = byte c' div 64"
  using byte_less [of c] byte_less [of c'] by (intro b64_digits [where d = 16]) auto

lemma b64_third_short:
  "b64char (byte b mod 16 * 4) = b64char (byte b' mod 16 * 4) \<longleftrightarrow> byte b mod 16 = byte b' mod 16"
  using b64_digits [of 0 4 0 "byte b mod 16" 16 "byte b' mod 16"] by simp

lemma b64_fourth: "b64char (byte c mod 64) = b64char (byte c' mod 64) \<longleftrightarrow> byte c mod 64 = byte c' mod 64"
  by (simp add: b64char_inj)

lemmas b64_eqs = b64_first b64_second b64_second_short b64_third b64_third_short b64_fourth

lemma byte_split: "byte a div n = byte b div n \<Longrightarrow> byte a mod n = byte b mod n \<Longrightarrow> a = b"
  using div_mod_eq byte_inj by blast

lemma RawURLEncoding_inj: "RawURLEncoding x = RawURLEncoding y \<Longrightarrow> x = y"
proof (induction x arbitrary: y rule: RawURLEncoding.induct)
  case 1
  then show ?case by (cases y rule: RawURLEncoding.cases) auto
next
  case (2 a)
  then show ?case by (cases y rule: RawURLEncoding.cases) (auto simp: b64_eqs intro: byte_split)
next
  case (3 a b)
  then show ?case by (cases y rule: RawURLEncoding.cases) (auto simp: b64_eqs intro: byte_split)
next
  case (4 a b c rest)
  then show ?case by (cases y rule: RawURLEncoding.cases) (auto simp: b64_eqs intro: byte_split)
qed

text \<open>
  C30. Two subjects never share a key, and no subject's key is the bootstrap marker.
\<close>

theorem KeyForSubject_inj:
  "(KeyForSubject a = KeyForSubject b \<longleftrightarrow> a = b) \<and> KeyForSubject a \<noteq> bootstrapMarkerKey"
  using RawURLEncoding_inj [of a b]
  by (auto simp: KeyForSubject_def subjectKeyPrefix_def bootstrapMarkerKey_def)

text \<open>
  The group's context is cancelled by the first failure, so subjects that had not been
  written then are not written by this call.
\<close>

lemma mem_publish_canceled:
  "canceled s \<Longrightarrow> publishSubject memClient s subject rows = (Inl (Wrap ''kv get'' ErrCanceled), s)"
  by (simp add: publishSubject_def updateEntry_def casAttempts_def eval_nat_numeral getEntry_def memClient_def)

lemma mem_cancel: "CancelCtx memClient s = s\<lparr>canceled := True\<rparr>"
  by (simp add: memClient_def)

lemma publish_stops_at_first_failure:
  "canceled s \<Longrightarrow> cells (snd (publishGroup memClient rows subjects err s)) = cells s"
  by (induction subjects arbitrary: err s) (auto simp: mem_publish_canceled mem_cancel split: option.splits)

end
