(* ===== verification/Kv_Cas.thy ===== *)
theory Kv_Cas
  imports Kv_Store
begin

section \<open>Concurrent writers of one entry (internal/latestkv/store.go, updateEntry)\<close>

text \<open>
  The decode loop, the coverage reconcile and a backfill write the same bucket. Each runs
  \<open>updateEntry\<close>; here any number of them run at once against one key, interleaved at the
  granularity of their calls to the server. A writer is between two calls in one of the
  phases below; \<open>vals i\<close> is what writer \<open>i\<close> folds.

  Shown here: a writer that reports success has its values in the entry, now and after
  anything the others do later, also when a write is applied but its acknowledgement is
  lost; and every writer finishes after at most sixteen calls.
\<close>

datatype phase =
    Trying nat
  | Holding nat entry nat
  | Succeeded
  | Failed goerr

record casState =
  cell :: "(kvValue \<times> nat) option"
  lastRev :: nat
  phaseOf :: "nat \<Rightarrow> phase"

definition cellEntry :: "casState \<Rightarrow> entry" where
  "cellEntry s = (case cell s of Some (Encoded e, _) \<Rightarrow> e | _ \<Rightarrow> \<lparr>EntryV = EntryVersion, EntrySignals = Map.empty\<rparr>)"

definition cellRev :: "casState \<Rightarrow> nat" where
  "cellRev s = (case cell s of None \<Rightarrow> 0 | Some (_, rv) \<Rightarrow> rv)"

definition setPhase :: "casState \<Rightarrow> nat \<Rightarrow> phase \<Rightarrow> casState" where
  "setPhase s i p = s\<lparr>phaseOf := (phaseOf s)(i := p)\<rparr>"

definition storeCell :: "casState \<Rightarrow> entry \<Rightarrow> nat \<Rightarrow> casState" where
  "storeCell s e rv = s\<lparr>cell := Some (Encoded (e\<lparr>EntryV := EntryVersion\<rparr>), rv), lastRev := rv\<rparr>"

text \<open>One call of one writer; a revision is a stream sequence number, so it only grows.\<close>

inductive casStep :: "(nat \<Rightarrow> (string \<times> signalValue) list) \<Rightarrow> casState \<Rightarrow> casState \<Rightarrow> bool"
  for vals where
  read_changed:
    "phaseOf s i = Trying a \<Longrightarrow> foldValues (cellEntry s) (vals i) = (e, True) \<Longrightarrow>
     casStep vals s (setPhase s i (Holding a e (cellRev s)))"
| read_unchanged:
    "phaseOf s i = Trying a \<Longrightarrow> foldValues (cellEntry s) (vals i) = (e, False) \<Longrightarrow>
     casStep vals s (setPhase s i Succeeded)"
| read_error:
    "phaseOf s i = Trying a \<Longrightarrow> casStep vals s (setPhase s i (Failed (Wrap ''kv get'' err)))"
| write_ok:
    "phaseOf s i = Holding a e rv \<Longrightarrow> rv = cellRev s \<Longrightarrow> lastRev s < rv' \<Longrightarrow>
     casStep vals s (setPhase (storeCell s e rv') i Succeeded)"
| write_unacknowledged:
    "phaseOf s i = Holding a e rv \<Longrightarrow> rv = cellRev s \<Longrightarrow> lastRev s < rv' \<Longrightarrow>
     casStep vals s (setPhase (storeCell s e rv') i (Failed (Wrap ''kv write'' err)))"
| write_error:
    "phaseOf s i = Holding a e rv \<Longrightarrow> casStep vals s (setPhase s i (Failed err))"
| write_conflict:
    "phaseOf s i = Holding a e rv \<Longrightarrow> rv \<noteq> cellRev s \<Longrightarrow> a < casAttempts - 1 \<Longrightarrow>
     casStep vals s (setPhase s i (Trying (a + 1)))"
| attempts_exhausted:
    "phaseOf s i = Holding a e rv \<Longrightarrow> rv \<noteq> cellRev s \<Longrightarrow> casStep vals s (setPhase s i (Failed errCASConflict))"

inductive_cases casStepE: "casStep vals s s'"

definition casInit :: "casState \<Rightarrow> bool" where
  "casInit s = (cellRev s \<le> lastRev s \<and> (\<forall>i. phaseOf s i = Trying 0))"

lemma setPhase_simps [simp]:
  "cellEntry (setPhase s i p) = cellEntry s" "cellRev (setPhase s i p) = cellRev s"
  "lastRev (setPhase s i p) = lastRev s" "phaseOf (setPhase s i p) = (phaseOf s)(i := p)"
  by (simp_all add: setPhase_def cellEntry_def cellRev_def)

lemma storeCell_simps [simp]:
  "cellEntry (storeCell s e rv) = e\<lparr>EntryV := EntryVersion\<rparr>" "cellRev (storeCell s e rv) = rv"
  "lastRev (storeCell s e rv) = rv" "phaseOf (storeCell s e rv) = phaseOf s"
  by (simp_all add: storeCell_def cellEntry_def cellRev_def)

subsection \<open>No update is lost\<close>

text \<open>
  The invariant: revisions are bounded by the last one; a writer whose revision is still
  current holds exactly its fold of the current entry; a writer that succeeded has been
  absorbed.
\<close>

definition casInv :: "(nat \<Rightarrow> (string \<times> signalValue) list) \<Rightarrow> casState \<Rightarrow> bool" where
  "casInv vals s =
     (cellRev s \<le> lastRev s
      \<and> (\<forall>i a e rv. phaseOf s i = Holding a e rv \<longrightarrow> rv \<le> lastRev s
           \<and> (rv = cellRev s \<longrightarrow> e = fst (foldValues (cellEntry s) (vals i))))
      \<and> (\<forall>i. phaseOf s i = Succeeded \<longrightarrow> (\<forall>(n, sv) \<in> set (vals i). absorbed (cellEntry s) n sv)))"

lemma casInit_inv: "casInit s \<Longrightarrow> casInv vals s"
  by (simp add: casInit_def casInv_def)

lemma cas_advances:
  assumes "casStep vals s s'" and "casInv vals s" and "absorbed (cellEntry s) n sv"
  shows "absorbed (cellEntry s') n sv"
  using assms(1)
proof (cases rule: casStep.cases)
  case (write_ok i a e rv rv')
  then have "e = fst (foldValues (cellEntry s) (vals i))" using assms(2) by (auto simp: casInv_def)
  with write_ok assms(3) show ?thesis by (simp add: absorbed_foldValues_mono)
next
  case (write_unacknowledged i a e rv rv' err)
  then have "e = fst (foldValues (cellEntry s) (vals i))" using assms(2) by (auto simp: casInv_def)
  with write_unacknowledged assms(3) show ?thesis by (simp add: absorbed_foldValues_mono)
qed (use assms(3) in simp_all)

lemma storeCell_inv:
  assumes "casInv vals s" and "phaseOf s i = Holding a e (cellRev s)" and "lastRev s < rv'"
    and "p = Succeeded \<or> (\<exists>err. p = Failed err)"
  shows "casInv vals (setPhase (storeCell s e rv') i p)"
proof -
  have e: "e = fst (foldValues (cellEntry s) (vals i))" using assms(1,2) by (auto simp: casInv_def)
  have keep: "absorbed e n sv" if "absorbed (cellEntry s) n sv" for n sv
    using that by (simp add: e absorbed_foldValues_mono)
  have own: "absorbed e n sv" if "(n, sv) \<in> set (vals i)" for n sv
    using that by (simp add: e absorbed_foldValues)
  have old: "rv \<le> lastRev s" if "phaseOf s j = Holding b f rv" for j b f rv
    using that assms(1) by (auto simp: casInv_def)
  show ?thesis
    using assms(1,3,4) keep own old by (fastforce simp: casInv_def)
qed

lemma casStep_inv: "casStep vals s s' \<Longrightarrow> casInv vals s \<Longrightarrow> casInv vals s'"
proof (induction rule: casStep.induct)
  case (read_changed s i a e)
  then show ?case by (auto simp: casInv_def)
next
  case (read_unchanged s i a e)
  have "(n, sv) \<in> set (vals i) \<Longrightarrow> absorbed (cellEntry s) n sv" for n sv
    using absorbed_foldValues [of n sv "vals i" "cellEntry s"] foldValues_unchanged [of "cellEntry s" "vals i"]
      read_unchanged.hyps by simp
  with read_unchanged.prems show ?case by (auto simp: casInv_def)
qed (auto simp: storeCell_inv, auto simp: casInv_def)

lemma cas_reachable:
  "(casStep vals)\<^sup>*\<^sup>* s s' \<Longrightarrow> casInv vals s \<Longrightarrow>
   casInv vals s' \<and> (\<forall>n sv. absorbed (cellEntry s) n sv \<longrightarrow> absorbed (cellEntry s') n sv)"
  by (induction rule: rtranclp_induct) (auto dest: casStep_inv cas_advances)

text \<open>
  C7. However the calls of any number of writers interleave, also when acknowledgements are
  lost, every value of a writer that reported success is in the entry, and nothing that was
  in the entry at the start is lost.
\<close>

theorem no_lost_update:
  assumes "casInit s" and "(casStep vals)\<^sup>*\<^sup>* s s'"
  shows "(\<forall>i. phaseOf s' i = Succeeded \<longrightarrow> (\<forall>(n, sv) \<in> set (vals i). absorbed (cellEntry s') n sv))
    \<and> (\<forall>n sv. absorbed (cellEntry s) n sv \<longrightarrow> absorbed (cellEntry s') n sv)"
  using cas_reachable [OF assms(2) casInit_inv [OF assms(1)]] by (simp add: casInv_def)

definition demo_vals :: "nat \<Rightarrow> (string \<times> signalValue) list" where
  "demo_vals i = (if i = 0 then [(''speed'', rowValue (demo_row 5 ''a'' 1))] else [(''rpm'', rowValue (demo_row 6 ''b'' 2))])"

definition demo_cas :: casState where
  "demo_cas = \<lparr>cell = None, lastRev = 0, phaseOf = (\<lambda>i. Trying 0)\<rparr>"

lemma demo_changed: "\<exists>e. foldValues (cellEntry demo_cas) (demo_vals i) = (e, True)"
  using foldValues_fresh [of EntryVersion "demo_vals i"]
  by (cases "foldValues (cellEntry demo_cas) (demo_vals i)") (simp add: demo_cas_def cellEntry_def demo_vals_def split: if_splits)

theorem no_lost_update_witness:
  "\<exists>s'. (casStep demo_vals)\<^sup>*\<^sup>* demo_cas s' \<and> phaseOf s' 0 = Succeeded
     \<and> absorbed (cellEntry s') ''speed'' (rowValue (demo_row 5 ''a'' 1))"
proof -
  obtain e where e: "foldValues (cellEntry demo_cas) (demo_vals 0) = (e, True)" using demo_changed by blast
  let ?s1 = "setPhase demo_cas 0 (Holding 0 e (cellRev demo_cas))"
  let ?s2 = "setPhase (storeCell ?s1 e 1) 0 Succeeded"
  have "casStep demo_vals demo_cas ?s1" using e by (intro read_changed) (simp add: demo_cas_def)
  moreover have "casStep demo_vals ?s1 ?s2" by (rule write_ok) (simp_all add: demo_cas_def)
  ultimately have r: "(casStep demo_vals)\<^sup>*\<^sup>* demo_cas ?s2" by (meson converse_rtranclp_into_rtranclp r_into_rtranclp)
  have "casInit demo_cas" by (simp add: casInit_def demo_cas_def cellRev_def)
  from no_lost_update [OF this r]
  have "phaseOf ?s2 0 = Succeeded \<longrightarrow> (\<forall>(n, sv) \<in> set (demo_vals 0). absorbed (cellEntry ?s2) n sv)" by blast
  then have "absorbed (cellEntry ?s2) ''speed'' (rowValue (demo_row 5 ''a'' 1))" by (simp add: demo_vals_def)
  with r show ?thesis by (intro exI [of _ ?s2]) simp
qed

subsection \<open>Every writer finishes\<close>

fun callsLeft :: "phase \<Rightarrow> nat" where
  "callsLeft (Trying a) = 2 * (casAttempts - a)"
| "callsLeft (Holding a e rv) = 2 * (casAttempts - a) - 1"
| "callsLeft Succeeded = 0"
| "callsLeft (Failed err) = 0"

definition inTime :: "casState \<Rightarrow> bool" where
  "inTime s = (\<forall>i. case phaseOf s i of Trying a \<Rightarrow> a < casAttempts | Holding a e rv \<Rightarrow> a < casAttempts | _ \<Rightarrow> True)"

lemma casStep_inTime: "casStep vals s s' \<Longrightarrow> inTime s \<Longrightarrow> inTime s'"
  by (induction rule: casStep.induct) (auto simp: inTime_def casAttempts_def split: phase.splits)

lemma inTimeD:
  "inTime s \<Longrightarrow> phaseOf s i = Trying a \<Longrightarrow> a < casAttempts"
  "inTime s \<Longrightarrow> phaseOf s i = Holding a e rv \<Longrightarrow> a < casAttempts"
  by (auto simp: inTime_def split: phase.splits) (metis phase.simps)+

definition callStep :: "casState \<Rightarrow> casState \<Rightarrow> bool" where
  "callStep s s' = (\<exists>i. callsLeft (phaseOf s' i) < callsLeft (phaseOf s i) \<and> (\<forall>j. j \<noteq> i \<longrightarrow> phaseOf s' j = phaseOf s j))"

lemma callStepI:
  "phaseOf t = phaseOf s \<Longrightarrow> callsLeft p < callsLeft (phaseOf s i) \<Longrightarrow> callStep s (setPhase t i p)"
  by (auto simp: callStep_def)

lemma casStep_calls: "casStep vals s s' \<Longrightarrow> inTime s \<Longrightarrow> callStep s s'"
  by (induction rule: casStep.induct; rule callStepI; (drule (1) inTimeD)?; simp; linarith?)

text \<open>The calls left of the writers in \<open>W\<close>.\<close>

definition totalCalls :: "nat set \<Rightarrow> casState \<Rightarrow> nat" where
  "totalCalls W s = (\<Sum>i \<in> W. callsLeft (phaseOf s i))"

lemma callStep_total:
  assumes "callStep s s'" and "finite W" and "\<forall>i. i \<notin> W \<longrightarrow> callsLeft (phaseOf s i) = 0"
  shows "totalCalls W s' < totalCalls W s \<and> (\<forall>i. i \<notin> W \<longrightarrow> callsLeft (phaseOf s' i) = 0)"
proof -
  obtain i where i: "callsLeft (phaseOf s' i) < callsLeft (phaseOf s i)"
    and other: "\<And>j. j \<noteq> i \<Longrightarrow> phaseOf s' j = phaseOf s j"
    using assms(1) by (auto simp: callStep_def)
  have W: "i \<in> W" using i assms(3) by (metis not_less_zero)
  have "totalCalls W s' < totalCalls W s"
    unfolding totalCalls_def
  proof (rule sum_strict_mono_ex1 [OF assms(2)])
    show "\<forall>j \<in> W. callsLeft (phaseOf s' j) \<le> callsLeft (phaseOf s j)"
      using i other by (metis less_imp_le_nat order_refl)
  qed (use W i in blast)
  then show ?thesis using other W assms(3) by metis
qed

lemma casSteps_bound:
  assumes "(casStep vals ^^ n) s s'" and "inTime s" and "finite W"
    and "\<forall>i. i \<notin> W \<longrightarrow> callsLeft (phaseOf s i) = 0"
  shows "n + totalCalls W s' \<le> totalCalls W s"
  using assms(1,2,4)
proof (induction n arbitrary: s)
  case (Suc n)
  then obtain s1 where s1: "casStep vals s s1" "(casStep vals ^^ n) s1 s'" by (metis relpowp_Suc_D2)
  have "totalCalls W s1 < totalCalls W s \<and> (\<forall>i. i \<notin> W \<longrightarrow> callsLeft (phaseOf s1 i) = 0)"
    using callStep_total [OF casStep_calls [OF s1(1) Suc.prems(2)] assms(3) Suc.prems(3)] .
  with Suc.IH [OF s1(2) casStep_inTime [OF s1(1) Suc.prems(2)]] show ?case by simp
qed simp

text \<open>
  C31. Contention cannot keep writers busy forever: with \<open>n\<close> writers starting, no run has
  more than \<open>16 * n\<close> calls to the server, two for each of the eight attempts.
\<close>

theorem cas_terminates:
  assumes "(casStep vals ^^ k) s s'" and "\<forall>i < n. phaseOf s i = Trying 0" and "\<forall>i \<ge> n. phaseOf s i = Succeeded"
  shows "k \<le> 16 * n"
proof -
  have "phaseOf s i = Trying 0 \<or> phaseOf s i = Succeeded" for i
    using assms(2,3) by (cases "i < n") auto
  then have "case phaseOf s i of Trying a \<Rightarrow> a < casAttempts | Holding a e rv \<Rightarrow> a < casAttempts | _ \<Rightarrow> True" for i
    by (rule disjE [where P = "phaseOf s i = Trying 0" and Q = "phaseOf s i = Succeeded"]) (simp_all add: casAttempts_def)
  then have t: "inTime s" by (simp add: inTime_def)
  have "totalCalls {..<n} s = (\<Sum>i \<in> {..<n}. 16)"
    unfolding totalCalls_def using assms(2) by (intro sum.cong) (auto simp: casAttempts_def)
  then show ?thesis
    using casSteps_bound [OF assms(1) t, of "{..<n}"] assms(3) by simp
qed

theorem cas_terminates_witness:
  "\<exists>s'. (casStep demo_vals ^^ 1) (demo_cas\<lparr>phaseOf := (\<lambda>i. if i < 2 then Trying 0 else Succeeded)\<rparr>) s' \<and> 1 \<le> 16 * (2 :: nat)"
proof -
  let ?s = "demo_cas\<lparr>phaseOf := (\<lambda>i. if i < 2 then Trying 0 else Succeeded)\<rparr>"
  have "casStep demo_vals ?s (setPhase ?s 0 (Failed (Wrap ''kv get'' ErrCanceled)))" by (rule read_error) simp
  then have r: "(casStep demo_vals ^^ 1) ?s (setPhase ?s 0 (Failed (Wrap ''kv get'' ErrCanceled)))" by (simp only: relpowp_1)
  from cas_terminates [OF r, of 2] r show ?thesis by auto
qed

end
