(* ===== verification/Kv_Coverage.thy ===== *)
theory Kv_Coverage
  imports Go_Time
begin

section \<open>The coverage contract (internal/latestkv/coverage.go, store.go)\<close>

text \<open>
  A reader may answer "no data" from a missing key only while the writer asserts that the
  bucket has a key for every subject of the lake. The writer's \<open>CoverageReporter\<close> runs on
  its own goroutine beside the decode loop; the two share the reporter's fields under a
  mutex. Each locked section and each call to the store is one step here, so that a run is
  any interleaving of the two goroutines with a second publisher and with crashes.

  The reconcile that earns a proof does not read the lake's rows one and all: it merges the subjects of
  lake.signals_latest, then the rows at or after the daily watermark. A backfill publishes and
  commits beside the writer; when its publish fails, the writer hears of it only by the record the
  backfill leaves at its end.

  Shown here: \<open>trusted\<close> and the watcher; what a proof means, also across restarts: every subject of the
  lake has a key, except for those a backfill failed to publish. This holds as long as no publish
  of the writer fails inside one of the reporter's unlocked windows (between the barrier test and the sample of
  the failure counter, and between the race test and the final lock) or while the stored record is
  still the clean one of a predecessor, and as long as each reconcile finds the rollup and the watermark in the
  state its comments describe. Concrete runs show what each of these conditions is needed for.
\<close>

subsection \<open>The record and the reader's side\<close>

definition CoverageVersion :: int where "CoverageVersion = 1"
definition CoverageHeartbeatInterval :: duration where "CoverageHeartbeatInterval = 30 * second"
definition CoverageMaxStaleness :: duration where "CoverageMaxStaleness = 90 * second"

record coverage =
  CvV :: int
  VerifiedThrough :: time
  Clean :: bool
  Degraded :: bool
  Reason :: string

text \<open>A stored record decodes or it does not.\<close>

datatype covStored = CovBytes coverage | CovGarbage

definition trusted :: "coverage option \<Rightarrow> time \<Rightarrow> duration \<Rightarrow> bool" where
  "trusted c now maxStaleness =
     (case c of
        None \<Rightarrow> False
      | Some c \<Rightarrow>
          if CvV c \<noteq> CoverageVersion \<or> Degraded c \<or> IsZero (VerifiedThrough c) then False
          else let age = Sub now (VerifiedThrough c) in age \<le> maxStaleness \<and> - maxStaleness \<le> age)"

definition decodeCoverage :: "covStored \<Rightarrow> coverage option res" where
  "decodeCoverage b =
     (case b of
        CovGarbage \<Rightarrow> Inl (Wrap ''decoding coverage'' (Err ''json''))
      | CovBytes c \<Rightarrow> if CvV c \<noteq> CoverageVersion then Inr None else Inr (Some c))"

text \<open>\<open>GetCoverage\<close> on the stored value; a failing \<open>Get\<close> is a step of its own below.\<close>

definition GetCoverage :: "covStored option \<Rightarrow> coverage option res" where
  "GetCoverage stored = (case stored of None \<Rightarrow> Inr None | Some b \<Rightarrow> decodeCoverage b)"

definition PutCoverage :: "coverage \<Rightarrow> covStored" where
  "PutCoverage c = CovBytes (c\<lparr>CvV := CoverageVersion\<rparr>)"

text \<open>
  \<open>CoverageWatcher.consume\<close>: the updates of the watch, \<open>WatchClosed\<close> for the closed
  channel, \<open>WatchMarker\<close> for the nil entry that ends the initial values.
\<close>

datatype watchUpdate = WatchClosed | WatchMarker | WatchDelete | WatchPut covStored

fun consume :: "coverage option \<Rightarrow> watchUpdate list \<Rightarrow> coverage option" where
  "consume cur [] = cur"
| "consume cur (WatchClosed # us) = None"
| "consume cur (WatchMarker # us) = consume cur us"
| "consume cur (WatchDelete # us) = consume None us"
| "consume cur (WatchPut b # us) = consume (case decodeCoverage b of Inr c \<Rightarrow> c | Inl _ \<Rightarrow> None) us"

definition TrustedAt :: "duration \<Rightarrow> coverage option \<Rightarrow> time \<Rightarrow> bool" where
  "TrustedAt bucketTTL cur now = (if bucketTTL \<noteq> 0 then False else trusted cur now CoverageMaxStaleness)"

subsection \<open>The writer's locked sections\<close>

definition reconcileMinBackoff :: duration where "reconcileMinBackoff = 30 * second"
definition reconcileMaxBackoff :: duration where "reconcileMaxBackoff = 10 * minute"

definition nextBackoff :: "duration \<Rightarrow> duration" where
  "nextBackoff cur =
     (if cur = 0 then reconcileMinBackoff
      else let next = wrap64 (cur * 2) in if next < reconcileMaxBackoff then next else reconcileMaxBackoff)"

record reporter =
  canReconcile :: bool
  proven :: bool
  degraded :: bool
  reason :: string
  adoptChecked :: bool
  retryAfter :: time
  backoff :: duration
  settledBatches :: nat
  awaitBatch :: nat
  failSeq :: nat

definition NewCoverageReporter :: "bool \<Rightarrow> reporter" where
  "NewCoverageReporter hasReconcile =
     \<lparr>canReconcile = hasReconcile, proven = False, degraded = False, reason = [], adoptChecked = False,
      retryAfter = zeroTime, backoff = 0, settledBatches = 0, awaitBatch = 0, failSeq = 0\<rparr>"

definition ObservePublish :: "reporter \<Rightarrow> string option \<Rightarrow> reporter" where
  "ObservePublish r err =
     (case err of
        None \<Rightarrow> r
      | Some e \<Rightarrow> r\<lparr>proven := False, degraded := True, reason := e,
                    awaitBatch := settledBatches r + 1, failSeq := failSeq r + 1\<rparr>)"

definition ObserveBatchSettled :: "reporter \<Rightarrow> reporter" where
  "ObserveBatchSettled r = r\<lparr>settledBatches := settledBatches r + 1\<rparr>"

definition settleBarrierMet :: "reporter \<Rightarrow> bool" where
  "settleBarrierMet r = (awaitBatch r = 0 \<or> awaitBatch r \<le> settledBatches r)"

text \<open>
  The locked sections of \<open>establish\<close>, \<open>adoptClean\<close>, \<open>runReconcile\<close> and \<open>heartbeat\<close>.
  \<open>establishEnter\<close> returns what the section read, \<open>None\<close> when the backoff has not passed.
\<close>

definition establishEnter :: "reporter \<Rightarrow> time \<Rightarrow> (bool \<times> string \<times> bool) option \<times> reporter" where
  "establishEnter r now =
     (let res = (degraded r, reason r, adoptChecked r);
          r = r\<lparr>adoptChecked := True\<rparr>
      in if \<not> IsZero (retryAfter r) \<and> Before now (retryAfter r) then (None, r) else (Some res, r))"

definition adoptProof :: "reporter \<Rightarrow> reporter" where
  "adoptProof r = r\<lparr>proven := True\<rparr>"

definition reconcileFailed :: "reporter \<Rightarrow> time \<Rightarrow> reporter" where
  "reconcileFailed r now =
     (let b = nextBackoff (backoff r) in r\<lparr>backoff := b, retryAfter := Add now b\<rparr>)"

definition reconcileProved :: "reporter \<Rightarrow> reporter" where
  "reconcileProved r = r\<lparr>proven := True, degraded := False, reason := [], backoff := 0,
     retryAfter := zeroTime, awaitBatch := 0\<rparr>"

definition heartbeatDegraded :: "reporter \<Rightarrow> string \<Rightarrow> reporter" where
  "heartbeatDegraded r why = r\<lparr>proven := False, degraded := True, reason := why\<rparr>"

definition assertion :: "time \<Rightarrow> coverage" where
  "assertion now = \<lparr>CvV = 0, VerifiedThrough = now, Clean = False, Degraded = False, Reason = []\<rparr>"

definition cleanRecord :: "time \<Rightarrow> coverage" where
  "cleanRecord now = \<lparr>CvV = 0, VerifiedThrough = now, Clean = True, Degraded = False, Reason = []\<rparr>"

definition degradedRecord :: "string \<Rightarrow> coverage" where
  "degradedRecord why = \<lparr>CvV = 0, VerifiedThrough = zeroTime, Clean = False, Degraded = True, Reason = why\<rparr>"

subsection \<open>The goroutines\<close>

text \<open>
  Where the reporter's goroutine stands between two of its steps. Inside a reconcile: \<open>PScan\<close> before the query of
  the rollup, \<open>PMergeRollup\<close> while its subjects are merged, \<open>PWatermark\<close> before the watermark is read,
  \<open>PTail\<close> before the query of the rows since then, \<open>PMerge\<close> while those are merged. The number is the sample of
  the failure counter.
\<close>

datatype repPc =
    PIdle
  | PEstablish bool string bool
  | PAdopt
  | PPersist bool string
  | PBarrier
  | PSample
  | PScan nat
  | PMergeRollup nat "string set"
  | PWatermark nat
  | PTail nat time
  | PMerge nat "string set"
  | PCheck nat
  | PAssert
  | PFinish
  | PHeartbeat
  | PHeartbeatPut
  | PMarkClean
  | PStopped

text \<open>
  The world: the rows committed to the lake (subject and timestamp), the subjects with a key, the rows of the batch
  the decode loop has published but not settled (with whether its transaction has ended), those of the batch of a
  backfill, the subjects a backfill failed to publish, the subjects of lake.signals_latest and the daily watermark
  (zero when there is none), the stored record, the reporter and its position. Keys are only added:
  the bucket has no TTL.
\<close>

type_synonym lakeRow = "string \<times> time"

record world =
  rows :: "lakeRow set"
  keys :: "string set"
  batch :: "(lakeRow set \<times> bool) option"
  other :: "lakeRow set option"
  lost :: "string set"
  rollup :: "string set"
  watermark :: time
  stored :: "covStored option"
  rep :: reporter
  pc :: repPc

definition lake :: "world \<Rightarrow> string set" where "lake w = fst ` rows w"

definition inflight :: "world \<Rightarrow> string set" where
  "inflight w = (case batch w of None \<Rightarrow> {} | Some (b, _) \<Rightarrow> fst ` b)"

definition cleanCoverage :: "covStored option \<Rightarrow> bool" where
  "cleanCoverage b = (case GetCoverage b of Inr (Some c) \<Rightarrow> Clean c \<and> \<not> Degraded c | _ \<Rightarrow> False)"

definition cleanStored :: "world \<Rightarrow> bool" where
  "cleanStored w = cleanCoverage (stored w)"

text \<open>
  A moment at which a publish failure is not swallowed: the reporter is outside the windows
  between a test and the section that acts on it, and no clean record is waiting to be adopted.
\<close>

definition quiet :: "world \<Rightarrow> bool" where
  "quiet w = (pc w \<notin> {PSample, PAssert, PFinish, PAdopt, PMarkClean} \<and> \<not> cleanStored w)"

text \<open>Every row has its subject in \<open>K\<close> or is stamped at or after the watermark \<open>W\<close>.\<close>

definition rowsIn :: "lakeRow set \<Rightarrow> string set \<Rightarrow> time \<Rightarrow> bool" where
  "rowsIn ro K W = (\<forall>p \<in> ro. fst p \<in> K \<or> \<not> IsZero W \<and> W \<le> snd p)"

text \<open>
  What the comments of the reconcile say of its input: a subject of the lake that has no key is in the rollup or
  has no row below the watermark (\<open>mergeFromRollup\<close>: the rollup is current up to the watermark;
  \<open>settleBarrierMet\<close>: whatever is in the lake is in the bucket already or visible to the scan). The subjects a
  backfill failed to publish are not counted.
\<close>

definition visible :: "world \<Rightarrow> bool" where
  "visible w = rowsIn (rows w) (keys w \<union> lost w \<union> rollup w) (watermark w)"

definition rollupPending :: "repPc \<Rightarrow> bool" where
  "rollupPending p = (case p of PMergeRollup _ _ \<Rightarrow> True | PWatermark _ \<Rightarrow> True | _ \<Rightarrow> False)"

definition reconciling :: "repPc \<Rightarrow> bool" where
  "reconciling p = (case p of PScan _ \<Rightarrow> True | PMergeRollup _ _ \<Rightarrow> True | PWatermark _ \<Rightarrow> True | PTail _ _ \<Rightarrow> True
     | PMerge _ _ \<Rightarrow> True | _ \<Rightarrow> False)"

text \<open>
  One step. With \<open>guarded\<close> a publish of the writer fails only at a quiet moment, a reconcile starts its scan
  only when everything is visible to it, and the watermark does not move between the scan of the rollup and the
  read of the watermark. The decode loop publishes a batch before its transaction (\<open>publish_ok\<close>, \<open>publish_failed\<close>),
  commits or rolls it back and reports it settled. A backfill publishes and commits batches of its own
  (\<open>other_published\<close>, \<open>other_failed\<close>, \<open>other_commit\<close>); \<open>other_degrades\<close> is its \<open>FlushDegraded\<close>. \<open>maintain\<close> is any
  work on the tables: a refresh of the rollup that moves the watermark, a reseed, a prune.
\<close>

inductive covStep :: "bool \<Rightarrow> world \<Rightarrow> world \<Rightarrow> bool" for guarded where
  publish_ok:
    "batch w = None \<Longrightarrow>
     covStep guarded w (w\<lparr>batch := Some (b, False), keys := keys w \<union> fst ` b, rep := ObservePublish (rep w) None\<rparr>)"
| publish_failed:
    "batch w = None \<Longrightarrow> part \<subseteq> fst ` b \<Longrightarrow> \<not> guarded \<or> quiet w \<Longrightarrow>
     covStep guarded w (w\<lparr>batch := Some (b, False), keys := keys w \<union> part, rep := ObservePublish (rep w) (Some err)\<rparr>)"
| commit:
    "batch w = Some (b, False) \<Longrightarrow> covStep guarded w (w\<lparr>batch := Some (b, True), rows := rows w \<union> b\<rparr>)"
| settle:
    "batch w = Some (b, ended) \<Longrightarrow> covStep guarded w (w\<lparr>batch := None, rep := ObserveBatchSettled (rep w)\<rparr>)"
| other_published:
    "other w = None \<Longrightarrow> covStep guarded w (w\<lparr>other := Some b, keys := keys w \<union> fst ` b\<rparr>)"
| other_failed:
    "other w = None \<Longrightarrow> part \<subseteq> fst ` b \<Longrightarrow>
     covStep guarded w (w\<lparr>other := Some b, keys := keys w \<union> part, lost := lost w \<union> (fst ` b - part)\<rparr>)"
| other_commit:
    "other w = Some b \<Longrightarrow> covStep guarded w (w\<lparr>other := None, rows := rows w \<union> b\<rparr>)"
| other_rollback:
    "other w = Some b \<Longrightarrow> covStep guarded w (w\<lparr>other := None\<rparr>)"
| other_degrades:
    "covStep guarded w (w\<lparr>stored := Some (PutCoverage (degradedRecord why))\<rparr>)"
| maintain:
    "ro \<subseteq> rows w \<Longrightarrow> \<not> guarded \<or> \<not> rollupPending (pc w) \<or> W = watermark w \<Longrightarrow>
     covStep guarded w (w\<lparr>rows := ro, rollup := R, watermark := W\<rparr>)"
| crash:
    "covStep guarded w (w\<lparr>batch := None, rep := NewCoverageReporter True, pc := PIdle\<rparr>)"
| tick_proven:
    "pc w = PIdle \<Longrightarrow> proven (rep w) \<Longrightarrow> covStep guarded w (w\<lparr>pc := PHeartbeat\<rparr>)"
| tick_establish:
    "pc w = PIdle \<Longrightarrow> \<not> proven (rep w) \<Longrightarrow> establishEnter (rep w) now = (Some (d, y, checked), r) \<Longrightarrow>
     covStep guarded w (w\<lparr>rep := r, pc := PEstablish d y checked\<rparr>)"
| tick_backoff:
    "pc w = PIdle \<Longrightarrow> \<not> proven (rep w) \<Longrightarrow> establishEnter (rep w) now = (None, r) \<Longrightarrow>
     covStep guarded w (w\<lparr>rep := r\<rparr>)"
| adopt_read:
    "pc w = PEstablish False y False \<Longrightarrow> cleanStored w \<Longrightarrow> covStep guarded w (w\<lparr>pc := PAdopt\<rparr>)"
| adopt_refused:
    "pc w = PEstablish False y False \<Longrightarrow> covStep guarded w (w\<lparr>pc := PPersist False y\<rparr>)"
| adopt:
    "pc w = PAdopt \<Longrightarrow> covStep guarded w (w\<lparr>rep := adoptProof (rep w), pc := PHeartbeat\<rparr>)"
| no_adoption:
    "pc w = PEstablish d y checked \<Longrightarrow> checked \<or> d \<Longrightarrow> covStep guarded w (w\<lparr>pc := PPersist d y\<rparr>)"
| persist_degraded:
    "pc w = PPersist True y \<Longrightarrow>
     covStep guarded w (w\<lparr>stored := Some (PutCoverage (degradedRecord y)), pc := PBarrier\<rparr>)"
| persist_skipped:
    "pc w = PPersist d y \<Longrightarrow> covStep guarded w (w\<lparr>pc := PBarrier\<rparr>)"
| barrier_met:
    "pc w = PBarrier \<Longrightarrow> settleBarrierMet (rep w) \<Longrightarrow> canReconcile (rep w) \<Longrightarrow> covStep guarded w (w\<lparr>pc := PSample\<rparr>)"
| barrier_closed:
    "pc w = PBarrier \<Longrightarrow> \<not> settleBarrierMet (rep w) \<or> \<not> canReconcile (rep w) \<Longrightarrow> covStep guarded w (w\<lparr>pc := PIdle\<rparr>)"
| sample:
    "pc w = PSample \<Longrightarrow> covStep guarded w (w\<lparr>pc := PScan (failSeq (rep w))\<rparr>)"
| scan_rollup:
    "pc w = PScan f \<Longrightarrow> \<not> guarded \<or> visible w \<Longrightarrow> covStep guarded w (w\<lparr>pc := PMergeRollup f (rollup w)\<rparr>)"
| merge_rollup:
    "pc w = PMergeRollup f seen \<Longrightarrow> part \<subseteq> seen \<Longrightarrow> covStep guarded w (w\<lparr>keys := keys w \<union> part\<rparr>)"
| rollup_merged:
    "pc w = PMergeRollup f seen \<Longrightarrow> seen \<subseteq> keys w \<Longrightarrow> covStep guarded w (w\<lparr>pc := PWatermark f\<rparr>)"
| read_watermark:
    "pc w = PWatermark f \<Longrightarrow> \<not> IsZero (watermark w) \<Longrightarrow> covStep guarded w (w\<lparr>pc := PTail f (watermark w)\<rparr>)"
| no_watermark:
    "pc w = PWatermark f \<Longrightarrow> IsZero (watermark w) \<Longrightarrow> covStep guarded w (w\<lparr>pc := PCheck f\<rparr>)"
| scan_tail:
    "pc w = PTail f W \<Longrightarrow> covStep guarded w (w\<lparr>pc := PMerge f (fst ` {p \<in> rows w. W \<le> snd p})\<rparr>)"
| merge_tail:
    "pc w = PMerge f seen \<Longrightarrow> part \<subseteq> seen \<Longrightarrow> covStep guarded w (w\<lparr>keys := keys w \<union> part\<rparr>)"
| tail_merged:
    "pc w = PMerge f seen \<Longrightarrow> seen \<subseteq> keys w \<Longrightarrow> covStep guarded w (w\<lparr>pc := PCheck f\<rparr>)"
| reconcile_failed:
    "reconciling (pc w) \<Longrightarrow> covStep guarded w (w\<lparr>rep := reconcileFailed (rep w) now, pc := PIdle\<rparr>)"
| raced:
    "pc w = PCheck f \<Longrightarrow> failSeq (rep w) \<noteq> f \<Longrightarrow> covStep guarded w (w\<lparr>pc := PIdle\<rparr>)"
| not_raced:
    "pc w = PCheck f \<Longrightarrow> failSeq (rep w) = f \<Longrightarrow> covStep guarded w (w\<lparr>pc := PAssert\<rparr>)"
| assert_written:
    "pc w = PAssert \<Longrightarrow> covStep guarded w (w\<lparr>stored := Some (PutCoverage (assertion now)), pc := PFinish\<rparr>)"
| assert_failed:
    "pc w = PAssert \<Longrightarrow> covStep guarded w (w\<lparr>rep := reconcileFailed (rep w) now, pc := PIdle\<rparr>)"
| finish:
    "pc w = PFinish \<Longrightarrow> covStep guarded w (w\<lparr>rep := reconcileProved (rep w), pc := PHeartbeat\<rparr>)"
| heartbeat_read:
    "pc w = PHeartbeat \<Longrightarrow> GetCoverage (stored w) = Inr c \<Longrightarrow> (\<forall>x. c = Some x \<longrightarrow> \<not> Degraded x) \<Longrightarrow>
     covStep guarded w (w\<lparr>pc := PHeartbeatPut\<rparr>)"
| heartbeat_revoked:
    "pc w = PHeartbeat \<Longrightarrow> GetCoverage (stored w) = Inr (Some x) \<Longrightarrow> Degraded x \<Longrightarrow>
     covStep guarded w (w\<lparr>rep := heartbeatDegraded (rep w) (Reason x), pc := PIdle\<rparr>)"
| heartbeat_failed:
    "pc w = PHeartbeat \<or> pc w = PHeartbeatPut \<Longrightarrow> covStep guarded w (w\<lparr>pc := PIdle\<rparr>)"
| heartbeat_put:
    "pc w = PHeartbeatPut \<Longrightarrow> covStep guarded w (w\<lparr>stored := Some (PutCoverage (assertion now)), pc := PIdle\<rparr>)"
| shutdown_proven:
    "pc w = PIdle \<Longrightarrow> proven (rep w) \<Longrightarrow> covStep guarded w (w\<lparr>pc := PMarkClean\<rparr>)"
| shutdown_unproven:
    "pc w = PIdle \<Longrightarrow> \<not> proven (rep w) \<Longrightarrow> covStep guarded w (w\<lparr>pc := PStopped\<rparr>)"
| mark_clean:
    "pc w = PMarkClean \<Longrightarrow> covStep guarded w (w\<lparr>stored := Some (PutCoverage (cleanRecord now)), pc := PStopped\<rparr>)"
| mark_failed:
    "pc w = PMarkClean \<Longrightarrow> covStep guarded w (w\<lparr>pc := PStopped\<rparr>)"

inductive_cases covStepE: "covStep guarded w w'"

text \<open>A first boot: any rows, keys, rollup and watermark.\<close>

definition midWorld ::
  "lakeRow set \<Rightarrow> string set \<Rightarrow> time \<Rightarrow> string set \<Rightarrow> reporter \<Rightarrow> repPc \<Rightarrow> covStored option \<Rightarrow> world" where
  "midWorld ro R W k r p st = \<lparr>rows = ro, keys = k, batch = None, other = None, lost = {}, rollup = R, watermark = W,
     stored = st, rep = r, pc = p\<rparr>"

definition bootWorld :: "lakeRow set \<Rightarrow> string set \<Rightarrow> time \<Rightarrow> string set \<Rightarrow> world" where
  "bootWorld ro R W k = midWorld ro R W k (NewCoverageReporter True) PIdle None"

subsection \<open>A proof means coverage\<close>

definition covered :: "world \<Rightarrow> bool" where
  "covered w = (lake w \<subseteq> keys w \<union> lost w \<and> inflight w \<subseteq> keys w)"

text \<open>
  What each position of the reporter's goroutine knows; \<open>failSeq = f\<close> is "no publish of the writer has
  failed since the sample".
\<close>

definition pcInv :: "world \<Rightarrow> bool" where
  "pcInv w = (case pc w of
       PSample \<Rightarrow> inflight w \<subseteq> keys w
     | PScan f \<Rightarrow> f \<le> failSeq (rep w) \<and> (failSeq (rep w) = f \<longrightarrow> inflight w \<subseteq> keys w)
     | PMergeRollup f seen \<Rightarrow> f \<le> failSeq (rep w)
         \<and> (failSeq (rep w) = f \<longrightarrow> inflight w \<subseteq> keys w \<and> rowsIn (rows w) (keys w \<union> lost w \<union> seen) (watermark w))
     | PWatermark f \<Rightarrow> f \<le> failSeq (rep w)
         \<and> (failSeq (rep w) = f \<longrightarrow> inflight w \<subseteq> keys w \<and> rowsIn (rows w) (keys w \<union> lost w) (watermark w))
     | PTail f W \<Rightarrow> f \<le> failSeq (rep w)
         \<and> (failSeq (rep w) = f \<longrightarrow> inflight w \<subseteq> keys w \<and> rowsIn (rows w) (keys w \<union> lost w) W)
     | PMerge f seen \<Rightarrow> f \<le> failSeq (rep w) \<and> (failSeq (rep w) = f \<longrightarrow> inflight w \<subseteq> keys w \<and> lake w \<subseteq> keys w \<union> lost w \<union> seen)
     | PCheck f \<Rightarrow> f \<le> failSeq (rep w) \<and> (failSeq (rep w) = f \<longrightarrow> covered w)
     | PAdopt \<Rightarrow> covered w | PAssert \<Rightarrow> covered w | PFinish \<Rightarrow> covered w | PMarkClean \<Rightarrow> covered w
     | _ \<Rightarrow> True)"

definition covInv :: "world \<Rightarrow> bool" where
  "covInv w =
     ((proven (rep w) \<longrightarrow> covered w) \<and> (cleanStored w \<longrightarrow> covered w)
      \<and> (\<not> inflight w \<subseteq> keys w \<longrightarrow> awaitBatch (rep w) = Suc (settledBatches (rep w)))
      \<and> (\<forall>b. other w = Some b \<longrightarrow> fst ` b \<subseteq> keys w \<union> lost w) \<and> pcInv w)"

lemmas reporter_defs = ObservePublish_def ObserveBatchSettled_def establishEnter_def adoptProof_def
  reconcileFailed_def reconcileProved_def heartbeatDegraded_def NewCoverageReporter_def settleBarrierMet_def

lemmas world_defs = covInv_def pcInv_def covered_def inflight_def lake_def cleanStored_def

lemma cleanCoverage_put [simp]:
  "cleanCoverage None = False"
  "cleanCoverage (Some (PutCoverage (assertion now))) = False"
  "cleanCoverage (Some (PutCoverage (degradedRecord y))) = False"
  by (simp_all add: cleanCoverage_def GetCoverage_def PutCoverage_def decodeCoverage_def assertion_def degradedRecord_def)

lemma rowsIn_mono: "rowsIn ro K W \<Longrightarrow> ro' \<subseteq> ro \<Longrightarrow> K \<subseteq> K' \<Longrightarrow> rowsIn ro' K' W"
  by (auto simp: rowsIn_def)

lemma rowsIn_Un: "rowsIn (ro \<union> b) K W \<longleftrightarrow> rowsIn ro K W \<and> rowsIn b K W"
  by (auto simp: rowsIn_def)

lemma rowsIn_sub: "fst ` b \<subseteq> K \<Longrightarrow> rowsIn b K W"
  by (auto simp: rowsIn_def)

lemma rowsIn_zero: "rowsIn ro K W \<Longrightarrow> IsZero W \<Longrightarrow> fst ` ro \<subseteq> K"
  by (auto simp: rowsIn_def)

lemma rowsIn_tail: "rowsIn ro K W \<Longrightarrow> fst ` ro \<subseteq> K \<union> fst ` {p \<in> ro. W \<le> snd p}"
  by (force simp: rowsIn_def)

lemma pcInv_grow:
  assumes inv: "pcInv w" and ro: "rows w' \<subseteq> rows w \<union> b" "fst ` b \<subseteq> keys w' \<union> lost w'"
    and keys: "keys w \<subseteq> keys w'" "lost w \<subseteq> lost w'"
    and same: "pc w' = pc w" "rep w' = rep w" "batch w' = batch w"
    and wm: "\<not> rollupPending (pc w) \<or> watermark w' = watermark w"
  shows "pcInv w'"
proof -
  have in': "inflight w' = inflight w" by (simp add: inflight_def same)
  have rows: "rowsIn (rows w') (keys w' \<union> lost w' \<union> S) W" if "rowsIn (rows w) (keys w \<union> lost w \<union> S) W" for S W
  proof -
    have "rowsIn (rows w) (keys w' \<union> lost w' \<union> S) W" by (rule rowsIn_mono [OF that subset_refl]) (use keys in auto)
    moreover have "rowsIn b (keys w' \<union> lost w' \<union> S) W" by (rule rowsIn_sub) (use ro(2) in auto)
    ultimately have "rowsIn (rows w \<union> b) (keys w' \<union> lost w' \<union> S) W" by (simp add: rowsIn_Un)
    then show ?thesis by (rule rowsIn_mono) (use ro(1) in auto)
  qed
  have lk: "lake w' \<subseteq> lake w \<union> (keys w' \<union> lost w')" using ro unfolding lake_def by blast
  have cov: "covered w'" if "covered w" using that keys lk unfolding covered_def in' by blast
  show ?thesis
  proof (cases "pc w")
    case (PMergeRollup f seen)
    then have "watermark w' = watermark w" using wm by (simp add: rollupPending_def)
    then show ?thesis using inv PMergeRollup keys rows [of seen "watermark w"] unfolding pcInv_def same in' by auto
  next
    case (PWatermark f)
    then have "watermark w' = watermark w" using wm by (simp add: rollupPending_def)
    then show ?thesis using inv PWatermark keys rows [of "{}" "watermark w"] unfolding pcInv_def same in' by auto
  next
    case (PTail f W)
    then show ?thesis using inv keys rows [of "{}" W] unfolding pcInv_def same in' by auto
  next
    case (PMerge f seen)
    then show ?thesis using inv keys lk unfolding pcInv_def same in' by auto
  qed (use inv keys cov in \<open>auto simp: pcInv_def same in'\<close>)
qed

lemma covInv_grow:
  assumes inv: "covInv w" and ro: "rows w' \<subseteq> rows w \<union> b" "fst ` b \<subseteq> keys w' \<union> lost w'"
    and keys: "keys w \<subseteq> keys w'" "lost w \<subseteq> lost w'"
    and same: "pc w' = pc w" "rep w' = rep w" "batch w' = batch w" "stored w' = stored w \<or> \<not> cleanStored w'"
    and wm: "\<not> rollupPending (pc w) \<or> watermark w' = watermark w"
    and oth: "\<And>b. other w' = Some b \<Longrightarrow> fst ` b \<subseteq> keys w' \<union> lost w'"
  shows "covInv w'"
proof -
  have in': "inflight w' = inflight w" by (simp add: inflight_def same)
  have "lake w' \<subseteq> lake w \<union> (keys w' \<union> lost w')" using ro unfolding lake_def by blast
  then have cov: "covered w'" if "covered w" using that keys unfolding covered_def in' by blast
  have "pcInv w'" by (rule pcInv_grow [OF _ ro keys same(1-3) wm]) (use inv in \<open>simp add: covInv_def\<close>)
  then show ?thesis using inv cov oth keys(1) same(4) unfolding covInv_def same(2) in' by (auto simp: cleanStored_def)
qed

lemma covStep_inv: "covStep True w w' \<Longrightarrow> covInv w \<Longrightarrow> covInv w'"
proof (induction rule: covStep.induct)
  case (publish_ok w b)
  let ?w = "w\<lparr>keys := keys w \<union> fst ` b\<rparr>"
  have "covInv ?w" by (rule covInv_grow [OF publish_ok(2), where b = "{}"]) (use publish_ok(2) in \<open>auto simp: covInv_def\<close>)
  then show ?case using publish_ok(1) by (auto simp: world_defs reporter_defs split: repPc.splits)
next
  case (publish_failed w part b err)
  let ?w = "w\<lparr>keys := keys w \<union> part\<rparr>"
  have "covInv ?w" by (rule covInv_grow [OF publish_failed(4), where b = "{}"]) (use publish_failed(4) in \<open>auto simp: covInv_def\<close>)
  then show ?case using publish_failed(1-3) by (auto simp: world_defs reporter_defs quiet_def split: repPc.splits)
next
  case (commit w b)
  show ?case
  proof (cases "fst ` b \<subseteq> keys w \<union> lost w")
    case True
    have "covInv (w\<lparr>rows := rows w \<union> b\<rparr>)"
      by (rule covInv_grow [OF commit(2), where b = b]) (use commit(2) True in \<open>auto simp: covInv_def\<close>)
    then show ?thesis using commit(1) by (simp add: world_defs split: repPc.splits)
  next
    case False
    then show ?thesis using commit by (auto simp: world_defs split: repPc.splits)
  qed
next
  case (settle w b d)
  then show ?case by (auto simp: world_defs reporter_defs split: repPc.splits)
next
  case (other_published w b)
  show ?case by (rule covInv_grow [OF other_published(2), where b = "{}"]) (use other_published in \<open>auto simp: covInv_def\<close>)
next
  case (other_failed w part b)
  show ?case by (rule covInv_grow [OF other_failed(3), where b = "{}"]) (use other_failed in \<open>auto simp: covInv_def\<close>)
next
  case (other_commit w b)
  show ?case by (rule covInv_grow [OF other_commit(2), where b = b]) (use other_commit in \<open>auto simp: covInv_def\<close>)
next
  case (other_rollback w b)
  show ?case by (rule covInv_grow [OF other_rollback(2), where b = "{}"]) (use other_rollback in \<open>auto simp: covInv_def\<close>)
next
  case (other_degrades w why)
  show ?case by (rule covInv_grow [OF other_degrades, where b = "{}"]) (use other_degrades in \<open>auto simp: covInv_def cleanStored_def\<close>)
next
  case (maintain ro w W R)
  show ?case by (rule covInv_grow [OF maintain(3), where b = "{}"]) (use maintain in \<open>auto simp: covInv_def\<close>)
next
  case (scan_rollup w f)
  then show ?case by (auto simp: world_defs visible_def)
next
  case (merge_rollup w f seen part)
  show ?case by (rule covInv_grow [OF merge_rollup(3), where b = "{}"]) (use merge_rollup in \<open>auto simp: covInv_def\<close>)
next
  case (rollup_merged w f seen)
  have "keys w \<union> lost w \<union> seen = keys w \<union> lost w" using rollup_merged(2) by blast
  then show ?case using rollup_merged by (auto simp: world_defs)
next
  case (read_watermark w f)
  then show ?case by (auto simp: world_defs)
next
  case (no_watermark w f)
  have "covered w" if "rowsIn (rows w) (keys w \<union> lost w) (watermark w)" "inflight w \<subseteq> keys w"
    using rowsIn_zero [OF that(1) no_watermark(2)] that(2) by (auto simp: covered_def lake_def)
  then show ?case using no_watermark by (simp add: covInv_def pcInv_def cleanStored_def covered_def lake_def inflight_def)
next
  case (scan_tail w f W)
  have "lake w \<subseteq> keys w \<union> lost w \<union> fst ` {p \<in> rows w. W \<le> snd p}" if "rowsIn (rows w) (keys w \<union> lost w) W"
    using rowsIn_tail [OF that] unfolding lake_def .
  then show ?case using scan_tail by (simp add: covInv_def pcInv_def cleanStored_def covered_def lake_def inflight_def)
next
  case (merge_tail w f seen part)
  show ?case by (rule covInv_grow [OF merge_tail(3), where b = "{}"]) (use merge_tail in \<open>auto simp: covInv_def\<close>)
next
  case (tail_merged w f seen)
  then show ?case by (auto simp: covInv_def pcInv_def cleanStored_def covered_def lake_def inflight_def)
qed (auto simp: world_defs reporter_defs Let_def split: if_splits option.splits repPc.splits)

lemma cov_reachable_inv: "(covStep True)\<^sup>*\<^sup>* w w' \<Longrightarrow> covInv w \<Longrightarrow> covInv w'"
  by (induction rule: rtranclp_induct) (auto intro: covStep_inv)

lemma boot_inv: "covInv (bootWorld ro R W k)"
  by (simp add: bootWorld_def midWorld_def world_defs NewCoverageReporter_def)

text \<open>
  C8. From a first boot over any lake, rollup, watermark and bucket, through any interleaving of the two
  goroutines, a backfill, maintenance of the tables, crashes and restarts: whenever the reporter holds a proof, or a
  clean record is stored, every subject in the lake has a key in the bucket, unless a backfill failed to publish
  it, and so has every subject of the batch being written. Three conditions are on the run: a publish of the writer fails only at quiet
  moments; a reconcile starts its scan only when each subject without a key is in the rollup or has no
  row below the watermark; and the watermark does not move between the scan of the rollup and its own read.
\<close>

theorem coverage_sound:
  assumes "(covStep True)\<^sup>*\<^sup>* (bootWorld ro R W k) w" and "proven (rep w) \<or> cleanStored w"
  shows "lake w \<subseteq> keys w \<union> lost w \<and> inflight w \<subseteq> keys w"
  using cov_reachable_inv [OF assms(1) boot_inv] assms(2) by (auto simp: covInv_def covered_def)

subsection \<open>Concrete runs\<close>

definition checkedReporter :: reporter where
  "checkedReporter = (NewCoverageReporter True)\<lparr>adoptChecked := True\<rparr>"

lemmas step_trans = converse_rtranclp_into_rtranclp [of "covStep guarded" for guarded]

lemma boot_to_barrier:
  "(covStep g)\<^sup>*\<^sup>* (bootWorld ro R W k) (midWorld ro R W k checkedReporter PBarrier None)"
proof -
  let ?m = "\<lambda>p. midWorld ro R W k checkedReporter p None"
  have "covStep g (bootWorld ro R W k) (?m (PEstablish False [] False))"
    using tick_establish [of "bootWorld ro R W k" 0 False "[]" False checkedReporter g]
    by (simp add: bootWorld_def midWorld_def checkedReporter_def establishEnter_def NewCoverageReporter_def go_defs zeroTime_def Let_def)
  moreover have "covStep g (?m (PEstablish False [] False)) (?m (PPersist False []))"
    using adopt_refused [of "?m (PEstablish False [] False)" "[]" g] by (simp add: midWorld_def)
  moreover have "covStep g (?m (PPersist False [])) (?m PBarrier)"
    using persist_skipped [of "?m (PPersist False [])" False "[]" g] by (simp add: midWorld_def)
  ultimately show ?thesis by (meson step_trans rtranclp.rtrancl_refl)
qed

text \<open>After a failed publish the reporter takes the same way, with its degraded flag.\<close>

lemma degraded_to_barrier:
  assumes "degraded r" "\<not> proven r" "retryAfter r = zeroTime"
  shows "(covStep g)\<^sup>*\<^sup>* (midWorld ro R W k r PIdle st) (midWorld ro R W k (r\<lparr>adoptChecked := True\<rparr>) PBarrier st)"
proof -
  let ?m = "\<lambda>p. midWorld ro R W k (r\<lparr>adoptChecked := True\<rparr>) p st"
  have "covStep g (midWorld ro R W k r PIdle st) (?m (PEstablish True (reason r) (adoptChecked r)))"
    using tick_establish [of "midWorld ro R W k r PIdle st" 0 True "reason r" "adoptChecked r" "r\<lparr>adoptChecked := True\<rparr>" g] assms
    by (simp add: midWorld_def establishEnter_def go_defs zeroTime_def Let_def)
  moreover have "covStep g (?m (PEstablish True (reason r) (adoptChecked r))) (?m (PPersist True (reason r)))"
    using no_adoption [of "?m (PEstablish True (reason r) (adoptChecked r))" True "reason r" "adoptChecked r" g] by (simp add: midWorld_def)
  moreover have "covStep g (?m (PPersist True (reason r))) (?m PBarrier)"
    using persist_skipped [of "?m (PPersist True (reason r))" True "reason r" g] by (simp add: midWorld_def)
  ultimately show ?thesis by (meson step_trans rtranclp.rtrancl_refl)
qed

lemma barrier_to_watermark:
  assumes "canReconcile r" "settleBarrierMet r" "\<not> g \<or> visible (midWorld ro R W k r (PScan (failSeq r)) st)"
  shows "(covStep g)\<^sup>*\<^sup>* (midWorld ro R W k r PBarrier st) (midWorld ro R W (k \<union> R) r (PWatermark (failSeq r)) st)"
proof -
  let ?m = "\<lambda>k p. midWorld ro R W k r p st" and ?f = "failSeq r"
  have "covStep g (?m k PBarrier) (?m k PSample)"
    using barrier_met [of "?m k PBarrier" g] assms(1,2) by (simp add: midWorld_def)
  moreover have "covStep g (?m k PSample) (?m k (PScan ?f))"
    using sample [of "?m k PSample" g] by (simp add: midWorld_def)
  moreover have "covStep g (?m k (PScan ?f)) (?m k (PMergeRollup ?f R))"
    using scan_rollup [of "?m k (PScan ?f)" ?f g] assms(3) by (simp add: midWorld_def)
  moreover have "covStep g (?m k (PMergeRollup ?f R)) (?m (k \<union> R) (PMergeRollup ?f R))"
    using merge_rollup [of "?m k (PMergeRollup ?f R)" ?f R R g] by (simp add: midWorld_def)
  moreover have "covStep g (?m (k \<union> R) (PMergeRollup ?f R)) (?m (k \<union> R) (PWatermark ?f))"
    using rollup_merged [of "?m (k \<union> R) (PMergeRollup ?f R)" ?f R g] by (simp add: midWorld_def)
  ultimately show ?thesis by (meson step_trans rtranclp.rtrancl_refl)
qed

definition tailOf :: "lakeRow set \<Rightarrow> time \<Rightarrow> string set" where
  "tailOf ro W = (if IsZero W then {} else fst ` {p \<in> ro. W \<le> snd p})"

lemma watermark_to_finish:
  "(covStep g)\<^sup>*\<^sup>* (midWorld ro R W k r (PWatermark (failSeq r)) st)
     (midWorld ro R W (k \<union> tailOf ro W) r PFinish (Some (PutCoverage (assertion now))))"
proof -
  let ?m = "\<lambda>k p. midWorld ro R W k r p st" and ?f = "failSeq r" and ?t = "tailOf ro W"
  have "(covStep g)\<^sup>*\<^sup>* (?m k (PWatermark ?f)) (?m (k \<union> ?t) (PCheck ?f))"
  proof (cases "IsZero W")
    case True
    then have "covStep g (?m k (PWatermark ?f)) (?m (k \<union> ?t) (PCheck ?f))"
      using no_watermark [of "?m k (PWatermark ?f)" ?f g] by (simp add: midWorld_def tailOf_def)
    then show ?thesis by (rule r_into_rtranclp)
  next
    case False
    then have "covStep g (?m k (PWatermark ?f)) (?m k (PTail ?f W))"
      using read_watermark [of "?m k (PWatermark ?f)" ?f g] by (simp add: midWorld_def)
    moreover have "covStep g (?m k (PTail ?f W)) (?m k (PMerge ?f ?t))"
      using scan_tail [of "?m k (PTail ?f W)" ?f W g] False by (simp add: midWorld_def tailOf_def)
    moreover have "covStep g (?m k (PMerge ?f ?t)) (?m (k \<union> ?t) (PMerge ?f ?t))"
      using merge_tail [of "?m k (PMerge ?f ?t)" ?f ?t ?t g] by (simp add: midWorld_def)
    moreover have "covStep g (?m (k \<union> ?t) (PMerge ?f ?t)) (?m (k \<union> ?t) (PCheck ?f))"
      using tail_merged [of "?m (k \<union> ?t) (PMerge ?f ?t)" ?f ?t g] by (simp add: midWorld_def)
    ultimately show ?thesis by (meson step_trans rtranclp.rtrancl_refl)
  qed
  moreover have "covStep g (?m (k \<union> ?t) (PCheck ?f)) (?m (k \<union> ?t) PAssert)"
    using not_raced [of "?m (k \<union> ?t) (PCheck ?f)" ?f g] by (simp add: midWorld_def)
  moreover have "covStep g (?m (k \<union> ?t) PAssert) (midWorld ro R W (k \<union> ?t) r PFinish (Some (PutCoverage (assertion now))))"
    using assert_written [of "?m (k \<union> ?t) PAssert" g now] by (simp add: midWorld_def)
  ultimately show ?thesis by (meson rtranclp.rtrancl_into_rtrancl)
qed

lemma finish_step:
  "pc w = PFinish \<Longrightarrow> (covStep g)\<^sup>*\<^sup>* v w \<Longrightarrow>
   (covStep g)\<^sup>*\<^sup>* v (w\<lparr>rep := reconcileProved (rep w), pc := PHeartbeat\<rparr>)"
  by (rule rtranclp.rtrancl_into_rtrancl) (auto intro: finish)

text \<open>A whole reconcile, from the barrier to the proof.\<close>

lemma reconcile_run:
  assumes "canReconcile r" "settleBarrierMet r" "\<not> g \<or> visible (midWorld ro R W k r (PScan (failSeq r)) st)"
  shows "(covStep g)\<^sup>*\<^sup>* (midWorld ro R W k r PBarrier st)
    (midWorld ro R W (k \<union> R \<union> tailOf ro W) (reconcileProved r) PHeartbeat (Some (PutCoverage (assertion now))))"
proof -
  let ?f = "midWorld ro R W (k \<union> R \<union> tailOf ro W) r PFinish (Some (PutCoverage (assertion now)))"
  have run: "(covStep g)\<^sup>*\<^sup>* (midWorld ro R W k r PBarrier st) ?f"
    by (rule rtranclp_trans [OF barrier_to_watermark [OF assms] watermark_to_finish])
  have "pc ?f = PFinish" by (simp add: midWorld_def)
  from finish_step [OF this run] show ?thesis by (simp add: midWorld_def)
qed

lemma checked_ready: "canReconcile checkedReporter" "settleBarrierMet checkedReporter" "failSeq checkedReporter = 0"
  by (simp_all add: checkedReporter_def NewCoverageReporter_def settleBarrierMet_def)

text \<open>
  A lake of three subjects, one in the rollup, one stamped after the watermark and one in both: all get their key.
\<close>

theorem coverage_sound_witness:
  "\<exists>w. (covStep True)\<^sup>*\<^sup>* (bootWorld {(''a'', 5), (''b'', 12), (''c'', 7), (''c'', 15)} {''a'', ''c''} 10 {}) w \<and> proven (rep w)
     \<and> lake w \<subseteq> keys w \<union> lost w \<and> inflight w \<subseteq> keys w \<and> lost w = {} \<and> lake w = {''a'', ''b'', ''c''}"
proof -
  let ?ro = "{(''a'', 5), (''b'', 12), (''c'', 7), (''c'', 15)} :: lakeRow set" and ?R = "{''a'', ''c''}"
  let ?w = "midWorld ?ro ?R 10 ({} \<union> ?R \<union> tailOf ?ro 10) (reconcileProved checkedReporter) PHeartbeat (Some (PutCoverage (assertion 1)))"
  have v: "\<not> True \<or> visible (midWorld ?ro ?R 10 {} checkedReporter (PScan (failSeq checkedReporter)) None)"
    by (simp add: visible_def rowsIn_def midWorld_def IsZero_def)
  have r: "(covStep True)\<^sup>*\<^sup>* (bootWorld ?ro ?R 10 {}) ?w"
    by (rule rtranclp_trans [OF boot_to_barrier reconcile_run [OF checked_ready(1,2) v]])
  have p: "proven (rep ?w)" "lost ?w = {}" "lake ?w = {''a'', ''b'', ''c''}" by (auto simp: reconcileProved_def midWorld_def lake_def)
  from coverage_sound [OF r] p(1) have "lake ?w \<subseteq> keys ?w \<union> lost ?w \<and> inflight ?w \<subseteq> keys ?w" by blast
  with r p show ?thesis by blast
qed

text \<open>A batch whose publish fails and whose transaction commits.\<close>

lemma failed_batch:
  assumes "batch w = None"
  shows "(covStep False)\<^sup>*\<^sup>* w (w\<lparr>batch := None, rows := rows w \<union> b,
    rep := ObserveBatchSettled (ObservePublish (rep w) (Some err))\<rparr>)"
proof -
  let ?w1 = "w\<lparr>batch := Some (b, False), keys := keys w \<union> {}, rep := ObservePublish (rep w) (Some err)\<rparr>"
  let ?w2 = "?w1\<lparr>batch := Some (b, True), rows := rows ?w1 \<union> b\<rparr>"
  let ?w3 = "?w2\<lparr>batch := None, rep := ObserveBatchSettled (rep ?w2)\<rparr>"
  have "covStep False w ?w1" by (rule publish_failed [OF assms]) simp_all
  moreover have "covStep False ?w1 ?w2" by (rule commit) simp
  moreover have "covStep False ?w2 ?w3" by (rule settle [where b = b and ended = True]) simp
  ultimately have "(covStep False)\<^sup>*\<^sup>* w ?w3" by (meson step_trans rtranclp.rtrancl_refl)
  moreover have "?w3 = w\<lparr>batch := None, rows := rows w \<union> b,
      rep := ObserveBatchSettled (ObservePublish (rep w) (Some err))\<rparr>" by (cases w) simp
  ultimately show ?thesis by (simp only:)
qed

lemma boot_to_finish:
  "(covStep False)\<^sup>*\<^sup>* (bootWorld ro R W k)
     (midWorld ro R W (k \<union> R \<union> tailOf ro W) checkedReporter PFinish (Some (PutCoverage (assertion now))))"
  by (rule rtranclp_trans [OF boot_to_barrier rtranclp_trans [OF barrier_to_watermark [OF checked_ready(1,2)] watermark_to_finish]]) simp

text \<open>
  The window between the race test of a reconcile and its final lock is open: a publish
  can fail there, its batch commit, and the reporter still end with a proof, no degraded
  flag, no barrier, and a trusted record in the bucket, while the lake holds a subject
  without a key.
\<close>

theorem coverage_race:
  "\<exists>w. (covStep False)\<^sup>*\<^sup>* (bootWorld {} {} 0 {}) w \<and> proven (rep w) \<and> \<not> degraded (rep w) \<and> awaitBatch (rep w) = 0
     \<and> batch w = None \<and> ''veh'' \<in> lake w - (keys w \<union> lost w)
     \<and> (\<exists>c. GetCoverage (stored w) = Inr (Some c) \<and> trusted (Some c) (1000 * second) CoverageMaxStaleness)"
proof -
  let ?f = "midWorld {} {} 0 ({} \<union> {} \<union> tailOf {} 0) checkedReporter PFinish (Some (PutCoverage (assertion (1000 * second))))"
  let ?b = "?f\<lparr>batch := None, rows := rows ?f \<union> {(''veh'', 5)},
      rep := ObserveBatchSettled (ObservePublish (rep ?f) (Some ''nats: timeout''))\<rparr>"
  let ?w = "?b\<lparr>rep := reconcileProved (rep ?b), pc := PHeartbeat\<rparr>"
  have "(covStep False)\<^sup>*\<^sup>* ?f ?b" by (rule failed_batch) (simp add: midWorld_def)
  then have b: "(covStep False)\<^sup>*\<^sup>* (bootWorld {} {} 0 {}) ?b" by (rule rtranclp_trans [OF boot_to_finish])
  have "pc ?b = PFinish" by (simp add: midWorld_def)
  then have "(covStep False)\<^sup>*\<^sup>* (bootWorld {} {} 0 {}) ?w" by (rule finish_step [OF _ b])
  then show ?thesis
    by (intro exI [of _ ?w])
      (simp add: midWorld_def reconcileProved_def GetCoverage_def PutCoverage_def decodeCoverage_def assertion_def tailOf_def
        trusted_def go_defs Sub_def sat64_def minInt64_def maxInt64_def second_def CoverageMaxStaleness_def lake_def)
qed

text \<open>
  A lost publish at a quiet moment, its batch committed and settled, and then a reconcile that proves coverage: the
  general case behind the next runs.
\<close>

definition afterLoss :: reporter where
  "afterLoss = ObserveBatchSettled (ObservePublish (NewCoverageReporter True) (Some ''nats: timeout''))"

lemma afterLoss_ready:
  "degraded afterLoss" "\<not> proven afterLoss" "retryAfter afterLoss = zeroTime" "canReconcile (afterLoss\<lparr>adoptChecked := True\<rparr>)"
  "settleBarrierMet (afterLoss\<lparr>adoptChecked := True\<rparr>)"
  by (simp_all add: afterLoss_def reporter_defs)

lemma boot_loss:
  "(covStep False)\<^sup>*\<^sup>* (bootWorld {} R W k) (midWorld b R W k (afterLoss\<lparr>adoptChecked := True\<rparr>) PBarrier None)"
proof -
  have "(covStep False)\<^sup>*\<^sup>* (bootWorld {} R W k) (midWorld b R W k afterLoss PIdle None)"
    using failed_batch [of "bootWorld {} R W k" "''nats: timeout''" b] by (simp add: bootWorld_def midWorld_def afterLoss_def)
  then show ?thesis by (rule rtranclp_trans) (rule degraded_to_barrier [OF afterLoss_ready(1-3)])
qed

lemma loss_reconciled:
  "(covStep False)\<^sup>*\<^sup>* (bootWorld {} R W k)
     (midWorld b R W (k \<union> R \<union> tailOf b W) (reconcileProved (afterLoss\<lparr>adoptChecked := True\<rparr>)) PHeartbeat (Some (PutCoverage (assertion now))))"
  by (rule rtranclp_trans [OF boot_loss reconcile_run [OF afterLoss_ready(4,5)]]) simp

text \<open>
  A first reading stamped below the watermark: until the next refresh recomputes the late subjects it is neither in the
  rollup nor in the tail, and a reconcile certifies it away. The same holds of any reading while there is
  no watermark: the tail is not read at all.
\<close>

theorem late_reading_certified_away:
  assumes "IsZero W \<or> t < W"
  shows "\<exists>w. (covStep False)\<^sup>*\<^sup>* (bootWorld {} {} W {}) w \<and> proven (rep w) \<and> \<not> degraded (rep w)
     \<and> batch w = None \<and> s \<in> lake w - (keys w \<union> lost w)"
  using loss_reconciled [of "{}" W "{}" "{(s, t)}"] assms
  by (intro exI [of _ "midWorld {(s, t)} {} W ({} \<union> {} \<union> tailOf {(s, t)} W) (reconcileProved (afterLoss\<lparr>adoptChecked := True\<rparr>)) PHeartbeat
      (Some (PutCoverage (assertion 1)))"])
    (auto simp: midWorld_def lake_def tailOf_def reconcileProved_def)

text \<open>
  A refresh that commits between the scan of the rollup and the read of the watermark: the first reading of a subject
  is above the old watermark, so not in the rollup that was scanned, and below the new one, so not in the tail.
\<close>

theorem refresh_during_reconcile:
  assumes "\<not> IsZero W" "W \<le> t" "t < W'"
  shows "\<exists>w. (covStep False)\<^sup>*\<^sup>* (bootWorld {} {} W {}) w \<and> proven (rep w) \<and> \<not> degraded (rep w)
     \<and> rollup w = {s} \<and> watermark w = W' \<and> s \<in> lake w - (keys w \<union> lost w)"
proof -
  let ?r = "afterLoss\<lparr>adoptChecked := True\<rparr>" and ?b = "{(s, t)}"
  let ?m = "midWorld ?b {s} W' {} ?r (PWatermark (failSeq ?r)) None"
  let ?f = "midWorld ?b {s} W' ({} \<union> tailOf ?b W') ?r PFinish (Some (PutCoverage (assertion 1)))"
  have "(covStep False)\<^sup>*\<^sup>* (bootWorld {} {} W {}) (midWorld ?b {} W ({} \<union> {}) ?r (PWatermark (failSeq ?r)) None)"
    by (rule rtranclp_trans [OF boot_loss barrier_to_watermark [OF afterLoss_ready(4,5)]]) simp
  moreover have "covStep False (midWorld ?b {} W ({} \<union> {}) ?r (PWatermark (failSeq ?r)) None) ?m"
    using maintain [of ?b "midWorld ?b {} W ({} \<union> {}) ?r (PWatermark (failSeq ?r)) None" False W' "{s}"] by (simp add: midWorld_def)
  ultimately have "(covStep False)\<^sup>*\<^sup>* (bootWorld {} {} W {}) ?m" by (rule rtranclp.rtrancl_into_rtrancl)
  then have "(covStep False)\<^sup>*\<^sup>* (bootWorld {} {} W {}) ?f" by (rule rtranclp_trans) (rule watermark_to_finish)
  moreover have "pc ?f = PFinish" by (simp add: midWorld_def)
  ultimately have "(covStep False)\<^sup>*\<^sup>* (bootWorld {} {} W {}) (?f\<lparr>rep := reconcileProved (rep ?f), pc := PHeartbeat\<rparr>)"
    by (intro finish_step)
  then show ?thesis using assms
    by (intro exI [of _ "?f\<lparr>rep := reconcileProved (rep ?f), pc := PHeartbeat\<rparr>"])
      (auto simp: midWorld_def lake_def tailOf_def reconcileProved_def)
qed

text \<open>
  A backfill whose publish fails commits its rows while the writer holds a proof; the writer's heartbeat goes on
  asserting it, with all conditions of \<open>coverage_sound\<close> met, until the backfill's \<open>FlushDegraded\<close>.
\<close>

theorem backfill_hole:
  "\<exists>w. (covStep True)\<^sup>*\<^sup>* (bootWorld {} {} 10 {}) w \<and> proven (rep w) \<and> \<not> degraded (rep w) \<and> ''veh'' \<in> lake w - keys w
     \<and> (\<exists>c. GetCoverage (stored w) = Inr (Some c) \<and> trusted (Some c) (2000 * second) CoverageMaxStaleness)"
proof -
  let ?w0 = "midWorld {} {} 10 ({} \<union> {} \<union> tailOf {} 10) (reconcileProved checkedReporter) PHeartbeat (Some (PutCoverage (assertion 1)))"
  let ?w1 = "?w0\<lparr>other := Some {(''veh'', 5)}, keys := keys ?w0 \<union> {}, lost := lost ?w0 \<union> (fst ` {(''veh'', 5 :: time)} - {})\<rparr>"
  let ?w2 = "?w1\<lparr>other := None, rows := rows ?w1 \<union> {(''veh'', 5)}\<rparr>"
  let ?w3 = "?w2\<lparr>pc := PHeartbeatPut\<rparr>"
  let ?w4 = "?w3\<lparr>stored := Some (PutCoverage (assertion (2000 * second))), pc := PIdle\<rparr>"
  have "\<not> True \<or> visible (midWorld {} {} 10 {} checkedReporter (PScan (failSeq checkedReporter)) None)"
    by (simp add: visible_def rowsIn_def midWorld_def)
  from rtranclp_trans [OF boot_to_barrier reconcile_run [OF checked_ready(1,2) this]]
  have "(covStep True)\<^sup>*\<^sup>* (bootWorld {} {} 10 {}) ?w0" .
  moreover have "covStep True ?w0 ?w1" by (rule other_failed) (simp_all add: midWorld_def)
  moreover have "covStep True ?w1 ?w2" by (rule other_commit) simp
  moreover have "covStep True ?w2 ?w3"
    by (rule heartbeat_read [where c = "Some ((assertion 1)\<lparr>CvV := CoverageVersion\<rparr>)"])
      (simp_all add: midWorld_def GetCoverage_def PutCoverage_def decodeCoverage_def assertion_def)
  moreover have "covStep True ?w3 ?w4" by (rule heartbeat_put) simp
  ultimately have "(covStep True)\<^sup>*\<^sup>* (bootWorld {} {} 10 {}) ?w4" by (meson rtranclp.rtrancl_into_rtrancl)
  then show ?thesis
    by (intro exI [of _ ?w4])
      (simp add: midWorld_def lake_def tailOf_def reconcileProved_def GetCoverage_def PutCoverage_def decodeCoverage_def assertion_def
        trusted_def go_defs Sub_def sat64_def minInt64_def maxInt64_def second_def CoverageMaxStaleness_def)
qed

text \<open>A writer that proved coverage and shut down gracefully, seen by the next process.\<close>

definition afterClean :: "lakeRow set \<Rightarrow> string set \<Rightarrow> time \<Rightarrow> world" where
  "afterClean ro k now = midWorld ro {} 0 k (NewCoverageReporter True) PIdle (Some (PutCoverage (cleanRecord now)))"

lemma boot_to_clean: "(covStep False)\<^sup>*\<^sup>* (bootWorld ro {} 0 k) (afterClean ro k now)"
proof -
  let ?h = "midWorld ro {} 0 (k \<union> {} \<union> tailOf ro 0) (reconcileProved checkedReporter) PHeartbeat (Some (PutCoverage (assertion now)))"
  have h: "(covStep False)\<^sup>*\<^sup>* (bootWorld ro {} 0 k) ?h"
    by (rule rtranclp_trans [OF boot_to_barrier reconcile_run [OF checked_ready(1,2)]]) simp
  have "covStep False ?h (?h\<lparr>pc := PIdle\<rparr>)" by (rule heartbeat_failed) (simp add: midWorld_def)
  moreover have "covStep False (?h\<lparr>pc := PIdle\<rparr>) (?h\<lparr>pc := PMarkClean\<rparr>)"
    using shutdown_proven [of "?h\<lparr>pc := PIdle\<rparr>" False] by (simp add: midWorld_def reconcileProved_def)
  moreover have "covStep False (?h\<lparr>pc := PMarkClean\<rparr>) (?h\<lparr>stored := Some (PutCoverage (cleanRecord now)), pc := PStopped\<rparr>)"
    using mark_clean [of "?h\<lparr>pc := PMarkClean\<rparr>" False now] by (simp add: midWorld_def)
  moreover have "covStep False (?h\<lparr>stored := Some (PutCoverage (cleanRecord now)), pc := PStopped\<rparr>) (afterClean ro k now)"
    using crash [of False "?h\<lparr>stored := Some (PutCoverage (cleanRecord now)), pc := PStopped\<rparr>"]
    by (simp add: midWorld_def afterClean_def tailOf_def IsZero_def)
  ultimately have "(covStep False)\<^sup>*\<^sup>* ?h (afterClean ro k now)" by (meson step_trans rtranclp.rtrancl_refl)
  with h show ?thesis by (rule rtranclp_trans)
qed

text \<open>
  The clean record outlives the process that adopts it until that process writes its
  first heartbeat: a publish that fails before then, followed by a crash, lets the next
  process adopt coverage that the lake no longer has.
\<close>

theorem coverage_stale_clean:
  "\<exists>w. (covStep False)\<^sup>*\<^sup>* (bootWorld {} {} 0 {}) w \<and> proven (rep w) \<and> \<not> degraded (rep w) \<and> ''veh'' \<in> lake w - (keys w \<union> lost w)"
proof -
  let ?c = "afterClean {} {} 1"
  let ?b = "?c\<lparr>batch := None, rows := rows ?c \<union> {(''veh'', 5)},
      rep := ObserveBatchSettled (ObservePublish (rep ?c) (Some ''nats: timeout''))\<rparr>"
  let ?n = "?c\<lparr>rows := {(''veh'', 5)}\<rparr>"
  have "(covStep False)\<^sup>*\<^sup>* ?c ?b" by (rule failed_batch) (simp add: afterClean_def midWorld_def)
  then have b: "(covStep False)\<^sup>*\<^sup>* (bootWorld {} {} 0 {}) ?b" by (rule rtranclp_trans [OF boot_to_clean])
  have "covStep False ?b ?n" using crash [of False ?b] by (simp add: afterClean_def midWorld_def)
  moreover have "covStep False ?n (?n\<lparr>rep := checkedReporter, pc := PEstablish False [] False\<rparr>)"
    by (rule tick_establish [where now = 0])
      (simp_all add: afterClean_def midWorld_def checkedReporter_def establishEnter_def NewCoverageReporter_def go_defs zeroTime_def)
  moreover have "covStep False (?n\<lparr>rep := checkedReporter, pc := PEstablish False [] False\<rparr>) (?n\<lparr>rep := checkedReporter, pc := PAdopt\<rparr>)"
    using adopt_read [of "?n\<lparr>rep := checkedReporter, pc := PEstablish False [] False\<rparr>" "[]" False]
    by (simp add: cleanStored_def cleanCoverage_def afterClean_def midWorld_def GetCoverage_def PutCoverage_def decodeCoverage_def cleanRecord_def)
  moreover have "covStep False (?n\<lparr>rep := checkedReporter, pc := PAdopt\<rparr>) (?n\<lparr>rep := adoptProof checkedReporter, pc := PHeartbeat\<rparr>)"
    using adopt [of "?n\<lparr>rep := checkedReporter, pc := PAdopt\<rparr>" False] by simp
  ultimately have "(covStep False)\<^sup>*\<^sup>* ?b (?n\<lparr>rep := adoptProof checkedReporter, pc := PHeartbeat\<rparr>)"
    by (meson step_trans rtranclp.rtrancl_refl)
  with b have "(covStep False)\<^sup>*\<^sup>* (bootWorld {} {} 0 {}) (?n\<lparr>rep := adoptProof checkedReporter, pc := PHeartbeat\<rparr>)"
    by (rule rtranclp_trans)
  then show ?thesis
    by (intro exI [of _ "?n\<lparr>rep := adoptProof checkedReporter, pc := PHeartbeat\<rparr>"])
      (simp add: adoptProof_def checkedReporter_def NewCoverageReporter_def afterClean_def midWorld_def lake_def)
qed

subsection \<open>Trust and backoff\<close>

lemma consume_closed: "consume cur (us @ [WatchClosed]) = None"
  by (induction us arbitrary: cur) (auto elim: consume.elims split: watchUpdate.splits, (case_tac a; simp)+)

text \<open>
  A reader trusts a miss only with a record of this version that is not degraded and
  whose age is at most 90 seconds either way, in a bucket without TTL; once the last
  assertion is older than that, or the watch has ended, it does not, whatever else happened.
\<close>

theorem trust_decays:
  assumes "TrustedAt bucketTTL cur now"
  shows "bucketTTL = 0 \<and> (\<exists>c. cur = Some c \<and> CvV c = CoverageVersion \<and> \<not> Degraded c
           \<and> VerifiedThrough c \<noteq> 0 \<and> \<bar>now - VerifiedThrough c\<bar> \<le> 90 * second)
       \<and> cur \<noteq> consume cur' (us @ [WatchClosed])"
proof -
  obtain c where c: "cur = Some c" "bucketTTL = 0" "CvV c = CoverageVersion" "\<not> Degraded c" "VerifiedThrough c \<noteq> 0"
    and age: "Sub now (VerifiedThrough c) \<le> 90 * second" "- (90 * second) \<le> Sub now (VerifiedThrough c)"
    using assms by (auto simp: TrustedAt_def trusted_def go_defs CoverageMaxStaleness_def Let_def split: if_splits option.splits)
  have "now - VerifiedThrough c \<le> 90 * second" "- (90 * second) \<le> now - VerifiedThrough c"
    using age by (simp_all add: Sub_def sat64_le_iff sat64_ge_iff minInt64_def maxInt64_def second_def)
  then show ?thesis using c by (auto simp: consume_closed)
qed

theorem trust_decays_witness:
  "TrustedAt 0 (Some ((assertion (1000 * second))\<lparr>CvV := 1\<rparr>)) (1030 * second) \<and> \<bar>1030 * second - 1000 * second\<bar> \<le> 90 * second"
proof -
  have t: "TrustedAt 0 (Some ((assertion (1000 * second))\<lparr>CvV := 1\<rparr>)) (1030 * second)"
    by (simp add: TrustedAt_def trusted_def assertion_def CoverageVersion_def CoverageMaxStaleness_def go_defs Sub_def
        sat64_def minInt64_def maxInt64_def second_def)
  from trust_decays [OF t] t show ?thesis by (simp add: assertion_def)
qed

text \<open>
  The backoff between failed reconciles starts at 30 seconds, doubles, never exceeds ten
  minutes and never overflows.
\<close>

theorem nextBackoff_bounds:
  assumes "cur = 0 \<or> reconcileMinBackoff \<le> cur \<and> cur \<le> reconcileMaxBackoff"
  shows "reconcileMinBackoff \<le> nextBackoff cur \<and> nextBackoff cur \<le> reconcileMaxBackoff
    \<and> nextBackoff cur = (if cur = 0 then 30 * second else min (2 * cur) (10 * minute))"
proof -
  have "wrap64 (cur * 2) = cur * 2"
    using assms by (intro wrap64_id) (auto simp: reconcileMinBackoff_def reconcileMaxBackoff_def minInt64_def maxInt64_def second_def minute_def)
  then show ?thesis
    using assms by (auto simp: nextBackoff_def reconcileMinBackoff_def reconcileMaxBackoff_def second_def minute_def Let_def)
qed

theorem nextBackoff_bounds_witness: "nextBackoff (30 * second) = 60 * second"
  using nextBackoff_bounds [of "30 * second"]
  by (simp add: reconcileMinBackoff_def reconcileMaxBackoff_def second_def minute_def)

end
