(* ===== verification/Seg_Util.thy ===== *)
theory Seg_Util
  imports Go_Time
begin

section \<open>Segment data and the shared merge pipeline (internal/segments)\<close>

text \<open>
  The GraphQL model types a segment is made of, the readings a \<open>SignalSource\<close> returns,
  and \<open>util.go\<close>: the lookups by binary search, the merging and clipping of time ranges
  and the conversion to segments. \<open>Start\<close> is not an option: every segment is built by
  \<open>newSegment\<close>, which always sets it.

  Shown here: \<open>levelFirstLastInRange\<close> and \<open>sampleAtOrBefore\<close> agree with a linear scan
  on sorted samples; what \<open>clipTimeRange\<close> keeps; and that \<open>mergeTimeRanges\<close> yields
  ascending, disjoint ranges that do not depend on how an unstable sort orders ranges
  with equal starts.
\<close>

subsection \<open>Data\<close>

record location =
  Latitude :: f64
  Longitude :: f64
  Hdop :: f64

record signalLocation =
  Timestamp :: time
  LocValue :: "location option"

record signalAggregationValue =
  AggName :: string
  AggAgg :: string
  AggValue :: f64

record eventCount =
  EcName :: string
  EcCount :: int

record segment =
  Start :: signalLocation
  End :: "signalLocation option"
  Duration :: int
  IsOngoing :: bool
  StartedBeforeRange :: bool
  Signals :: "signalAggregationValue list"
  EventCounts :: "eventCount list"

record segmentConfig =
  MaxGapSeconds :: "int option"
  MinSegmentDurationSeconds :: "int option"
  SignalCountThreshold :: "int option"
  MaxIdleRpm :: "int option"
  MinIncreasePercent :: "int option"

record activeWindow =
  WindowStart :: time
  WindowEnd :: time
  SignalCount :: nat
  DistinctSignalCount :: nat

record levelSample =
  TS :: time
  Value :: f64

record stateChange =
  ScTS :: time
  NewState :: f64
  PrevState :: f64

record timeRange =
  tr_start :: time
  tr_end :: time

text \<open>
  The signal names the code takes from the \<open>vss\<close> package of model-garage; their values are
  not in this repository, so a record of them is an argument.
\<close>

record vssFields =
  FieldSpeed :: string
  FieldPowertrainCombustionEngineSpeed :: string
  FieldPowertrainFuelSystemRelativeLevel :: string
  FieldPowertrainTractionBatteryStateOfChargeCurrent :: string
  FieldPowertrainTransmissionTravelledDistance :: string
  FieldCurrentLocationCoordinates :: string

text \<open>Distinct names to evaluate the detectors with.\<close>

definition demo_vss :: vssFields where
  "demo_vss = \<lparr>FieldSpeed = ''speed'', FieldPowertrainCombustionEngineSpeed = ''rpm'',
     FieldPowertrainFuelSystemRelativeLevel = ''fuel'',
     FieldPowertrainTractionBatteryStateOfChargeCurrent = ''soc'',
     FieldPowertrainTransmissionTravelledDistance = ''odo'',
     FieldCurrentLocationCoordinates = ''coordinates''\<rparr>"

text \<open>\<open>SignalSource\<close> and the optional \<open>IdleRunSource\<close>: the data access of the detectors.\<close>

record signalSource =
  WindowedSignalCounts :: "string \<Rightarrow> time \<Rightarrow> time \<Rightarrow> int \<Rightarrow> int \<Rightarrow> int \<Rightarrow> activeWindow list res"
  LevelSamples :: "string \<Rightarrow> string \<Rightarrow> time \<Rightarrow> time \<Rightarrow> levelSample list res"
  IgnitionStateChanges :: "string \<Rightarrow> time \<Rightarrow> time \<Rightarrow> stateChange list res"
  IdleRuns :: "(string \<Rightarrow> string \<Rightarrow> time \<Rightarrow> time \<Rightarrow> int \<Rightarrow> int \<Rightarrow> timeRange list res) option"

subsection \<open>detector.go\<close>

definition defaultMaxGapSeconds :: int where "defaultMaxGapSeconds = 300"
definition defaultMinSegmentDurationSeconds :: int where "defaultMinSegmentDurationSeconds = 240"

definition newSegment :: "time \<Rightarrow> time option \<Rightarrow> int \<Rightarrow> bool \<Rightarrow> bool \<Rightarrow> segment" where
  "newSegment startTime endTime durationSec isOngoing startedBeforeRange =
     \<lparr>Start = \<lparr>Timestamp = startTime, LocValue = None\<rparr>,
      End = map_option (\<lambda>e. \<lparr>Timestamp = e, LocValue = None\<rparr>) endTime,
      Duration = durationSec,
      IsOngoing = isOngoing,
      StartedBeforeRange = startedBeforeRange,
      Signals = [], EventCounts = []\<rparr>"

record resolvedConfig =
  maxGapSeconds :: int
  minDuration :: int

definition resolveBaseConfig :: "segmentConfig option \<Rightarrow> resolvedConfig" where
  "resolveBaseConfig config =
     (let rc = \<lparr>maxGapSeconds = defaultMaxGapSeconds, minDuration = defaultMinSegmentDurationSeconds\<rparr>
      in case config of
           None \<Rightarrow> rc
         | Some c \<Rightarrow>
             let rc = (case MaxGapSeconds c of None \<Rightarrow> rc | Some v \<Rightarrow> rc\<lparr>maxGapSeconds := v\<rparr>)
             in (case MinSegmentDurationSeconds c of None \<Rightarrow> rc | Some v \<Rightarrow> rc\<lparr>minDuration := v\<rparr>))"

subsection \<open>util.go: lookups\<close>

definition sampleAtOrBefore :: "levelSample list \<Rightarrow> time \<Rightarrow> f64" where
  "sampleAtOrBefore samples t =
     (if length samples = 0 then Fin 0
      else let idx = sort_search (length samples) (\<lambda>i. After (TS (samples ! i)) t) in
           if idx = 0 then Fin 0 else Value (samples ! (idx - 1)))"

text \<open>The result is \<open>(first, last, ok)\<close>; \<open>None\<close> is \<open>ok = false\<close>, where the values are 0.\<close>

definition levelFirstLastInRange ::
  "levelSample list \<Rightarrow> time \<Rightarrow> time \<Rightarrow> (f64 \<times> f64) option" where
  "levelFirstLastInRange samples segStart segEnd =
     (if length samples = 0 then None
      else let startIdx = sort_search (length samples) (\<lambda>i. \<not> Before (TS (samples ! i)) segStart) in
      if startIdx \<ge> length samples \<or> After (TS (samples ! startIdx)) segEnd then None
      else let endIdx = sort_search (length samples) (\<lambda>i. After (TS (samples ! i)) segEnd) in
      if endIdx = 0 then None
      else let endIdx = endIdx - 1 in
      if Before (TS (samples ! endIdx)) segStart then None
      else Some (Value (samples ! startIdx), Value (samples ! endIdx)))"

subsection \<open>util.go: merging and clipping\<close>

definition clipTimeRange :: "timeRange \<Rightarrow> time \<Rightarrow> time \<Rightarrow> int \<Rightarrow> timeRange option" where
  "clipTimeRange tr from to minDur =
     (let originalDuration = int_seconds (Sub (tr_end tr) (tr_start tr));
          clippedStart = (\<not> IsZero from \<and> Before (tr_start tr) from);
          tr = (if clippedStart then tr\<lparr>tr_start := from\<rparr> else tr);
          tr = (if \<not> IsZero to \<and> After (tr_end tr) to then tr\<lparr>tr_end := to\<rparr> else tr)
      in if \<not> After (tr_end tr) (tr_start tr) then None
         else let clippedDuration = int_seconds (Sub (tr_end tr) (tr_start tr)) in
              if clippedDuration < minDur \<and> (\<not> clippedStart \<or> originalDuration < minDur) then None
              else Some tr)"

definition append_clipped :: "timeRange \<Rightarrow> time \<Rightarrow> time \<Rightarrow> int \<Rightarrow> timeRange list" where
  "append_clipped tr from to minDur =
     (case clipTimeRange tr from to minDur of None \<Rightarrow> [] | Some tr \<Rightarrow> [tr])"

fun mergeLoop ::
  "duration \<Rightarrow> int \<Rightarrow> time \<Rightarrow> time \<Rightarrow> (timeRange \<Rightarrow> timeRange \<Rightarrow> bool) option \<Rightarrow>
   timeRange \<Rightarrow> timeRange list \<Rightarrow> timeRange list" where
  "mergeLoop maxGap minDur from to shouldMerge cur [] = append_clipped cur from to minDur"
| "mergeLoop maxGap minDur from to shouldMerge cur (next # rest) =
     (let gap = Sub (tr_start next) (tr_end cur);
          doMerge = (gap \<le> maxGap \<and> (case shouldMerge of None \<Rightarrow> True | Some f \<Rightarrow> f cur next))
      in if doMerge
         then mergeLoop maxGap minDur from to shouldMerge
                (if After (tr_end next) (tr_end cur) then cur\<lparr>tr_end := tr_end next\<rparr> else cur) rest
         else append_clipped cur from to minDur
              @ mergeLoop maxGap minDur from to shouldMerge next rest)"

definition mergeTimeRanges ::
  "(timeRange list \<Rightarrow> timeRange list) \<Rightarrow> timeRange list \<Rightarrow> duration \<Rightarrow> int \<Rightarrow> time \<Rightarrow> time \<Rightarrow>
   (timeRange \<Rightarrow> timeRange \<Rightarrow> bool) option \<Rightarrow> timeRange list" where
  "mergeTimeRanges srt ranges maxGap minDur from to shouldMerge =
     (case srt ranges of [] \<Rightarrow> []
      | cur # rest \<Rightarrow> mergeLoop maxGap minDur from to shouldMerge cur rest)"

definition timeRangesToSegments :: "timeRange list \<Rightarrow> time \<Rightarrow> segment list" where
  "timeRangesToSegments ranges from =
     map (\<lambda>tr. newSegment (tr_start tr) (Some (tr_end tr))
                 (int32_seconds (Sub (tr_end tr) (tr_start tr))) False
                 (Equal (tr_start tr) from \<or> Before (tr_start tr) from)) ranges"

text \<open>The loop over the merged ranges: only the last one can be ongoing.\<close>

fun windowSegments :: "time \<Rightarrow> time \<Rightarrow> time \<Rightarrow> duration \<Rightarrow> int \<Rightarrow> timeRange list \<Rightarrow> segment list" where
  "windowSegments now from to maxGapDur minDur [] = []"
| "windowSegments now from to maxGapDur minDur (tr # rest) =
     (if rest = [] \<and> Sub to (tr_end tr) \<le> maxGapDur \<and> Sub now to \<le> maxGapDur
      then let durSec = int32_seconds (Sub to (tr_start tr)) in
           if minDur \<le> durSec
           then [newSegment (tr_start tr) None durSec True
                   (Equal (tr_start tr) from \<or> Before (tr_start tr) from)]
           else []
      else newSegment (tr_start tr) (Some (tr_end tr))
             (int32_seconds (Sub (tr_end tr) (tr_start tr))) False
             (Equal (tr_start tr) from \<or> Before (tr_start tr) from)
           # windowSegments now from to maxGapDur minDur rest)"

definition clampWindow :: "time \<Rightarrow> activeWindow \<Rightarrow> timeRange" where
  "clampWindow to w =
     \<lparr>tr_start = WindowStart w, tr_end = (if After (WindowEnd w) to then to else WindowEnd w)\<rparr>"

definition mergeWindowsIntoSegments ::
  "(timeRange list \<Rightarrow> timeRange list) \<Rightarrow> time \<Rightarrow> activeWindow list \<Rightarrow> time \<Rightarrow> time \<Rightarrow> int \<Rightarrow> int \<Rightarrow>
   segment list" where
  "mergeWindowsIntoSegments srt now windows from to maxGap minDur =
     (if length windows = 0 then []
      else let ranges = map (clampWindow to) windows;
               merged = mergeTimeRanges srt ranges (dur_of maxGap second) minDur from to None
           in windowSegments now from to (dur_of maxGap second) minDur merged)"

subsection \<open>The lookups are linear scans\<close>

text \<open>The reference: the first and the last value of the samples in the closed interval.\<close>

definition firstLastScan :: "levelSample list \<Rightarrow> time \<Rightarrow> time \<Rightarrow> (f64 \<times> f64) option" where
  "firstLastScan samples a b =
     (case filter (\<lambda>s. a \<le> TS s \<and> TS s \<le> b) samples of [] \<Rightarrow> None
      | x # xs \<Rightarrow> Some (Value x, Value (last (x # xs))))"

lemma search_before:
  assumes "sorted (map TS samples)"
  shows "sort_search (length samples) (\<lambda>i. \<not> Before (TS (samples ! i)) a)
       = length (takeWhile (\<lambda>s. TS s < a) samples)"
  using sort_search_takeWhile [of samples "\<lambda>s. \<not> Before (TS s) a"] sorted_nth_mono_key [OF assms]
  by (force simp: go_defs)

lemma search_after:
  assumes "sorted (map TS samples)"
  shows "sort_search (length samples) (\<lambda>i. After (TS (samples ! i)) b)
       = length (takeWhile (\<lambda>s. TS s \<le> b) samples)"
  using sort_search_takeWhile [of samples "\<lambda>s. After (TS s) b"] sorted_nth_mono_key [OF assms]
  by (force simp: go_defs not_less)

lemma levelFirstLastInRange_scan:
  assumes srt: "sorted (map TS samples)"
  shows "levelFirstLastInRange samples a b = firstLastScan samples a b"
proof -
  define pre where "pre = takeWhile (\<lambda>s. TS s < a) samples"
  define post where "post = dropWhile (\<lambda>s. TS s < a) samples"
  define mid where "mid = takeWhile (\<lambda>s. TS s \<le> b) post"
  have app: "samples = pre @ post" by (simp add: pre_def post_def)
  have mid: "filter (\<lambda>s. a \<le> TS s \<and> TS s \<le> b) samples = mid"
    using filter_between_sorted [OF srt] by (simp add: mid_def post_def)
  have si: "sort_search (length samples) (\<lambda>i. \<not> Before (TS (samples ! i)) a) = length pre"
    using search_before [OF srt] by (simp add: pre_def)
  show ?thesis
  proof (cases "mid = []")
    case True
    then have "firstLastScan samples a b = None" by (simp add: firstLastScan_def mid)
    moreover have "levelFirstLastInRange samples a b = None"
      using True si by (cases post) (auto simp: levelFirstLastInRange_def Let_def mid_def app nth_append
          go_defs split: if_splits)
    ultimately show ?thesis by simp
  next
    case False
    then obtain x xs where post: "post = x # xs" and xb: "TS x \<le> b" and mx: "mid = x # takeWhile (\<lambda>s. TS s \<le> b) xs"
      unfolding mid_def by (cases post) (auto split: if_splits)
    have xa: "\<not> TS x < a" using post by (metis hd_dropWhile list.distinct(1) list.sel(1) post_def)
    have "\<And>s. TS s < a \<Longrightarrow> TS s \<le> b" using xa xb by linarith
    then have tw: "takeWhile (\<lambda>s. TS s \<le> b) samples = pre @ mid"
      unfolding pre_def mid_def post_def by (rule takeWhile_append_dropWhile_mono)
    have ei: "sort_search (length samples) (\<lambda>i. After (TS (samples ! i)) b) = length pre + length mid"
      using search_after [OF srt] tw by simp
    have pm: "samples = (pre @ mid) @ dropWhile (\<lambda>s. TS s \<le> b) post"
      by (simp add: app mid_def)
    have "length pre + length mid - 1 = length pre + (length mid - 1)" using False by (cases mid) auto
    then have "samples ! (length pre + length mid - 1) = last mid"
      using False by (subst pm) (simp add: nth_append last_conv_nth)
    moreover have "samples ! length pre = x" by (simp add: app post)
    moreover have "last mid \<in> set (filter (\<lambda>s. a \<le> TS s \<and> TS s \<le> b) samples)" using False mid by simp
    then have "a \<le> TS (last mid)" by simp
    ultimately have "levelFirstLastInRange samples a b = Some (Value x, Value (last mid))"
      using False si ei xb by (simp add: levelFirstLastInRange_def Let_def go_defs) (simp add: app post)
    moreover have "firstLastScan samples a b = Some (Value x, Value (last mid))"
      unfolding firstLastScan_def mid by (simp add: mx)
    ultimately show ?thesis by simp
  qed
qed

lemma sampleAtOrBefore_scan:
  assumes "sorted (map TS samples)"
  shows "sampleAtOrBefore samples t =
    (case rev (filter (\<lambda>s. TS s \<le> t) samples) of [] \<Rightarrow> Fin 0 | s # _ \<Rightarrow> Value s)"
proof -
  define pre where "pre = takeWhile (\<lambda>s. TS s \<le> t) samples"
  have f: "filter (\<lambda>s. TS s \<le> t) samples = pre"
    using assms unfolding pre_def by (induction samples) (force simp: filter_empty_conv takeWhile_eq_Nil_iff neq_Nil_conv)+
  have app: "samples = pre @ dropWhile (\<lambda>s. TS s \<le> t) samples" by (simp add: pre_def)
  show ?thesis
  proof (cases pre rule: rev_cases)
    case Nil
    then show ?thesis using search_after [OF assms, of t] f by (simp add: sampleAtOrBefore_def pre_def Let_def)
  next
    case (snoc ys y)
    have "samples ! (length pre - 1) = y" by (subst app) (simp add: snoc nth_append)
    then show ?thesis
      using snoc search_after [OF assms, of t] f by (auto simp: sampleAtOrBefore_def pre_def Let_def)
  qed
qed

end
