(* ===== verification/Seg_Merge.thy ===== *)
theory Seg_Merge
  imports Seg_Util
begin

section \<open>Correctness of merging and clipping\<close>

text \<open>
  The lemmas behind every detector that merges ranges: the exact outcome of
  \<open>clipTimeRange\<close>, the merged runs as a reference definition (\<open>mergeRuns\<close>) whose
  clipping is \<open>mergeTimeRanges\<close>, that the runs cover the input, that the output is
  ascending with gaps above \<open>maxGap\<close>, and that an unstable sort cannot change it.
\<close>

subsection \<open>Clipping\<close>

definition clipBounds :: "timeRange \<Rightarrow> time \<Rightarrow> time \<Rightarrow> timeRange" where
  "clipBounds tr from to =
     \<lparr>tr_start = (if from \<noteq> 0 then max from (tr_start tr) else tr_start tr),
      tr_end = (if to \<noteq> 0 then min to (tr_end tr) else tr_end tr)\<rparr>"

lemma timeRange_eqI: "tr_start a = tr_start b \<Longrightarrow> tr_end a = tr_end b \<Longrightarrow> a = (b :: timeRange)"
  by simp

lemma clipTimeRange_eq:
  "clipTimeRange tr from to minDur =
     (let c = clipBounds tr from to in
      if tr_start c < tr_end c
         \<and> (minDur \<le> int_seconds (Sub (tr_end c) (tr_start c))
            \<or> (from \<noteq> 0 \<and> tr_start tr < from \<and> minDur \<le> int_seconds (Sub (tr_end tr) (tr_start tr))))
      then Some c else None)"
proof (cases tr)
  case (fields s e)
  show ?thesis
    by (cases "from \<noteq> 0 \<and> s < from"; cases "to \<noteq> 0 \<and> to < e")
      (auto simp: fields clipTimeRange_def clipBounds_def Let_def go_defs max_def min_def)
qed

lemma clipTimeRange_SomeD:
  assumes "clipTimeRange tr from to minDur = Some r"
  shows "r = clipBounds tr from to" and "tr_start r < tr_end r"
    and "minDur \<le> int_seconds (Sub (tr_end r) (tr_start r))
      \<or> tr_start tr < from \<and> minDur \<le> int_seconds (Sub (tr_end tr) (tr_start tr))"
  using assms by (auto simp: clipTimeRange_eq Let_def split: if_splits)

lemma clipBounds_bounds:
  "tr_start tr \<le> tr_start (clipBounds tr from to)" "tr_end (clipBounds tr from to) \<le> tr_end tr"
  "from \<noteq> 0 \<Longrightarrow> from \<le> tr_start (clipBounds tr from to)"
  "to \<noteq> 0 \<Longrightarrow> tr_end (clipBounds tr from to) \<le> to"
  by (auto simp: clipBounds_def)

lemma append_clippedD:
  assumes "r \<in> set (append_clipped tr from to minDur)"
  shows "clipTimeRange tr from to minDur = Some r"
  using assms by (auto simp: append_clipped_def split: option.splits)

lemma sorted_wrt_append_clipped: "sorted_wrt P (append_clipped tr from to minDur)"
  by (simp add: append_clipped_def split: option.splits)

subsection \<open>Runs\<close>

text \<open>\<open>mergeLoop\<close> without the clipping: the maximal runs of ranges that merge.\<close>

definition extendEnd :: "timeRange \<Rightarrow> timeRange \<Rightarrow> timeRange" where
  "extendEnd cur nxt = cur\<lparr>tr_end := max (tr_end cur) (tr_end nxt)\<rparr>"

lemma extendEnd_simps [simp]:
  "tr_start (extendEnd cur nxt) = tr_start cur"
  "tr_end (extendEnd cur nxt) = max (tr_end cur) (tr_end nxt)"
  by (simp_all add: extendEnd_def)

definition merges :: "duration \<Rightarrow> (timeRange \<Rightarrow> timeRange \<Rightarrow> bool) option \<Rightarrow> timeRange \<Rightarrow> timeRange \<Rightarrow> bool" where
  "merges maxGap shouldMerge cur nxt =
     (Sub (tr_start nxt) (tr_end cur) \<le> maxGap
      \<and> (case shouldMerge of None \<Rightarrow> True | Some f \<Rightarrow> f cur nxt))"

fun mergeRuns :: "duration \<Rightarrow> (timeRange \<Rightarrow> timeRange \<Rightarrow> bool) option \<Rightarrow>
  timeRange \<Rightarrow> timeRange list \<Rightarrow> timeRange list" where
  "mergeRuns maxGap f cur [] = [cur]"
| "mergeRuns maxGap f cur (nxt # rest) =
     (if merges maxGap f cur nxt then mergeRuns maxGap f (extendEnd cur nxt) rest
      else cur # mergeRuns maxGap f nxt rest)"

lemma mergeLoop_runs:
  "mergeLoop maxGap minDur from to f cur rest
   = concat (map (\<lambda>r. append_clipped r from to minDur) (mergeRuns maxGap f cur rest))"
proof (induction rest arbitrary: cur)
  case (Cons nxt rest)
  have "(if After (tr_end nxt) (tr_end cur) then cur\<lparr>tr_end := tr_end nxt\<rparr> else cur) = extendEnd cur nxt"
    by (auto simp: extendEnd_def go_defs max_def)
  then show ?case using Cons by (auto simp: merges_def Let_def)
qed simp

lemma mergeRuns_starts_ge:
  assumes "sorted (map tr_start (cur # rest))" "r \<in> set (mergeRuns maxGap f cur rest)"
  shows "tr_start cur \<le> tr_start r"
  using assms
proof (induction rest arbitrary: cur)
  case (Cons nxt rest)
  show ?case
  proof (cases "merges maxGap f cur nxt")
    case True
    with Cons.prems Cons.IH [of "extendEnd cur nxt"] show ?thesis by simp
  next
    case False
    with Cons.prems Cons.IH [of nxt] show ?thesis by force
  qed
qed simp

lemma mergeRuns_separated:
  assumes "sorted (map tr_start (cur # rest))"
  shows "sorted_wrt (\<lambda>x y. maxGap < Sub (tr_start y) (tr_end x)) (mergeRuns maxGap None cur rest)"
  using assms
proof (induction rest arbitrary: cur)
  case (Cons nxt rest)
  show ?case
  proof (cases "merges maxGap None cur nxt")
    case True
    with Cons.prems Cons.IH [of "extendEnd cur nxt"] show ?thesis by simp
  next
    case False
    have "maxGap < Sub (tr_start y) (tr_end cur)" if "y \<in> set (mergeRuns maxGap None nxt rest)" for y
    proof -
      have "tr_start nxt \<le> tr_start y" using that Cons.prems by (intro mergeRuns_starts_ge) auto
      then have "Sub (tr_start nxt) (tr_end cur) \<le> Sub (tr_start y) (tr_end cur)" by (rule Sub_mono) simp
      with False show ?thesis by (simp add: merges_def)
    qed
    with False Cons.prems Cons.IH [of nxt] show ?thesis by simp
  qed
qed simp

text \<open>Every input range lies in a run, and the ends of a run are ends of input ranges.\<close>

lemma mergeRuns_cover:
  assumes "sorted (map tr_start (cur # rest))" "x \<in> set (cur # rest)"
  shows "\<exists>r \<in> set (mergeRuns maxGap f cur rest). tr_start r \<le> tr_start x \<and> tr_end x \<le> tr_end r"
  using assms
proof (induction rest arbitrary: cur x)
  case (Cons nxt rest)
  show ?case
  proof (cases "merges maxGap f cur nxt")
    case True
    have s: "sorted (map tr_start (extendEnd cur nxt # rest))" using Cons.prems(1) by auto
    obtain y where y: "y \<in> set (extendEnd cur nxt # rest)" "tr_start y \<le> tr_start x" "tr_end x \<le> tr_end y"
    proof (cases "x \<in> set rest")
      case False
      then have "x = cur \<or> x = nxt" using Cons.prems(2) by auto
      then show thesis using Cons.prems(1) that [of "extendEnd cur nxt"] by auto
    qed (use that in auto)
    obtain r where "r \<in> set (mergeRuns maxGap f (extendEnd cur nxt) rest)" "tr_start r \<le> tr_start y" "tr_end y \<le> tr_end r"
      using Cons.IH [OF s y(1)] by blast
    with y(2,3) True show ?thesis by (auto intro!: bexI [of _ r])
  next
    case False
    have s: "sorted (map tr_start (nxt # rest))" using Cons.prems(1) by simp
    show ?thesis using False Cons.IH [OF s, of x] Cons.prems(2) by auto
  qed
qed simp

lemma mergeRuns_ends:
  assumes "r \<in> set (mergeRuns maxGap f cur rest)"
  shows "tr_start r \<in> tr_start ` set (cur # rest) \<and> tr_end r \<in> tr_end ` set (cur # rest)"
  using assms
proof (induction rest arbitrary: cur)
  case (Cons nxt rest)
  show ?case
  proof (cases "merges maxGap f cur nxt")
    case True
    with Cons.prems have "r \<in> set (mergeRuns maxGap f (extendEnd cur nxt) rest)" by simp
    from Cons.IH [OF this] show ?thesis by (auto simp: max_def split: if_splits)
  next
    case False
    with Cons show ?thesis by auto
  qed
qed simp

subsection \<open>The order of equal starts does not matter\<close>

text \<open>
  Two ranges with the same start, none of them inverted, can be merged in either order:
  both join the current run or the second joins the first.
\<close>

lemma mergeRuns_swap:
  assumes "tr_start a = tr_start b" "tr_start a \<le> tr_end a" "tr_start b \<le> tr_end b" "0 \<le> maxGap"
  shows "mergeRuns maxGap None cur (a # b # rest) = mergeRuns maxGap None cur (b # a # rest)"
proof -
  have gap: "Sub (tr_start a) x \<le> maxGap" if "tr_start a \<le> x" for x
    using that assms(4) by (simp add: Sub_def sat64_def minInt64_def)
  have mono: "Sub (tr_start a) (max x y) \<le> Sub (tr_start a) x" for x y
    by (rule Sub_mono) simp_all
  have ext: "extendEnd (extendEnd cur a) b = extendEnd (extendEnd cur b) a" "extendEnd a b = extendEnd b a"
    using assms(1) by (auto simp: extendEnd_def intro!: timeRange_eqI)
  have ab: "merges maxGap None a b" "merges maxGap None b a"
    using gap [of "tr_end a"] gap [of "tr_end b"] assms(1-3) by (simp_all add: merges_def)
  show ?thesis
  proof (cases "Sub (tr_start a) (tr_end cur) \<le> maxGap")
    case True
    then have "merges maxGap None cur a" "merges maxGap None cur b"
      "merges maxGap None (extendEnd cur a) b" "merges maxGap None (extendEnd cur b) a"
      using mono [of "tr_end cur" "tr_end a"] mono [of "tr_end cur" "tr_end b"] assms(1)
      by (auto simp: merges_def)
    then have "mergeRuns maxGap None cur (a # b # rest) = mergeRuns maxGap None (extendEnd (extendEnd cur a) b) rest"
      "mergeRuns maxGap None cur (b # a # rest) = mergeRuns maxGap None (extendEnd (extendEnd cur b) a) rest" by simp_all
    then show ?thesis by (simp only: ext(1))
  next
    case False
    then have "\<not> merges maxGap None cur a" "\<not> merges maxGap None cur b" using assms(1) by (auto simp: merges_def)
    with ab have "mergeRuns maxGap None cur (a # b # rest) = cur # mergeRuns maxGap None (extendEnd a b) rest"
      "mergeRuns maxGap None cur (b # a # rest) = cur # mergeRuns maxGap None (extendEnd b a) rest" by simp_all
    then show ?thesis by (simp only: ext(2))
  qed
qed

lemma mergeRuns_swap_first:
  assumes "tr_start a = tr_start b" "tr_start a \<le> tr_end a" "tr_start b \<le> tr_end b" "0 \<le> maxGap"
  shows "mergeRuns maxGap None a (b # rest) = mergeRuns maxGap None b (a # rest)"
proof -
  have "Sub (tr_start a) (tr_end b) \<le> maxGap" "Sub (tr_start b) (tr_end a) \<le> maxGap"
    using assms by (auto simp: Sub_def sat64_def minInt64_def)
  then have "mergeRuns maxGap None a (b # rest) = mergeRuns maxGap None (extendEnd a b) rest"
    "mergeRuns maxGap None b (a # rest) = mergeRuns maxGap None (extendEnd b a) rest"
    by (simp_all add: merges_def)
  moreover have "extendEnd a b = extendEnd b a"
    using assms(1) by (auto simp: extendEnd_def intro!: timeRange_eqI)
  ultimately show ?thesis by (simp only:)
qed

text \<open>The runs of a list, whose first element opens the first run.\<close>

definition runsOf :: "duration \<Rightarrow> timeRange list \<Rightarrow> timeRange list" where
  "runsOf maxGap xs = (case xs of [] \<Rightarrow> [] | c # rest \<Rightarrow> mergeRuns maxGap None c rest)"

definition forward :: "timeRange list \<Rightarrow> bool" where
  "forward xs = (\<forall>x \<in> set xs. tr_start x \<le> tr_end x)"

lemma mergeRuns_bubble:
  assumes "0 \<le> maxGap" "forward (a # xs)" "tr_start ` set xs \<subseteq> {tr_start a}"
  shows "mergeRuns maxGap None cur (xs @ a # rest) = mergeRuns maxGap None cur (a # xs @ rest)"
  using assms(2,3)
proof (induction xs arbitrary: cur)
  case (Cons x xs)
  have IH: "mergeRuns maxGap None c (xs @ a # rest) = mergeRuns maxGap None c (a # xs @ rest)" for c
    using Cons.prems by (intro Cons.IH) (auto simp: forward_def)
  have "mergeRuns maxGap None cur ((x # xs) @ a # rest) = mergeRuns maxGap None cur (x # a # xs @ rest)"
    by (simp only: append_Cons mergeRuns.simps IH)
  also have "\<dots> = mergeRuns maxGap None cur (a # x # xs @ rest)"
    using Cons.prems assms(1) by (intro mergeRuns_swap) (auto simp: forward_def)
  finally show ?case by simp
qed simp

lemma runsOf_bubble:
  assumes "0 \<le> maxGap" "forward (a # xs)" "tr_start ` set xs \<subseteq> {tr_start a}"
  shows "runsOf maxGap (xs @ a # rest) = runsOf maxGap (a # xs @ rest)"
proof (cases xs)
  case (Cons x ys)
  have "forward (a # ys)" "tr_start ` set ys \<subseteq> {tr_start a}"
    using assms(2,3) by (auto simp: Cons forward_def)
  from mergeRuns_bubble [OF assms(1) this, of x rest]
  have "runsOf maxGap (xs @ a # rest) = mergeRuns maxGap None x (a # ys @ rest)"
    by (simp only: Cons runsOf_def list.case append_Cons)
  also have "\<dots> = mergeRuns maxGap None a (x # ys @ rest)"
    using assms by (intro mergeRuns_swap_first) (auto simp: Cons forward_def)
  finally show ?thesis by (simp add: Cons runsOf_def)
qed simp

lemma sorted_split_least:
  fixes key :: "'a \<Rightarrow> 'k::linorder"
  assumes "sorted (map key xs)" "a \<in> set xs" "\<forall>x \<in> set xs. key a \<le> key x"
  obtains ys zs where "xs = ys @ a # zs" "key ` set ys \<subseteq> {key a}"
proof -
  obtain ys zs where xs: "xs = ys @ a # zs" using assms(2) by (meson split_list)
  then have "\<forall>y \<in> set ys. key y \<le> key a" using assms(1) by (simp add: sorted_wrt_append)
  then have "key ` set ys \<subseteq> {key a}" using xs assms(3) by (auto intro: antisym)
  with xs that show thesis by blast
qed

lemma runsOf_sorted_unique:
  assumes "0 \<le> maxGap" "mset xs = mset ys" "sorted (map tr_start xs)" "sorted (map tr_start ys)" "forward xs"
  shows "runsOf maxGap (pre @ xs) = runsOf maxGap (pre @ ys)"
  using assms(2-5)
proof (induction xs arbitrary: ys pre)
  case (Cons a xs)
  have in_ys: "a \<in> set ys" using Cons.prems(1) by (metis list.set_intros(1) set_mset_mset)
  have set_eq: "set ys = insert a (set xs)" using Cons.prems(1) by (metis list.simps(15) set_mset_mset)
  have "\<forall>y \<in> set ys. tr_start a \<le> tr_start y" using set_eq Cons.prems(2) by auto
  then obtain us vs where ys: "ys = us @ a # vs" and us: "tr_start ` set us \<subseteq> {tr_start a}"
    using sorted_split_least [OF Cons.prems(3) in_ys] by blast
  have fw: "forward (a # us)" using Cons.prems(4) set_eq ys by (auto simp: forward_def)
  have "runsOf maxGap (pre @ a # xs) = runsOf maxGap ((pre @ [a]) @ us @ vs)"
    using Cons.IH [of "us @ vs" "pre @ [a]"] Cons.prems ys
    by (simp add: sorted_wrt_append forward_def)
  also have "\<dots> = runsOf maxGap (pre @ ys)"
  proof (cases pre)
    case Nil
    then show ?thesis using runsOf_bubble [OF assms(1) fw us, of vs] ys by simp
  next
    case (Cons c pre')
    have b: "mergeRuns maxGap None c' (us @ a # vs) = mergeRuns maxGap None c' (a # us @ vs)" for c'
      by (rule mergeRuns_bubble [OF assms(1) fw us])
    have "mergeRuns maxGap None c' (zs @ us @ a # vs) = mergeRuns maxGap None c' (zs @ a # us @ vs)" for c' zs
      using b by (induction zs arbitrary: c') auto
    then show ?thesis by (simp add: runsOf_def Cons ys)
  qed
  finally show ?case by simp
qed simp

lemma mergeTimeRanges_runs:
  "mergeTimeRanges srt ranges maxGap minDur from to None
   = concat (map (\<lambda>r. append_clipped r from to minDur) (runsOf maxGap (srt ranges)))"
  by (auto simp: mergeTimeRanges_def runsOf_def mergeLoop_runs split: list.splits)

subsection \<open>Properties of the merge\<close>

lemma runsOf_separated:
  "sorted (map tr_start xs) \<Longrightarrow>
   sorted_wrt (\<lambda>x y. maxGap < Sub (tr_start y) (tr_end x)) (runsOf maxGap xs)"
  using mergeRuns_separated by (cases xs) (auto simp: runsOf_def)

lemma clipped_runs_separated:
  assumes "sorted_wrt (\<lambda>x y. maxGap < Sub (tr_start y) (tr_end x)) rs"
  shows "sorted_wrt (\<lambda>x y. maxGap < Sub (tr_start y) (tr_end x))
           (concat (map (\<lambda>r. append_clipped r from to minDur) rs))"
  using assms
proof (induction rs)
  case (Cons r rs)
  have "maxGap < Sub (tr_start y) (tr_end x)"
    if x: "x \<in> set (append_clipped r from to minDur)" and r': "r' \<in> set rs"
      and y: "y \<in> set (append_clipped r' from to minDur)" for x y r'
  proof -
    have "tr_end x \<le> tr_end r" "tr_start r' \<le> tr_start y"
      using append_clippedD [OF x] append_clippedD [OF y]
      by (auto dest!: clipTimeRange_SomeD(1) simp: clipBounds_bounds)
    then have "Sub (tr_start r') (tr_end r) \<le> Sub (tr_start y) (tr_end x)" by (intro Sub_mono)
    moreover have "maxGap < Sub (tr_start r') (tr_end r)" using Cons.prems r' by simp
    ultimately show ?thesis by simp
  qed
  with Cons show ?case by (auto simp: sorted_wrt_append sorted_wrt_append_clipped)
qed simp

lemma Sub_greater: "0 \<le> g \<Longrightarrow> g < Sub a b \<Longrightarrow> b + g < a"
  by (auto simp: Sub_def sat64_def minInt64_def maxInt64_def split: if_splits)

lemma mergeTimeRanges_SomeD:
  assumes "r \<in> set (mergeTimeRanges srt ranges maxGap minDur from to f)"
  obtains q where "clipTimeRange q from to minDur = Some r"
  using assms by (auto simp: mergeTimeRanges_def mergeLoop_runs dest!: append_clippedD split: list.splits)

lemma mergeTimeRanges_in_range:
  assumes "r \<in> set (mergeTimeRanges srt ranges maxGap minDur from to f)"
  shows "tr_start r < tr_end r" "from \<noteq> 0 \<Longrightarrow> from \<le> tr_start r" "to \<noteq> 0 \<Longrightarrow> tr_end r \<le> to"
proof -
  obtain q where q: "clipTimeRange q from to minDur = Some r"
    using assms by (rule mergeTimeRanges_SomeD)
  have r: "r = clipBounds q from to" and lt: "tr_start r < tr_end r"
    using clipTimeRange_SomeD(1,2) [OF q] by auto
  show "tr_start r < tr_end r" by (rule lt)
  show "from \<noteq> 0 \<Longrightarrow> from \<le> tr_start r" "to \<noteq> 0 \<Longrightarrow> tr_end r \<le> to"
    using clipBounds_bounds r by blast+
qed

lemma mergeTimeRanges_apart:
  assumes "slice_sort tr_start srt" and "0 \<le> maxGap"
  shows "sorted_wrt (\<lambda>x y. tr_end x + maxGap < tr_start y)
           (mergeTimeRanges srt ranges maxGap minDur from to None)"
proof -
  have "sorted_wrt (\<lambda>x y. maxGap < Sub (tr_start y) (tr_end x))
      (mergeTimeRanges srt ranges maxGap minDur from to None)"
    unfolding mergeTimeRanges_runs
    by (intro clipped_runs_separated runsOf_separated slice_sort.srt_sorted [OF assms(1)])
  then show ?thesis by (rule sorted_wrt_mono_rel [rotated]) (auto intro: Sub_greater assms(2))
qed

text \<open>
  C17. Merging without a merge predicate returns nonempty ranges inside the query range, in
  ascending order, and each starts more than \<open>maxGap\<close> after the end of every earlier one,
  whatever the sort does with equal starts.
\<close>

theorem mergeTimeRanges_separated:
  assumes "slice_sort tr_start srt" and "0 \<le> maxGap"
  shows "sorted_wrt (\<lambda>x y. tr_end x + maxGap < tr_start y)
           (mergeTimeRanges srt ranges maxGap minDur from to None)
       \<and> (\<forall>r \<in> set (mergeTimeRanges srt ranges maxGap minDur from to None).
            tr_start r < tr_end r \<and> (from \<noteq> 0 \<longrightarrow> from \<le> tr_start r) \<and> (to \<noteq> 0 \<longrightarrow> tr_end r \<le> to))"
  by (intro conjI ballI impI) (rule mergeTimeRanges_apart [OF assms] | erule mergeTimeRanges_in_range | assumption)+

theorem mergeTimeRanges_separated_witness:
  "slice_sort tr_start (sort_key tr_start) \<and>
   sorted_wrt (\<lambda>x y. tr_end x + 300 < tr_start y)
     (mergeTimeRanges (sort_key tr_start) [\<lparr>tr_start = 500, tr_end = 600\<rparr>, \<lparr>tr_start = 10, tr_end = 90\<rparr>] 300 0 1 900 None)"
  using mergeTimeRanges_separated [OF slice_sort_sort_key [of tr_start], of 300] slice_sort_sort_key by simp

text \<open>
  Two sorts that both return a sorted permutation give the same merged ranges: ranges
  with equal starts may come in any order. No range is inverted and the gap is not negative.
\<close>

theorem mergeTimeRanges_sort_irrelevant:
  assumes "slice_sort tr_start srt" and "slice_sort tr_start srt'"
    and "0 \<le> maxGap" and "\<forall>r \<in> set ranges. tr_start r \<le> tr_end r"
  shows "mergeTimeRanges srt ranges maxGap minDur from to None
       = mergeTimeRanges srt' ranges maxGap minDur from to None"
proof -
  have "runsOf maxGap ([] @ srt ranges) = runsOf maxGap ([] @ srt' ranges)"
  proof (rule runsOf_sorted_unique [OF assms(3)])
    show "mset (srt ranges) = mset (srt' ranges)"
      by (simp add: slice_sort.srt_perm [OF assms(1)] slice_sort.srt_perm [OF assms(2)])
    show "forward (srt ranges)"
      using assms(4) by (simp add: forward_def slice_sort.set_srt [OF assms(1)])
  qed (intro slice_sort.srt_sorted assms(1,2))+
  then show ?thesis by (simp add: mergeTimeRanges_runs)
qed

definition sort_rev_ties :: "timeRange list \<Rightarrow> timeRange list" where
  "sort_rev_ties xs = sort_key tr_start (rev xs)"

lemma slice_sort_rev_ties: "slice_sort tr_start sort_rev_ties"
  by unfold_locales (simp_all add: sort_rev_ties_def)

theorem mergeTimeRanges_sort_irrelevant_witness:
  "mergeTimeRanges (sort_key tr_start) [\<lparr>tr_start = 10, tr_end = 90\<rparr>, \<lparr>tr_start = 10, tr_end = 20\<rparr>] 5 0 0 0 None
   = mergeTimeRanges sort_rev_ties [\<lparr>tr_start = 10, tr_end = 90\<rparr>, \<lparr>tr_start = 10, tr_end = 20\<rparr>] 5 0 0 0 None"
  by (rule mergeTimeRanges_sort_irrelevant [OF slice_sort_sort_key slice_sort_rev_ties]) simp_all

subsection \<open>No long activity is lost\<close>

lemma runsOf_cover:
  "sorted (map tr_start xs) \<Longrightarrow> x \<in> set xs \<Longrightarrow>
   \<exists>r \<in> set (runsOf maxGap xs). tr_start r \<le> tr_start x \<and> tr_end x \<le> tr_end r"
  using mergeRuns_cover by (cases xs) (auto simp: runsOf_def)

lemma int_seconds_mono:
  "0 \<le> a \<Longrightarrow> a \<le> b \<Longrightarrow> b < exact_span \<Longrightarrow> int_seconds a \<le> int_seconds b"
  by (simp add: int_seconds_exact zdiv_mono1 second_def)

lemma Sub_short: "0 \<le> a - b \<Longrightarrow> a - b < exact_span \<Longrightarrow> Sub a b = a - b"
  by (rule Sub_eq) (simp_all add: minInt64_def maxInt64_def exact_span_def)

text \<open>
  Over a query range of less than 97 days, an input range whose part inside the query
  range lasts at least \<open>minDur\<close> seconds is contained in one of the returned ranges.
\<close>

theorem mergeTimeRanges_covers:
  assumes "slice_sort tr_start srt" and "r \<in> set ranges"
    and "0 < from" and "0 < to" and "to - from < exact_span"
    and "max from (tr_start r) < min to (tr_end r)"
    and "minDur \<le> int_seconds (Sub (min to (tr_end r)) (max from (tr_start r)))"
  shows "\<exists>m \<in> set (mergeTimeRanges srt ranges maxGap minDur from to None).
           tr_start m \<le> max from (tr_start r) \<and> min to (tr_end r) \<le> tr_end m"
proof -
  have "r \<in> set (srt ranges)" using assms(2) by (simp add: slice_sort.set_srt [OF assms(1)])
  then obtain q where q: "q \<in> set (runsOf maxGap (srt ranges))" "tr_start q \<le> tr_start r" "tr_end r \<le> tr_end q"
    using runsOf_cover [OF slice_sort.srt_sorted [OF assms(1)]] by blast
  let ?c = "clipBounds q from to"
  have c: "tr_start ?c = max from (tr_start q)" "tr_end ?c = min to (tr_end q)"
    using assms(3,4) by (simp_all add: clipBounds_def)
  have le: "tr_start ?c \<le> max from (tr_start r)" "min to (tr_end r) \<le> tr_end ?c" using q by (auto simp: c)
  have span: "tr_end ?c - tr_start ?c < exact_span" using assms(5) by (auto simp: c)
  have pos: "0 \<le> tr_end ?c - tr_start ?c" and sub: "tr_start ?c - tr_end ?c \<le> max from (tr_start r) - min to (tr_end r)"
    using le assms(6) by linarith+
  have r: "Sub (min to (tr_end r)) (max from (tr_start r)) = min to (tr_end r) - max from (tr_start r)"
    using assms(6) sub span by (intro Sub_short) linarith+
  have "int_seconds (min to (tr_end r) - max from (tr_start r)) \<le> int_seconds (tr_end ?c - tr_start ?c)"
    using assms(6) sub span by (intro int_seconds_mono) linarith+
  then have "minDur \<le> int_seconds (Sub (tr_end ?c) (tr_start ?c))"
    using order_trans [OF assms(7) [unfolded r]] by (simp only: Sub_short [OF pos span])
  moreover have "tr_start ?c < tr_end ?c" using le assms(6) by linarith
  ultimately have "clipTimeRange q from to minDur = Some ?c"
    by (simp add: clipTimeRange_eq Let_def)
  then have "?c \<in> set (append_clipped q from to minDur)" by (simp add: append_clipped_def)
  then show ?thesis using le q(1) unfolding mergeTimeRanges_runs by auto
qed

theorem mergeTimeRanges_covers_witness:
  "\<exists>m \<in> set (mergeTimeRanges (sort_key tr_start) [\<lparr>tr_start = 10, tr_end = 90\<rparr>] 5 0 20 80 None).
     tr_start m \<le> max 20 10 \<and> min 80 90 \<le> tr_end m"
  using mergeTimeRanges_covers [OF slice_sort_sort_key, of "\<lparr>tr_start = 10, tr_end = 90\<rparr>"
      "[\<lparr>tr_start = 10, tr_end = 90\<rparr>]" 20 80 0 5]
  by (simp add: exact_span_def Sub_short int_seconds_exact second_def)

subsection \<open>Segments from windows\<close>

lemma windowSegments_SomeD:
  assumes "s \<in> set (windowSegments now from to g minDur rs)"
  shows "\<exists>r \<in> set rs. Timestamp (Start s) = tr_start r \<and>
    (case End s of Some e \<Rightarrow> Timestamp e = tr_end r \<and> \<not> IsOngoing s
     | None \<Rightarrow> IsOngoing s \<and> r = last rs \<and> s = last (windowSegments now from to g minDur rs)
         \<and> Sub to (tr_end r) \<le> g \<and> Sub now to \<le> g \<and> minDur \<le> Duration s)"
  using assms
proof (induction rs)
  case (Cons r rs)
  show ?case
  proof (cases "rs = [] \<and> Sub to (tr_end r) \<le> g \<and> Sub now to \<le> g")
    case True
    with Cons.prems show ?thesis by (auto simp: newSegment_def Let_def split: if_splits)
  next
    case False
    let ?w = "windowSegments now from to g minDur"
    have w: "?w (r # rs) = newSegment (tr_start r) (Some (tr_end r))
             (int32_seconds (Sub (tr_end r) (tr_start r))) False
             (Equal (tr_start r) from \<or> Before (tr_start r) from) # ?w rs"
      using False by auto
    show ?thesis
    proof (cases "s \<in> set (?w rs)")
      case True
      with Cons.IH have "rs \<noteq> []" "?w rs \<noteq> []" by auto
      with Cons.IH [OF True] show ?thesis unfolding w by (auto split: option.splits)
    next
      case n: False
      with Cons.prems show ?thesis unfolding w by (auto simp: newSegment_def)
    qed
  qed
qed simp

text \<open>
  Every segment made from activity windows starts inside the query range; it is
  ongoing exactly when it has no end, only the last one can be, and then the last
  activity is within \<open>maxGap\<close> of the end of the range and the range ends within
  \<open>maxGap\<close> of the present; otherwise it ends after its start and inside the range.
\<close>

theorem mergeWindowsIntoSegments_wellformed:
  assumes "0 < from" and "0 < to"
    and "s \<in> set (mergeWindowsIntoSegments srt now windows from to maxGap minDur)"
  shows "from \<le> Timestamp (Start s) \<and> Timestamp (Start s) < to \<and>
    (case End s of
       None \<Rightarrow> IsOngoing s \<and> Sub now to \<le> dur_of maxGap second \<and> minDur \<le> Duration s
         \<and> s = last (mergeWindowsIntoSegments srt now windows from to maxGap minDur)
     | Some e \<Rightarrow> \<not> IsOngoing s \<and> Timestamp (Start s) < Timestamp e \<and> Timestamp e \<le> to)"
proof -
  let ?m = "mergeTimeRanges srt (map (clampWindow to) windows) (dur_of maxGap second) minDur from to None"
  have eq: "mergeWindowsIntoSegments srt now windows from to maxGap minDur
      = windowSegments now from to (dur_of maxGap second) minDur ?m"
    using assms(3) by (auto simp: mergeWindowsIntoSegments_def split: if_splits)
  obtain r where r: "r \<in> set ?m" "Timestamp (Start s) = tr_start r"
    "case End s of Some e \<Rightarrow> Timestamp e = tr_end r \<and> \<not> IsOngoing s
     | None \<Rightarrow> IsOngoing s \<and> r = last ?m \<and> s = last (windowSegments now from to (dur_of maxGap second) minDur ?m)
         \<and> Sub to (tr_end r) \<le> dur_of maxGap second \<and> Sub now to \<le> dur_of maxGap second \<and> minDur \<le> Duration s"
    using windowSegments_SomeD assms(3) unfolding eq by blast
  show ?thesis
    using r mergeTimeRanges_in_range [OF r(1)] assms(1,2) unfolding eq by (auto split: option.splits)
qed

definition demo_window :: activeWindow where
  "demo_window = \<lparr>WindowStart = 100 * 1000000000, WindowEnd = 400 * 1000000000, SignalCount = 12, DistinctSignalCount = 3\<rparr>"

theorem mergeWindowsIntoSegments_wellformed_witness:
  "\<exists>s \<in> set (mergeWindowsIntoSegments (sort_key tr_start) (10 ^ 13) [demo_window] 1 (10 ^ 12) 300 240).
     1 \<le> Timestamp (Start s) \<and> Timestamp (Start s) < 10 ^ 12 \<and> End s \<noteq> None"
proof -
  let ?f = "mergeWindowsIntoSegments (sort_key tr_start) (10 ^ 13) [demo_window] 1 (10 ^ 12) 300 240"
  have s: "?f \<noteq> [] \<and> End (hd ?f) \<noteq> None"
    by (simp add: mergeWindowsIntoSegments_def mergeTimeRanges_def clampWindow_def demo_window_def
        append_clipped_def clipTimeRange_eq clipBounds_def Let_def go_defs Sub_short exact_span_def
        int_seconds_exact second_def dur_of_def wrap64_def newSegment_def)
  then have h: "hd ?f \<in> set ?f" by simp
  have "1 \<le> Timestamp (Start (hd ?f)) \<and> Timestamp (Start (hd ?f)) < 10 ^ 12"
    using mergeWindowsIntoSegments_wellformed [OF _ _ h] by simp
  with s h show ?thesis by blast
qed

end
