(* ===== verification/Seg_Windows.thy ===== *)
theory Seg_Windows
  imports Seg_Merge
begin

section \<open>Window-based detectors (internal/segments/frequency.go, changepoint.go)\<close>

text \<open>
  The two detectors that read one-minute activity windows from the source.
  \<open>time.Now()\<close> and the sort of the merge are arguments.

  Shown here: the CUSUM filter keeps every window once each has at least seven signals,
  so that on the windows the source is asked for (at least ten) the change point detector
  returns what the frequency detector returns with its default threshold.
\<close>

definition defaultWindowSizeSeconds :: int where "defaultWindowSizeSeconds = 60"
definition defaultSignalCountThreshold :: int where "defaultSignalCountThreshold = 10"
definition defaultDistinctSignalCountThreshold :: int where "defaultDistinctSignalCountThreshold = 2"

definition FrequencyDetector_DetectSegments ::
  "(timeRange list \<Rightarrow> timeRange list) \<Rightarrow> time \<Rightarrow> signalSource \<Rightarrow>
   string \<Rightarrow> time \<Rightarrow> time \<Rightarrow> segmentConfig option \<Rightarrow> segment list res" where
  "FrequencyDetector_DetectSegments srt now src subject from to config =
     (let rc = resolveBaseConfig config;
          maxGap = maxGapSeconds rc;
          minDur = minDuration rc;
          signalThreshold = (case config of None \<Rightarrow> defaultSignalCountThreshold
            | Some c \<Rightarrow> (case SignalCountThreshold c of None \<Rightarrow> defaultSignalCountThreshold | Some t \<Rightarrow> t));
          lookbackFrom = Add from (dur_of (- maxGap) second)
      in case WindowedSignalCounts src subject lookbackFrom to defaultWindowSizeSeconds
                signalThreshold defaultDistinctSignalCountThreshold of
           Inl err \<Rightarrow> Inl (Wrap ''failed to query active windows'' err)
         | Inr windows \<Rightarrow>
             if length windows = 0 then Inr []
             else Inr (mergeWindowsIntoSegments srt now windows from to maxGap minDur))"

definition defaultCUSUMWindowSeconds :: int where "defaultCUSUMWindowSeconds = 60"
definition defaultCUSUMThreshold :: f64 where "defaultCUSUMThreshold = Fin 5"
definition defaultCUSUMDrift :: f64 where "defaultCUSUMDrift = Fin (1 / 2)"
definition defaultCUSUMBaselineSignalCount :: f64 where "defaultCUSUMBaselineSignalCount = Fin 1"
definition defaultCUSUMSignalCountThreshold :: int where "defaultCUSUMSignalCountThreshold = 10"
definition defaultCUSUMDistinctSignalCountThreshold :: int where
  "defaultCUSUMDistinctSignalCountThreshold = 2"

text \<open>The loop of \<open>applyCUSUM\<close>, from the statistic reached so far.\<close>

fun cusumLoop :: "f64 \<Rightarrow> activeWindow list \<Rightarrow> activeWindow list" where
  "cusumLoop cusumStat [] = []"
| "cusumLoop cusumStat (w # ws) =
     (let deviation = f64_sub (f64_sub (f64_of_int (int (SignalCount w)))
                        defaultCUSUMBaselineSignalCount) defaultCUSUMDrift;
          cusumStat = f64_max (Fin 0) (f64_add cusumStat deviation)
      in if f64_lt defaultCUSUMThreshold cusumStat
         then w # cusumLoop cusumStat ws else cusumLoop cusumStat ws)"

definition applyCUSUM :: "activeWindow list \<Rightarrow> activeWindow list" where
  "applyCUSUM windows = (if length windows = 0 then [] else cusumLoop (Fin 0) windows)"

definition ChangePointDetector_DetectSegments ::
  "(timeRange list \<Rightarrow> timeRange list) \<Rightarrow> time \<Rightarrow> signalSource \<Rightarrow>
   string \<Rightarrow> time \<Rightarrow> time \<Rightarrow> segmentConfig option \<Rightarrow> segment list res" where
  "ChangePointDetector_DetectSegments srt now src subject from to config =
     (let rc = resolveBaseConfig config;
          maxGap = maxGapSeconds rc;
          minDur = minDuration rc;
          lookbackFrom = Add from (dur_of (- maxGap) second)
      in case WindowedSignalCounts src subject lookbackFrom to defaultCUSUMWindowSeconds
                defaultCUSUMSignalCountThreshold defaultCUSUMDistinctSignalCountThreshold of
           Inl err \<Rightarrow> Inl (Wrap ''failed to query window signal counts'' err)
         | Inr windows \<Rightarrow>
             if length windows = 0 then Inr []
             else let activeWindows = applyCUSUM windows in
                  if length activeWindows = 0 then Inr []
                  else Inr (mergeWindowsIntoSegments srt now activeWindows from to maxGap minDur))"

subsection \<open>The CUSUM filter\<close>

lemma cusum_deviation:
  assumes "7 \<le> n"
  shows "f64_at_least (11 / 2) (f64_sub (f64_sub (f64_of_int (int n)) defaultCUSUMBaselineSignalCount) defaultCUSUMDrift)"
proof -
  have "f64_at_least 7 (f64_of_int (int n))"
    using f64_at_least_of_int [of 7 "int n"] assms by simp
  moreover have "f64_at_least (- 1) (Fin (- 1))" by (simp add: f64_at_least_def)
  ultimately have six: "f64_at_least (7 + - 1) (f64_add (f64_of_int (int n)) (Fin (- 1)))"
    by (rule f64_at_least_add [where m = 6 and e = 0]) (simp_all add: pow2_def)
  have half: "f64_at_least (- (1 / 2)) (Fin (- (1 / 2)))" by (simp add: f64_at_least_def)
  show ?thesis
    using f64_at_least_add [OF six half, where m = 11 and e = "- 1"]
    by (simp add: pow2_def f64_sub_def defaultCUSUMBaselineSignalCount_def defaultCUSUMDrift_def)
qed

lemma cusum_step:
  assumes "f64_at_least 0 s" and "f64_at_least (11 / 2) d"
  shows "f64_at_least (11 / 2) (f64_max (Fin 0) (f64_add s d))"
proof -
  have "f64_at_least (0 + 11 / 2) (f64_add s d)"
    using f64_at_least_add [OF assms, where m = 11 and e = "- 1"] by (simp add: pow2_def)
  then show ?thesis
    by (auto simp: f64_max_def f64_at_least_def split: f64.splits if_splits)
qed

lemma f64_at_least_gt: "f64_at_least c a \<Longrightarrow> b < c \<Longrightarrow> f64_lt (Fin b) a"
  by (cases a) (auto simp: f64_at_least_def)

lemma cusumLoop_id:
  assumes "f64_at_least 0 s" and "\<forall>w \<in> set ws. 7 \<le> SignalCount w"
  shows "cusumLoop s ws = ws"
  using assms
proof (induction ws arbitrary: s)
  case (Cons w ws)
  let ?s = "f64_max (Fin 0) (f64_add s (f64_sub (f64_sub (f64_of_int (int (SignalCount w)))
      defaultCUSUMBaselineSignalCount) defaultCUSUMDrift))"
  have s: "f64_at_least (11 / 2) ?s"
    using Cons.prems by (intro cusum_step cusum_deviation) simp_all
  then have "f64_lt (Fin 5) ?s" by (rule f64_at_least_gt) simp
  moreover have "cusumLoop ?s ws = ws"
    using Cons.prems f64_at_least_mono [OF s, of 0] by (intro Cons.IH) simp_all
  ultimately show ?case by (simp add: Let_def defaultCUSUMThreshold_def)
qed simp

text \<open>
  Change point detection with CUSUM keeps a list of windows unchanged as soon as
  every window has at least seven signals: the statistic then exceeds its threshold of 5
  in the first window and never falls back.
\<close>

theorem applyCUSUM_id:
  assumes "\<forall>w \<in> set windows. 7 \<le> SignalCount w"
  shows "applyCUSUM windows = windows"
  using assms cusumLoop_id [of "Fin 0" windows] by (auto simp: applyCUSUM_def f64_at_least_def)

theorem applyCUSUM_id_witness:
  "applyCUSUM [demo_window, demo_window\<lparr>SignalCount := 7\<rparr>] = [demo_window, demo_window\<lparr>SignalCount := 7\<rparr>]"
  by (rule applyCUSUM_id) (simp add: demo_window_def)

lemma applyCUSUM_honoured:
  assumes "\<forall>w \<in> set windows. defaultCUSUMSignalCountThreshold \<le> int (SignalCount w)"
  shows "applyCUSUM windows = windows"
proof -
  have "\<forall>w \<in> set windows. 7 \<le> SignalCount w"
    using assms by (force simp: defaultCUSUMSignalCountThreshold_def)
  then show ?thesis using cusumLoop_id [of "Fin 0" windows] by (auto simp: applyCUSUM_def f64_at_least_def)
qed

text \<open>
  What \<open>SignalSource.WindowedSignalCounts\<close> documents: the windows it returns meet the
  signal threshold it is given.
\<close>

definition honoursSignalThreshold :: "signalSource \<Rightarrow> bool" where
  "honoursSignalThreshold src =
     (\<forall>subject from to size st dt ws. WindowedSignalCounts src subject from to size st dt = Inr ws \<longrightarrow>
        (\<forall>w \<in> set ws. st \<le> int (SignalCount w)))"

text \<open>
  C26. With a source that honours the threshold it is given, the change point detector and
  the frequency detector at its default threshold return the same segments: the CUSUM
  step never removes a window.
\<close>

theorem change_point_is_frequency:
  assumes "honoursSignalThreshold src"
    and "case config of None \<Rightarrow> True | Some c \<Rightarrow> SignalCountThreshold c = None"
  shows "ChangePointDetector_DetectSegments srt now src subject from to config = Inr segs
     \<longleftrightarrow> FrequencyDetector_DetectSegments srt now src subject from to config = Inr segs"
proof -
  have t: "(case config of None \<Rightarrow> defaultSignalCountThreshold
      | Some c \<Rightarrow> (case SignalCountThreshold c of None \<Rightarrow> defaultSignalCountThreshold | Some t \<Rightarrow> t)) = 10"
    using assms(2) by (auto simp: defaultSignalCountThreshold_def split: option.splits)
  let ?q = "WindowedSignalCounts src subject
      (Add from (dur_of (- maxGapSeconds (resolveBaseConfig config)) second)) to 60 10 2"
  show ?thesis
  proof (cases ?q)
    case (Inr ws)
    then have "\<forall>w \<in> set ws. 10 \<le> int (SignalCount w)"
      using assms(1) unfolding honoursSignalThreshold_def by blast
    then have "applyCUSUM ws = ws"
      by (intro applyCUSUM_honoured) (simp add: defaultCUSUMSignalCountThreshold_def)
    then show ?thesis
      by (simp add: ChangePointDetector_DetectSegments_def FrequencyDetector_DetectSegments_def Let_def
          t Inr defaultCUSUMWindowSeconds_def defaultCUSUMSignalCountThreshold_def
          defaultCUSUMDistinctSignalCountThreshold_def defaultWindowSizeSeconds_def
          defaultDistinctSignalCountThreshold_def)
  qed (simp add: ChangePointDetector_DetectSegments_def FrequencyDetector_DetectSegments_def Let_def
      t defaultCUSUMWindowSeconds_def defaultCUSUMSignalCountThreshold_def
      defaultCUSUMDistinctSignalCountThreshold_def defaultWindowSizeSeconds_def
      defaultDistinctSignalCountThreshold_def)
qed

definition demo_source :: signalSource where
  "demo_source =
     \<lparr>WindowedSignalCounts = (\<lambda>subject from to size st dt.
        Inr (filter (\<lambda>w. st \<le> int (SignalCount w)) [demo_window])),
      LevelSamples = (\<lambda>subject name from to. Inr []),
      IgnitionStateChanges = (\<lambda>subject from to. Inr []),
      IdleRuns = None\<rparr>"

theorem change_point_is_frequency_witness:
  "ChangePointDetector_DetectSegments (sort_key tr_start) (10 ^ 13) demo_source ''veh'' 1 (10 ^ 12) None
   = Inr (mergeWindowsIntoSegments (sort_key tr_start) (10 ^ 13) [demo_window] 1 (10 ^ 12) 300 240)"
proof -
  have "honoursSignalThreshold demo_source"
    by (auto simp: honoursSignalThreshold_def demo_source_def)
  moreover have "FrequencyDetector_DetectSegments (sort_key tr_start) (10 ^ 13) demo_source ''veh'' 1 (10 ^ 12) None
      = Inr (mergeWindowsIntoSegments (sort_key tr_start) (10 ^ 13) [demo_window] 1 (10 ^ 12) 300 240)"
    by (simp add: FrequencyDetector_DetectSegments_def demo_source_def demo_window_def Let_def
        resolveBaseConfig_def defaultMaxGapSeconds_def defaultMinSegmentDurationSeconds_def
        defaultSignalCountThreshold_def)
  ultimately show ?thesis by (simp add: change_point_is_frequency)
qed

end
