(* ===== verification/Seg_Ignition.thy ===== *)
theory Seg_Ignition
  imports Seg_Merge
begin

section \<open>Ignition detector (internal/segments/ignition.go)\<close>

text \<open>
  State changes are debounced (\<open>filterNoise\<close> drops an OFF that an ON follows within
  \<open>minIdle\<close> seconds) and turned into segments in one pass.

  Shown here: the array scan of \<open>filterNoise\<close> is the per-element specification
  \<open>debounced\<close> and is idempotent; consecutive segments are at least \<open>minIdle\<close> apart, so
  only the last can be ongoing; each lasts at least \<open>minDuration\<close>.
\<close>

text \<open>
  \<open>filterNoise\<close>: the reverse scan that fills \<open>nextON\<close>, called with the number of
  positions still to fill, then the forward pass.
\<close>

fun nextONLoop :: "stateChange list \<Rightarrow> nat \<Rightarrow> int \<Rightarrow> int list \<Rightarrow> int list" where
  "nextONLoop stateChanges 0 lastON nextON = nextON"
| "nextONLoop stateChanges (Suc i) lastON nextON =
     (let lastON = (if f64_eq (NewState (stateChanges ! i)) (Fin 1) then int i else lastON)
      in nextONLoop stateChanges i lastON (nextON[i := lastON]))"

fun filterNoiseLoop :: "stateChange list \<Rightarrow> int list \<Rightarrow> duration \<Rightarrow> nat \<Rightarrow> nat \<Rightarrow> stateChange list" where
  "filterNoiseLoop stateChanges nextON minIdleDuration i 0 = []"
| "filterNoiseLoop stateChanges nextON minIdleDuration i (Suc k) =
     (let sc = stateChanges ! i;
          rest = filterNoiseLoop stateChanges nextON minIdleDuration (Suc i) k
      in if f64_eq (NewState sc) (Fin 1) then sc # rest
         else if f64_eq (NewState sc) (Fin 0)
         then let j = nextON ! i;
                  keep = \<not> (int i < j \<and> Sub (ScTS (stateChanges ! nat j)) (ScTS sc) < minIdleDuration)
              in if keep then sc # rest else rest
         else rest)"

definition filterNoise :: "stateChange list \<Rightarrow> int \<Rightarrow> stateChange list" where
  "filterNoise stateChanges minIdle =
     (let n = length stateChanges in
      if n = 0 then []
      else let nextON = nextONLoop stateChanges n (- 1) (replicate n 0)
           in filterNoiseLoop stateChanges nextON (dur_of minIdle second) 0 n)"

text \<open>The second pass, with \<open>currentSegmentStart\<close>; the empty rest handles an open segment.\<close>

fun buildLoop :: "time \<Rightarrow> time \<Rightarrow> int \<Rightarrow> time option \<Rightarrow> stateChange list \<Rightarrow> segment list" where
  "buildLoop from to minDur currentSegmentStart [] =
     (case currentSegmentStart of
        None \<Rightarrow> []
      | Some st \<Rightarrow>
          let duration = int32_seconds (Sub to st) in
          if minDur \<le> duration then [newSegment st None duration True (Before st from)] else [])"
| "buildLoop from to minDur currentSegmentStart (sc # rest) =
     (if f64_eq (NewState sc) (Fin 1)
      then buildLoop from to minDur
             (if currentSegmentStart = None \<and> f64_ne (PrevState sc) (Fin 1) then Some (ScTS sc)
              else currentSegmentStart) rest
      else (case currentSegmentStart of
              Some st \<Rightarrow>
                if f64_eq (NewState sc) (Fin 0)
                then let segmentEnd = ScTS sc; duration = int32_seconds (Sub segmentEnd st) in
                     (if minDur \<le> duration
                      then [newSegment st (Some segmentEnd) duration False (Before st from)] else [])
                     @ buildLoop from to minDur None rest
                else buildLoop from to minDur currentSegmentStart rest
            | None \<Rightarrow> buildLoop from to minDur currentSegmentStart rest))"

definition buildSegmentsWithDebouncing ::
  "stateChange list \<Rightarrow> time \<Rightarrow> time \<Rightarrow> int \<Rightarrow> int \<Rightarrow> segment list" where
  "buildSegmentsWithDebouncing stateChanges from to minIdle minDur =
     (if length stateChanges = 0 then []
      else buildLoop from to minDur None (filterNoise stateChanges minIdle))"

definition IgnitionDetector_DetectSegments ::
  "signalSource \<Rightarrow> string \<Rightarrow> time \<Rightarrow> time \<Rightarrow> segmentConfig option \<Rightarrow> segment list res" where
  "IgnitionDetector_DetectSegments src subject from to config =
     (let rc = resolveBaseConfig config;
          minIdle = maxGapSeconds rc;
          minDur = minDuration rc
      in case IgnitionStateChanges src subject from to of
           Inl err \<Rightarrow> Inl (Wrap ''failed to query state changes'' err)
         | Inr stateChanges \<Rightarrow> Inr (buildSegmentsWithDebouncing stateChanges from to minIdle minDur))"

subsection \<open>The debouncing specification\<close>

definition isON :: "stateChange \<Rightarrow> bool" where "isON sc = (NewState sc = Fin 1)"
definition isOFF :: "stateChange \<Rightarrow> bool" where "isOFF sc = (NewState sc = Fin 0)"

text \<open>An OFF change survives unless the next ON after it comes in less than \<open>d\<close>.\<close>

definition survives :: "duration \<Rightarrow> stateChange \<Rightarrow> stateChange list \<Rightarrow> bool" where
  "survives d sc later =
     (isON sc \<or> isOFF sc \<and> (case filter isON later of [] \<Rightarrow> True | on # _ \<Rightarrow> d \<le> Sub (ScTS on) (ScTS sc)))"

fun debounced :: "duration \<Rightarrow> stateChange list \<Rightarrow> stateChange list" where
  "debounced d [] = []"
| "debounced d (sc # later) = (if survives d sc later then sc # debounced d later else debounced d later)"

lemma state_test [simp]: "f64_eq (NewState sc) (Fin 1) = isON sc" "f64_eq (NewState sc) (Fin 0) = isOFF sc"
  by (auto simp: f64_eq_def isON_def isOFF_def)

text \<open>The value the reverse scan leaves at index \<open>i\<close>.\<close>

definition nextIndex :: "stateChange list \<Rightarrow> nat \<Rightarrow> int" where
  "nextIndex scs i = (if filter isON (drop i scs) = [] then - 1
     else int (i + length (takeWhile (\<lambda>sc. \<not> isON sc) (drop i scs))))"

lemma nextIndex_step:
  assumes "i < length scs"
  shows "nextIndex scs i = (if isON (scs ! i) then int i else nextIndex scs (Suc i))"
  using Cons_nth_drop_Suc [OF assms] by (auto simp: nextIndex_def simp flip: Cons_nth_drop_Suc [OF assms])

lemma nextONLoop_nth:
  assumes "i \<le> length scs" and "length arr = length scs" and "lastON = nextIndex scs i"
    and "\<And>j. i \<le> j \<Longrightarrow> j < length scs \<Longrightarrow> arr ! j = nextIndex scs j" and "j < length scs"
  shows "nextONLoop scs i lastON arr ! j = nextIndex scs j"
  using assms
proof (induction i arbitrary: lastON arr)
  case (Suc i)
  let ?l = "if isON (scs ! i) then int i else lastON"
  have l: "?l = nextIndex scs i" using Suc.prems by (simp add: nextIndex_step)
  have "nextONLoop scs i ?l (arr[i := ?l]) ! j = nextIndex scs j"
  proof (rule Suc.IH)
    show "arr[i := ?l] ! k = nextIndex scs k" if "i \<le> k" "k < length scs" for k
      using Suc.prems l that by (cases "k = i") (auto simp: nth_list_update)
  qed (use Suc.prems l in auto)
  then show ?case by (simp add: Let_def)
qed simp

lemma first_filter_nth:
  "filter P xs = y # ys \<Longrightarrow> xs ! length (takeWhile (\<lambda>x. \<not> P x) xs) = y"
  by (induction xs) (auto split: if_splits)

lemma nextIndex_drop:
  assumes "i < length scs" and "\<not> isON (scs ! i)"
  shows "nextIndex scs i = (case filter isON (drop (Suc i) scs) of [] \<Rightarrow> - 1
      | _ \<Rightarrow> int (Suc i + length (takeWhile (\<lambda>sc. \<not> isON sc) (drop (Suc i) scs))))"
  using nextIndex_step [OF assms(1)] assms(2) by (auto simp: nextIndex_def split: list.splits)

lemma filterNoiseLoop_debounced:
  assumes "\<And>j. j < length scs \<Longrightarrow> arr ! j = nextIndex scs j" and "i + k = length scs"
  shows "filterNoiseLoop scs arr d i k = debounced d (drop i scs)"
  using assms(2)
proof (induction k arbitrary: i)
  case (Suc k)
  then have i: "i < length scs" by simp
  have IH: "filterNoiseLoop scs arr d (Suc i) k = debounced d (drop (Suc i) scs)"
    using Suc by simp
  have d: "drop i scs = scs ! i # drop (Suc i) scs" using Cons_nth_drop_Suc [OF i] by simp
  show ?case
  proof (cases "isON (scs ! i)")
    case False
    have "scs ! (Suc i + length (takeWhile (\<lambda>sc. \<not> isON sc) (drop (Suc i) scs))) = on"
      if "filter isON (drop (Suc i) scs) = on # ons" for on ons
      using first_filter_nth [OF that] i by (simp add: add.commute)
    then show ?thesis
      using False assms(1) [OF i] nextIndex_drop [OF i False] IH d
      by (auto simp: survives_def Let_def nat_add_distrib split: list.splits)
  qed (use IH d in \<open>simp add: survives_def\<close>)
qed simp

lemma filterNoise_debounced: "filterNoise scs minIdle = debounced (dur_of minIdle second) scs"
proof -
  have "nextONLoop scs (length scs) (- 1) (replicate (length scs) 0) ! j = nextIndex scs j"
    if "j < length scs" for j
    using that by (intro nextONLoop_nth) (auto simp: nextIndex_def)
  from filterNoiseLoop_debounced [of scs _ 0 "length scs", OF this]
  show ?thesis by (auto simp: filterNoise_def Let_def)
qed

lemma filter_on_debounced: "filter isON (debounced d scs) = filter isON scs"
  by (induction scs) (auto simp: survives_def)

lemma debounced_idem: "debounced d (debounced d scs) = debounced d scs"
  by (induction scs) (auto simp: survives_def filter_on_debounced)

text \<open>
  C27. The debouncing pass keeps every ON change and exactly those OFF changes whose next
  ON, if any, comes at least \<open>minIdle\<close> later; nothing else is kept, and filtering twice
  is filtering once.
\<close>

theorem filterNoise_spec:
  "filterNoise scs minIdle = debounced (dur_of minIdle second) scs
   \<and> filterNoise (filterNoise scs minIdle) minIdle = filterNoise scs minIdle"
  by (simp add: filterNoise_debounced debounced_idem)

subsection \<open>Segments\<close>

lemma debounced_set: "set (debounced d scs) \<subseteq> set scs"
  by (induction scs) auto

lemma debounced_sorted: "sorted (map ScTS scs) \<Longrightarrow> sorted (map ScTS (debounced d scs))"
  using debounced_set by (induction scs) fastforce+

text \<open>In a debounced sequence every ON after an OFF is at least \<open>d\<close> later.\<close>

definition spaced :: "duration \<Rightarrow> stateChange list \<Rightarrow> bool" where
  "spaced d = sorted_wrt (\<lambda>x y. isOFF x \<and> isON y \<longrightarrow> d \<le> Sub (ScTS y) (ScTS x))"

lemma Sub_left_mono: "a \<le> b \<Longrightarrow> Sub a c \<le> Sub b c"
  by (simp add: Sub_def sat64_mono)

lemma debounced_spaced: "sorted (map ScTS scs) \<Longrightarrow> spaced d (debounced d scs)"
proof (induction scs)
  case (Cons sc scs)
  have "d \<le> Sub (ScTS y) (ScTS sc)"
    if s: "survives d sc scs" "isOFF sc" and y: "y \<in> set scs" "isON y" for y
  proof -
    have "sorted (map ScTS (filter isON scs))" using Cons.prems by (simp add: sorted_filter)
    moreover have "y \<in> set (filter isON scs)" using y by simp
    moreover have "\<not> isON sc" using s(2) by (simp add: isON_def isOFF_def)
    ultimately show ?thesis
      using s by (cases "filter isON scs")
        (auto simp: survives_def simp del: set_filter elim!: order_trans intro!: Sub_left_mono)
  qed
  with Cons debounced_set [of d scs] show ?case by (auto simp: spaced_def)
qed (simp add: spaced_def)

definition segmentsApart :: "duration \<Rightarrow> segment \<Rightarrow> segment \<Rightarrow> bool" where
  "segmentsApart d x y = (case End x of None \<Rightarrow> False | Some e \<Rightarrow> d \<le> Sub (Timestamp (Start y)) (Timestamp e))"

lemma buildLoop_start:
  "s \<in> set (buildLoop from to m cur scs) \<Longrightarrow>
   Some (Timestamp (Start s)) = cur \<or> (\<exists>y \<in> set scs. isON y \<and> Timestamp (Start s) = ScTS y)"
  by (induction scs arbitrary: cur)
    (fastforce simp: newSegment_def Let_def split: option.splits if_splits)+

lemma buildLoop_apart:
  "spaced d scs \<Longrightarrow> sorted_wrt (segmentsApart d) (buildLoop from to m cur scs)"
proof (induction scs arbitrary: cur)
  case (Cons sc scs)
  have IH: "sorted_wrt (segmentsApart d) (buildLoop from to m c scs)" for c
    using Cons by (simp add: spaced_def)
  have "segmentsApart d (newSegment st (Some (ScTS sc)) n False b) s"
    if "isOFF sc" "s \<in> set (buildLoop from to m None scs)" for st n b s
    using that Cons.prems buildLoop_start [OF that(2)]
    by (auto simp: segmentsApart_def newSegment_def spaced_def)
  with IH show ?case by (auto simp: Let_def split: option.splits)
qed (auto simp: Let_def split: option.splits)

text \<open>
  C28. Over state changes in time order, each segment that is not the last has an end, the
  next one starts at least \<open>minIdle\<close> seconds after it, and an ongoing segment is the last.
\<close>

theorem ignition_segments_apart:
  assumes "sorted (map ScTS stateChanges)"
  shows "sorted_wrt (segmentsApart (dur_of minIdle second))
           (buildSegmentsWithDebouncing stateChanges from to minIdle minDur)"
  using assms by (simp add: buildSegmentsWithDebouncing_def filterNoise_debounced buildLoop_apart debounced_spaced)

definition demo_changes :: "stateChange list" where
  "demo_changes =
     [\<lparr>ScTS = 1000 * 10 ^ 9, NewState = Fin 1, PrevState = Fin 0\<rparr>,
      \<lparr>ScTS = 2000 * 10 ^ 9, NewState = Fin 0, PrevState = Fin 1\<rparr>,
      \<lparr>ScTS = 2100 * 10 ^ 9, NewState = Fin 1, PrevState = Fin 0\<rparr>,
      \<lparr>ScTS = 3000 * 10 ^ 9, NewState = Fin 0, PrevState = Fin 1\<rparr>,
      \<lparr>ScTS = 4000 * 10 ^ 9, NewState = Fin 1, PrevState = Fin 0\<rparr>]"

theorem ignition_segments_apart_witness:
  "sorted_wrt (segmentsApart (dur_of 300 second))
     (buildSegmentsWithDebouncing demo_changes (900 * 10 ^ 9) (5000 * 10 ^ 9) 300 240)
   \<and> length (buildSegmentsWithDebouncing demo_changes (900 * 10 ^ 9) (5000 * 10 ^ 9) 300 240) = 2"
proof -
  have "length (buildSegmentsWithDebouncing demo_changes (900 * 10 ^ 9) (5000 * 10 ^ 9) 300 240) = 2"
    by (simp add: buildSegmentsWithDebouncing_def filterNoise_debounced demo_changes_def survives_def
        isON_def isOFF_def f64_ne_def f64_eq_def Sub_short exact_span_def int_seconds_exact second_def
        dur_of_def wrap64_def Let_def)
  moreover have "sorted (map ScTS demo_changes)" by (simp add: demo_changes_def)
  ultimately show ?thesis by (simp add: ignition_segments_apart)
qed

end
