(* ===== verification/Seg_Idling.thy ===== *)
theory Seg_Idling
  imports Seg_Merge
begin

section \<open>Idling detector (internal/segments/idling.go)\<close>

text \<open>
  Contiguous runs of idle engine speed, found in Go over the samples or by the store.

  Shown here: the sample walk is the clipping of the maximal idle groups of the sample
  list (\<open>idleGroups\<close>: consecutive idle samples no more than \<open>maxGap\<close> apart), so a store
  that returns those runs gives the same segments as the walk; and a returned range
  holds no sample that is not idle.
\<close>

definition defaultMaxIdleRpm :: int where "defaultMaxIdleRpm = 1000"
definition minRunningRpm :: f64 where "minRunningRpm = Fin 0"

definition appendIdleRange ::
  "time \<Rightarrow> time \<Rightarrow> int \<Rightarrow> time \<Rightarrow> time \<Rightarrow> timeRange list \<Rightarrow> timeRange list" where
  "appendIdleRange runStart runEnd minDur from to out =
     (case clipTimeRange \<lparr>tr_start = runStart, tr_end = runEnd\<rparr> from to minDur of
        Some tr \<Rightarrow> out @ [tr] | None \<Rightarrow> out)"

definition isIdleSample :: "int \<Rightarrow> levelSample \<Rightarrow> bool" where
  "isIdleSample maxIdleRpm s = (f64_lt minRunningRpm (Value s) \<and> f64_le (Value s) (f64_of_int maxIdleRpm))"

text \<open>The loop: \<open>run\<close> is \<open>Some (runStart, runEnd)\<close> while \<open>inRun\<close>.\<close>

fun idleLoop ::
  "int \<Rightarrow> duration \<Rightarrow> int \<Rightarrow> time \<Rightarrow> time \<Rightarrow> (time \<times> time) option \<Rightarrow> timeRange list \<Rightarrow> levelSample list \<Rightarrow>
   timeRange list" where
  "idleLoop maxIdleRpm maxGapDur minDur from to run ranges [] =
     (case run of None \<Rightarrow> ranges
      | Some (runStart, runEnd) \<Rightarrow> appendIdleRange runStart runEnd minDur from to ranges)"
| "idleLoop maxIdleRpm maxGapDur minDur from to run ranges (s # ss) =
     (if isIdleSample maxIdleRpm s
      then (case run of
              None \<Rightarrow> idleLoop maxIdleRpm maxGapDur minDur from to (Some (TS s, TS s)) ranges ss
            | Some (runStart, runEnd) \<Rightarrow>
                if maxGapDur < Sub (TS s) runEnd
                then idleLoop maxIdleRpm maxGapDur minDur from to (Some (TS s, TS s))
                       (appendIdleRange runStart runEnd minDur from to ranges) ss
                else idleLoop maxIdleRpm maxGapDur minDur from to (Some (runStart, TS s)) ranges ss)
      else (case run of
              None \<Rightarrow> idleLoop maxIdleRpm maxGapDur minDur from to None ranges ss
            | Some (runStart, runEnd) \<Rightarrow>
                idleLoop maxIdleRpm maxGapDur minDur from to None
                  (appendIdleRange runStart runEnd minDur from to ranges) ss))"

definition findIdleRpmRanges ::
  "levelSample list \<Rightarrow> int \<Rightarrow> int \<Rightarrow> int \<Rightarrow> time \<Rightarrow> time \<Rightarrow> timeRange list" where
  "findIdleRpmRanges samples maxIdleRpm maxGap minDur from to =
     idleLoop maxIdleRpm (dur_of maxGap second) minDur from to None [] samples"

definition IdlingDetector_DetectSegments ::
  "vssFields \<Rightarrow> signalSource \<Rightarrow> string \<Rightarrow> time \<Rightarrow> time \<Rightarrow> segmentConfig option \<Rightarrow> segment list res" where
  "IdlingDetector_DetectSegments vss src subject from to config =
     (let rc = resolveBaseConfig config;
          maxGap = maxGapSeconds rc;
          minDur = minDuration rc;
          maxIdleRpm = (case config of None \<Rightarrow> defaultMaxIdleRpm
            | Some c \<Rightarrow> (case MaxIdleRpm c of None \<Rightarrow> defaultMaxIdleRpm | Some v \<Rightarrow> v));
          lookbackFrom = Add from (dur_of (- maxGap) second)
      in case IdleRuns src of
           Some irs \<Rightarrow>
             (case irs subject (FieldPowertrainCombustionEngineSpeed vss) lookbackFrom to maxIdleRpm maxGap of
                Inl err \<Rightarrow> Inl (Wrap ''failed to query idle runs'' err)
              | Inr runs \<Rightarrow>
                  Inr (timeRangesToSegments
                    (fold (\<lambda>r ranges. appendIdleRange (tr_start r) (tr_end r) minDur from to ranges) runs []) from))
         | None \<Rightarrow>
             (case LevelSamples src subject (FieldPowertrainCombustionEngineSpeed vss) lookbackFrom to of
                Inl err \<Rightarrow> Inl (Wrap ''failed to query RPM samples'' err)
              | Inr samples \<Rightarrow>
                  if length samples = 0 then Inr []
                  else Inr (timeRangesToSegments
                    (findIdleRpmRanges samples maxIdleRpm maxGap minDur from to) from)))"

subsection \<open>Idle groups\<close>

text \<open>
  The specification: cut the samples into maximal groups of consecutive idle samples with
  no gap above \<open>g\<close>. \<open>openGroup\<close> extends the group that is being read.
\<close>

fun idleGroups :: "int \<Rightarrow> duration \<Rightarrow> levelSample list \<Rightarrow> levelSample list list"
  and openGroup :: "int \<Rightarrow> duration \<Rightarrow> levelSample list \<Rightarrow> levelSample list \<Rightarrow> levelSample list list" where
  "idleGroups rpm g [] = []"
| "idleGroups rpm g (s # ss) = (if isIdleSample rpm s then openGroup rpm g [s] ss else idleGroups rpm g ss)"
| "openGroup rpm g grp [] = [grp]"
| "openGroup rpm g grp (s # ss) =
     (if isIdleSample rpm s
      then if Sub (TS s) (TS (last grp)) \<le> g then openGroup rpm g (grp @ [s]) ss
           else grp # openGroup rpm g [s] ss
      else grp # idleGroups rpm g ss)"

definition groupRange :: "levelSample list \<Rightarrow> timeRange" where
  "groupRange grp = \<lparr>tr_start = TS (hd grp), tr_end = TS (last grp)\<rparr>"

definition idleRunsOf :: "int \<Rightarrow> duration \<Rightarrow> levelSample list \<Rightarrow> timeRange list" where
  "idleRunsOf rpm g samples = map groupRange (idleGroups rpm g samples)"

lemma appendIdleRange_clipped:
  "appendIdleRange a b m from to out = out @ append_clipped \<lparr>tr_start = a, tr_end = b\<rparr> from to m"
  by (simp add: appendIdleRange_def append_clipped_def split: option.splits)

lemma idleLoop_groups:
  "idleLoop rpm g m from to None out ss
     = out @ concat (map (\<lambda>grp. append_clipped (groupRange grp) from to m) (idleGroups rpm g ss))"
  "grp \<noteq> [] \<Longrightarrow> idleLoop rpm g m from to (Some (TS (hd grp), TS (last grp))) out ss
     = out @ concat (map (\<lambda>grp. append_clipped (groupRange grp) from to m) (openGroup rpm g grp ss))"
proof (induction ss arbitrary: out grp)
  case (Cons s ss)
  { case 1
    show ?case using Cons(1) [of out] Cons(2) [of "[s]" out] by simp
  next
    case 2
    have "hd grp = hd (grp @ [s])" using 2 by simp
    then show ?case
      using Cons(1) [of "appendIdleRange (TS (hd grp)) (TS (last grp)) m from to out"]
        Cons(2) [of "grp @ [s]" out]
        Cons(2) [of "[s]" "appendIdleRange (TS (hd grp)) (TS (last grp)) m from to out"]
      by (simp add: appendIdleRange_clipped groupRange_def not_le not_less) }
qed (simp_all add: appendIdleRange_clipped groupRange_def)

lemma findIdleRpmRanges_groups:
  "findIdleRpmRanges samples rpm maxGap m from to
   = concat (map (\<lambda>r. append_clipped r from to m) (idleRunsOf rpm (dur_of maxGap second) samples))"
  by (simp add: findIdleRpmRanges_def idleLoop_groups idleRunsOf_def comp_def)

lemma fold_appendIdleRange:
  "fold (\<lambda>r ranges. appendIdleRange (tr_start r) (tr_end r) m from to ranges) runs out
   = out @ concat (map (\<lambda>r. append_clipped r from to m) runs)"
proof (induction runs arbitrary: out)
  case (Cons r runs)
  have "\<lparr>tr_start = tr_start r, tr_end = tr_end r\<rparr> = r" by simp
  with Cons show ?case by (simp only: fold_simps appendIdleRange_clipped) simp
qed simp

text \<open>
  C29. The two ways to find idle runs agree: a source that finds the runs itself, as the
  maximal idle groups of the samples it would otherwise return, yields the same segments
  as the walk over the samples.
\<close>

theorem idle_paths_agree:
  assumes "IdleRuns src = Some irs" and "IdleRuns src' = None"
    and "LevelSamples src' subject (FieldPowertrainCombustionEngineSpeed vss)
           (Add from (dur_of (- maxGapSeconds (resolveBaseConfig config)) second)) to = Inr samples"
    and "\<forall>rpm maxGap. irs subject (FieldPowertrainCombustionEngineSpeed vss)
           (Add from (dur_of (- maxGapSeconds (resolveBaseConfig config)) second)) to rpm maxGap
         = Inr (idleRunsOf rpm (dur_of maxGap second) samples)"
  shows "IdlingDetector_DetectSegments vss src subject from to config
       = IdlingDetector_DetectSegments vss src' subject from to config"
  using assms
  by (auto simp: IdlingDetector_DetectSegments_def Let_def fold_appendIdleRange findIdleRpmRanges_groups
      idleRunsOf_def timeRangesToSegments_def)

definition demo_rpm :: "levelSample list" where
  "demo_rpm = [\<lparr>TS = 1000 * 10 ^ 9, Value = Fin 700\<rparr>, \<lparr>TS = 1200 * 10 ^ 9, Value = Fin 720\<rparr>,
     \<lparr>TS = 1400 * 10 ^ 9, Value = Fin 710\<rparr>, \<lparr>TS = 1500 * 10 ^ 9, Value = Fin 2500\<rparr>]"

definition rpm_source :: "bool \<Rightarrow> signalSource" where
  "rpm_source in_store =
     \<lparr>WindowedSignalCounts = (\<lambda>subject from to size st dt. Inr []),
      LevelSamples = (\<lambda>subject name from to. Inr demo_rpm),
      IgnitionStateChanges = (\<lambda>subject from to. Inr []),
      IdleRuns = (if in_store
        then Some (\<lambda>subject name from to rpm maxGap. Inr (idleRunsOf rpm (dur_of maxGap second) demo_rpm))
        else None)\<rparr>"

theorem idle_paths_agree_witness:
  "IdlingDetector_DetectSegments demo_vss (rpm_source True) ''veh'' (900 * 10 ^ 9) (5000 * 10 ^ 9) None
   = IdlingDetector_DetectSegments demo_vss (rpm_source False) ''veh'' (900 * 10 ^ 9) (5000 * 10 ^ 9) None"
  by (rule idle_paths_agree [where samples = demo_rpm and irs = "\<lambda>subject name from to rpm maxGap.
        Inr (idleRunsOf rpm (dur_of maxGap second) demo_rpm)"]) (simp_all add: rpm_source_def)

subsection \<open>A returned range is idle throughout\<close>

lemma groups_concat:
  "concat (idleGroups rpm g ss) = filter (isIdleSample rpm) ss"
  "concat (openGroup rpm g grp ss) = grp @ filter (isIdleSample rpm) ss"
  by (induction rpm g ss and rpm g grp ss rule: idleGroups_openGroup.induct) auto

text \<open>Each group is a contiguous piece of the sample list.\<close>

definition piece :: "'a list \<Rightarrow> 'a list \<Rightarrow> bool" where
  "piece xs ys = (\<exists>us vs. ys = us @ xs @ vs)"

lemma piece_Cons: "piece xs ys \<Longrightarrow> piece xs (y # ys)"
  by (metis append_Cons piece_def)

lemma piece_prefix: "piece xs (xs @ ys)"
  by (metis append_Nil piece_def)

lemma piece_append: "piece xs ys \<Longrightarrow> piece xs (zs @ ys)"
  by (induction zs) (simp_all add: piece_Cons)

lemma groups_piece:
  "grp \<in> set (idleGroups rpm g ss) \<Longrightarrow> piece grp ss"
  "grp \<in> set (openGroup rpm g cur ss) \<Longrightarrow> piece grp (cur @ ss)"
proof (induction rpm g ss and rpm g cur ss rule: idleGroups_openGroup.induct)
  case (2 rpm g s ss)
  then show ?case by (auto split: if_splits intro: piece_Cons)
next
  case (3 rpm g cur)
  then show ?case using piece_prefix [of cur "[]"] by simp
next
  case (4 rpm g cur s ss)
  then show ?case
    by (auto split: if_splits simp: piece_prefix intro: piece_append piece_Cons)
qed simp

lemma groups_nonempty:
  "grp \<in> set (idleGroups rpm g ss) \<Longrightarrow> grp \<noteq> []"
  "grp \<in> set (openGroup rpm g cur ss) \<Longrightarrow> cur \<noteq> [] \<Longrightarrow> grp \<noteq> []"
  by (induction rpm g ss and rpm g cur ss rule: idleGroups_openGroup.induct) (auto split: if_splits)

lemma piece_between:
  assumes "piece grp ss" and "grp \<noteq> []" and "sorted_wrt (\<lambda>x y. TS x < TS y) ss"
    and "x \<in> set ss" and "TS (hd grp) \<le> TS x" and "TS x \<le> TS (last grp)"
  shows "x \<in> set grp"
proof -
  obtain us vs where ss: "ss = us @ grp @ vs" using assms(1) by (auto simp: piece_def)
  have "x \<in> set us \<Longrightarrow> TS x < TS (hd grp)" "x \<in> set vs \<Longrightarrow> TS (last grp) < TS x"
    using assms(2,3) by (auto simp: ss sorted_wrt_append)
  then have "x \<notin> set us" "x \<notin> set vs" using assms(5,6) by auto
  then show ?thesis using assms(4) by (simp add: ss)
qed

text \<open>
  Over samples in strict time order, every sample inside a returned idle range has a
  speed above zero and at most \<open>maxIdleRpm\<close>.
\<close>

theorem idle_ranges_idle:
  assumes "sorted_wrt (\<lambda>x y. TS x < TS y) samples"
    and "r \<in> set (findIdleRpmRanges samples maxIdleRpm maxGap minDur from to)"
    and "x \<in> set samples" and "tr_start r \<le> TS x" and "TS x \<le> tr_end r"
  shows "isIdleSample maxIdleRpm x"
proof -
  let ?g = "dur_of maxGap second"
  obtain grp where grp: "grp \<in> set (idleGroups maxIdleRpm ?g samples)"
    and r: "r \<in> set (append_clipped (groupRange grp) from to minDur)"
    using assms(2) by (auto simp: findIdleRpmRanges_groups idleRunsOf_def)
  have "TS (hd grp) \<le> tr_start r" "tr_end r \<le> TS (last grp)"
    using clipTimeRange_SomeD(1) [OF append_clippedD [OF r]] clipBounds_bounds(1,2) [of "groupRange grp"]
    by (simp_all add: groupRange_def)
  with assms(4,5) have "TS (hd grp) \<le> TS x" "TS x \<le> TS (last grp)" by linarith+
  then have "x \<in> set grp"
    using piece_between [OF groups_piece(1) [OF grp] groups_nonempty(1) [OF grp] assms(1,3)] by blast
  then have "x \<in> set (concat (idleGroups maxIdleRpm ?g samples))" using grp by auto
  then show ?thesis by (simp only: groups_concat set_filter mem_Collect_eq)
qed

lemma demo_rpm_ranges:
  "findIdleRpmRanges demo_rpm 1000 300 240 (900 * 10 ^ 9) (5000 * 10 ^ 9)
   = [\<lparr>tr_start = 1000 * 10 ^ 9, tr_end = 1400 * 10 ^ 9\<rparr>]"
  using f64_of_int_exact [of 1000]
  by (simp add: findIdleRpmRanges_groups idleRunsOf_def demo_rpm_def isIdleSample_def minRunningRpm_def
      f64_le_def f64_eq_def groupRange_def append_clipped_def clipTimeRange_eq clipBounds_def Let_def
      Sub_short exact_span_def int_seconds_exact second_def dur_of_def wrap64_def)

theorem idle_ranges_idle_witness:
  "isIdleSample 1000 (demo_rpm ! 1)"
  using idle_ranges_idle [of demo_rpm "\<lparr>tr_start = 1000 * 10 ^ 9, tr_end = 1400 * 10 ^ 9\<rparr>"
      1000 300 240 "900 * 10 ^ 9" "5000 * 10 ^ 9" "demo_rpm ! 1"] demo_rpm_ranges
  by (simp add: demo_rpm_def)

end
