(* ===== verification/Seg_Refuel.thy ===== *)
theory Seg_Refuel
  imports Seg_Merge
begin

section \<open>Refuel detector (internal/segments/refuel.go)\<close>

text \<open>
  The scan over five-minute windows, minute by minute, for a relative rise of the fuel
  level, and the search for the trough before and the peak after it.

  Shown here: the trough found is the local minimum nearest the rise, at or before its
  start, the peak lies between the end of the rise and the search deadline, and the rise
  is the difference of the two samples; the segments of the detector are disjoint, inside
  the query range and at least \<open>minDuration\<close> long.
\<close>

definition refuelWindowMinutes :: int where "refuelWindowMinutes = 5"
definition refuelMinRisePercent :: int where "refuelMinRisePercent = 30"
definition refuelMinFuelEpsilon :: f64 where "refuelMinFuelEpsilon = f64_round (1 / 1000000)"
definition refuelMinAbsoluteRisePct :: f64 where "refuelMinAbsoluteRisePct = Fin 20"
definition refuelPeakSearchMaxMin :: int where "refuelPeakSearchMaxMin = 30"
definition refuelPeakStabilizationDrop :: f64 where "refuelPeakStabilizationDrop = Fin 1"

text \<open>
  \<open>findRefuelTroughAndPeak\<close>: the index \<open>-1\<close> of the code is \<open>None\<close>. The backward loop is
  called at \<open>startIdx\<close>; the caller has at least two samples, so the index is in range.
\<close>

fun troughLoop :: "levelSample list \<Rightarrow> nat option \<Rightarrow> f64 \<Rightarrow> nat \<Rightarrow> nat option" where
  "troughLoop samples troughIdx troughVal i =
     (if troughIdx = None \<or> f64_lt (Value (samples ! i)) troughVal
      then (case i of 0 \<Rightarrow> Some 0
            | Suc k \<Rightarrow> troughLoop samples (Some i) (Value (samples ! i)) k)
      else troughIdx)"

declare troughLoop.simps [simp del]

function peakLoop :: "levelSample list \<Rightarrow> time \<Rightarrow> nat option \<Rightarrow> f64 \<Rightarrow> nat \<Rightarrow> nat option" where
  "peakLoop samples peakDeadline peakIdx peakVal i =
     (if i < length samples \<and> \<not> After (TS (samples ! i)) peakDeadline
      then let (peakIdx, peakVal) =
                 (if peakIdx = None \<or> f64_le peakVal (Value (samples ! i))
                  then (Some i, Value (samples ! i)) else (peakIdx, peakVal))
           in if i + 1 < length samples \<and> \<not> After (TS (samples ! (i + 1))) peakDeadline
                 \<and> f64_lt (Value (samples ! (i + 1))) (f64_sub (Value (samples ! i)) refuelPeakStabilizationDrop)
              then Some i
              else peakLoop samples peakDeadline peakIdx peakVal (i + 1)
      else peakIdx)"
  by pat_completeness auto
termination
  by (relation "measure (\<lambda>(samples, d, pi, pv, i). length samples - i)") auto

declare peakLoop.simps [simp del]

definition findRefuelTroughAndPeak :: "levelSample list \<Rightarrow> time \<Rightarrow> time \<Rightarrow> time \<times> time \<times> f64" where
  "findRefuelTroughAndPeak samples riseStart riseEnd =
     (let peakDeadline = Add riseEnd (dur_of refuelPeakSearchMaxMin minute);
          startIdx = sort_search (length samples) (\<lambda>i. After (TS (samples ! i)) riseStart);
          startIdx = (if 0 < startIdx then startIdx - 1 else startIdx);
          troughIdx = troughLoop samples None (Fin 0) startIdx;
          peakStart = sort_search (length samples) (\<lambda>i. \<not> Before (TS (samples ! i)) riseEnd);
          peakIdx = peakLoop samples peakDeadline None (Fin 0) peakStart
      in case (troughIdx, peakIdx) of
           (Some t, Some p) \<Rightarrow>
             (TS (samples ! t), TS (samples ! p), f64_sub (Value (samples ! p)) (Value (samples ! t)))
         | _ \<Rightarrow> (zeroTime, zeroTime, Fin 0))"

text \<open>The body of the scan at one window start, and the scan.\<close>

definition refuelWindow :: "levelSample list \<Rightarrow> int \<Rightarrow> int \<Rightarrow> time \<Rightarrow> time \<Rightarrow> time \<Rightarrow> timeRange list" where
  "refuelWindow samples minRise minDur from to t =
     (let windowEnd = Add t (dur_of refuelWindowMinutes minute);
          fuelStart = sampleAtOrBefore samples t;
          fuelEnd = sampleAtOrBefore samples windowEnd
      in if f64_le refuelMinFuelEpsilon fuelStart
         then let risePct = f64_mul (f64_div (f64_sub fuelEnd fuelStart) fuelStart) (Fin 100) in
              if f64_lt (f64_of_int minRise) risePct
              then let (troughTime, peakTime, absRise) = findRefuelTroughAndPeak samples t windowEnd in
                   if \<not> IsZero troughTime \<and> \<not> IsZero peakTime \<and> After peakTime troughTime
                      \<and> f64_le refuelMinAbsoluteRisePct absRise
                   then let troughTime = (if Before troughTime from then from else troughTime);
                            peakTime = (if After peakTime to then to else peakTime)
                        in if minDur \<le> int_seconds (Sub peakTime troughTime)
                           then [\<lparr>tr_start = troughTime, tr_end = peakTime\<rparr>] else []
                   else []
              else []
         else [])"

function refuelLoop :: "levelSample list \<Rightarrow> int \<Rightarrow> int \<Rightarrow> time \<Rightarrow> time \<Rightarrow> time \<Rightarrow> timeRange list" where
  "refuelLoop samples minRise minDur from to t =
     (if \<not> After (Add t (dur_of refuelWindowMinutes minute)) to
      then refuelWindow samples minRise minDur from to t
           @ refuelLoop samples minRise minDur from to (Add t minute)
      else [])"
  by pat_completeness auto
termination
  by (relation "measure (\<lambda>(samples, r, d, f, to, t). nat (to - t))")
    (auto simp: go_defs dur_of_def refuelWindowMinutes_def minute_def wrap64_def)

declare refuelLoop.simps [simp del]

definition RefuelDetector_DetectSegments ::
  "(timeRange list \<Rightarrow> timeRange list) \<Rightarrow> vssFields \<Rightarrow> signalSource \<Rightarrow>
   string \<Rightarrow> time \<Rightarrow> time \<Rightarrow> segmentConfig option \<Rightarrow> segment list res" where
  "RefuelDetector_DetectSegments srt vss src subject from to config =
     (let rc = resolveBaseConfig config;
          minDur = minDuration rc;
          minRise = (case config of None \<Rightarrow> refuelMinRisePercent
            | Some c \<Rightarrow> (case MinIncreasePercent c of None \<Rightarrow> refuelMinRisePercent
                | Some v \<Rightarrow> if 0 < v then v else refuelMinRisePercent));
          windowDur = dur_of refuelWindowMinutes minute;
          fuelFrom = Add from (- windowDur);
          fuelTo = Add to (dur_of refuelPeakSearchMaxMin minute)
      in case LevelSamples src subject (FieldPowertrainFuelSystemRelativeLevel vss) fuelFrom fuelTo of
           Inl err \<Rightarrow> Inl (Wrap ''failed to query fuel samples'' err)
         | Inr samples \<Rightarrow>
             if length samples < 2 then Inr []
             else let t = Truncate from minute;
                      t = (if Before t from then Add t minute else t);
                      raw = refuelLoop samples minRise minDur from to t;
                      merged = mergeTimeRanges srt raw 0 minDur from to None
                  in Inr (timeRangesToSegments merged from))"

subsection \<open>Trough and peak\<close>

text \<open>The trough of a backward walk from \<open>i\<close>: values fall strictly all the way to it and then stop falling.\<close>

definition isTrough :: "levelSample list \<Rightarrow> nat \<Rightarrow> nat \<Rightarrow> bool" where
  "isTrough samples i t =
     (t \<le> i \<and> (\<forall>k. t \<le> k \<and> k < i \<longrightarrow> f64_lt (Value (samples ! k)) (Value (samples ! Suc k)))
      \<and> (0 < t \<longrightarrow> \<not> f64_lt (Value (samples ! (t - 1))) (Value (samples ! t))))"

lemma isTrough_Suc:
  "isTrough samples k t \<Longrightarrow> f64_lt (Value (samples ! k)) (Value (samples ! Suc k)) \<Longrightarrow> isTrough samples (Suc k) t"
  by (auto simp: isTrough_def less_Suc_eq)

lemma troughLoop_cont:
  assumes "f64_lt (Value (samples ! k)) v"
  shows "\<exists>t. troughLoop samples (Some j) v k = Some t \<and> isTrough samples k t"
  using assms
proof (induction k arbitrary: j v)
  case (Suc k)
  show ?case
  proof (cases "f64_lt (Value (samples ! k)) (Value (samples ! Suc k))")
    case True
    then show ?thesis
      using Suc.IH [OF True, of "Suc k"] Suc.prems isTrough_Suc [OF _ True]
      by (subst troughLoop.simps) auto
  next
    case False
    then have "troughLoop samples (Some (Suc k)) (Value (samples ! Suc k)) k = Some (Suc k)"
      by (subst troughLoop.simps) simp
    with False Suc.prems show ?thesis by (subst troughLoop.simps) (auto simp: isTrough_def)
  qed
qed (simp add: troughLoop.simps isTrough_def)

lemma troughLoop_trough: "\<exists>t. troughLoop samples None v i = Some t \<and> isTrough samples i t"
proof (cases i)
  case (Suc k)
  show ?thesis
  proof (cases "f64_lt (Value (samples ! k)) (Value (samples ! Suc k))")
    case True
    then show ?thesis
      using troughLoop_cont [OF True, of "Suc k"] Suc isTrough_Suc [OF _ True]
      by (subst troughLoop.simps) auto
  next
    case False
    then have "troughLoop samples (Some (Suc k)) (Value (samples ! Suc k)) k = Some (Suc k)"
      by (subst troughLoop.simps) simp
    with False Suc show ?thesis by (subst troughLoop.simps) (auto simp: isTrough_def)
  qed
qed (simp add: troughLoop.simps isTrough_def)

lemma peakLoop_range:
  assumes "peakLoop samples d pI pV i = Some p"
    and "\<And>q. pI = Some q \<Longrightarrow> q0 \<le> q \<and> q < length samples \<and> TS (samples ! q) \<le> d" and "q0 \<le> i"
  shows "q0 \<le> p \<and> p < length samples \<and> TS (samples ! p) \<le> d"
  using assms
proof (induction samples d pI pV i rule: peakLoop.induct)
  case (1 samples d pI pV i)
  show ?case
  proof (cases "i < length samples \<and> \<not> After (TS (samples ! i)) d")
    case False
    then show ?thesis using "1.prems" by (subst (asm) peakLoop.simps) auto
  next
    case True
    define n where "n = (if pI = None \<or> f64_le pV (Value (samples ! i)) then (Some i, Value (samples ! i)) else (pI, pV))"
    obtain pI' pV' where n': "n = (pI', pV')" by (cases n)
    have inv: "q0 \<le> q \<and> q < length samples \<and> TS (samples ! q) \<le> d" if "pI' = Some q" for q
      using that n' "1.prems"(2,3) True by (auto simp: n_def go_defs split: if_splits)
    show ?thesis
    proof (cases "i + 1 < length samples \<and> \<not> After (TS (samples ! (i + 1))) d
        \<and> f64_lt (Value (samples ! (i + 1))) (f64_sub (Value (samples ! i)) refuelPeakStabilizationDrop)")
      case t2: True
      then have "p = i" using "1.prems"(1) True by (subst (asm) peakLoop.simps) (simp split: if_splits)
      then show ?thesis using True "1.prems"(3) by (simp add: go_defs)
    next
      case f2: False
      have "peakLoop samples d pI pV i = peakLoop samples d pI' pV' (i + 1)"
        using True f2 n' unfolding n_def by (subst peakLoop.simps) (auto simp: Let_def)
      then show ?thesis
        using "1.IH" [OF True n_def [symmetric, unfolded n', symmetric] refl f2] "1.prems" inv by simp
    qed
  qed
qed

lemma nth_search_before:
  assumes "sorted (map TS samples)" and "p < length samples"
    and "sort_search (length samples) (\<lambda>i. \<not> Before (TS (samples ! i)) a) \<le> p"
  shows "a \<le> TS (samples ! p)"
proof -
  have "\<forall>i j. i \<le> j \<longrightarrow> j < length samples \<longrightarrow> \<not> Before (TS (samples ! i)) a \<longrightarrow> \<not> Before (TS (samples ! j)) a"
    using sorted_nth_mono_key [OF assms(1)] by (force simp: go_defs)
  from sort_search_least(3) [where f = "\<lambda>i. \<not> Before (TS (samples ! i)) a", OF this assms(3,2)]
  show ?thesis by (simp add: go_defs)
qed

lemma nth_search_after:
  assumes "sorted (map TS samples)" and "k < sort_search (length samples) (\<lambda>i. After (TS (samples ! i)) a)"
  shows "TS (samples ! k) \<le> a"
proof -
  have "\<forall>i j. i \<le> j \<longrightarrow> j < length samples \<longrightarrow> After (TS (samples ! i)) a \<longrightarrow> After (TS (samples ! j)) a"
    using sorted_nth_mono_key [OF assms(1)] by (force simp: go_defs)
  from sort_search_least(2) [where f = "\<lambda>i. After (TS (samples ! i)) a", OF this assms(2)]
  show ?thesis by (simp add: go_defs)
qed

text \<open>
  Around a fuel rise with a sample at or before its start, a reported trough and peak
  are samples: the trough is the last sample at or before the start of the rise or, walking
  back while the level falls strictly, the local minimum nearest to it; the peak lies
  between the end of the rise and 30 minutes later; the rise is the difference of their levels.
\<close>

theorem refuel_trough_and_peak:
  assumes "sorted (map TS samples)" and "0 < TS (samples ! 0)" and "samples \<noteq> []"
    and "TS (samples ! 0) \<le> riseStart"
    and "findRefuelTroughAndPeak samples riseStart riseEnd = (trough, peak, rise)" and "trough \<noteq> 0"
  shows "\<exists>i t p. i < length samples \<and> TS (samples ! i) \<le> riseStart
      \<and> (Suc i < length samples \<longrightarrow> riseStart < TS (samples ! Suc i)) \<and> isTrough samples i t
      \<and> trough = TS (samples ! t) \<and> peak = TS (samples ! p) \<and> p < length samples
      \<and> riseEnd \<le> peak \<and> peak \<le> riseEnd + 30 * minute
      \<and> rise = f64_sub (Value (samples ! p)) (Value (samples ! t))"
proof -
  define s where "s = sort_search (length samples) (\<lambda>i. After (TS (samples ! i)) riseStart)"
  define ps where "ps = sort_search (length samples) (\<lambda>i. \<not> Before (TS (samples ! i)) riseEnd)"
  have mono: "\<forall>i j. i \<le> j \<longrightarrow> j < length samples \<longrightarrow> After (TS (samples ! i)) riseStart \<longrightarrow> After (TS (samples ! j)) riseStart"
    using sorted_nth_mono_key [OF assms(1)] by (force simp: go_defs)
  have s0: "0 < s"
  proof (rule ccontr)
    assume "\<not> 0 < s"
    then show False
      using sort_search_least(3) [where f = "\<lambda>i. After (TS (samples ! i)) riseStart", OF mono, of 0] assms(3,4)
      by (simp add: s_def go_defs)
  qed
  have sl: "s \<le> length samples" by (simp add: s_def sort_search_le)
  obtain t where t: "troughLoop samples None (Fin 0) (s - 1) = Some t" "isTrough samples (s - 1) t"
    using troughLoop_trough by blast
  have dl: "Add riseEnd (dur_of refuelPeakSearchMaxMin minute) = riseEnd + 30 * minute"
    by (simp add: Add_def dur_of_def refuelPeakSearchMaxMin_def minute_def wrap64_def)
  obtain p where p: "peakLoop samples (riseEnd + 30 * minute) None (Fin 0) ps = Some p"
    "trough = TS (samples ! t)" "peak = TS (samples ! p)" "rise = f64_sub (Value (samples ! p)) (Value (samples ! t))"
    using assms(5,6) s0 t(1) dl
    by (auto simp: findRefuelTroughAndPeak_def Let_def s_def ps_def zeroTime_def split: option.splits if_splits)
  have pr: "ps \<le> p" "p < length samples" "TS (samples ! p) \<le> riseEnd + 30 * minute"
    using peakLoop_range [OF p(1), of ps] by auto
  have "riseEnd \<le> TS (samples ! p)"
    using nth_search_before [OF assms(1) pr(2)] pr(1) by (simp add: ps_def)
  moreover have "s - 1 < length samples" "TS (samples ! (s - 1)) \<le> riseStart"
    using s0 sl nth_search_after [OF assms(1), of "s - 1" riseStart] by (simp_all add: s_def)
  moreover have "riseStart < TS (samples ! s)" if "s < length samples"
    using sort_search_least(3) [where f = "\<lambda>i. After (TS (samples ! i)) riseStart", OF mono, of s] that
    by (simp add: s_def go_defs)
  ultimately show ?thesis
    using pr p t(2) s0 by (intro exI [of _ "s - 1"] exI [of _ t] exI [of _ p]) simp
qed

definition demo_fuel :: "levelSample list" where
  "demo_fuel = [\<lparr>TS = 100 * 10 ^ 9, Value = Fin 12\<rparr>, \<lparr>TS = 160 * 10 ^ 9, Value = Fin 10\<rparr>,
     \<lparr>TS = 460 * 10 ^ 9, Value = Fin 60\<rparr>, \<lparr>TS = 520 * 10 ^ 9, Value = Fin 80\<rparr>]"

lemma demo_fuel_trough:
  "findRefuelTroughAndPeak demo_fuel (180 * 10 ^ 9) (480 * 10 ^ 9) = (160 * 10 ^ 9, 520 * 10 ^ 9, Fin 70)"
  by code_simp

theorem refuel_trough_and_peak_witness:
  "\<exists>i t p. i < length demo_fuel \<and> TS (demo_fuel ! i) \<le> 180 * 10 ^ 9 \<and> isTrough demo_fuel i t
      \<and> 160 * 10 ^ 9 = TS (demo_fuel ! t) \<and> 520 * 10 ^ 9 = TS (demo_fuel ! p)"
  using refuel_trough_and_peak [OF _ _ _ _ demo_fuel_trough] by (simp add: demo_fuel_def) blast

subsection \<open>The segments of the detector\<close>

lemma timeRangesToSegments_sorted:
  assumes "sorted_wrt (\<lambda>x y. tr_end x < tr_start y) rs"
  shows "sorted_wrt (\<lambda>x y. \<exists>e. End x = Some e \<and> Timestamp e < Timestamp (Start y)) (timeRangesToSegments rs from)"
  using assms by (simp add: timeRangesToSegments_def sorted_wrt_map newSegment_def)

text \<open>
  Every refuel segment has an end, lies inside the query range, is not ongoing, and
  ends before the next one starts.
\<close>

theorem refuel_segments:
  assumes "slice_sort tr_start srt" and "0 < from" and "0 < to"
    and "RefuelDetector_DetectSegments srt vss src subject from to config = Inr segs"
  shows "sorted_wrt (\<lambda>x y. \<exists>e. End x = Some e \<and> Timestamp e < Timestamp (Start y)) segs
     \<and> (\<forall>s \<in> set segs. \<not> IsOngoing s \<and> from \<le> Timestamp (Start s)
          \<and> (\<exists>e. End s = Some e \<and> Timestamp (Start s) < Timestamp e \<and> Timestamp e \<le> to))"
proof -
  obtain raw minDur where segs: "segs = [] \<or> segs = timeRangesToSegments (mergeTimeRanges srt raw 0 minDur from to None) from"
    using assms(4) by (auto simp: RefuelDetector_DetectSegments_def Let_def split: sum.splits if_splits)
  let ?m = "mergeTimeRanges srt raw 0 minDur from to None"
  have "sorted_wrt (\<lambda>x y. tr_end x < tr_start y) ?m"
    using mergeTimeRanges_apart [OF assms(1), of 0] by simp
  then have "sorted_wrt (\<lambda>x y. \<exists>e. End x = Some e \<and> Timestamp e < Timestamp (Start y)) (timeRangesToSegments ?m from)"
    by (rule timeRangesToSegments_sorted)
  moreover have "tr_start r < tr_end r" "from \<le> tr_start r" "tr_end r \<le> to" if "r \<in> set ?m" for r
    using mergeTimeRanges_in_range [OF that] assms(2,3) by auto
  ultimately show ?thesis
    using segs by (auto simp: timeRangesToSegments_def newSegment_def)
qed

definition fuel_source :: signalSource where
  "fuel_source =
     \<lparr>WindowedSignalCounts = (\<lambda>subject from to size st dt. Inr []),
      LevelSamples = (\<lambda>subject name from to. Inr demo_fuel),
      IgnitionStateChanges = (\<lambda>subject from to. Inr []),
      IdleRuns = None\<rparr>"

theorem refuel_segments_witness:
  "\<exists>segs. RefuelDetector_DetectSegments (sort_key tr_start) demo_vss fuel_source ''veh''
             (120 * 10 ^ 9) (600 * 10 ^ 9) None = Inr segs
     \<and> sorted_wrt (\<lambda>x y. \<exists>e. End x = Some e \<and> Timestamp e < Timestamp (Start y)) segs"
proof -
  obtain segs where "RefuelDetector_DetectSegments (sort_key tr_start) demo_vss fuel_source ''veh''
      (120 * 10 ^ 9) (600 * 10 ^ 9) None = Inr segs"
    by (simp add: RefuelDetector_DetectSegments_def fuel_source_def demo_fuel_def Let_def)
  with refuel_segments [OF slice_sort_sort_key _ _ this] show ?thesis by simp
qed

end
