(* ===== verification/Seg_Recharge.thy ===== *)
theory Seg_Recharge
  imports Seg_Merge
begin

section \<open>Recharge detector (internal/segments/recharge.go)\<close>

text \<open>
  A charge session is a rise of the smoothed state of charge from a trough to a peak while
  the odometer stands still; sessions up to two hours apart at the same odometer are merged.

  Shown here: the candidates are disjoint, ascending rises of the smoothed curve (it never
  falls inside one), each at least the required rise and duration; and every returned
  segment runs from the start of a candidate to the end of one, both with a rising state
  of charge and an odometer that moved by no more than half a kilometre.
\<close>

definition rechargeDefaultMinDurationSeconds :: int where "rechargeDefaultMinDurationSeconds = 60"
definition rechargeSessionGapMax :: duration where "rechargeSessionGapMax = 2 * hour"
definition rechargeOdometerEpsilonKm :: f64 where "rechargeOdometerEpsilonKm = Fin (1 / 2)"
definition rechargeSmoothWindow :: int where "rechargeSmoothWindow = 11"
definition rechargeMinRisePct :: f64 where "rechargeMinRisePct = Fin 1"

definition smoothSamples :: "levelSample list \<Rightarrow> int \<Rightarrow> levelSample list" where
  "smoothSamples samples window =
     (if window \<le> 1 \<or> int (length samples) \<le> window then samples
      else let half = nat (quot window 2);
               denom = f64_of_int (int (2 * half + 1))
           in map (\<lambda>i. \<lparr>TS = TS (samples ! i),
                        Value = f64_div (foldl f64_add (Fin 0)
                          (map (\<lambda>j. Value (samples ! j)) [i - half ..< i + half + 1])) denom\<rparr>)
                [half ..< length samples - half])"

definition appendTroughToPeak ::
  "levelSample list \<Rightarrow> nat \<Rightarrow> nat \<Rightarrow> f64 \<Rightarrow> int \<Rightarrow> timeRange list \<Rightarrow> timeRange list" where
  "appendTroughToPeak samples troughIdx peakIdx minRisePct minDur out =
     (let rise = f64_sub (Value (samples ! peakIdx)) (Value (samples ! troughIdx)) in
      if f64_lt rise minRisePct then out
      else let start = TS (samples ! troughIdx); stop = TS (samples ! peakIdx) in
           if int_seconds (Sub stop start) < minDur then out
           else out @ [\<lparr>tr_start = start, tr_end = stop\<rparr>])"

text \<open>
  The loop of \<open>findTroughToPeakRanges\<close> from index \<open>i\<close>, with \<open>k\<close> samples left; \<open>dir\<close> is 1
  for rising, -1 for falling and 0 at the start.
\<close>

fun troughToPeakLoop ::
  "levelSample list \<Rightarrow> f64 \<Rightarrow> int \<Rightarrow> nat \<Rightarrow> nat \<Rightarrow> int \<Rightarrow> nat \<Rightarrow> nat \<Rightarrow> timeRange list \<Rightarrow> timeRange list" where
  "troughToPeakLoop samples minRisePct minDur i 0 dir troughIdx peakIdx ranges =
     (if dir = 1 then appendTroughToPeak samples troughIdx peakIdx minRisePct minDur ranges else ranges)"
| "troughToPeakLoop samples minRisePct minDur i (Suc k) dir troughIdx peakIdx ranges =
     (let diff = f64_sub (Value (samples ! i)) (Value (samples ! (i - 1))) in
      if f64_lt (Fin 0) diff
      then troughToPeakLoop samples minRisePct minDur (Suc i) k 1
             (if dir = - 1 then i - 1 else troughIdx) i ranges
      else if f64_lt diff (Fin 0)
      then troughToPeakLoop samples minRisePct minDur (Suc i) k (- 1) troughIdx peakIdx
             (if dir = 1 then appendTroughToPeak samples troughIdx peakIdx minRisePct minDur ranges else ranges)
      else troughToPeakLoop samples minRisePct minDur (Suc i) k dir troughIdx peakIdx ranges)"

definition findTroughToPeakRanges :: "levelSample list \<Rightarrow> f64 \<Rightarrow> int \<Rightarrow> timeRange list" where
  "findTroughToPeakRanges samples minRisePct minDur =
     (if length samples < 2 then []
      else troughToPeakLoop samples minRisePct minDur 1 (length samples - 1) 0 0 0 [])"

definition keepSocAndOdo :: "levelSample list \<Rightarrow> levelSample list \<Rightarrow> timeRange \<Rightarrow> bool" where
  "keepSocAndOdo socSamples odoSamples tr =
     (case levelFirstLastInRange socSamples (tr_start tr) (tr_end tr) of
        None \<Rightarrow> False
      | Some (socFirst, socLast) \<Rightarrow>
          if f64_le socLast socFirst then False
          else (case levelFirstLastInRange odoSamples (tr_start tr) (tr_end tr) of
                  None \<Rightarrow> True
                | Some (odoFirst, odoLast) \<Rightarrow>
                    \<not> f64_lt rechargeOdometerEpsilonKm (f64_sub odoLast odoFirst)))"

definition filterRangesBySocAndOdo ::
  "timeRange list \<Rightarrow> levelSample list \<Rightarrow> levelSample list \<Rightarrow> timeRange list" where
  "filterRangesBySocAndOdo ranges socSamples odoSamples =
     filter (keepSocAndOdo socSamples odoSamples) ranges"

definition rechargeShouldMerge :: "levelSample list \<Rightarrow> timeRange \<Rightarrow> timeRange \<Rightarrow> bool" where
  "rechargeShouldMerge odoSamples a b =
     (case (levelFirstLastInRange odoSamples (tr_start a) (tr_end a),
            levelFirstLastInRange odoSamples (tr_start b) (tr_end b)) of
        (Some (_, odoCurEnd), Some (odoNextStart, _)) \<Rightarrow>
          f64_le (f64_abs (f64_sub odoNextStart odoCurEnd)) rechargeOdometerEpsilonKm
      | _ \<Rightarrow> False)"

definition detectRechargeSegments ::
  "(timeRange list \<Rightarrow> timeRange list) \<Rightarrow> vssFields \<Rightarrow> signalSource \<Rightarrow>
   string \<Rightarrow> time \<Rightarrow> time \<Rightarrow> int \<Rightarrow> f64 \<Rightarrow> segment list res" where
  "detectRechargeSegments srt vss src subject from to minDur minRisePct =
     (case LevelSamples src subject (FieldPowertrainTractionBatteryStateOfChargeCurrent vss) from to of
        Inl err \<Rightarrow> Inl (Wrap ''failed to query SoC samples'' err)
      | Inr socSamples \<Rightarrow>
          if int (length socSamples) < rechargeSmoothWindow + 2 then Inr []
          else (case LevelSamples src subject (FieldPowertrainTransmissionTravelledDistance vss) from to of
                  Inl err \<Rightarrow> Inl (Wrap ''failed to query odometer samples'' err)
                | Inr odoSamples \<Rightarrow>
                    let smoothed = smoothSamples socSamples rechargeSmoothWindow;
                        candidates = findTroughToPeakRanges smoothed minRisePct minDur;
                        filtered = filterRangesBySocAndOdo candidates socSamples odoSamples;
                        merged = mergeTimeRanges srt filtered rechargeSessionGapMax minDur
                                   zeroTime zeroTime (Some (rechargeShouldMerge odoSamples))
                    in Inr (timeRangesToSegments merged from)))"

definition RechargeDetector_DetectSegments ::
  "(timeRange list \<Rightarrow> timeRange list) \<Rightarrow> vssFields \<Rightarrow> signalSource \<Rightarrow>
   string \<Rightarrow> time \<Rightarrow> time \<Rightarrow> segmentConfig option \<Rightarrow> segment list res" where
  "RechargeDetector_DetectSegments srt vss src subject from to config =
     (let rc = resolveBaseConfig config;
          rc = (case config of
                  None \<Rightarrow> rc\<lparr>minDuration := rechargeDefaultMinDurationSeconds\<rparr>
                | Some c \<Rightarrow> (case MinSegmentDurationSeconds c of
                     None \<Rightarrow> rc\<lparr>minDuration := rechargeDefaultMinDurationSeconds\<rparr> | Some _ \<Rightarrow> rc));
          minRisePct = (case config of None \<Rightarrow> rechargeMinRisePct
            | Some c \<Rightarrow> (case MinIncreasePercent c of None \<Rightarrow> rechargeMinRisePct
                | Some v \<Rightarrow> if 0 < v then f64_of_int v else rechargeMinRisePct))
      in detectRechargeSegments srt vss src subject from to (minDuration rc) minRisePct)"

subsection \<open>Rises of the smoothed curve\<close>

text \<open>The pairs of indices the loop considers, before the size test.\<close>

fun rises :: "levelSample list \<Rightarrow> nat \<Rightarrow> nat \<Rightarrow> int \<Rightarrow> nat \<Rightarrow> nat \<Rightarrow> (nat \<times> nat) list" where
  "rises samples i 0 dir t p = (if dir = 1 then [(t, p)] else [])"
| "rises samples i (Suc k) dir t p =
     (let diff = f64_sub (Value (samples ! i)) (Value (samples ! (i - 1))) in
      if f64_lt (Fin 0) diff then rises samples (Suc i) k 1 (if dir = - 1 then i - 1 else t) i
      else if f64_lt diff (Fin 0)
      then (if dir = 1 then [(t, p)] else []) @ rises samples (Suc i) k (- 1) t p
      else rises samples (Suc i) k dir t p)"

definition bigEnough :: "levelSample list \<Rightarrow> f64 \<Rightarrow> int \<Rightarrow> nat \<times> nat \<Rightarrow> bool" where
  "bigEnough samples minRise minDur = (\<lambda>(t, p).
     \<not> f64_lt (f64_sub (Value (samples ! p)) (Value (samples ! t))) minRise
     \<and> minDur \<le> int_seconds (Sub (TS (samples ! p)) (TS (samples ! t))))"

definition pairRange :: "levelSample list \<Rightarrow> nat \<times> nat \<Rightarrow> timeRange" where
  "pairRange samples = (\<lambda>(t, p). \<lparr>tr_start = TS (samples ! t), tr_end = TS (samples ! p)\<rparr>)"

lemma appendTroughToPeak_eq:
  "appendTroughToPeak samples t p r d out
   = out @ map (pairRange samples) (filter (bigEnough samples r d) [(t, p)])"
  by (simp add: appendTroughToPeak_def bigEnough_def pairRange_def Let_def)

lemma troughToPeakLoop_rises:
  "troughToPeakLoop samples r d i k dir t p out
   = out @ map (pairRange samples) (filter (bigEnough samples r d) (rises samples i k dir t p))"
  by (induction k arbitrary: i dir t p out)
    (simp_all add: appendTroughToPeak_eq Let_def)

text \<open>The curve does not fall between two neighbouring samples from \<open>a\<close> to \<open>b\<close>.\<close>

definition nonFalling :: "levelSample list \<Rightarrow> nat \<Rightarrow> nat \<Rightarrow> bool" where
  "nonFalling samples a b =
     (\<forall>k. a \<le> k \<and> k < b \<longrightarrow> \<not> f64_lt (f64_sub (Value (samples ! Suc k)) (Value (samples ! k))) (Fin 0))"

lemma f64_lt_asym: "f64_lt a b \<Longrightarrow> \<not> f64_lt b a"
  by (cases a; cases b) auto

lemma nonFalling_Suc:
  "nonFalling samples a b \<Longrightarrow> \<not> f64_lt (f64_sub (Value (samples ! Suc b)) (Value (samples ! b))) (Fin 0)
   \<Longrightarrow> nonFalling samples a (Suc b)"
  by (auto simp: nonFalling_def less_Suc_eq)

lemma nonFalling_refl: "nonFalling samples a a"
  by (auto simp add: nonFalling_def)

lemma nonFalling_sub: "nonFalling samples a b \<Longrightarrow> c \<le> b \<Longrightarrow> nonFalling samples a c"
  by (auto simp: nonFalling_def)

text \<open>
  The invariant before index \<open>Suc j\<close>: \<open>lo\<close> is the last peak emitted, and the samples
  since the trough have not fallen unless the direction is falling.
\<close>

definition riseInv :: "levelSample list \<Rightarrow> nat \<Rightarrow> nat \<Rightarrow> int \<Rightarrow> nat \<Rightarrow> nat \<Rightarrow> bool" where
  "riseInv samples lo j dir t p =
     (lo \<le> j \<and> (dir = - 1 \<or> (dir = 0 \<or> dir = 1) \<and> lo \<le> t \<and> t \<le> j \<and> nonFalling samples t j)
      \<and> (dir = 1 \<longrightarrow> t < p \<and> p \<le> j))"

lemma rises_sound:
  assumes "riseInv samples lo j dir t p" and "Suc j + k = length samples"
  shows "sorted_wrt (\<lambda>x y. snd x \<le> fst y) (rises samples (Suc j) k dir t p)
    \<and> (\<forall>(a, b) \<in> set (rises samples (Suc j) k dir t p).
         lo \<le> a \<and> a < b \<and> b < length samples \<and> nonFalling samples a b)"
  using assms
proof (induction k arbitrary: lo j dir t p)
  case 0
  then show ?case by (auto simp: riseInv_def nonFalling_def)
next
  case (Suc k)
  let ?d = "f64_sub (Value (samples ! Suc j)) (Value (samples ! j))"
  consider (up) "f64_lt (Fin 0) ?d" | (down) "\<not> f64_lt (Fin 0) ?d" "f64_lt ?d (Fin 0)"
    | (flat) "\<not> f64_lt (Fin 0) ?d" "\<not> f64_lt ?d (Fin 0)" by blast
  then show ?case
  proof cases
    case up
    then have "riseInv samples lo (Suc j) 1 (if dir = - 1 then j else t) (Suc j)"
      using Suc.prems nonFalling_Suc [OF _ f64_lt_asym [OF up]] nonFalling_refl [of samples j]
      by (auto simp: riseInv_def)
    from Suc.IH [OF this] Suc.prems up show ?thesis by (cases "dir = - 1") simp_all
  next
    case flat
    then have "riseInv samples lo (Suc j) dir t p"
      using Suc.prems nonFalling_Suc [of samples _ j] by (auto simp: riseInv_def)
    from Suc.IH [OF this] Suc.prems flat show ?thesis by simp
  next
    case down
    let ?lo = "if dir = 1 then p else lo"
    have inv: "riseInv samples ?lo (Suc j) (- 1) t p" using Suc.prems by (auto simp: riseInv_def)
    have "lo \<le> ?lo" and here: "dir = 1 \<Longrightarrow> lo \<le> t \<and> t < p \<and> p < length samples \<and> nonFalling samples t p"
      using Suc.prems nonFalling_sub by (auto simp: riseInv_def)
    with Suc.IH [OF inv] Suc.prems down show ?thesis by (fastforce simp: Let_def)
  qed
qed

lemma findTroughToPeakRanges_rises:
  obtains ps where "findTroughToPeakRanges samples r d = map (pairRange samples) (filter (bigEnough samples r d) ps)"
    and "sorted_wrt (\<lambda>x y. snd x \<le> fst y) ps"
    and "\<forall>(a, b) \<in> set ps. a < b \<and> b < length samples \<and> nonFalling samples a b"
proof (cases "length samples < 2")
  case True
  then show thesis using that [of "[]"] by (simp add: findTroughToPeakRanges_def)
next
  case False
  have "riseInv samples 0 0 0 0 0" by (simp add: riseInv_def nonFalling_def)
  then have "sorted_wrt (\<lambda>x y. snd x \<le> fst y) (rises samples (Suc 0) (length samples - 1) 0 0 0)
     \<and> (\<forall>(a, b) \<in> set (rises samples (Suc 0) (length samples - 1) 0 0 0).
         0 \<le> a \<and> a < b \<and> b < length samples \<and> nonFalling samples a b)"
    using False by (intro rises_sound) auto
  with False that [of "rises samples (Suc 0) (length samples - 1) 0 0 0"] show thesis
    by (simp add: findTroughToPeakRanges_def troughToPeakLoop_rises)
qed

text \<open>
  Over samples in time order, the trough-to-peak candidates are in ascending order and
  overlap at most in an end point, and each runs from a sample to a later one with no fall
  between neighbours, a rise that is not below the required one, and at least the required
  duration.
\<close>

theorem trough_to_peak_ranges:
  assumes "sorted (map TS samples)"
  shows "sorted_wrt (\<lambda>x y. tr_end x \<le> tr_start y) (findTroughToPeakRanges samples minRisePct minDur)
    \<and> (\<forall>r \<in> set (findTroughToPeakRanges samples minRisePct minDur).
        \<exists>a b. a < b \<and> b < length samples \<and> nonFalling samples a b
          \<and> tr_start r = TS (samples ! a) \<and> tr_end r = TS (samples ! b)
          \<and> \<not> f64_lt (f64_sub (Value (samples ! b)) (Value (samples ! a))) minRisePct
          \<and> minDur \<le> int_seconds (Sub (tr_end r) (tr_start r)))"
proof -
  obtain ps where ps: "findTroughToPeakRanges samples minRisePct minDur
      = map (pairRange samples) (filter (bigEnough samples minRisePct minDur) ps)"
    and srt: "sorted_wrt (\<lambda>x y. snd x \<le> fst y) ps"
    and ok: "\<forall>(a, b) \<in> set ps. a < b \<and> b < length samples \<and> nonFalling samples a b"
    by (rule findTroughToPeakRanges_rises)
  have "sorted_wrt (\<lambda>x y. TS (samples ! snd x) \<le> TS (samples ! fst y)) ps"
  proof (rule sorted_wrt_mono_rel [OF _ srt])
    fix x y assume "x \<in> set ps" "y \<in> set ps" "snd x \<le> fst y"
    moreover from this have "fst y < length samples" using ok by force
    ultimately show "TS (samples ! snd x) \<le> TS (samples ! fst y)" by (intro sorted_nth_mono_key [OF assms])
  qed
  then have "sorted_wrt (\<lambda>x y. tr_end x \<le> tr_start y) (map (pairRange samples) (filter (bigEnough samples minRisePct minDur) ps))"
    by (simp add: sorted_wrt_map sorted_wrt_filter pairRange_def case_prod_beta)
  then show ?thesis
    using ok unfolding ps by (fastforce simp: pairRange_def bigEnough_def)
qed

subsection \<open>The segments of the detector\<close>

lemma mergeTimeRanges_ends:
  assumes "slice_sort tr_start srt" and "r \<in> set (mergeTimeRanges srt ranges g d 0 0 f)"
  shows "(\<exists>a \<in> set ranges. tr_start r = tr_start a) \<and> (\<exists>b \<in> set ranges. tr_end r = tr_end b)"
proof (cases "srt ranges")
  case (Cons cur rest)
  then obtain q where q: "q \<in> set (mergeRuns g f cur rest)" "clipTimeRange q 0 0 d = Some r"
    using assms(2) by (auto simp: mergeTimeRanges_def mergeLoop_runs dest!: append_clippedD)
  then have "r = q" using clipTimeRange_SomeD(1) [OF q(2)] by (simp add: clipBounds_def)
  moreover have "set ranges = set (cur # rest)" using slice_sort.set_srt [OF assms(1), of ranges] Cons by simp
  ultimately show ?thesis using mergeRuns_ends [OF q(1)] by (auto simp del: list.set)
qed (use assms(2) in \<open>simp add: mergeTimeRanges_def\<close>)

text \<open>
  Every recharge segment starts where some candidate rise starts and ends where some
  candidate rise ends, and in each of the two the state of charge does not fall from its
  first to its last sample and the odometer advances by no more than half a kilometre.
\<close>

theorem recharge_segments:
  assumes "slice_sort tr_start srt"
    and "LevelSamples src subject (FieldPowertrainTractionBatteryStateOfChargeCurrent vss) from to = Inr soc"
    and "LevelSamples src subject (FieldPowertrainTransmissionTravelledDistance vss) from to = Inr odo"
    and "detectRechargeSegments srt vss src subject from to minDur minRisePct = Inr segs"
    and "s \<in> set segs"
  shows "\<exists>a b e. End s = Some e \<and> \<not> IsOngoing s \<and> Timestamp (Start s) < Timestamp e
    \<and> Timestamp (Start s) = tr_start a \<and> Timestamp e = tr_end b
    \<and> (\<forall>r \<in> {a, b}. r \<in> set (findTroughToPeakRanges (smoothSamples soc 11) minRisePct minDur)
         \<and> keepSocAndOdo soc odo r)"
proof -
  let ?f = "filterRangesBySocAndOdo (findTroughToPeakRanges (smoothSamples soc 11) minRisePct minDur) soc odo"
  let ?m = "mergeTimeRanges srt ?f rechargeSessionGapMax minDur 0 0 (Some (rechargeShouldMerge odo))"
  have "s \<in> set (timeRangesToSegments ?m from)"
    using assms(2-5)
    by (auto simp: detectRechargeSegments_def rechargeSmoothWindow_def zeroTime_def Let_def split: if_splits)
  then obtain r where r: "r \<in> set ?m" "Timestamp (Start s) = tr_start r" "End s = Some \<lparr>Timestamp = tr_end r, LocValue = None\<rparr>" "\<not> IsOngoing s"
    by (auto simp: timeRangesToSegments_def newSegment_def)
  obtain a b where "a \<in> set ?f" "tr_start r = tr_start a" "b \<in> set ?f" "tr_end r = tr_end b"
    using mergeTimeRanges_ends [OF assms(1) r(1)] by blast
  then show ?thesis
    using r mergeTimeRanges_in_range(1) [OF r(1)]
    by (intro exI [of _ a] exI [of _ b]) (auto simp: filterRangesBySocAndOdo_def)
qed

definition demo_soc :: "levelSample list" where
  "demo_soc = map (\<lambda>i. \<lparr>TS = (1000 + 100 * int i) * 10 ^ 9, Value = Fin (of_nat (11 * i))\<rparr>) [0..<13]"

lemma demo_soc_smoothed:
  "smoothSamples demo_soc 11 = [\<lparr>TS = 1500 * 10 ^ 9, Value = Fin 55\<rparr>,
     \<lparr>TS = 1600 * 10 ^ 9, Value = Fin 66\<rparr>, \<lparr>TS = 1700 * 10 ^ 9, Value = Fin 77\<rparr>]"
  by (simp add: smoothSamples_def demo_soc_def quot_def Let_def f64_eval upt_rec_numeral
      upt_rec [of 0] upt_rec [of "Suc 0"] numeral_2_eq_2 [symmetric])

lemma demo_soc_ranges:
  "findTroughToPeakRanges (smoothSamples demo_soc 11) (Fin 1) 60 = [\<lparr>tr_start = 1500 * 10 ^ 9, tr_end = 1700 * 10 ^ 9\<rparr>]"
  by (simp add: demo_soc_smoothed findTroughToPeakRanges_def numeral_2_eq_2 appendTroughToPeak_def
      f64_eval Sub_short exact_span_def int_seconds_exact second_def)

theorem trough_to_peak_ranges_witness:
  "\<exists>a b. a < b \<and> b < 3 \<and> nonFalling (smoothSamples demo_soc 11) a b
     \<and> 1500 * 10 ^ 9 = TS (smoothSamples demo_soc 11 ! a) \<and> 1700 * 10 ^ 9 = TS (smoothSamples demo_soc 11 ! b)"
proof -
  have "sorted (map TS (smoothSamples demo_soc 11))" "length (smoothSamples demo_soc 11) = 3"
    by (simp_all add: demo_soc_smoothed)
  with trough_to_peak_ranges [of "smoothSamples demo_soc 11" "Fin 1" 60] demo_soc_ranges show ?thesis by auto
qed

definition soc_source :: signalSource where
  "soc_source =
     \<lparr>WindowedSignalCounts = (\<lambda>subject from to size st dt. Inr []),
      LevelSamples = (\<lambda>subject name from to. Inr (if name = ''soc'' then demo_soc else [])),
      IgnitionStateChanges = (\<lambda>subject from to. Inr []),
      IdleRuns = None\<rparr>"

lemma demo_soc_kept: "keepSocAndOdo demo_soc [] \<lparr>tr_start = 1500 * 10 ^ 9, tr_end = 1700 * 10 ^ 9\<rparr>"
proof -
  have "sorted (map TS demo_soc)" by (simp add: demo_soc_def upt_rec_numeral upt_rec [of 0] upt_rec [of "Suc 0"] numeral_2_eq_2 [symmetric])
  then have "levelFirstLastInRange demo_soc (1500 * 10 ^ 9) (1700 * 10 ^ 9) = Some (Fin 55, Fin 77)"
    by (simp add: levelFirstLastInRange_scan) (simp add: firstLastScan_def demo_soc_def upt_rec_numeral upt_rec [of 0] upt_rec [of "Suc 0"] numeral_2_eq_2 [symmetric])
  then show ?thesis by (simp add: keepSocAndOdo_def f64_eval levelFirstLastInRange_def)
qed

lemma demo_soc_segments:
  "detectRechargeSegments (sort_key tr_start) demo_vss soc_source ''veh'' (900 * 10 ^ 9) (9000 * 10 ^ 9) 60 (Fin 1)
   = Inr (timeRangesToSegments [\<lparr>tr_start = 1500 * 10 ^ 9, tr_end = 1700 * 10 ^ 9\<rparr>] (900 * 10 ^ 9))"
  using demo_soc_kept
  by (simp add: detectRechargeSegments_def soc_source_def demo_vss_def rechargeSmoothWindow_def demo_soc_ranges
      filterRangesBySocAndOdo_def mergeTimeRanges_def append_clipped_def clipTimeRange_eq clipBounds_def
      zeroTime_def Let_def Sub_short exact_span_def int_seconds_exact second_def)
    (simp add: demo_soc_def)

theorem recharge_segments_witness:
  "\<exists>a b. 1500 * 10 ^ 9 = tr_start a \<and> 1700 * 10 ^ 9 = tr_end b \<and> keepSocAndOdo demo_soc [] a \<and> keepSocAndOdo demo_soc [] b"
  using recharge_segments [OF slice_sort_sort_key _ _ demo_soc_segments, of demo_soc "[]"]
  by (fastforce simp: soc_source_def demo_vss_def timeRangesToSegments_def newSegment_def)

end
