(* ===== verification/Seg_Registry.thy ===== *)
theory Seg_Registry
  imports Seg_Windows Seg_Ignition Seg_Idling Seg_Refuel Seg_Recharge
begin

section \<open>The detector interface and its registry (internal/segments/registry.go, detector.go)\<close>

text \<open>
  \<open>SegmentDetector\<close> is the interface the repository calls; \<open>NewDetector\<close> picks the
  implementation. The locale \<open>segment_detector\<close> is the contract all six implementations
  keep, whatever their source returns: a segment is ongoing exactly when it has no end,
  only the last one may be, and aggregates are still empty. \<open>closed_detector\<close> is the
  stronger contract of the detectors that never report an ongoing segment.
\<close>

type_synonym detector = "string \<Rightarrow> time \<Rightarrow> time \<Rightarrow> segmentConfig option \<Rightarrow> segment list res"

datatype detectionMechanism =
    IgnitionDetection
  | FrequencyAnalysis
  | ChangePointDetection
  | Idling
  | Refuel
  | Recharge
  | UnknownMechanism string

definition NewDetector ::
  "(timeRange list \<Rightarrow> timeRange list) \<Rightarrow> time \<Rightarrow> vssFields \<Rightarrow> signalSource \<Rightarrow> detectionMechanism \<Rightarrow>
   detector res" where
  "NewDetector srt now vss src mechanism =
     (case mechanism of
        IgnitionDetection \<Rightarrow> Inr (IgnitionDetector_DetectSegments src)
      | FrequencyAnalysis \<Rightarrow> Inr (FrequencyDetector_DetectSegments srt now src)
      | ChangePointDetection \<Rightarrow> Inr (ChangePointDetector_DetectSegments srt now src)
      | Idling \<Rightarrow> Inr (IdlingDetector_DetectSegments vss src)
      | Refuel \<Rightarrow> Inr (RefuelDetector_DetectSegments srt vss src)
      | Recharge \<Rightarrow> Inr (RechargeDetector_DetectSegments srt vss src)
      | UnknownMechanism m \<Rightarrow> Inl (Err (''unknown detection mechanism: '' @ m)))"

subsection \<open>The contract\<close>

locale segment_detector =
  fixes detect :: detector
  assumes open_iff: "detect subject from to config = Inr ss \<Longrightarrow> s \<in> set ss \<Longrightarrow> IsOngoing s \<longleftrightarrow> End s = None"
    and only_last_open: "detect subject from to config = Inr ss \<Longrightarrow> s \<in> set (butlast ss) \<Longrightarrow> End s \<noteq> None"
    and bare: "detect subject from to config = Inr ss \<Longrightarrow> s \<in> set ss \<Longrightarrow> Signals s = [] \<and> EventCounts s = []"
begin

lemma ongoing_is_last:
  assumes "detect subject from to config = Inr ss" and "s \<in> set ss" and "IsOngoing s"
  shows "s = last ss"
proof -
  have "s \<notin> set (butlast ss)"
    using open_iff [OF assms(1,2)] only_last_open [OF assms(1)] assms(3) by blast
  moreover have "set ss = insert (last ss) (set (butlast ss))"
    using assms(2) by (metis append_butlast_last_id empty_iff list.set(1) list.simps(15) rotate1.simps(2) set_rotate1)
  ultimately show ?thesis using assms(2) by blast
qed

lemma at_most_one_ongoing:
  assumes "detect subject from to config = Inr ss"
  shows "length (filter IsOngoing ss) \<le> 1"
proof (cases ss rule: rev_cases)
  case (snoc ys y)
  have "\<not> IsOngoing s" if "s \<in> set ys" for s
    using that open_iff [OF assms, of s] only_last_open [OF assms, of s] snoc by auto
  then show ?thesis by (simp add: snoc)
qed simp

end

locale closed_detector =
  fixes detect :: detector
  assumes from_ranges: "detect subject from to config = Inr ss \<Longrightarrow> \<exists>rs. ss = timeRangesToSegments rs from"

sublocale closed_detector \<subseteq> segment_detector
proof
  fix subject :: string and "from" to config ss s
  assume d: "detect subject from to config = Inr ss"
  obtain rs where ss: "ss = timeRangesToSegments rs from" using from_ranges [OF d] by blast
  show "s \<in> set ss \<Longrightarrow> IsOngoing s \<longleftrightarrow> End s = None" "s \<in> set ss \<Longrightarrow> Signals s = [] \<and> EventCounts s = []"
    by (auto simp: ss timeRangesToSegments_def newSegment_def)
  show "s \<in> set (butlast ss) \<Longrightarrow> End s \<noteq> None"
    by (auto simp: ss timeRangesToSegments_def newSegment_def dest!: in_set_butlastD)
qed

subsection \<open>The implementations keep it\<close>

lemma timeRangesToSegments_Nil: "\<exists>rs. [] = timeRangesToSegments rs from"
  by (rule exI [of _ "[]"]) (simp add: timeRangesToSegments_def)

interpretation idling: closed_detector "IdlingDetector_DetectSegments vss src" for vss src
  by unfold_locales
    (auto simp: IdlingDetector_DetectSegments_def Let_def timeRangesToSegments_Nil split: option.splits sum.splits if_splits)

interpretation refuel: closed_detector "RefuelDetector_DetectSegments srt vss src" for srt vss src
  by unfold_locales
    (auto simp: RefuelDetector_DetectSegments_def Let_def timeRangesToSegments_Nil split: sum.splits if_splits)

interpretation recharge: closed_detector "RechargeDetector_DetectSegments srt vss src" for srt vss src
  by unfold_locales
    (auto simp: RechargeDetector_DetectSegments_def detectRechargeSegments_def Let_def timeRangesToSegments_Nil
      split: sum.splits if_splits)

lemma windowSegments_contract:
  "s \<in> set (windowSegments now from to g m rs) \<Longrightarrow>
   (IsOngoing s \<longleftrightarrow> End s = None) \<and> Signals s = [] \<and> EventCounts s = []"
  "s \<in> set (butlast (windowSegments now from to g m rs)) \<Longrightarrow> End s \<noteq> None"
  by (induction rs) (auto simp: newSegment_def Let_def split: if_splits)

lemma buildLoop_contract:
  "s \<in> set (buildLoop from to m cur scs) \<Longrightarrow>
   (IsOngoing s \<longleftrightarrow> End s = None) \<and> Signals s = [] \<and> EventCounts s = []"
  "s \<in> set (butlast (buildLoop from to m cur scs)) \<Longrightarrow> End s \<noteq> None"
  by (induction scs arbitrary: cur)
    (auto simp: newSegment_def Let_def split: if_splits option.splits)

interpretation ignition: segment_detector "IgnitionDetector_DetectSegments src" for src
  by unfold_locales
    (auto simp: IgnitionDetector_DetectSegments_def buildSegmentsWithDebouncing_def Let_def
      dest: buildLoop_contract split: sum.splits if_splits)

interpretation frequency: segment_detector "FrequencyDetector_DetectSegments srt now src" for srt now src
  by unfold_locales
    (auto simp: FrequencyDetector_DetectSegments_def mergeWindowsIntoSegments_def Let_def
      dest: windowSegments_contract split: sum.splits if_splits)

interpretation changepoint: segment_detector "ChangePointDetector_DetectSegments srt now src" for srt now src
  by unfold_locales
    (auto simp: ChangePointDetector_DetectSegments_def mergeWindowsIntoSegments_def Let_def
      dest: windowSegments_contract split: sum.splits if_splits)

lemma NewDetector_contract: "NewDetector srt now vss src mechanism = Inr d \<Longrightarrow> segment_detector d"
  by (auto simp: NewDetector_def intro: ignition.segment_detector_axioms frequency.segment_detector_axioms
      changepoint.segment_detector_axioms idling.segment_detector_axioms refuel.segment_detector_axioms
      recharge.segment_detector_axioms split: detectionMechanism.splits)

text \<open>
  C25. Whatever the mechanism and whatever the source returns, a detector reports at most
  one ongoing segment, an ongoing segment is the last and the only one without an end, and
  an unknown mechanism is the only one refused.
\<close>

theorem detectors_at_most_one_ongoing:
  assumes "NewDetector srt now vss src mechanism = Inr detect"
    and "detect subject from to config = Inr segs"
  shows "length (filter IsOngoing segs) \<le> 1
    \<and> (\<forall>s \<in> set segs. (IsOngoing s \<longleftrightarrow> End s = None) \<and> (IsOngoing s \<longrightarrow> s = last segs))
    \<and> (\<forall>m. mechanism \<noteq> UnknownMechanism m)"
proof -
  have c: "segment_detector detect" using assms(1) by (rule NewDetector_contract)
  have "\<forall>s \<in> set segs. (IsOngoing s \<longleftrightarrow> End s = None) \<and> (IsOngoing s \<longrightarrow> s = last segs)"
    using segment_detector.open_iff [OF c assms(2)] segment_detector.ongoing_is_last [OF c assms(2)] by blast
  moreover have "\<forall>m. mechanism \<noteq> UnknownMechanism m" using assms(1) by (auto simp: NewDetector_def)
  ultimately show ?thesis using segment_detector.at_most_one_ongoing [OF c assms(2)] by simp
qed

theorem detectors_at_most_one_ongoing_witness:
  "length (filter IsOngoing (timeRangesToSegments [\<lparr>tr_start = 1500 * 10 ^ 9, tr_end = 1700 * 10 ^ 9\<rparr>] (900 * 10 ^ 9))) \<le> 1"
proof -
  have "NewDetector (sort_key tr_start) 0 demo_vss soc_source Recharge
      = Inr (RechargeDetector_DetectSegments (sort_key tr_start) demo_vss soc_source)"
    by (simp add: NewDetector_def)
  moreover have "RechargeDetector_DetectSegments (sort_key tr_start) demo_vss soc_source ''veh'' (900 * 10 ^ 9) (9000 * 10 ^ 9) None
      = Inr (timeRangesToSegments [\<lparr>tr_start = 1500 * 10 ^ 9, tr_end = 1700 * 10 ^ 9\<rparr>] (900 * 10 ^ 9))"
    using demo_soc_segments
    by (simp add: RechargeDetector_DetectSegments_def Let_def rechargeDefaultMinDurationSeconds_def rechargeMinRisePct_def)
  ultimately show ?thesis using detectors_at_most_one_ongoing by blast
qed

end
