(* ===== verification/Repo_Validate.thy ===== *)
theory Repo_Validate
  imports Seg_Registry
begin

section \<open>Validation of query arguments (internal/repositories/validate.go, segments.go)\<close>

text \<open>
  The GraphQL arguments and the checks the repository runs before it queries. A pointer is
  an option. \<open>DecodeEthrDID\<close> of the cloudevent module is not in this repository; whether it
  accepts a string is the argument \<open>isEthrDID\<close>. The two regular expressions are the matchers
  \<open>eventNamePattern\<close> and \<open>eventNamePrefixPattern\<close>, shown to accept exactly the language the
  expression denotes.

  Shown here: an accepted aggregation query has a bounded number of buckets in its window as far as
  \<open>Time.Sub\<close> measures it (about 292 years; longer windows pass with more buckets) and only finite,
  in-range geometry; the event name filter is checked at every depth of its alternatives.
\<close>

subsection \<open>Arguments\<close>

record signalFilter =
  FilterSource :: "string option"

record filterLocation =
  FlLatitude :: f64
  FlLongitude :: f64

record inCircleFilter =
  Center :: "filterLocation option"
  Radius :: f64

record signalLocationFilter =
  InPolygon :: "filterLocation option list"
  InCircle :: "inCircleFilter option"

record signalArgs =
  Filter :: "signalFilter option"
  Subject :: string

record latestSignalsArgs =
  LatestSignalArgs :: signalArgs
  SignalNames :: "string list"
  LocationSignalNames :: "string list"
  IncludeLastSeen :: bool

datatype signalFloatFilter =
  SignalFloatFilter (SfEq: "f64 option") (SfNeq: "f64 option") (SfGt: "f64 option") (SfLt: "f64 option")
    (SfGte: "f64 option") (SfLte: "f64 option") (SfNotIn: "f64 list") (SfIn: "f64 list")
    (SfOr: "signalFloatFilter option list")

record floatSignalArgs =
  FaName :: string
  FaAgg :: string
  FaAlias :: string
  FaFilter :: "signalFloatFilter option"

record stringSignalArgs =
  SaName :: string
  SaAgg :: string
  SaAlias :: string

record locationSignalArgs =
  LaName :: string
  LaAgg :: string
  LaAlias :: string
  LaFilter :: "signalLocationFilter option"

record aggregatedSignalArgs =
  AggSignalArgs :: signalArgs
  FromTS :: time
  ToTS :: time
  Interval :: int
  FloatArgs :: "floatSignalArgs list"
  StringArgs :: "stringSignalArgs list"
  LocationArgs :: "locationSignalArgs list"

datatype stringValueFilter =
  StringValueFilter (SvEq: "string option") (SvNeq: "string option") (SvNotIn: "string list")
    (SvIn: "string list") (SvStartsWith: "string option") (SvOr: "stringValueFilter option list")

text \<open>Source and tags of an event filter are not validated here; only the name is.\<close>

record eventFilter =
  EventFilterName :: "stringValueFilter option"

subsection \<open>validate.go\<close>

definition ValidationError :: "string \<Rightarrow> goerr" where
  "ValidationError v = Err (''invalid argument: '' @ v)"

definition isAlphaChar :: "char \<Rightarrow> bool" where
  "isAlphaChar c = (let n = of_char c :: nat in (65 \<le> n \<and> n \<le> 90) \<or> (97 \<le> n \<and> n \<le> 122))"

definition isAlnumChar :: "char \<Rightarrow> bool" where
  "isAlnumChar c = (isAlphaChar c \<or> (let n = of_char c :: nat in 48 \<le> n \<and> n \<le> 57))"

text \<open>\<open>[a-zA-Z][a-zA-Z0-9]*\<close> from the front of a string: what follows the longest match.\<close>

fun matchIdent :: "string \<Rightarrow> string option" where
  "matchIdent [] = None"
| "matchIdent (c # cs) = (if isAlphaChar c then Some (dropWhile isAlnumChar cs) else None)"

definition matchDotted :: "string \<Rightarrow> string option" where
  "matchDotted s = (case matchIdent s of
      Some (c # r) \<Rightarrow> if c = CHR ''.'' then Some r else None
    | _ \<Rightarrow> None)"

definition eventNamePattern :: "string \<Rightarrow> bool" where
  "eventNamePattern s = (case matchDotted s of None \<Rightarrow> False | Some r \<Rightarrow> matchIdent r = Some [])"

definition eventNamePrefixPattern :: "string \<Rightarrow> bool" where
  "eventNamePrefixPattern s =
     (case matchDotted s of None \<Rightarrow> False | Some r \<Rightarrow> r = [] \<or> matchIdent r = Some [])"

definition isFilterLocationValid :: "filterLocation option \<Rightarrow> bool" where
  "isFilterLocationValid loc = (case loc of None \<Rightarrow> False
     | Some l \<Rightarrow> f64_le (Fin (- 90)) (FlLatitude l) \<and> f64_le (FlLatitude l) (Fin 90)
               \<and> f64_le (Fin (- 180)) (FlLongitude l) \<and> f64_le (FlLongitude l) (Fin 180))"

definition validateFilter :: "(string \<Rightarrow> bool) \<Rightarrow> signalFilter option \<Rightarrow> goerr option" where
  "validateFilter isEthrDID flt =
     (case flt of None \<Rightarrow> None
      | Some f \<Rightarrow> (case FilterSource f of None \<Rightarrow> None
          | Some s \<Rightarrow> if isEthrDID s then None
                    else Some (ValidationError (''source '' @ [CHR 0x27] @ s @ [CHR 0x27] @ '' is not a valid ethr DID''))))"

definition validateSignalArgs :: "(string \<Rightarrow> bool) \<Rightarrow> signalArgs option \<Rightarrow> goerr option" where
  "validateSignalArgs isEthrDID args =
     (case args of None \<Rightarrow> Some (ValidationError ''signal args not provided'')
      | Some a \<Rightarrow> if Subject a = [] then Some (ValidationError ''subject is required'')
                else validateFilter isEthrDID (Filter a))"

definition validateLatestSigArgs :: "(string \<Rightarrow> bool) \<Rightarrow> latestSignalsArgs option \<Rightarrow> goerr option" where
  "validateLatestSigArgs isEthrDID args =
     (case args of None \<Rightarrow> Some (ValidationError ''latest signal args not provided'')
      | Some a \<Rightarrow> validateSignalArgs isEthrDID (Some (LatestSignalArgs a)))"

definition maxAggBuckets :: int where "maxAggBuckets = 100000"

definition maxUint16 :: nat where "maxUint16 = 65535"

text \<open>The body of the loop over the location arguments.\<close>

definition validateCircle :: "inCircleFilter \<Rightarrow> goerr option" where
  "validateCircle c =
     (if \<not> isFilterLocationValid (Center c) then Some (ValidationError ''invalid circle filter location'')
      else let r = Radius c in
           if isNaN r \<or> isInf r \<or> f64_lt r (Fin 0) then Some (ValidationError ''invalid circle filter radius'')
           else None)"

definition validateLocationArg :: "locationSignalArgs \<Rightarrow> goerr option" where
  "validateLocationArg locArg =
     (case LaFilter locArg of None \<Rightarrow> None
      | Some fil \<Rightarrow>
          if length (InPolygon fil) \<noteq> 0 \<and> length (InPolygon fil) < 3
          then Some (ValidationError ''not enough points in geofence filter'')
          else if \<not> (\<forall>pt \<in> set (InPolygon fil). isFilterLocationValid pt)
          then Some (ValidationError ''invalid geofence polygon vertex'')
          else (case InCircle fil of None \<Rightarrow> None | Some c \<Rightarrow> validateCircle c))"

definition validateAggSigArgs :: "(string \<Rightarrow> bool) \<Rightarrow> aggregatedSignalArgs option \<Rightarrow> goerr option" where
  "validateAggSigArgs isEthrDID args =
     (case args of None \<Rightarrow> Some (ValidationError ''aggregated signal args not provided'')
      | Some a \<Rightarrow>
          if IsZero (FromTS a) then Some (ValidationError ''from timestamp is zero'')
          else if IsZero (ToTS a) then Some (ValidationError ''to timestamp is zero'')
          else if After (FromTS a) (ToTS a) then Some (ValidationError ''from timestamp is after to timestamp'')
          else if Interval a < 1 then Some (ValidationError ''interval is not a positive integer'')
          else let windowMicros = Microseconds (Sub (ToTS a) (FromTS a)) in
          if 0 < windowMicros \<and> Interval a < quot windowMicros maxAggBuckets
          then Some (ValidationError ''interval too small for the requested window (exceeds the aggregation bucket limit)'')
          else if maxUint16 < length (FloatArgs a) then Some (ValidationError ''too many float aggregations'')
          else if maxUint16 < length (StringArgs a) then Some (ValidationError ''too many string aggregations'')
          else if maxUint16 < length (LocationArgs a) then Some (ValidationError ''too many location aggregations'')
          else or_err (first_err (map validateLocationArg (LocationArgs a)))
                 (validateSignalArgs isEthrDID (Some (AggSignalArgs a))))"

definition eventNameError :: "string \<Rightarrow> goerr" where
  "eventNameError name = ValidationError (''event name '' @ [CHR 0x27] @ name @ [CHR 0x27]
     @ '' does not match namespace pattern (e.g. '' @ [CHR 0x27] @ ''behavior.harshBraking'' @ [CHR 0x27] @ '')'')"

definition eventPrefixError :: "string \<Rightarrow> goerr" where
  "eventPrefixError name = ValidationError (''event name prefix '' @ [CHR 0x27] @ name @ [CHR 0x27]
     @ '' does not match namespace pattern (e.g. '' @ [CHR 0x27] @ ''behavior.'' @ [CHR 0x27] @ '' or ''
     @ [CHR 0x27] @ ''behavior.harsh'' @ [CHR 0x27] @ '')'')"

definition checkEventName :: "string \<Rightarrow> goerr option" where
  "checkEventName name = (if eventNamePattern name then None else Some (eventNameError name))"

definition checkEventPrefix :: "string \<Rightarrow> goerr option" where
  "checkEventPrefix name = (if eventNamePrefixPattern name then None else Some (eventPrefixError name))"

fun validateEventNameFilter :: "stringValueFilter option \<Rightarrow> goerr option" where
  "validateEventNameFilter None = None"
| "validateEventNameFilter (Some (StringValueFilter eq neq notIn inn startsWith ors)) =
     or_err (case eq of None \<Rightarrow> None | Some name \<Rightarrow> checkEventName name)
      (or_err (first_err (map checkEventName inn))
       (or_err (case startsWith of None \<Rightarrow> None | Some p \<Rightarrow> checkEventPrefix p)
         (first_err (map validateEventNameFilter ors))))"

definition validateEventArgs :: "string \<Rightarrow> time \<Rightarrow> time \<Rightarrow> eventFilter option \<Rightarrow> goerr option" where
  "validateEventArgs did from to flt =
     (if did = [] then Some (ValidationError ''subject is required'')
      else if IsZero from then Some (ValidationError ''from timestamp is zero'')
      else if IsZero to then Some (ValidationError ''to timestamp is zero'')
      else if After from to then Some (ValidationError ''from timestamp is after to timestamp'')
      else case flt of None \<Rightarrow> None | Some f \<Rightarrow> validateEventNameFilter (EventFilterName f))"

subsection \<open>segments.go: checks\<close>

definition maxDateRangeDays :: int where "maxDateRangeDays = 32"
definition maxDateRangeDuration :: duration where
  "maxDateRangeDuration = maxDateRangeDays * 24 * hour + second"
definition maxSegmentLimit :: int where "maxSegmentLimit = 200"

definition validateSegmentDateRange :: "time \<Rightarrow> time \<Rightarrow> goerr option" where
  "validateSegmentDateRange from to =
     (if maxDateRangeDuration < Sub to from
      then Some (Err (''date range exceeds maximum of '' @ int_str maxDateRangeDays @ '' days''))
      else None)"

definition validateSegmentArgs :: "string \<Rightarrow> time \<Rightarrow> time \<Rightarrow> goerr option" where
  "validateSegmentArgs did from to =
     (if did = [] then Some (Err ''subject is required'')
      else if After from to then Some (Err ''from time must be before to time'')
      else if Equal from to then Some (Err ''from and to times cannot be equal'')
      else validateSegmentDateRange from to)"

definition checkRange :: "string \<Rightarrow> int option \<Rightarrow> int \<Rightarrow> int \<Rightarrow> goerr option" where
  "checkRange name v lo hi = (case v of None \<Rightarrow> None
     | Some x \<Rightarrow> if x < lo \<or> hi < x
               then Some (Err (name @ '' must be between '' @ int_str lo @ '' and '' @ int_str hi)) else None)"

definition validateSegmentConfig :: "segmentConfig option \<Rightarrow> detectionMechanism \<Rightarrow> goerr option" where
  "validateSegmentConfig config mechanism = (case config of None \<Rightarrow> None
     | Some c \<Rightarrow>
         or_err (checkRange ''maxGapSeconds'' (MaxGapSeconds c) 60 3600)
        (or_err (checkRange ''minSegmentDurationSeconds'' (MinSegmentDurationSeconds c) 60 3600)
        (or_err (checkRange ''signalCountThreshold'' (SignalCountThreshold c) 1 3600)
        (or_err (if mechanism = Idling then checkRange ''maxIdleRpm'' (MaxIdleRpm c) 300 3000 else None)
                (if mechanism = Refuel \<or> mechanism = Recharge
                 then checkRange ''minIncreasePercent'' (MinIncreasePercent c) 1 100 else None)))))"

definition validateSegmentLimit :: "int option \<Rightarrow> goerr option" where
  "validateSegmentLimit limit = (case limit of None \<Rightarrow> None
     | Some l \<Rightarrow> if l < 1 \<or> maxSegmentLimit < l
               then Some (Err (''limit must be between 1 and '' @ int_str maxSegmentLimit)) else None)"

subsection \<open>The expressions denote their languages\<close>

text \<open>The language of \<open>[a-zA-Z][a-zA-Z0-9]*\<close>.\<close>

definition isIdent :: "string \<Rightarrow> bool" where
  "isIdent s = (s \<noteq> [] \<and> isAlphaChar (hd s) \<and> (\<forall>c \<in> set (tl s). isAlnumChar c))"

lemma dot_not_alnum: "\<not> isAlnumChar CHR ''.''"
  by (simp add: isAlnumChar_def isAlphaChar_def)

lemma matchIdent_complete: "matchIdent s = Some [] \<longleftrightarrow> isIdent s"
  by (cases s) (auto simp: isIdent_def)

lemma matchDotted_iff: "matchDotted s = Some r \<longleftrightarrow> (\<exists>a. isIdent a \<and> s = a @ CHR ''.'' # r)"
proof
  assume m: "matchDotted s = Some r"
  then obtain c cs where s: "s = c # cs" "isAlphaChar c" and d: "dropWhile isAlnumChar cs = CHR ''.'' # r"
    by (cases s) (auto simp: matchDotted_def split: list.splits if_splits)
  let ?a = "c # takeWhile isAlnumChar cs"
  have "isIdent ?a" using s(2) by (auto simp: isIdent_def dest: set_takeWhileD)
  moreover have "s = ?a @ CHR ''.'' # r" using s(1) d takeWhile_dropWhile_id [of isAlnumChar cs] by simp
  ultimately show "\<exists>a. isIdent a \<and> s = a @ CHR ''.'' # r" by blast
next
  assume "\<exists>a. isIdent a \<and> s = a @ CHR ''.'' # r"
  then obtain a where a: "isIdent a" "s = a @ CHR ''.'' # r" by blast
  then obtain c cs where c: "a = c # cs" "isAlphaChar c" "\<forall>x \<in> set cs. isAlnumChar x"
    by (cases a) (auto simp: isIdent_def)
  have "dropWhile isAlnumChar (cs @ CHR ''.'' # r) = CHR ''.'' # r"
    using c(3) dot_not_alnum by (simp add: dropWhile_append2)
  then show "matchDotted s = Some r" using a(2) c by (simp add: matchDotted_def)
qed

lemma eventNamePattern_iff:
  "eventNamePattern s \<longleftrightarrow> (\<exists>a b. isIdent a \<and> isIdent b \<and> s = a @ CHR ''.'' # b)"
proof -
  have "eventNamePattern s \<longleftrightarrow> (\<exists>r. matchDotted s = Some r \<and> isIdent r)"
    by (auto simp: eventNamePattern_def matchIdent_complete split: option.splits)
  then show ?thesis by (auto simp: matchDotted_iff)
qed

lemma eventNamePrefixPattern_iff:
  "eventNamePrefixPattern s \<longleftrightarrow> (\<exists>a b. isIdent a \<and> (b = [] \<or> isIdent b) \<and> s = a @ CHR ''.'' # b)"
proof -
  have "eventNamePrefixPattern s \<longleftrightarrow> (\<exists>r. matchDotted s = Some r \<and> (r = [] \<or> isIdent r))"
    by (auto simp: eventNamePrefixPattern_def matchIdent_complete split: option.splits)
  then show ?thesis by (auto simp: matchDotted_iff)
qed

subsection \<open>Event name filters\<close>

text \<open>The filters nested anywhere in the alternatives of a filter, itself included.\<close>

inductive nested :: "stringValueFilter \<Rightarrow> stringValueFilter \<Rightarrow> bool" where
  nested_refl: "nested f f"
| nested_or: "Some g \<in> set (SvOr f) \<Longrightarrow> nested g h \<Longrightarrow> nested f h"

inductive_cases nestedE: "nested f h"

definition namesMatch :: "stringValueFilter \<Rightarrow> bool" where
  "namesMatch f = ((\<forall>n \<in> set_option (SvEq f) \<union> set (SvIn f). eventNamePattern n)
     \<and> (\<forall>p \<in> set_option (SvStartsWith f). eventNamePrefixPattern p))"

lemma checkEvent_None [simp]:
  "checkEventName n = None \<longleftrightarrow> eventNamePattern n" "checkEventPrefix p = None \<longleftrightarrow> eventNamePrefixPattern p"
  by (simp_all add: checkEventName_def checkEventPrefix_def)

lemma validateEventNameFilter_step:
  "validateEventNameFilter (Some f) = None \<longleftrightarrow>
     namesMatch f \<and> (\<forall>g. Some g \<in> set (SvOr f) \<longrightarrow> validateEventNameFilter (Some g) = None)"
proof (cases f)
  case (StringValueFilter eq neq notIn inn sw ors)
  have "(\<forall>x \<in> set ors. validateEventNameFilter x = None)
      \<longleftrightarrow> (\<forall>g. Some g \<in> set ors \<longrightarrow> validateEventNameFilter (Some g) = None)"
    by (metis option.exhaust validateEventNameFilter.simps(1))
  then show ?thesis unfolding StringValueFilter
    by (cases eq; cases sw) (simp_all add: namesMatch_def ball_Un conj_ac)
qed

text \<open>
  The check of an event name filter reaches every alternative at every depth: it accepts
  a filter exactly when each \<open>eq\<close> and \<open>in\<close> name anywhere inside is two identifiers joined by
  one dot, and each prefix an identifier, a dot and possibly an identifier. \<open>neq\<close> and
  \<open>notIn\<close> are not restricted.
\<close>

theorem event_filter_checked_at_every_depth:
  "validateEventNameFilter (Some f) = None \<longleftrightarrow>
     (\<forall>g. nested f g \<longrightarrow>
        (\<forall>n \<in> set_option (SvEq g) \<union> set (SvIn g). \<exists>a b. isIdent a \<and> isIdent b \<and> n = a @ CHR ''.'' # b)
      \<and> (\<forall>p \<in> set_option (SvStartsWith g). \<exists>a b. isIdent a \<and> (b = [] \<or> isIdent b) \<and> p = a @ CHR ''.'' # b))"
proof -
  have "validateEventNameFilter (Some f) = None" if "\<forall>g. nested f g \<longrightarrow> namesMatch g"
    using that
  proof (induction f)
    case (StringValueFilter eq neq notIn inn sw ors)
    let ?f = "StringValueFilter eq neq notIn inn sw ors"
    have "validateEventNameFilter (Some g) = None" if g: "Some g \<in> set ors" for g
    proof (rule StringValueFilter.IH)
      show "Some g \<in> set ors" "g \<in> set_option (Some g)" using g by simp_all
      show "\<forall>h. nested g h \<longrightarrow> namesMatch h" using StringValueFilter.prems g nested_or [of g ?f] by auto
    qed
    moreover have "namesMatch ?f" using StringValueFilter.prems nested_refl by blast
    ultimately show ?case using validateEventNameFilter_step [of ?f] stringValueFilter.sel(6) by simp
  qed
  moreover have "namesMatch g" if "nested f g" "validateEventNameFilter (Some f) = None" for g
    using that
  proof (induction rule: nested.induct)
    case (nested_refl f)
    then show ?case using validateEventNameFilter_step [of f] by blast
  next
    case (nested_or g f h)
    then show ?case using validateEventNameFilter_step [of f] by metis
  qed
  ultimately have "validateEventNameFilter (Some f) = None \<longleftrightarrow> (\<forall>g. nested f g \<longrightarrow> namesMatch g)" by blast
  then show ?thesis by (simp add: namesMatch_def eventNamePattern_iff eventNamePrefixPattern_iff)
qed

theorem event_filter_checked_at_every_depth_witness:
  "\<not> eventNamePattern ''harsh'' \<and> validateEventNameFilter (Some (StringValueFilter None None [] [] None
     [Some (StringValueFilter (Some ''behavior.harsh'') None [] [] None
        [Some (StringValueFilter (Some ''harsh'') None [] [] None [])])])) \<noteq> None"
proof -
  let ?c = "StringValueFilter (Some ''harsh'') None [] [] None []"
  let ?b = "StringValueFilter (Some ''behavior.harsh'') None [] [] None [Some ?c]"
  let ?a = "StringValueFilter None None [] [] None [Some ?b]"
  have "nested ?a ?c" by (rule nested_or [of ?b]) (auto intro: nested_or [of ?c] nested_refl)
  moreover have n: "\<not> eventNamePattern ''harsh''" by code_simp
  moreover have "''harsh'' \<in> set_option (SvEq ?c) \<union> set (SvIn ?c)" by simp
  ultimately have "validateEventNameFilter (Some ?a) \<noteq> None"
    using event_filter_checked_at_every_depth [of ?a] eventNamePattern_iff [of "''harsh''"] by blast
  then show ?thesis using n by blast
qed

subsection \<open>Aggregation queries\<close>

lemma f64_between:
  "f64_le (Fin a) x \<Longrightarrow> f64_le x (Fin b) \<Longrightarrow> \<exists>q. x = Fin q \<and> a \<le> q \<and> q \<le> b"
  by (cases x) (auto simp: f64_le_def f64_eq_def)

lemma isFilterLocationValidD:
  "isFilterLocationValid loc \<Longrightarrow> \<exists>l p q. loc = Some l \<and> FlLatitude l = Fin p \<and> FlLongitude l = Fin q
     \<and> \<bar>p\<bar> \<le> 90 \<and> \<bar>q\<bar> \<le> 180"
  by (auto simp: isFilterLocationValid_def abs_le_iff dest!: f64_between split: option.splits)

lemma validateCircleD:
  "validateCircle c = None \<Longrightarrow> isFilterLocationValid (Center c) \<and> (\<exists>r. Radius c = Fin r \<and> 0 \<le> r)"
  by (cases "Radius c") (auto simp: validateCircle_def isNaN_def isInf_def Let_def split: if_splits)

lemma validateLocationArgD:
  assumes "validateLocationArg la = None" and "LaFilter la = Some fil"
  shows "InPolygon fil = [] \<or> 3 \<le> length (InPolygon fil)"
    and "pt \<in> set (InPolygon fil) \<Longrightarrow> isFilterLocationValid pt"
    and "InCircle fil = Some c \<Longrightarrow> validateCircle c = None"
  using assms by (auto simp: validateLocationArg_def split: if_splits)

lemma bucket_bound:
  assumes "1 \<le> i" and "\<not> (0 < w \<and> i < quot w maxAggBuckets)" and "0 \<le> w"
  shows "w div i < 2 * maxAggBuckets"
proof -
  have q: "w div 100000 \<le> i" using assms by (cases "w = 0") (auto simp: quot_nonneg maxAggBuckets_def)
  have "w < 200000 * i"
  proof -
    have "w < 100000 * (w div 100000 + 1)" by (simp add: minus_mod_eq_mult_div [symmetric])
    also have "\<dots> \<le> 100000 * (i + i)" using q assms(1) by (simp add: add_mono)
    finally show ?thesis by simp
  qed
  moreover have "w div i * i \<le> w" using assms(1) by (simp add: minus_mod_eq_div_mult [symmetric])
  ultimately have "(w div i) * i < 200000 * i" by linarith
  then have "w div i < 200000" using assms(1) by simp
  then show ?thesis by (simp add: maxAggBuckets_def)
qed

text \<open>
  C34. An accepted aggregation query spans a positive interval between two nonzero
  instants and names a subject, and every coordinate it inlines into SQL is a
  finite number in range: polygons have no or at least three vertices, circles a finite
  radius of at least 0. It has fewer than 200000 buckets when the window fits into a Go duration (2^63 - 1
  nanoseconds, about 292 years); of a longer window only the part that fits is counted, see
  \<open>saturated_window_accepted\<close>. (The limit is named 100000; the truncating division lets a window
  of up to twice as many buckets through.)
\<close>

theorem validateAggSigArgs_safe:
  assumes ok: "validateAggSigArgs isEthrDID (Some a) = None"
  shows "FromTS a \<le> ToTS a \<and> FromTS a \<noteq> 0 \<and> ToTS a \<noteq> 0 \<and> 1 \<le> Interval a
    \<and> (min (ToTS a - FromTS a) maxInt64 div microsecond) div Interval a < 2 * maxAggBuckets
    \<and> (ToTS a - FromTS a \<le> maxInt64 \<longrightarrow> ((ToTS a - FromTS a) div microsecond) div Interval a < 2 * maxAggBuckets)
    \<and> Subject (AggSignalArgs a) \<noteq> []
    \<and> (\<forall>la fil. la \<in> set (LocationArgs a) \<and> LaFilter la = Some fil \<longrightarrow>
         (InPolygon fil = [] \<or> 3 \<le> length (InPolygon fil))
       \<and> (\<forall>pt \<in> set (InPolygon fil). \<exists>l p q. pt = Some l \<and> FlLatitude l = Fin p \<and> FlLongitude l = Fin q
             \<and> \<bar>p\<bar> \<le> 90 \<and> \<bar>q\<bar> \<le> 180)
       \<and> (\<forall>c. InCircle fil = Some c \<longrightarrow> isFilterLocationValid (Center c) \<and> (\<exists>r. Radius c = Fin r \<and> 0 \<le> r)))"
proof -
  let ?w = "Microseconds (Sub (ToTS a) (FromTS a))"
  have r: "FromTS a \<le> ToTS a" "FromTS a \<noteq> 0" "ToTS a \<noteq> 0" "1 \<le> Interval a"
    "\<not> (0 < ?w \<and> Interval a < quot ?w maxAggBuckets)" "Subject (AggSignalArgs a) \<noteq> []"
    and la: "\<And>la. la \<in> set (LocationArgs a) \<Longrightarrow> validateLocationArg la = None"
    using ok by (auto simp: validateAggSigArgs_def validateSignalArgs_def Let_def go_defs split: if_splits)
  have sub: "Sub (ToTS a) (FromTS a) = min (ToTS a - FromTS a) maxInt64"
    using r(1) by (auto simp: Sub_def sat64_def minInt64_def maxInt64_def)
  have nn: "0 \<le> min (ToTS a - FromTS a) maxInt64" using r(1) by (simp add: maxInt64_def)
  then have w: "?w = min (ToTS a - FromTS a) maxInt64 div microsecond"
    by (simp add: sub Microseconds_def quot_nonneg microsecond_def)
  then have "0 \<le> ?w" using nn by (simp add: microsecond_def pos_imp_zdiv_nonneg_iff)
  then have b: "min (ToTS a - FromTS a) maxInt64 div microsecond div Interval a < 2 * maxAggBuckets"
    using bucket_bound r(4,5) w by metis
  then have "ToTS a - FromTS a \<le> maxInt64 \<longrightarrow> ((ToTS a - FromTS a) div microsecond) div Interval a < 2 * maxAggBuckets"
    by (auto simp: min.absorb1)
  then show ?thesis using r la b validateLocationArgD isFilterLocationValidD validateCircleD
    by (metis (no_types, lifting))
qed

definition demo_aggArgs :: "aggregatedSignalArgs" where
  "demo_aggArgs = \<lparr>AggSignalArgs = \<lparr>Filter = Some \<lparr>FilterSource = Some ''did:ethr:1''\<rparr>, Subject = ''veh''\<rparr>,
     FromTS = 1000, ToTS = 199999 * 1000 + 1000, Interval = 1, FloatArgs = [], StringArgs = [],
     LocationArgs = [\<lparr>LaName = ''loc'', LaAgg = ''FIRST'', LaAlias = ''a'',
       LaFilter = Some \<lparr>InPolygon = [], InCircle = Some \<lparr>Center = Some \<lparr>FlLatitude = Fin 90, FlLongitude = Fin (- 180)\<rparr>,
         Radius = Fin 0\<rparr>\<rparr>\<rparr>]\<rparr>"

theorem validateAggSigArgs_safe_witness:
  "validateAggSigArgs (\<lambda>s. s = ''did:ethr:1'') (Some demo_aggArgs) = None
   \<and> ((ToTS demo_aggArgs - FromTS demo_aggArgs) div microsecond) div Interval demo_aggArgs = 199999
   \<and> Subject (AggSignalArgs demo_aggArgs) \<noteq> []"
proof -
  have ok: "validateAggSigArgs (\<lambda>s. s = ''did:ethr:1'') (Some demo_aggArgs) = None"
    by (simp add: validateAggSigArgs_def demo_aggArgs_def go_defs Microseconds_def microsecond_def Sub_def
        sat64_def minInt64_def maxInt64_def quot_def maxAggBuckets_def maxUint16_def validateLocationArg_def validateCircle_def
        isFilterLocationValid_def f64_le_def f64_eq_def isNaN_def isInf_def validateSignalArgs_def validateFilter_def)
  moreover have "((ToTS demo_aggArgs - FromTS demo_aggArgs) div microsecond) div Interval demo_aggArgs = 199999"
    by (simp add: demo_aggArgs_def microsecond_def)
  ultimately show ?thesis using validateAggSigArgs_safe [OF ok] by simp
qed

text \<open>
  The difference of the two instants saturates, so the guard counts the buckets of at most 292 years: with
  an interval of a 100000th of that, a window of \<open>n\<close> times 292 years is accepted with \<open>n\<close> times 100000
  buckets and more.
\<close>

lemma saturated_window_accepted:
  assumes "1 \<le> n"
  defines "a \<equiv> demo_aggArgs\<lparr>FromTS := 1, ToTS := 1 + n * maxInt64, Interval := 92233720368\<rparr>"
  shows "validateAggSigArgs (\<lambda>s. s = ''did:ethr:1'') (Some a) = None
    \<and> n * maxAggBuckets \<le> ((ToTS a - FromTS a) div microsecond) div Interval a"
proof
  have "Sub (1 + n * maxInt64) 1 = maxInt64" using assms(1) by (simp add: Sub_def sat64_def minInt64_def maxInt64_def)
  then show "validateAggSigArgs (\<lambda>s. s = ''did:ethr:1'') (Some a) = None"
    using assms(1)
    by (simp add: a_def validateAggSigArgs_def demo_aggArgs_def go_defs Microseconds_def microsecond_def
        minInt64_def maxInt64_def quot_def maxAggBuckets_def maxUint16_def validateLocationArg_def validateCircle_def
        isFilterLocationValid_def f64_le_def f64_eq_def isNaN_def isInf_def validateSignalArgs_def validateFilter_def)
  show "n * maxAggBuckets \<le> ((ToTS a - FromTS a) div microsecond) div Interval a"
    using assms(1) by (simp add: a_def maxAggBuckets_def maxInt64_def microsecond_def)
qed

end
