(* ===== verification/Repo_Segments.thy ===== *)
theory Repo_Segments
  imports Repo_Validate "HOL-Library.AList" "HOL-Library.Product_Lexorder"
begin

section \<open>Segment queries (internal/repositories/segments.go)\<close>

text \<open>
  \<open>GetSegments\<close> with everything it calls in this file: validation, the cursor, the deferred
  truncation of idling, the batched summaries and the location gap fill. The query layer
  behind it is the record \<open>queryService\<close>. What Go leaves open is an argument, in the record
  \<open>repoEnv\<close>: the clock, the order \<open>sort.Slice\<close> gives equal keys, the order a map is ranged
  over, and which of two failing goroutines of an \<open>errgroup\<close> fails first. A Go map that is
  only read by key or ranged over is an association list.
\<close>

subsection \<open>The query layer\<close>

record vssLocation =
  VLatitude :: f64
  VLongitude :: f64
  VHDOP :: f64

definition FloatType :: nat where "FloatType = 1"
definition StringType :: nat where "StringType = 2"
definition LocType :: nat where "LocType = 3"

lemmas fieldType_defs = FloatType_def StringType_def LocType_def

record aggSignal =
  SignalType :: nat
  SignalIndex :: nat
  SigTimestamp :: time
  ValueNumber :: f64
  ValueString :: string
  ValueLocation :: vssLocation

record aggSignalForRange =
  ArSegIndex :: int
  ArSignalType :: nat
  ArSignalIndex :: nat
  ArValueNumber :: f64
  ArValueString :: string
  ArValueLocation :: vssLocation

record eventCountForRange =
  ErSegIndex :: int
  ErName :: string
  ErCount :: int

record queryRange =
  RangeFrom :: time
  RangeTo :: time

record queryService =
  QuerySegments :: "string \<Rightarrow> time \<Rightarrow> time \<Rightarrow> detectionMechanism \<Rightarrow> segmentConfig option \<Rightarrow> segment list res"
  GetEventCounts :: "string \<Rightarrow> time \<Rightarrow> time \<Rightarrow> string list \<Rightarrow> eventCount list res"
  GetEventCountsForRanges :: "string \<Rightarrow> queryRange list \<Rightarrow> string list \<Rightarrow> eventCountForRange list res"
  GetAggregatedSignals :: "string \<Rightarrow> aggregatedSignalArgs \<Rightarrow> aggSignal list res"
  GetAggregatedSignalsForRanges ::
    "string \<Rightarrow> queryRange list \<Rightarrow> time \<Rightarrow> time \<Rightarrow> floatSignalArgs list \<Rightarrow> locationSignalArgs list \<Rightarrow>
     aggSignalForRange list res"
  LocationsAt :: "(string \<Rightarrow> time list \<Rightarrow> location option list res) option"

record repoEnv =
  Now :: time
  Vss :: vssFields
  Query :: queryService
  SortSignals :: "signalAggregationValue list \<Rightarrow> signalAggregationValue list"
  RangeCounts :: "(string \<times> int) list \<Rightarrow> (string \<times> int) list"
  CountsFirst :: bool

text \<open>\<open>handleDBError\<close> of signals.go: context errors are the server's, everything else internal.\<close>

definition newServiceUnavailableError :: "goerr \<Rightarrow> string \<Rightarrow> goerr" where
  "newServiceUnavailableError err message = ServiceUnavailableError err message"

definition handleDBError :: "goerr \<Rightarrow> goerr" where
  "handleDBError err =
     (if errors_Is err ErrDeadlineExceeded \<or> errors_Is err ErrCanceled
      then newServiceUnavailableError err ''request exceeded or is estimated to exceed the maximum execution time''
      else InternalError err ''failed to query db'')"

text \<open>Two goroutines of an \<open>errgroup\<close>: \<open>Wait\<close> returns the error that came first.\<close>

definition waitBoth :: "bool \<Rightarrow> 'a res \<Rightarrow> 'b res \<Rightarrow> ('a \<times> 'b) res" where
  "waitBoth aFirst a b = (case (a, b) of
     (Inr x, Inr y) \<Rightarrow> Inr (x, y)
   | (Inl e, Inr _) \<Rightarrow> Inl e
   | (Inr _, Inl e) \<Rightarrow> Inl e
   | (Inl ea, Inl eb) \<Rightarrow> Inl (if aFirst then ea else eb))"

subsection \<open>Requested signals\<close>

record segmentSignalRequest =
  ReqName :: string
  ReqAgg :: string

record segmentEventRequest =
  EventReqName :: string

definition FloatAggregationMax :: string where "FloatAggregationMax = ''MAX''"
definition FloatAggregationFirst :: string where "FloatAggregationFirst = ''FIRST''"
definition FloatAggregationLast :: string where "FloatAggregationLast = ''LAST''"
definition LocationAggregationFirst :: string where "LocationAggregationFirst = ''FIRST''"
definition LocationAggregationLast :: string where "LocationAggregationLast = ''LAST''"

lemmas agg_defs = FloatAggregationMax_def FloatAggregationFirst_def FloatAggregationLast_def
  LocationAggregationFirst_def LocationAggregationLast_def

definition sigSpeed :: "vssFields \<Rightarrow> segmentSignalRequest" where
  "sigSpeed vss = \<lparr>ReqName = FieldSpeed vss, ReqAgg = FloatAggregationMax\<rparr>"
definition sigFuelFirst :: "vssFields \<Rightarrow> segmentSignalRequest" where
  "sigFuelFirst vss = \<lparr>ReqName = FieldPowertrainFuelSystemRelativeLevel vss, ReqAgg = FloatAggregationFirst\<rparr>"
definition sigFuelLast :: "vssFields \<Rightarrow> segmentSignalRequest" where
  "sigFuelLast vss = \<lparr>ReqName = FieldPowertrainFuelSystemRelativeLevel vss, ReqAgg = FloatAggregationLast\<rparr>"
definition sigSoCFirst :: "vssFields \<Rightarrow> segmentSignalRequest" where
  "sigSoCFirst vss = \<lparr>ReqName = FieldPowertrainTractionBatteryStateOfChargeCurrent vss, ReqAgg = FloatAggregationFirst\<rparr>"
definition sigSoCLast :: "vssFields \<Rightarrow> segmentSignalRequest" where
  "sigSoCLast vss = \<lparr>ReqName = FieldPowertrainTractionBatteryStateOfChargeCurrent vss, ReqAgg = FloatAggregationLast\<rparr>"
definition sigOdoFirst :: "vssFields \<Rightarrow> segmentSignalRequest" where
  "sigOdoFirst vss = \<lparr>ReqName = FieldPowertrainTransmissionTravelledDistance vss, ReqAgg = FloatAggregationFirst\<rparr>"
definition sigOdoLast :: "vssFields \<Rightarrow> segmentSignalRequest" where
  "sigOdoLast vss = \<lparr>ReqName = FieldPowertrainTransmissionTravelledDistance vss, ReqAgg = FloatAggregationLast\<rparr>"

definition baseSignalSet :: "vssFields \<Rightarrow> segmentSignalRequest option list" where
  "baseSignalSet vss = map (\<lambda>f. Some (f vss))
     [sigSpeed, sigFuelFirst, sigFuelLast, sigSoCFirst, sigSoCLast, sigOdoFirst, sigOdoLast]"

definition mechanismSignalSets :: "vssFields \<Rightarrow> detectionMechanism \<Rightarrow> segmentSignalRequest option list option" where
  "mechanismSignalSets vss mechanism = (case mechanism of
      Idling \<Rightarrow> Some (map (\<lambda>f. Some (f vss)) [sigSpeed, sigFuelFirst, sigFuelLast, sigOdoFirst, sigOdoLast])
    | Refuel \<Rightarrow> Some (map (\<lambda>f. Some (f vss)) [sigSpeed, sigFuelFirst, sigFuelLast, sigOdoFirst, sigOdoLast])
    | Recharge \<Rightarrow> Some (map (\<lambda>f. Some (f vss)) [sigSpeed, sigSoCFirst, sigSoCLast, sigOdoFirst, sigOdoLast])
    | _ \<Rightarrow> None)"

definition defaultSegmentSignalSet :: "vssFields \<Rightarrow> detectionMechanism \<Rightarrow> segmentSignalRequest option list" where
  "defaultSegmentSignalSet vss mechanism =
     (case mechanismSignalSets vss mechanism of Some s \<Rightarrow> s | None \<Rightarrow> baseSignalSet vss)"

definition buildAggArgs ::
  "vssFields \<Rightarrow> segmentSignalRequest list \<Rightarrow> floatSignalArgs list \<times> locationSignalArgs list" where
  "buildAggArgs vss signalReqs =
     (map (\<lambda>req. \<lparr>FaName = ReqName req, FaAgg = ReqAgg req, FaAlias = ReqName req @ ''_'' @ ReqAgg req,
                  FaFilter = None\<rparr>) signalReqs,
      [\<lparr>LaName = FieldCurrentLocationCoordinates vss, LaAgg = LocationAggregationFirst,
        LaAlias = ''startLoc'', LaFilter = None\<rparr>,
       \<lparr>LaName = FieldCurrentLocationCoordinates vss, LaAgg = LocationAggregationLast,
        LaAlias = ''endLoc'', LaFilter = None\<rparr>])"

text \<open>The key of a request, and the loop that keeps the first request of each key.\<close>

definition reqKey :: "segmentSignalRequest \<Rightarrow> string" where
  "reqKey r = ReqName r @ '':'' @ ReqAgg r"

fun mergeRequestsLoop :: "string list \<Rightarrow> segmentSignalRequest option list \<Rightarrow> segmentSignalRequest list" where
  "mergeRequestsLoop seen [] = []"
| "mergeRequestsLoop seen (None # rs) = mergeRequestsLoop seen rs"
| "mergeRequestsLoop seen (Some r # rs) =
     (if reqKey r \<in> set seen then mergeRequestsLoop seen rs
      else r # mergeRequestsLoop (reqKey r # seen) rs)"

definition mergeSegmentSignalRequests ::
  "segmentSignalRequest option list \<Rightarrow> segmentSignalRequest option list \<Rightarrow> segmentSignalRequest list" where
  "mergeSegmentSignalRequests defaultSet clientRequests = mergeRequestsLoop [] (defaultSet @ clientRequests)"

definition eventNamesOf :: "segmentEventRequest list \<Rightarrow> string list" where
  "eventNamesOf eventRequests = map EventReqName eventRequests"

subsection \<open>Locations\<close>

definition noDataLocation :: location where
  "noDataLocation = \<lparr>Latitude = Fin 0, Longitude = Fin 0, Hdop = Fin 0\<rparr>"

text \<open>The batched lookup: no backend support and a failed query both give no fixes.\<close>

definition batchLocationsAt :: "queryService \<Rightarrow> string \<Rightarrow> time list \<Rightarrow> location option list" where
  "batchLocationsAt q subject tss =
     (if tss = [] then []
      else case LocationsAt q of None \<Rightarrow> []
        | Some las \<Rightarrow> (case las subject tss of Inl _ \<Rightarrow> [] | Inr locs \<Rightarrow> locs))"

text \<open>
  The function writes through the pointers it is given; here it returns the written
  boundaries in the same order, and \<open>putBoundaries\<close> below puts them back.
\<close>

definition fillAt :: "location option list \<Rightarrow> nat \<Rightarrow> location" where
  "fillAt locs i = (case (if i < length locs then locs ! i else None) of None \<Rightarrow> noDataLocation | Some l \<Rightarrow> l)"

definition fillBoundaryLocations :: "queryService \<Rightarrow> string \<Rightarrow> signalLocation list \<Rightarrow> signalLocation list" where
  "fillBoundaryLocations q subject boundaries =
     (if boundaries = [] then []
      else let tss = map Timestamp boundaries;
               locs = batchLocationsAt q subject tss
           in map (\<lambda>(i, b). b\<lparr>LocValue := Some (fillAt locs i)\<rparr>) (enumerate 0 boundaries))"

definition boundariesOf :: "segment \<Rightarrow> signalLocation list" where
  "boundariesOf seg =
     (if LocValue (Start seg) = None then [Start seg] else [])
     @ (case End seg of None \<Rightarrow> [] | Some e \<Rightarrow> if LocValue e = None then [e] else [])"

fun putBoundaries :: "segment list \<Rightarrow> signalLocation list \<Rightarrow> segment list" where
  "putBoundaries [] bs = []"
| "putBoundaries (seg # segs) bs =
     (let (seg, bs) = (if LocValue (Start seg) = None then (seg\<lparr>Start := hd bs\<rparr>, tl bs) else (seg, bs));
          (seg, bs) = (case End seg of None \<Rightarrow> (seg, bs)
                       | Some e \<Rightarrow> if LocValue e = None then (seg\<lparr>End := Some (hd bs)\<rparr>, tl bs) else (seg, bs))
      in seg # putBoundaries segs bs)"

definition gapFillSegmentLocations :: "queryService \<Rightarrow> string \<Rightarrow> segment list \<Rightarrow> segment list" where
  "gapFillSegmentLocations q subject segments =
     putBoundaries segments (fillBoundaryLocations q subject (concat (map boundariesOf segments)))"

subsection \<open>Cursor, limits and ranges\<close>

definition segStart :: "segment \<Rightarrow> time" where "segStart s = Timestamp (Start s)"

definition segmentsStartingAfter :: "segment list \<Rightarrow> time \<Rightarrow> segment list" where
  "segmentsStartingAfter segments after = filter (\<lambda>s. After (segStart s) after) segments"

definition truncateToLimit :: "segment list \<Rightarrow> int option \<Rightarrow> segment list" where
  "truncateToLimit segments limit = (case limit of None \<Rightarrow> segments
     | Some l \<Rightarrow> if l < int (length segments) then take (nat l) segments else segments)"

definition idlingEnrichCandidateCap :: nat where "idlingEnrichCandidateCap = nat (8 * maxSegmentLimit)"

definition capIdlingCandidates :: "segment list \<Rightarrow> segment list" where
  "capIdlingCandidates segments =
     (if idlingEnrichCandidateCap < length segments then take idlingEnrichCandidateCap segments else segments)"

definition summaryEndBuffer :: duration where "summaryEndBuffer = 2 * minute"

definition segEndOr :: "time \<Rightarrow> segment \<Rightarrow> time" where
  "segEndOr to seg = (case End seg of None \<Rightarrow> to | Some e \<Rightarrow> Timestamp e)"

definition summaryEnd :: "time \<Rightarrow> bool \<Rightarrow> segment \<Rightarrow> segment list \<Rightarrow> time" where
  "summaryEnd to extendSummaryEnd seg rest =
     (let segTo = segEndOr to seg in
      if extendSummaryEnd
      then let summaryTo = Add segTo summaryEndBuffer in
           (case rest of [] \<Rightarrow> summaryTo
            | nxt # _ \<Rightarrow> if After summaryTo (segStart nxt) then segStart nxt else summaryTo)
      else segTo)"

text \<open>The loop of \<open>buildSegmentRanges\<close>; \<open>genv\<close> is the envelope so far, \<open>None\<close> before the first segment.\<close>

fun segmentRangesLoop ::
  "time \<Rightarrow> bool \<Rightarrow> (time \<times> time) option \<Rightarrow> segment list \<Rightarrow>
   queryRange list \<times> queryRange list \<times> (time \<times> time) option" where
  "segmentRangesLoop to ext genv [] = ([], [], genv)"
| "segmentRangesLoop to ext genv (seg # rest) =
     (let summaryTo = summaryEnd to ext seg rest;
          genv = (case genv of None \<Rightarrow> (segStart seg, summaryTo)
                  | Some (gf, gt) \<Rightarrow> (if Before (segStart seg) gf then segStart seg else gf,
                                    if After summaryTo gt then summaryTo else gt));
          (rs, as, g) = segmentRangesLoop to ext (Some genv) rest
      in (\<lparr>RangeFrom = segStart seg, RangeTo = segEndOr to seg\<rparr> # rs,
          \<lparr>RangeFrom = segStart seg, RangeTo = summaryTo\<rparr> # as, g))"

definition buildSegmentRanges ::
  "segment list \<Rightarrow> time \<Rightarrow> bool \<Rightarrow> queryRange list \<times> queryRange list \<times> time \<times> time" where
  "buildSegmentRanges segments to extendSummaryEnd =
     (let (rs, as, g) = segmentRangesLoop to extendSummaryEnd None segments
      in (rs, as, case g of None \<Rightarrow> (zeroTime, zeroTime) | Some e \<Rightarrow> e))"

subsection \<open>Summaries\<close>

record segmentSummaryResult =
  SumSignals :: "signalAggregationValue list"
  StartLocation :: "location option"
  EndLocation :: "location option"
  SumEventCounts :: "eventCount list"

text \<open>\<open>sortSegmentSignals\<close>: \<open>srt\<close> sorts by name and aggregation.\<close>

definition signalKey :: "signalAggregationValue \<Rightarrow> string \<times> string" where
  "signalKey s = (AggName s, AggAgg s)"

definition aggValueOf :: "floatSignalArgs list \<Rightarrow> aggSignal \<Rightarrow> signalAggregationValue list" where
  "aggValueOf floatArgs a =
     (if SignalType a = FloatType \<and> SignalIndex a < length floatArgs
      then [\<lparr>AggName = FaName (floatArgs ! SignalIndex a), AggAgg = FaAgg (floatArgs ! SignalIndex a),
             AggValue = ValueNumber a\<rparr>]
      else [])"

definition locOf :: "vssLocation \<Rightarrow> location" where
  "locOf l = \<lparr>Latitude = VLatitude l, Longitude = VLongitude l, Hdop = VHDOP l\<rparr>"

definition isFix :: "aggSignal \<Rightarrow> bool" where
  "isFix a = (SignalType a = LocType
     \<and> (f64_ne (VLatitude (ValueLocation a)) (Fin 0) \<or> f64_ne (VLongitude (ValueLocation a)) (Fin 0)))"

fun summaryLocs :: "aggSignal list \<Rightarrow> location option \<times> location option \<Rightarrow> location option \<times> location option" where
  "summaryLocs [] (startLoc, endLoc) = (startLoc, endLoc)"
| "summaryLocs (a # as) (startLoc, endLoc) =
     (if isFix a
      then if SignalIndex a = 0 then summaryLocs as (Some (locOf (ValueLocation a)), endLoc)
           else summaryLocs as (startLoc, Some (locOf (ValueLocation a)))
      else summaryLocs as (startLoc, endLoc))"

definition buildSummaryFromAggs ::
  "(signalAggregationValue list \<Rightarrow> signalAggregationValue list) \<Rightarrow> aggSignal list \<Rightarrow> floatSignalArgs list \<Rightarrow>
   signalAggregationValue list \<times> location option \<times> location option" where
  "buildSummaryFromAggs srt aggs floatArgs =
     (srt (concat (map (aggValueOf floatArgs) aggs)), summaryLocs aggs (None, None))"

text \<open>A missing key reads as 0; without requested names the map is ranged over.\<close>

definition countOf :: "(string \<times> int) list \<Rightarrow> string \<Rightarrow> int" where
  "countOf m name = (case map_of m name of None \<Rightarrow> 0 | Some c \<Rightarrow> c)"

definition buildEventSummary ::
  "((string \<times> int) list \<Rightarrow> (string \<times> int) list) \<Rightarrow> (string \<times> int) list \<Rightarrow> string list \<Rightarrow> eventCount list" where
  "buildEventSummary rng eventCountMap eventNames =
     (if 0 < length eventNames
      then map (\<lambda>name. \<lparr>EcName = name, EcCount = countOf eventCountMap name\<rparr>) eventNames
      else map (\<lambda>(name, count). \<lparr>EcName = name, EcCount = count\<rparr>) (rng eventCountMap))"

definition eventCountsToMap :: "eventCount list \<Rightarrow> (string \<times> int) list" where
  "eventCountsToMap counts = fold (\<lambda>ec. AList.update (EcName ec) (EcCount ec)) counts []"

definition scatterAgg :: "aggSignalForRange \<Rightarrow> aggSignal" where
  "scatterAgg a = \<lparr>SignalType = ArSignalType a, SignalIndex = ArSignalIndex a, SigTimestamp = zeroTime,
     ValueNumber = ArValueNumber a, ValueString = ArValueString a, ValueLocation = ArValueLocation a\<rparr>"

definition at_key :: "('k \<times> 'v list) list \<Rightarrow> 'k \<Rightarrow> 'v list" where
  "at_key m k = (case map_of m k of None \<Rightarrow> [] | Some v \<Rightarrow> v)"

definition scatterAggsByIndex :: "aggSignalForRange list \<Rightarrow> (int \<times> aggSignal list) list" where
  "scatterAggsByIndex aggs =
     fold (\<lambda>a out. AList.update (ArSegIndex a) (at_key out (ArSegIndex a) @ [scatterAgg a]) out) aggs []"

definition scatterEventCountsByIndex :: "eventCountForRange list \<Rightarrow> (int \<times> (string \<times> int) list) list" where
  "scatterEventCountsByIndex counts =
     fold (\<lambda>ec out. AList.update (ErSegIndex ec)
             (AList.update (ErName ec) (ErCount ec) (at_key out (ErSegIndex ec))) out) counts []"

definition segmentSummary ::
  "repoEnv \<Rightarrow> string \<Rightarrow> segment \<Rightarrow> time \<Rightarrow> segmentSignalRequest list \<Rightarrow> string list \<Rightarrow>
   eventCount list option \<Rightarrow> aggSignal list option \<Rightarrow> segmentSummaryResult res" where
  "segmentSummary env did seg queryTo signalReqs eventNames preFetchedEventCounts preFetchedAggs =
     (let segFrom = segStart seg;
          segTo = segEndOr queryTo seg;
          intervalMicro = Microseconds (Sub segTo segFrom);
          intervalMicro = (if intervalMicro \<le> 0 then 1 else intervalMicro);
          (floatArgs, locationArgs) = buildAggArgs (Vss env) signalReqs
      in case (case preFetchedAggs of Some aggs \<Rightarrow> Inr aggs
               | None \<Rightarrow> GetAggregatedSignals (Query env) did
                   \<lparr>AggSignalArgs = \<lparr>Filter = None, Subject = did\<rparr>, FromTS = segFrom, ToTS = segTo,
                    Interval = intervalMicro, FloatArgs = floatArgs, StringArgs = [],
                    LocationArgs = locationArgs\<rparr>) of
           Inl err \<Rightarrow> Inl (handleDBError err)
         | Inr aggs \<Rightarrow>
             let (signalSummary, startLoc, endLoc) = buildSummaryFromAggs (SortSignals env) aggs floatArgs
             in case (case preFetchedEventCounts of Some ecs \<Rightarrow> Inr ecs
                      | None \<Rightarrow> GetEventCounts (Query env) did segFrom segTo eventNames) of
                  Inl err \<Rightarrow> Inl (handleDBError err)
                | Inr ecs \<Rightarrow> Inr \<lparr>SumSignals = signalSummary, StartLocation = startLoc, EndLocation = endLoc,
                    SumEventCounts = buildEventSummary (RangeCounts env) (eventCountsToMap ecs) eventNames\<rparr>)"

definition setLoc :: "signalLocation \<Rightarrow> location option \<Rightarrow> signalLocation" where
  "setLoc sl l = (case l of None \<Rightarrow> sl | Some x \<Rightarrow> sl\<lparr>LocValue := Some x\<rparr>)"

definition enrichSegment ::
  "repoEnv \<Rightarrow> string \<Rightarrow> segment \<Rightarrow> time \<Rightarrow> bool \<Rightarrow> segmentSignalRequest list \<Rightarrow> string list \<Rightarrow>
   eventCount list option \<Rightarrow> aggSignal list option \<Rightarrow> segment res" where
  "enrichSegment env did seg to wantSummary signalReqs eventNames eventCounts preFetchedAggs =
     (if \<not> wantSummary then Inr seg
      else case segmentSummary env did seg to signalReqs eventNames eventCounts preFetchedAggs of
        Inl err \<Rightarrow> Inl err
      | Inr summary \<Rightarrow> Inr (seg\<lparr>Signals := SumSignals summary, EventCounts := SumEventCounts summary,
          Start := setLoc (Start seg) (StartLocation summary),
          End := map_option (\<lambda>e. setLoc e (EndLocation summary)) (End seg)\<rparr>))"

fun segmentMaxSpeed :: "vssFields \<Rightarrow> signalAggregationValue list \<Rightarrow> f64" where
  "segmentMaxSpeed vss [] = Fin (- 1)"
| "segmentMaxSpeed vss (s # ss) =
     (if AggName s = FieldSpeed vss \<and> AggAgg s = FloatAggregationMax then AggValue s else segmentMaxSpeed vss ss)"

definition filterIdlingSegmentsBySpeed :: "vssFields \<Rightarrow> segment list \<Rightarrow> f64 \<Rightarrow> segment list" where
  "filterIdlingSegmentsBySpeed vss segments maxSpeedKph =
     filter (\<lambda>seg. let maxSpeed = segmentMaxSpeed vss (Signals seg) in
               f64_lt maxSpeed (Fin 0) \<or> f64_le maxSpeed maxSpeedKph) segments"

subsection \<open>GetSegments\<close>

text \<open>
  The body of the loop over the segments: the counts and aggregates of index \<open>i\<close>, absent
  when no batch was fetched; a fetched batch without rows for \<open>i\<close> gives empty slices.
\<close>

definition countsAt ::
  "repoEnv \<Rightarrow> (int \<times> (string \<times> int) list) list \<Rightarrow> nat \<Rightarrow> eventCount list" where
  "countsAt env m i = map (\<lambda>(name, count). \<lparr>EcName = name, EcCount = count\<rparr>) (RangeCounts env (at_key m (int i)))"

fun enrichLoop ::
  "repoEnv \<Rightarrow> string \<Rightarrow> time \<Rightarrow> bool \<Rightarrow> segmentSignalRequest list \<Rightarrow> string list \<Rightarrow>
   ((int \<times> (string \<times> int) list) list \<times> (int \<times> aggSignal list) list) option \<Rightarrow>
   nat \<Rightarrow> segment list \<Rightarrow> segment list res" where
  "enrichLoop env did to wantSummary signalReqs eventNames batch i [] = Inr []"
| "enrichLoop env did to wantSummary signalReqs eventNames batch i (seg # segs) =
     (case enrichSegment env did seg to wantSummary signalReqs eventNames
             (if wantSummary then map_option (\<lambda>(c, a). countsAt env c i) batch else None)
             (if wantSummary then map_option (\<lambda>(c, a). at_key a (int i)) batch else None) of
        Inl err \<Rightarrow> Inl err
      | Inr seg' \<Rightarrow>
          (case enrichLoop env did to wantSummary signalReqs eventNames batch (i + 1) segs of
             Inl err \<Rightarrow> Inl err | Inr segs' \<Rightarrow> Inr (seg' # segs')))"

definition fetchBatch ::
  "repoEnv \<Rightarrow> string \<Rightarrow> time \<Rightarrow> bool \<Rightarrow> segmentSignalRequest list \<Rightarrow> string list \<Rightarrow> segment list \<Rightarrow>
   ((int \<times> (string \<times> int) list) list \<times> (int \<times> aggSignal list) list) res" where
  "fetchBatch env did to extendSummaryEnd signalReqs eventNames segments =
     (let (ranges, aggRanges, globalFrom, globalTo) = buildSegmentRanges segments to extendSummaryEnd;
          (floatArgs, locationArgs) = buildAggArgs (Vss env) signalReqs
      in case waitBoth (CountsFirst env)
                (GetEventCountsForRanges (Query env) did ranges eventNames)
                (GetAggregatedSignalsForRanges (Query env) did aggRanges globalFrom globalTo floatArgs locationArgs) of
           Inl err \<Rightarrow> Inl (handleDBError err)
         | Inr (batchCounts, batchAggs) \<Rightarrow>
             Inr (scatterEventCountsByIndex batchCounts, scatterAggsByIndex batchAggs))"

text \<open>The candidates of a page, before they are enriched.\<close>

definition pageCandidates ::
  "detectionMechanism \<Rightarrow> int option \<Rightarrow> time option \<Rightarrow> segment list \<Rightarrow> segment list" where
  "pageCandidates mechanism limit after segments =
     (let segments = (case after of None \<Rightarrow> segments | Some a \<Rightarrow> segmentsStartingAfter segments a)
      in if mechanism \<noteq> Idling then truncateToLimit segments limit else capIdlingCandidates segments)"

definition dropMoving :: "vssFields \<Rightarrow> detectionMechanism \<Rightarrow> int option \<Rightarrow> segment list \<Rightarrow> segment list" where
  "dropMoving vss mechanism limit segments =
     (if mechanism = Idling then truncateToLimit (filterIdlingSegmentsBySpeed vss segments (Fin 0)) limit
      else segments)"

text \<open>What follows the detection: enrich, fill the gaps, and for idling filter and truncate.\<close>

definition finishPage ::
  "repoEnv \<Rightarrow> string \<Rightarrow> time \<Rightarrow> detectionMechanism \<Rightarrow> segmentSignalRequest option list \<Rightarrow>
   segmentEventRequest list \<Rightarrow> int option \<Rightarrow> segment list \<Rightarrow> segment list res" where
  "finishPage env did to mechanism signalRequests eventRequests limit segments =
     (let defaultReqs = defaultSegmentSignalSet (Vss env) mechanism;
          signalReqs = mergeSegmentSignalRequests defaultReqs signalRequests;
          wantSummary = (0 < length signalReqs \<or> 0 < length eventRequests);
          eventNames = eventNamesOf eventRequests;
          extendSummaryEnd = (mechanism = Refuel \<or> mechanism = Recharge)
      in case (if wantSummary \<and> 0 < length segments
               then (case fetchBatch env did to extendSummaryEnd signalReqs eventNames segments of
                       Inl err \<Rightarrow> Inl err | Inr b \<Rightarrow> Inr (Some b))
               else Inr None) of
           Inl err \<Rightarrow> Inl err
         | Inr batch \<Rightarrow>
             (case enrichLoop env did to wantSummary signalReqs eventNames batch 0 segments of
                Inl err \<Rightarrow> Inl err
              | Inr segments \<Rightarrow>
                  Inr (dropMoving (Vss env) mechanism limit (gapFillSegmentLocations (Query env) did segments))))"

definition GetSegments ::
  "repoEnv \<Rightarrow> string \<Rightarrow> time \<Rightarrow> time \<Rightarrow> detectionMechanism \<Rightarrow> segmentConfig option \<Rightarrow>
   segmentSignalRequest option list \<Rightarrow> segmentEventRequest list \<Rightarrow> int option \<Rightarrow> time option \<Rightarrow>
   segment list res" where
  "GetSegments env did from to mechanism config signalRequests eventRequests limit after =
     (let to = (if After to (Now env) then Now env else to)
      in case or_err (validateSegmentArgs did from to)
             (or_err (validateSegmentConfig config mechanism) (validateSegmentLimit limit)) of
           Some err \<Rightarrow> Inl (BadRequestError err)
         | None \<Rightarrow>
             (case QuerySegments (Query env) did from to mechanism config of
                Inl err \<Rightarrow> Inl (handleDBError err)
              | Inr segments \<Rightarrow>
                  finishPage env did to mechanism signalRequests eventRequests limit
                    (pageCandidates mechanism limit after segments)))"

end
