(* ===== verification/Repo_Paging.thy ===== *)
theory Repo_Paging
  imports Repo_Segments "HOL-Library.Sublist"
begin

section \<open>What a page of segments is\<close>

text \<open>
  Properties of \<open>GetSegments\<close>: enrichment and gap fill keep the boundaries of a segment,
  every returned boundary has a location, the summaries are attributed to the right
  segment, the ranges of the batched queries are disjoint, the page is fetched with the
  two batched queries only, and following the cursor reads every segment exactly once.
\<close>

subsection \<open>The shape of a segment\<close>

definition shape :: "segment \<Rightarrow> time \<times> time option" where
  "shape s = (segStart s, map_option Timestamp (End s))"

definition located :: "segment \<Rightarrow> bool" where
  "located s = (LocValue (Start s) \<noteq> None \<and> (\<forall>e. End s = Some e \<longrightarrow> LocValue e \<noteq> None))"

lemma shape_segStart: "map shape xs = map shape ys \<Longrightarrow> map segStart xs = map segStart ys"
  by (drule arg_cong [where f = "map fst"]) (simp add: shape_def comp_def)

lemma setLoc_Timestamp [simp]: "Timestamp (setLoc sl l) = Timestamp sl"
  by (simp add: setLoc_def split: option.splits)

lemma enrichSegment_shape:
  "enrichSegment env did seg to w reqs names ecs aggs = Inr seg' \<Longrightarrow> shape seg' = shape seg"
  by (auto simp: enrichSegment_def shape_def segStart_def option.map_comp comp_def split: if_splits sum.splits)

lemma enrichLoop_shape:
  "enrichLoop env did to w reqs names batch i segs = Inr segs' \<Longrightarrow> map shape segs' = map shape segs"
proof (induction segs arbitrary: i segs')
  case (Cons seg segs)
  then show ?case by (auto dest: enrichSegment_shape split: sum.splits)
qed simp

subsection \<open>Gap fill\<close>

lemma fillBoundaryLocations_length [simp]:
  "length (fillBoundaryLocations q subject bs) = length bs"
  by (simp add: fillBoundaryLocations_def Let_def)

lemma fillBoundaryLocations_Timestamp [simp]:
  "map Timestamp (fillBoundaryLocations q subject bs) = map Timestamp bs"
proof -
  have "map Timestamp (map snd (enumerate 0 bs)) = map Timestamp bs" by simp
  then have "map (\<lambda>x. Timestamp (snd x)) (enumerate 0 bs) = map Timestamp bs" unfolding map_map comp_def .
  then show ?thesis by (simp add: fillBoundaryLocations_def Let_def comp_def case_prod_beta)
qed

lemma fillBoundaryLocations_filled:
  "b \<in> set (fillBoundaryLocations q subject bs) \<Longrightarrow> LocValue b \<noteq> None"
  by (auto simp: fillBoundaryLocations_def Let_def split: if_splits)

lemma putBoundaries_filled:
  assumes "map Timestamp bs = map Timestamp (concat (map boundariesOf segs))"
    and "\<forall>b \<in> set bs. LocValue b \<noteq> None"
  shows "map shape (putBoundaries segs bs) = map shape segs \<and> (\<forall>s \<in> set (putBoundaries segs bs). located s)"
  using assms
proof (induction segs arbitrary: bs)
  case (Cons seg segs)
  define bs1 where "bs1 = (if LocValue (Start seg) = None then tl bs else bs)"
  define bs2 where "bs2 = (case End seg of None \<Rightarrow> bs1 | Some e \<Rightarrow> if LocValue e = None then tl bs1 else bs1)"
  have t1: "map Timestamp bs1 = map Timestamp ((case End seg of None \<Rightarrow> [] | Some e \<Rightarrow> if LocValue e = None then [e] else [])
      @ concat (map boundariesOf segs))"
    using Cons.prems(1) by (auto simp: bs1_def boundariesOf_def [of seg] map_tl)
  then have t2: "map Timestamp bs2 = map Timestamp (concat (map boundariesOf segs))"
    by (auto simp: bs2_def map_tl split: option.splits)
  have s1: "set bs1 \<subseteq> set bs" by (cases bs) (auto simp: bs1_def)
  moreover have "set bs2 \<subseteq> set bs1" by (cases bs1) (auto simp: bs2_def split: option.splits)
  ultimately have s2: "set bs2 \<subseteq> set bs" by simp
  have IH: "map shape (putBoundaries segs bs2) = map shape segs \<and> (\<forall>s \<in> set (putBoundaries segs bs2). located s)"
    using Cons.IH [OF t2] Cons.prems(2) s2 by blast
  have h1: "LocValue (Start seg) = None \<Longrightarrow> bs \<noteq> [] \<and> Timestamp (hd bs) = segStart seg \<and> LocValue (hd bs) \<noteq> None"
    using Cons.prems by (cases bs) (auto simp: boundariesOf_def [of seg] segStart_def)
  have h2: "bs1 \<noteq> [] \<and> Timestamp (hd bs1) = Timestamp e \<and> LocValue (hd bs1) \<noteq> None"
    if "End seg = Some e" "LocValue e = None" for e
    using t1 that s1 Cons.prems(2) by (cases bs1) auto
  define seg' where "seg' = (let s = (if LocValue (Start seg) = None then seg\<lparr>Start := hd bs\<rparr> else seg) in
     case End seg of None \<Rightarrow> s | Some e \<Rightarrow> if LocValue e = None then s\<lparr>End := Some (hd bs1)\<rparr> else s)"
  have put: "putBoundaries (seg # segs) bs = seg' # putBoundaries segs bs2"
    by (cases "LocValue (Start seg)"; cases "End seg") (auto simp: seg'_def bs1_def bs2_def Let_def)
  have "shape seg' = shape seg \<and> located seg'"
    using h1 h2 unfolding seg'_def
    by (auto simp: shape_def segStart_def located_def Let_def split: option.splits)
  then show ?case using IH put by simp
qed simp

lemma gapFill:
  "map shape (gapFillSegmentLocations q subject segs) = map shape segs"
  "s \<in> set (gapFillSegmentLocations q subject segs) \<Longrightarrow> located s"
  using putBoundaries_filled [of "fillBoundaryLocations q subject (concat (map boundariesOf segs))" segs]
    fillBoundaryLocations_filled
  by (auto simp: gapFillSegmentLocations_def)

subsection \<open>Pages\<close>

lemma truncateToLimit_take: "truncateToLimit xs limit = (case limit of None \<Rightarrow> xs | Some l \<Rightarrow> take (nat l) xs)"
  by (auto simp: truncateToLimit_def split: option.splits)

lemma capIdlingCandidates_take: "capIdlingCandidates xs = take idlingEnrichCandidateCap xs"
  by (simp add: capIdlingCandidates_def)

lemma subseq_take: "subseq (take n xs) xs"
  by (rule prefix_imp_subseq [OF take_is_prefix])

lemma pageCandidates_subseq: "subseq (pageCandidates mechanism limit after segs) segs"
proof -
  have "subseq (take n (segmentsStartingAfter segs a)) segs" for n a
    using subseq_take subseq_filter_left subseq_order.trans unfolding segmentsStartingAfter_def by metis
  then show ?thesis
    by (auto simp: pageCandidates_def truncateToLimit_take capIdlingCandidates_take Let_def subseq_take
        segmentsStartingAfter_def subseq_filter_left split: option.splits)
qed

lemma pageCandidates_after:
  "s \<in> set (pageCandidates mechanism limit (Some a) segs) \<Longrightarrow> a < segStart s"
  by (auto simp: pageCandidates_def truncateToLimit_take capIdlingCandidates_take segmentsStartingAfter_def
      Let_def go_defs split: option.splits if_splits dest: in_set_takeD)

lemma finishPageD:
  assumes "finishPage env did to mechanism sreqs ereqs limit segs = Inr ss"
  obtains mid where "map shape mid = map shape segs" "\<forall>s \<in> set mid. located s"
    "ss = dropMoving (Vss env) mechanism limit mid"
proof -
  have "\<exists>w reqs names batch e. enrichLoop env did to w reqs names batch 0 segs = Inr e
      \<and> ss = dropMoving (Vss env) mechanism limit (gapFillSegmentLocations (Query env) did e)"
    using assms unfolding finishPage_def Let_def by (simp split: sum.splits) blast+
  then obtain e where "map shape e = map shape segs"
    "ss = dropMoving (Vss env) mechanism limit (gapFillSegmentLocations (Query env) did e)"
    using enrichLoop_shape by blast
  then show thesis using that [of "gapFillSegmentLocations (Query env) did e"] gapFill by simp
qed

lemma dropMoving_subseq: "subseq (dropMoving vss mechanism limit mid) mid"
proof -
  have "subseq (take n (filter P mid)) mid" for n P
    by (rule subseq_order.trans [OF subseq_take subseq_filter_left])
  then show ?thesis
    by (simp add: dropMoving_def truncateToLimit_take filterIdlingSegmentsBySpeed_def subseq_filter_left
        split: option.splits)
qed

lemma finishPage_starts:
  assumes "finishPage env did to mechanism sreqs ereqs limit segs = Inr ss"
  shows "subseq (map segStart ss) (map segStart segs)" and "\<forall>s \<in> set ss. located s"
    and "mechanism \<noteq> Idling \<Longrightarrow> map segStart ss = map segStart segs"
proof -
  obtain mid where mid: "map shape mid = map shape segs" "\<forall>s \<in> set mid. located s"
    "ss = dropMoving (Vss env) mechanism limit mid"
    using finishPageD [OF assms] by blast
  have m: "map segStart mid = map segStart segs" using mid(1) by (rule shape_segStart)
  have sub: "subseq ss mid" by (simp add: mid(3) dropMoving_subseq)
  show "subseq (map segStart ss) (map segStart segs)" using subseq_map [OF sub, of segStart] m by simp
  show "\<forall>s \<in> set ss. located s" using sub mid(2) by (auto dest: list_emb_set)
  show "mechanism \<noteq> Idling \<Longrightarrow> map segStart ss = map segStart segs" using mid(3) m by (simp add: dropMoving_def)
qed

definition clampTo :: "repoEnv \<Rightarrow> time \<Rightarrow> time" where
  "clampTo env to = (if After to (Now env) then Now env else to)"

definition argsValid ::
  "string \<Rightarrow> time \<Rightarrow> time \<Rightarrow> detectionMechanism \<Rightarrow> segmentConfig option \<Rightarrow> int option \<Rightarrow> bool" where
  "argsValid did from to mechanism config limit =
     (validateSegmentArgs did from to = None \<and> validateSegmentConfig config mechanism = None
      \<and> validateSegmentLimit limit = None)"

lemma GetSegments_eq:
  "argsValid did from (clampTo env to) mechanism config limit \<Longrightarrow>
   GetSegments env did from to mechanism config sreqs ereqs limit after =
     (case QuerySegments (Query env) did from (clampTo env to) mechanism config of
        Inl err \<Rightarrow> Inl (handleDBError err)
      | Inr segs \<Rightarrow> finishPage env did (clampTo env to) mechanism sreqs ereqs limit
                    (pageCandidates mechanism limit after segs))"
  by (simp add: GetSegments_def argsValid_def clampTo_def Let_def split: sum.splits)

lemma GetSegments_invalid:
  assumes "\<not> argsValid did from (clampTo env to) mechanism config limit"
  shows "\<exists>v. GetSegments env did from to mechanism config sreqs ereqs limit after = Inl (BadRequestError v)"
proof -
  have "or_err (validateSegmentArgs did from (clampTo env to))
      (or_err (validateSegmentConfig config mechanism) (validateSegmentLimit limit)) \<noteq> None"
    using assms by (simp add: argsValid_def)
  then obtain e where "or_err (validateSegmentArgs did from (clampTo env to))
      (or_err (validateSegmentConfig config mechanism) (validateSegmentLimit limit)) = Some e" by blast
  then show ?thesis by (simp add: GetSegments_def clampTo_def Let_def)
qed

lemma GetSegments_OkD:
  assumes "GetSegments env did from to mechanism config sreqs ereqs limit after = Inr ss"
  obtains segs where "argsValid did from (clampTo env to) mechanism config limit"
    "QuerySegments (Query env) did from (clampTo env to) mechanism config = Inr segs"
    "finishPage env did (clampTo env to) mechanism sreqs ereqs limit (pageCandidates mechanism limit after segs) = Inr ss"
proof -
  have v: "argsValid did from (clampTo env to) mechanism config limit"
    using assms GetSegments_invalid [of did "from" env to mechanism config limit sreqs ereqs after] by force
  with assms show thesis using that by (auto simp: GetSegments_eq split: sum.splits)
qed

lemma page_length:
  assumes "finishPage env did to mechanism sreqs ereqs (Some l) (pageCandidates mechanism (Some l) after segs) = Inr ss"
  shows "length ss \<le> nat l"
proof -
  obtain mid where mid: "map shape mid = map shape (pageCandidates mechanism (Some l) after segs)"
    "ss = dropMoving (Vss env) mechanism (Some l) mid"
    using finishPageD [OF assms] by blast
  then have "length mid = length (pageCandidates mechanism (Some l) after segs)" by (metis length_map)
  then show ?thesis
    by (auto simp: mid(2) dropMoving_def truncateToLimit_take pageCandidates_def Let_def)
qed

text \<open>
  C32. Whatever the mechanism and whatever the backend answers, the segments a query returns
  are segments the detector found, in its order, each starting strictly after the cursor; there
  are at most \<open>limit\<close> of them, and every boundary has a location.
\<close>

theorem segments_page_sound:
  assumes "GetSegments env did from to mechanism config sreqs ereqs limit after = Inr ss"
  shows "\<exists>segs. QuerySegments (Query env) did from (clampTo env to) mechanism config = Inr segs
    \<and> subseq (map segStart ss) (map segStart segs)
    \<and> (\<forall>s \<in> set ss. (\<forall>a. after = Some a \<longrightarrow> a < segStart s) \<and> located s)
    \<and> (\<forall>l. limit = Some l \<longrightarrow> int (length ss) \<le> l)"
proof -
  obtain segs where v: "argsValid did from (clampTo env to) mechanism config limit"
    and q: "QuerySegments (Query env) did from (clampTo env to) mechanism config = Inr segs"
    and f: "finishPage env did (clampTo env to) mechanism sreqs ereqs limit (pageCandidates mechanism limit after segs) = Inr ss"
    using GetSegments_OkD [OF assms] by blast
  let ?c = "pageCandidates mechanism limit after segs"
  note st = finishPage_starts [OF f]
  have "subseq (map segStart ss) (map segStart segs)"
    using st(1) subseq_map [OF pageCandidates_subseq, of segStart] subseq_order.trans by blast
  moreover have "a < segStart s" if "s \<in> set ss" "after = Some a" for s a
  proof -
    have "segStart s \<in> set (map segStart ?c)" using that(1) list_emb_set [OF st(1), of "segStart s"] by auto
    then show ?thesis using pageCandidates_after that(2) by auto
  qed
  moreover have "int (length ss) \<le> l" if "limit = Some l" for l
  proof -
    have "1 \<le> l" using v that by (auto simp: argsValid_def validateSegmentLimit_def split: if_splits)
    then show ?thesis using page_length f that by fastforce
  qed
  ultimately show ?thesis using q st(2) by blast
qed

subsection \<open>Following the cursor\<close>

text \<open>
  A client that asks for a page, then for the page after the start of the last segment, until
  a page is empty. \<open>None\<close> is an error or too little fuel.
\<close>

fun readPages :: "(time option \<Rightarrow> segment list res) \<Rightarrow> nat \<Rightarrow> time option \<Rightarrow> segment list list option" where
  "readPages get 0 cursor = None"
| "readPages get (Suc n) cursor = (case get cursor of
      Inl _ \<Rightarrow> None
    | Inr [] \<Rightarrow> Some []
    | Inr (s # ss) \<Rightarrow> map_option (Cons (s # ss)) (readPages get n (Some (segStart (last (s # ss))))))"

definition beyond :: "time option \<Rightarrow> segment list \<Rightarrow> segment list" where
  "beyond cursor segs = (case cursor of None \<Rightarrow> segs | Some a \<Rightarrow> filter (\<lambda>s. a < segStart s) segs)"

lemma beyond_drop:
  assumes "sorted_wrt (<) (map segStart segs)" "0 < l" "beyond cursor segs \<noteq> []"
  shows "beyond (Some (segStart (last (take l (beyond cursor segs))))) segs = drop l (beyond cursor segs)"
proof -
  let ?b = "beyond cursor segs"
  have sb: "sorted_wrt (\<lambda>x y. segStart x < segStart y) ?b"
    using assms(1) by (auto simp: beyond_def sorted_wrt_map sorted_wrt_filter split: option.splits)
  let ?t = "take l ?b" and ?d = "drop l ?b"
  have "?t \<noteq> []" using assms(2,3) by simp
  then have lt: "last ?t \<in> set ?t" by simp
  have td: "sorted_wrt (\<lambda>x y. segStart x < segStart y) (?t @ ?d)" using sb by simp
  then have d: "\<forall>s \<in> set ?d. segStart (last ?t) < segStart s" using lt unfolding sorted_wrt_append by blast
  have t: "\<forall>s \<in> set ?t. \<not> segStart (last ?t) < segStart s"
  proof
    fix s assume "s \<in> set ?t"
    moreover have "sorted_wrt (\<lambda>x y. segStart x < segStart y) (butlast ?t @ [last ?t])"
      using td \<open>?t \<noteq> []\<close> by (simp add: sorted_wrt_append)
    moreover have "set ?t = set (butlast ?t) \<union> {last ?t}"
      using \<open>?t \<noteq> []\<close> by (metis append_butlast_last_id set_append list.set(1,2))
    ultimately show "\<not> segStart (last ?t) < segStart s" by (auto simp: sorted_wrt_append)
  qed
  have "\<forall>s \<in> set ?b. \<forall>a. cursor = Some a \<longrightarrow> a < segStart s" by (auto simp: beyond_def)
  then have c: "\<forall>a. cursor = Some a \<longrightarrow> a < segStart (last ?t)" using in_set_takeD [OF lt] by blast
  have "beyond (Some (segStart (last ?t))) segs = filter (\<lambda>s. segStart (last ?t) < segStart s) ?b"
  proof (cases cursor)
    case (Some a)
    then have "a < segStart (last ?t)" using c by blast
    then show ?thesis unfolding Some by (auto simp: beyond_def intro!: filter_cong)
  qed (simp add: beyond_def)
  also have "\<dots> = filter (\<lambda>s. segStart (last ?t) < segStart s) (?t @ ?d)" by simp
  also have "\<dots> = ?d" using t d by (simp only: filter_append) (simp add: filter_empty_conv filter_id_conv)
  finally show ?thesis .
qed

lemma readPages_complete:
  assumes page: "\<And>cursor. \<exists>ss. get cursor = Inr ss \<and> map segStart ss = map segStart (take l (beyond cursor segs))"
    and "sorted_wrt (<) (map segStart segs)" and "0 < l" and "length (beyond cursor segs) < n"
  shows "\<exists>pages. readPages get n cursor = Some pages
    \<and> concat (map (map segStart) pages) = map segStart (beyond cursor segs)
    \<and> (\<forall>p \<in> set pages. p \<noteq> [] \<and> length p \<le> l) \<and> length pages \<le> length (beyond cursor segs)"
  using assms(4)
proof (induction n arbitrary: cursor)
  case (Suc n)
  let ?b = "beyond cursor segs"
  obtain ss where ss: "get cursor = Inr ss" "map segStart ss = map segStart (take l ?b)" using page by blast
  show ?case
  proof (cases ss)
    case Nil
    then show ?thesis using ss assms(3) by (cases ?b) (auto simp: take_Cons')
  next
    case (Cons s rest)
    then have ne: "?b \<noteq> []" using ss(2) by auto
    have "segStart (last ss) = last (map segStart ss)" using Cons by (simp add: last_map)
    also have "\<dots> = segStart (last (take l ?b))" unfolding ss(2) using ne assms(3) by (intro last_map) simp
    finally have next_: "beyond (Some (segStart (last ss))) segs = drop l ?b"
      using beyond_drop [OF assms(2,3) ne] by simp
    have len: "length (drop l ?b) < n" using Suc.prems assms(3) ne by (cases ?b) auto
    obtain pages where p: "readPages get n (Some (segStart (last ss))) = Some pages"
      "concat (map (map segStart) pages) = map segStart (drop l ?b)"
      "\<forall>p \<in> set pages. p \<noteq> [] \<and> length p \<le> l" "length pages \<le> length (drop l ?b)"
      using Suc.IH [of "Some (segStart (last ss))"] next_ len by auto
    have "readPages get (Suc n) cursor = Some (ss # pages)" using ss(1) p(1) Cons by simp
    moreover have "concat (map (map segStart) (ss # pages)) = map segStart ?b"
      using ss(2) p(2) by simp (metis append_take_drop_id map_append)
    moreover have "length ss \<le> l" using ss(2) by (metis length_map length_take min.cobounded2)
    moreover have "length (ss # pages) \<le> length ?b" using p(4) ne assms(3) by (cases ?b) auto
    ultimately show ?thesis using p(3) Cons by (metis list.distinct(1) set_ConsD)
  qed
qed simp

subsection \<open>The summaries come from the batch\<close>

text \<open>What a segment becomes when its rows of the batch are \<open>ecs\<close> and \<open>aggs\<close>.\<close>

definition summarized ::
  "repoEnv \<Rightarrow> segmentSignalRequest list \<Rightarrow> string list \<Rightarrow> eventCount list \<Rightarrow> aggSignal list \<Rightarrow> segment \<Rightarrow> segment" where
  "summarized env reqs names ecs aggs seg =
     (let (sigs, startLoc, endLoc) = buildSummaryFromAggs (SortSignals env) aggs (fst (buildAggArgs (Vss env) reqs))
      in seg\<lparr>Signals := sigs,
             EventCounts := buildEventSummary (RangeCounts env) (eventCountsToMap ecs) names,
             Start := setLoc (Start seg) startLoc, End := map_option (\<lambda>e. setLoc e endLoc) (End seg)\<rparr>)"

lemma enrichSegment_prefetched:
  "enrichSegment env did seg to True reqs names (Some ecs) (Some aggs) = Inr (summarized env reqs names ecs aggs seg)"
  by (simp add: enrichSegment_def segmentSummary_def summarized_def buildAggArgs_def Let_def case_prod_beta)

lemma enrichLoop_batch:
  "enrichLoop env did to True reqs names (Some (c, a)) i segs =
     Inr (map (\<lambda>(k, seg). summarized env reqs names (countsAt env c k) (at_key a (int k)) seg) (enumerate i segs))"
  by (induction segs arbitrary: i) (simp_all add: enrichSegment_prefetched)

lemma mergeRequests_default: "mergeSegmentSignalRequests (defaultSegmentSignalSet vss mechanism) sreqs \<noteq> []"
  by (cases mechanism)
    (simp_all add: mergeSegmentSignalRequests_def defaultSegmentSignalSet_def mechanismSignalSets_def baseSignalSet_def)

definition pageReqs :: "repoEnv \<Rightarrow> detectionMechanism \<Rightarrow> segmentSignalRequest option list \<Rightarrow> segmentSignalRequest list" where
  "pageReqs env mechanism sreqs = mergeSegmentSignalRequests (defaultSegmentSignalSet (Vss env) mechanism) sreqs"

definition pageBatch where
  "pageBatch env did to mechanism sreqs ereqs segs =
     fetchBatch env did to (mechanism = Refuel \<or> mechanism = Recharge) (pageReqs env mechanism sreqs) (eventNamesOf ereqs) segs"

lemma finishPage_Nil: "finishPage env did to mechanism sreqs ereqs limit [] = Inr []"
  by (simp add: finishPage_def Let_def gapFillSegmentLocations_def dropMoving_def filterIdlingSegmentsBySpeed_def
      truncateToLimit_take split: option.splits)

lemma finishPage_batch:
  assumes "segs \<noteq> []"
  shows "finishPage env did to mechanism sreqs ereqs limit segs =
    (case pageBatch env did to mechanism sreqs ereqs segs of
       Inl err \<Rightarrow> Inl err
     | Inr (c, a) \<Rightarrow> Inr (dropMoving (Vss env) mechanism limit (gapFillSegmentLocations (Query env) did
         (map (\<lambda>(k, seg). summarized env (pageReqs env mechanism sreqs) (eventNamesOf ereqs)
                          (countsAt env c k) (at_key a (int k)) seg) (enumerate 0 segs)))))"
proof -
  have "(0 < length (mergeSegmentSignalRequests (defaultSegmentSignalSet (Vss env) mechanism) sreqs) \<or> 0 < length ereqs) = True"
    using mergeRequests_default by simp
  then show ?thesis using assms
    unfolding finishPage_def Let_def pageBatch_def pageReqs_def
    by (simp add: enrichLoop_batch split: sum.splits prod.splits)
qed

text \<open>
  A page is fetched with the two batched queries and one location lookup: the per-segment
  queries are never used, so that replacing them by any others gives the same answer.
\<close>

theorem segments_fetched_in_batch:
  "GetSegments (env\<lparr>Query := (Query env)\<lparr>GetAggregatedSignals := anyAggs, GetEventCounts := anyCounts\<rparr>\<rparr>)
     did from to mechanism config sreqs ereqs limit after
   = GetSegments env did from to mechanism config sreqs ereqs limit after"
proof -
  let ?env = "env\<lparr>Query := (Query env)\<lparr>GetAggregatedSignals := anyAggs, GetEventCounts := anyCounts\<rparr>\<rparr>"
  have "pageBatch ?env did t mechanism sreqs ereqs segs = pageBatch env did t mechanism sreqs ereqs segs" for t segs
    by (simp add: pageBatch_def pageReqs_def fetchBatch_def)
  moreover have "gapFillSegmentLocations (Query ?env) did segs = gapFillSegmentLocations (Query env) did segs" for segs
    by (simp add: gapFillSegmentLocations_def fillBoundaryLocations_def batchLocationsAt_def)
  moreover have "pageReqs ?env = pageReqs env" "summarized ?env = summarized env" "countsAt ?env = countsAt env"
    by (simp_all add: fun_eq_iff pageReqs_def summarized_def countsAt_def)
  ultimately have "finishPage ?env did t mechanism sreqs ereqs limit segs = finishPage env did t mechanism sreqs ereqs limit segs"
    for t segs
    by (cases "segs = []") (simp_all add: finishPage_Nil finishPage_batch split: sum.splits)
  then show ?thesis by (simp add: GetSegments_def Let_def split: option.splits sum.splits)
qed

text \<open>
  C10. Following the cursor terminates and loses nothing: when the detector returns segments with
  increasing starts (ongoing and clipped ones included) and the queries succeed, a client that
  reads pages of any valid limit until one is empty reads every segment exactly once, in order,
  in nonempty pages within the limit. (For idling the page is cut after the speed filter, so the
  statement is about the other mechanisms.)
\<close>

theorem cursor_reads_every_segment_once:
  assumes v: "argsValid did from (clampTo env to) mechanism config (Some l)" and "mechanism \<noteq> Idling"
    and q: "QuerySegments (Query env) did from (clampTo env to) mechanism config = Inr segs"
    and inc: "sorted_wrt (<) (map segStart segs)"
    and counts: "\<forall>rs ns. is_ok (GetEventCountsForRanges (Query env) did rs ns)"
    and aggs: "\<forall>rs a b fs ls. is_ok (GetAggregatedSignalsForRanges (Query env) did rs a b fs ls)"
    and fuel: "length segs < n"
  shows "\<exists>pages. readPages (GetSegments env did from to mechanism config sreqs ereqs (Some l)) n None = Some pages
    \<and> concat (map (map segStart) pages) = map segStart segs
    \<and> (\<forall>p \<in> set pages. p \<noteq> [] \<and> int (length p) \<le> l)"
proof -
  have l: "0 < l" using v by (auto simp: argsValid_def validateSegmentLimit_def split: if_splits)
  have ok: "\<exists>ss. finishPage env did (clampTo env to) mechanism sreqs ereqs (Some l) cs = Inr ss" for cs
  proof (cases "cs = []")
    case False
    have "is_ok (pageBatch env did (clampTo env to) mechanism sreqs ereqs cs)"
      using counts aggs
      by (auto simp: pageBatch_def fetchBatch_def buildAggArgs_def waitBoth_def is_ok_def Let_def
          split: sum.splits prod.splits)
    then show ?thesis using False by (auto simp: finishPage_batch is_ok_def split: sum.splits)
  qed (simp add: finishPage_Nil)
  have cand: "pageCandidates mechanism (Some l) cursor segs = take (nat l) (beyond cursor segs)" for cursor
    using assms(2) by (auto simp: pageCandidates_def beyond_def truncateToLimit_take segmentsStartingAfter_def
        go_defs split: option.splits)
  have "\<exists>ss. GetSegments env did from to mechanism config sreqs ereqs (Some l) cursor = Inr ss
      \<and> map segStart ss = map segStart (take (nat l) (beyond cursor segs))" for cursor
    using ok [of "pageCandidates mechanism (Some l) cursor segs"] finishPage_starts(3) assms(2) v q
    by (auto simp: GetSegments_eq cand)
  then have "\<exists>pages. readPages (GetSegments env did from to mechanism config sreqs ereqs (Some l)) n None = Some pages
      \<and> concat (map (map segStart) pages) = map segStart (beyond None segs)
      \<and> (\<forall>p \<in> set pages. p \<noteq> [] \<and> length p \<le> nat l) \<and> length pages \<le> length (beyond None segs)"
    using readPages_complete [of _ "nat l" segs None n] inc l fuel by (simp add: beyond_def)
  then show ?thesis using l by (auto simp: beyond_def le_nat_iff)
qed

definition demo_segment :: "time \<Rightarrow> time \<Rightarrow> segment" where
  "demo_segment a b = newSegment a (Some b) 0 False False"

definition demo_segments :: "segment list" where
  "demo_segments = [demo_segment 1000 2000, demo_segment 3000 4000, demo_segment 5000 6000]"

definition demo_query :: queryService where
  "demo_query = \<lparr>QuerySegments = \<lambda>did from to m c. Inr demo_segments,
     GetEventCounts = \<lambda>did from to ns. Inr [],
     GetEventCountsForRanges = \<lambda>did rs ns. Inr [\<lparr>ErSegIndex = 1, ErName = ''behavior.harsh'', ErCount = 4\<rparr>],
     GetAggregatedSignals = \<lambda>did a. Inr [],
     GetAggregatedSignalsForRanges = \<lambda>did rs a b fs ls. Inr [\<lparr>ArSegIndex = 1, ArSignalType = FloatType,
        ArSignalIndex = 0, ArValueNumber = Fin 90, ArValueString = [],
        ArValueLocation = \<lparr>VLatitude = Fin 0, VLongitude = Fin 0, VHDOP = Fin 0\<rparr>\<rparr>],
     LocationsAt = None\<rparr>"

definition demo_env :: repoEnv where
  "demo_env = \<lparr>Now = 10000, Vss = demo_vss, Query = demo_query, SortSignals = sort_key signalKey,
     RangeCounts = id, CountsFirst = True\<rparr>"

lemma demo_valid: "argsValid ''veh'' 500 (clampTo demo_env 9000) Refuel None (Some 2)"
  by (simp add: argsValid_def clampTo_def demo_env_def go_defs validateSegmentArgs_def validateSegmentDateRange_def
      validateSegmentConfig_def validateSegmentLimit_def maxSegmentLimit_def maxDateRangeDuration_def maxDateRangeDays_def
      unit_defs Sub_def sat64_def minInt64_def maxInt64_def)

lemma demo_QuerySegments: "QuerySegments (Query demo_env) did a b m c = Inr demo_segments"
  by (simp add: demo_env_def demo_query_def)

lemma demo_starts: "map segStart demo_segments = [1000, 3000, 5000]"
  by (simp add: demo_segments_def demo_segment_def newSegment_def segStart_def)

lemma demo_clamp: "clampTo demo_env 9000 = 9000"
  by (simp add: clampTo_def demo_env_def go_defs)

theorem cursor_reads_every_segment_once_witness:
  "\<exists>pages. readPages (GetSegments demo_env ''veh'' 500 9000 Refuel None [] [] (Some 2)) 4 None = Some pages
    \<and> concat (map (map segStart) pages) = [1000, 3000, 5000] \<and> (\<forall>p \<in> set pages. p \<noteq> [] \<and> int (length p) \<le> 2)"
proof -
  have "length demo_segments < 4" by (simp add: demo_segments_def)
  then show ?thesis
    using cursor_reads_every_segment_once [OF demo_valid _ demo_QuerySegments, where n = 4 and sreqs = "[]" and ereqs = "[]"] demo_starts
    by (simp add: demo_env_def demo_query_def)
qed

lemma demo_page:
  "\<exists>ss. GetSegments demo_env ''veh'' 500 9000 Refuel None [] ereqs (Some 2) cursor = Inr ss
     \<and> map segStart ss = map segStart (pageCandidates Refuel (Some 2) cursor demo_segments)"
proof -
  let ?c = "pageCandidates Refuel (Some 2) cursor demo_segments"
  have "\<exists>ss. finishPage demo_env ''veh'' 9000 Refuel [] ereqs (Some 2) ?c = Inr ss"
    by (cases "?c = []")
      (simp_all add: finishPage_Nil finishPage_batch pageBatch_def fetchBatch_def buildAggArgs_def waitBoth_def
        demo_env_def demo_query_def Let_def split: prod.splits)
  then show ?thesis
    using GetSegments_eq [OF demo_valid, of "[]" ereqs cursor] finishPage_starts(3) [of demo_env _ _ Refuel]
    by (auto simp: demo_clamp demo_QuerySegments)
qed

theorem segments_page_sound_witness:
  "\<exists>ss. GetSegments demo_env ''veh'' 500 9000 Refuel None [] [] (Some 2) (Some 1000) = Inr ss
     \<and> subseq (map segStart ss) [1000, 3000, 5000] \<and> length ss \<le> 2"
proof -
  obtain ss where ss: "GetSegments demo_env ''veh'' 500 9000 Refuel None [] [] (Some 2) (Some 1000) = Inr ss"
    using demo_page by blast
  then show ?thesis using segments_page_sound [OF ss] demo_starts by (auto simp: demo_clamp demo_QuerySegments)
qed

subsection \<open>The ranges of the batched queries\<close>

lemma segmentRangesLoop_lists:
  assumes "segmentRangesLoop to ext g segs = (rs, as, g')"
  shows "map RangeFrom rs = map segStart segs" "map RangeTo rs = map (segEndOr to) segs"
    "map RangeFrom as = map segStart segs"
  using assms
  by (induction segs arbitrary: g rs as g') (auto simp: Let_def split: prod.splits)

lemma segmentRangesLoop_envelope:
  assumes "segmentRangesLoop to ext g segs = (rs, as, g')"
  shows "(\<forall>a b. g = Some (a, b) \<longrightarrow> (\<exists>gf gt. g' = Some (gf, gt) \<and> gf \<le> a \<and> b \<le> gt))
    \<and> (\<forall>r \<in> set as. \<exists>gf gt. g' = Some (gf, gt) \<and> gf \<le> RangeFrom r \<and> RangeTo r \<le> gt)"
  using assms
proof (induction segs arbitrary: g rs as)
  case (Cons seg segs)
  let ?to = "summaryEnd to ext seg segs"
  let ?g = "case g of None \<Rightarrow> (segStart seg, ?to) | Some (gf, gt) \<Rightarrow>
      (if Before (segStart seg) gf then segStart seg else gf, if After ?to gt then ?to else gt)"
  obtain rs' as' where l: "segmentRangesLoop to ext (Some ?g) segs = (rs', as', g')"
    and as: "as = \<lparr>RangeFrom = segStart seg, RangeTo = ?to\<rparr> # as'"
    using Cons.prems by (auto simp: Let_def split: prod.splits)
  obtain a b where ab: "?g = (a, b)" by fastforce
  note IH = Cons.IH [OF l]
  obtain gf gt where g': "g' = Some (gf, gt)" "gf \<le> a" "b \<le> gt" using IH ab by auto
  have "a \<le> segStart seg" "?to \<le> b" and "\<forall>x y. g = Some (x, y) \<longrightarrow> a \<le> x \<and> y \<le> b"
    using ab by (auto simp: go_defs split: option.splits if_splits)
  then show ?case using g' IH by (fastforce simp: as)
qed auto

lemma summaryEnd_bounds:
  "segEndOr to seg \<le> segStart nxt \<Longrightarrow> summaryEnd to ext seg (nxt # rest) \<le> segStart nxt"
  "(\<forall>s \<in> set rest. segEndOr to seg \<le> segStart s) \<Longrightarrow>
     segEndOr to seg \<le> summaryEnd to ext seg rest \<and> summaryEnd to ext seg rest \<le> segEndOr to seg + summaryEndBuffer"
  by (auto simp: summaryEnd_def summaryEndBuffer_def minute_def Let_def go_defs split: list.splits)

lemma segmentRangesLoop_apart:
  assumes "segmentRangesLoop to ext g segs = (rs, as, g')"
    and "sorted_wrt (\<lambda>a b. segEndOr to a \<le> segStart b) segs"
    and "\<forall>s \<in> set segs. segStart s \<le> segEndOr to s"
  shows "sorted_wrt (\<lambda>r r'. RangeTo r \<le> RangeFrom r') as
    \<and> list_all2 (\<lambda>s r. segEndOr to s \<le> RangeTo r \<and> RangeTo r \<le> segEndOr to s + summaryEndBuffer) segs as"
  using assms
proof (induction segs arbitrary: g rs as)
  case (Cons seg segs)
  let ?to = "summaryEnd to ext seg segs"
  obtain g'' rs' as' where l: "segmentRangesLoop to ext g'' segs = (rs', as', g')"
    and as: "as = \<lparr>RangeFrom = segStart seg, RangeTo = ?to\<rparr> # as'"
    using Cons.prems(1) by (auto simp: Let_def split: prod.splits)
  have "\<forall>s \<in> set segs. ?to \<le> segStart s"
  proof (cases segs)
    case (Cons nxt rest)
    then have "?to \<le> segStart nxt" using summaryEnd_bounds(1) Cons.prems(2) by simp
    moreover have "segStart nxt \<le> segStart s" if "s \<in> set segs" for s
      using that Cons.prems(2,3) Cons by fastforce
    ultimately show ?thesis by fastforce
  qed simp
  then have "\<forall>r \<in> set as'. ?to \<le> RangeFrom r"
    using arg_cong [OF segmentRangesLoop_lists(3) [OF l], of set] by (auto simp: set_eq_iff image_iff) metis
  then show ?case using Cons.IH [OF l] Cons.prems(2,3) summaryEnd_bounds(2) [of segs to seg ext] by (simp add: as)
qed auto

text \<open>
  The ranges of the batched aggregation never overlap, also where refuel and recharge
  segments are extended by two minutes, so a row falls into at most one of them; each covers
  its segment, exceeds it by at most two minutes, and lies inside the global envelope.
\<close>

theorem batch_ranges_disjoint:
  assumes b: "buildSegmentRanges segs to ext = (rs, as, gf, gt)"
    and "sorted_wrt (\<lambda>a b. segEndOr to a \<le> segStart b) segs"
    and "\<forall>s \<in> set segs. segStart s \<le> segEndOr to s"
  shows "sorted_wrt (\<lambda>r r'. RangeTo r \<le> RangeFrom r') as
    \<and> map RangeFrom as = map segStart segs
    \<and> list_all2 (\<lambda>s r. segEndOr to s \<le> RangeTo r \<and> RangeTo r \<le> segEndOr to s + summaryEndBuffer) segs as
    \<and> (\<forall>r \<in> set as. gf \<le> RangeFrom r \<and> RangeTo r \<le> gt)"
proof -
  obtain g where g: "segmentRangesLoop to ext None segs = (rs, as, g)"
    "(gf, gt) = (case g of None \<Rightarrow> (zeroTime, zeroTime) | Some e \<Rightarrow> e)"
    using b by (auto simp: buildSegmentRanges_def split: prod.splits)
  have "\<forall>r \<in> set as. gf \<le> RangeFrom r \<and> RangeTo r \<le> gt"
    using segmentRangesLoop_envelope [OF g(1)] g(2) by (cases g) auto
  then show ?thesis using segmentRangesLoop_apart [OF g(1) assms(2,3)] segmentRangesLoop_lists(3) [OF g(1)] by simp
qed

theorem batch_ranges_disjoint_witness:
  "\<exists>rs as gf gt. buildSegmentRanges demo_segments 9000 True = (rs, as, gf, gt)
     \<and> sorted_wrt (\<lambda>r r'. RangeTo r \<le> RangeFrom r') as \<and> map RangeFrom as = [1000, 3000, 5000]"
proof -
  obtain rs as gf gt where b: "buildSegmentRanges demo_segments 9000 True = (rs, as, gf, gt)"
    by (metis prod_cases4)
  have "sorted_wrt (\<lambda>a b. segEndOr 9000 a \<le> segStart b) demo_segments"
    "\<forall>s \<in> set demo_segments. segStart s \<le> segEndOr 9000 s" "map segStart demo_segments = [1000, 3000, 5000]"
    by (simp_all add: demo_segments_def demo_segment_def newSegment_def segStart_def segEndOr_def)
  then show ?thesis using batch_ranges_disjoint [OF b] b by simp
qed

end
