(* ===== verification/Repo_Summary.thy ===== *)
theory Repo_Summary
  imports Repo_Paging
begin

section \<open>Attribution of summaries, merged requests and error classes\<close>

text \<open>
  The rows of the batched queries carry the index of their segment. Shown here: the ranges the queries
  are asked for are those of the segments, and every segment of a page carries exactly the aggregates
  and counts of the rows with its index, however Go orders a map;
  the merged signal requests; and which class of error a failing query returns.
\<close>

subsection \<open>Scattering by index\<close>

lemma scatterAggs_acc:
  "at_key (fold (\<lambda>a out. AList.update (ArSegIndex a) (at_key out (ArSegIndex a) @ [scatterAgg a]) out) aggs out) i
   = at_key out i @ map scatterAgg (filter (\<lambda>a. ArSegIndex a = i) aggs)"
  by (induction aggs arbitrary: out) (auto simp: at_key_def update_conv')

lemma scatterAggsByIndex_at:
  "at_key (scatterAggsByIndex aggs) i = map scatterAgg (filter (\<lambda>a. ArSegIndex a = i) aggs)"
  by (simp add: scatterAggsByIndex_def scatterAggs_acc) (simp add: at_key_def)

definition putCounts :: "eventCountForRange list \<Rightarrow> (string \<times> int) list \<Rightarrow> (string \<times> int) list" where
  "putCounts counts m = fold (\<lambda>ec. AList.update (ErName ec) (ErCount ec)) counts m"

lemma scatterCounts_acc:
  "at_key (fold (\<lambda>ec out. AList.update (ErSegIndex ec)
      (AList.update (ErName ec) (ErCount ec) (at_key out (ErSegIndex ec))) out) counts out) i
   = putCounts (filter (\<lambda>ec. ErSegIndex ec = i) counts) (at_key out i)"
  by (induction counts arbitrary: out) (auto simp: at_key_def update_conv' putCounts_def)

lemma scatterEventCountsByIndex_at:
  "at_key (scatterEventCountsByIndex counts) i = putCounts (filter (\<lambda>ec. ErSegIndex ec = i) counts) []"
  by (simp add: scatterEventCountsByIndex_def scatterCounts_acc) (simp add: at_key_def)

lemma distinct_putCounts: "distinct (map fst m) \<Longrightarrow> distinct (map fst (putCounts counts m))"
  by (induction counts arbitrary: m) (simp_all add: putCounts_def distinct_update)

text \<open>The reference: the count of the last row with this index and name, or 0.\<close>

definition lastCount :: "eventCountForRange list \<Rightarrow> int \<Rightarrow> string \<Rightarrow> int" where
  "lastCount counts i name =
     (case filter (\<lambda>ec. ErSegIndex ec = i \<and> ErName ec = name) (rev counts) of [] \<Rightarrow> 0 | ec # _ \<Rightarrow> ErCount ec)"

lemma putCounts_lookup:
  "map_of (putCounts counts []) name =
     (case filter (\<lambda>ec. ErName ec = name) (rev counts) of [] \<Rightarrow> None | ec # _ \<Rightarrow> Some (ErCount ec))"
proof (induction counts rule: rev_induct)
  case (snoc ec counts)
  then show ?case by (simp add: putCounts_def update_conv')
qed (simp add: putCounts_def)

lemma countOf_scattered: "countOf (at_key (scatterEventCountsByIndex counts) i) name = lastCount counts i name"
proof -
  have "filter (\<lambda>ec. ErName ec = name) (rev (filter (\<lambda>ec. ErSegIndex ec = i) counts))
      = filter (\<lambda>ec. ErSegIndex ec = i \<and> ErName ec = name) (rev counts)"
    by (simp add: rev_filter conj_commute)
  then show ?thesis
    by (auto simp: countOf_def lastCount_def scatterEventCountsByIndex_at putCounts_lookup split: list.splits)
qed

subsection \<open>The order of a map does not matter\<close>

text \<open>Ranging over a map gives each of its entries once, in some order.\<close>

definition ranges_map :: "((string \<times> int) list \<Rightarrow> (string \<times> int) list) \<Rightarrow> bool" where
  "ranges_map rng = (\<forall>m. mset (rng m) = mset m)"

lemma map_of_perm:
  assumes "mset xs = mset ys" "distinct (map fst ys)"
  shows "map_of xs = map_of ys"
proof -
  have "distinct (map fst xs)" using assms by (metis mset_eq_imp_distinct_iff mset_map)
  then show ?thesis using assms by (metis map_of_inject_set set_mset_mset)
qed

lemma eventCountsToMap_lookup:
  "distinct (map fst m) \<Longrightarrow>
   map_of (eventCountsToMap (map (\<lambda>(name, count). \<lparr>EcName = name, EcCount = count\<rparr>) m)) = map_of m"
proof -
  have "map_of (fold (\<lambda>ec. AList.update (EcName ec) (EcCount ec)) (map (\<lambda>(n, c). \<lparr>EcName = n, EcCount = c\<rparr>) m) acc)
      = map_of acc ++ map_of m" if "distinct (map fst m)" for acc
    using that
  proof (induction m arbitrary: acc)
    case (Cons p m)
    obtain n c where p: "p = (n, c)" by fastforce
    have "map_of m n = None" using Cons.prems p by (simp add: map_of_eq_None_iff)
    then show ?case using Cons p by (simp add: update_conv' fun_eq_iff map_add_def split: option.splits)
  qed simp
  then show "distinct (map fst m) \<Longrightarrow> ?thesis" by (simp add: eventCountsToMap_def)
qed

lemma countsAt_lookup:
  assumes "ranges_map (RangeCounts env)"
  shows "map_of (eventCountsToMap (countsAt env (scatterEventCountsByIndex counts) k)) = map_of (at_key (scatterEventCountsByIndex counts) (int k))"
proof -
  let ?m = "at_key (scatterEventCountsByIndex counts) (int k)"
  have d: "distinct (map fst ?m)" by (simp add: scatterEventCountsByIndex_at distinct_putCounts)
  have p: "mset (RangeCounts env ?m) = mset ?m" using assms by (simp add: ranges_map_def)
  then have "distinct (map fst (RangeCounts env ?m))" using d by (metis mset_eq_imp_distinct_iff mset_map)
  then show ?thesis
    unfolding countsAt_def using map_of_perm [OF p d] by (simp add: eventCountsToMap_lookup)
qed

lemma countOf_countsAt:
  assumes "ranges_map (RangeCounts env)"
  shows "countOf (eventCountsToMap (countsAt env (scatterEventCountsByIndex counts) k)) name = lastCount counts (int k) name"
  using countsAt_lookup [OF assms, of counts k] countOf_scattered [of counts "int k" name] by (simp add: countOf_def)

text \<open>
  The event counts of segment \<open>i\<close>: one for each requested name, in their order; when none is
  requested, one for each name that has a row with index \<open>i\<close>, in any order.
\<close>

definition countsOf :: "eventCountForRange list \<Rightarrow> int \<Rightarrow> string list \<Rightarrow> eventCount list \<Rightarrow> bool" where
  "countsOf counts i names ecs =
     (if names \<noteq> [] then ecs = map (\<lambda>n. \<lparr>EcName = n, EcCount = lastCount counts i n\<rparr>) names
      else distinct (map EcName ecs)
        \<and> set ecs = (\<lambda>n. \<lparr>EcName = n, EcCount = lastCount counts i n\<rparr>) ` ErName ` {c \<in> set counts. ErSegIndex c = i})"

lemma scattered_lookup:
  "map_of (at_key (scatterEventCountsByIndex counts) i) n = Some v
     \<longleftrightarrow> n \<in> ErName ` {c \<in> set counts. ErSegIndex c = i} \<and> v = lastCount counts i n"
proof -
  have f: "filter (\<lambda>ec. ErName ec = n) (rev (filter (\<lambda>ec. ErSegIndex ec = i) counts))
      = filter (\<lambda>ec. ErSegIndex ec = i \<and> ErName ec = n) (rev counts)"
    by (simp add: rev_filter conj_commute)
  have e: "filter (\<lambda>ec. ErSegIndex ec = i \<and> ErName ec = n) (rev counts) = [] \<longleftrightarrow> n \<notin> ErName ` {c \<in> set counts. ErSegIndex c = i}"
    by (auto simp: filter_empty_conv)
  show ?thesis
  proof (cases "filter (\<lambda>ec. ErSegIndex ec = i \<and> ErName ec = n) (rev counts)")
    case Nil
    then show ?thesis using e by (simp add: scatterEventCountsByIndex_at putCounts_lookup f)
  next
    case (Cons ec rest)
    then have "n \<in> ErName ` {c \<in> set counts. ErSegIndex c = i}" using e by (metis list.distinct(1))
    then show ?thesis using Cons by (auto simp: scatterEventCountsByIndex_at putCounts_lookup f lastCount_def)
  qed
qed

lemma distinct_eventCountsToMap: "distinct (map fst (eventCountsToMap ecs))"
proof -
  have "distinct (map fst acc) \<Longrightarrow> distinct (map fst (fold (\<lambda>ec. AList.update (EcName ec) (EcCount ec)) ecs acc))" for acc
    by (induction ecs arbitrary: acc) (simp_all add: distinct_update)
  then show ?thesis by (simp add: eventCountsToMap_def)
qed

lemma buildEventSummary_counts:
  assumes rng: "ranges_map (RangeCounts env)"
  shows "countsOf counts (int k) names
    (buildEventSummary (RangeCounts env) (eventCountsToMap (countsAt env (scatterEventCountsByIndex counts) k)) names)"
proof (cases "names = []")
  case False
  then show ?thesis using countOf_countsAt [OF rng] by (simp add: countsOf_def buildEventSummary_def)
next
  case True
  let ?x = "eventCountsToMap (countsAt env (scatterEventCountsByIndex counts) k)"
  have p: "mset (RangeCounts env ?x) = mset ?x" using rng by (simp add: ranges_map_def)
  have d: "distinct (map fst (RangeCounts env ?x))"
    using distinct_eventCountsToMap p by (metis mset_eq_imp_distinct_iff mset_map)
  have look: "(n, c) \<in> set (RangeCounts env ?x) \<longleftrightarrow> n \<in> ErName ` {c \<in> set counts. ErSegIndex c = int k} \<and> c = lastCount counts (int k) n" for n c
    using map_of_eq_Some_iff [OF distinct_eventCountsToMap] mset_eq_setD [OF p] countsAt_lookup [OF rng] scattered_lookup by metis
  have "set (map (\<lambda>(n, c). \<lparr>EcName = n, EcCount = c\<rparr>) (RangeCounts env ?x))
      = (\<lambda>n. \<lparr>EcName = n, EcCount = lastCount counts (int k) n\<rparr>) ` ErName ` {c \<in> set counts. ErSegIndex c = int k}"
    using look by force
  moreover have "map EcName (map (\<lambda>(n, c). \<lparr>EcName = n, EcCount = c\<rparr>) (RangeCounts env ?x)) = map fst (RangeCounts env ?x)" by auto
  ultimately show ?thesis using True d unfolding countsOf_def buildEventSummary_def by (simp only: list.size(3) less_irrefl if_False simp_thms)
qed

subsection \<open>Attribution\<close>

lemma putBoundaries_keeps:
  "map Signals (putBoundaries segs bs) = map Signals segs \<and> map EventCounts (putBoundaries segs bs) = map EventCounts segs"
  by (induction segs arbitrary: bs) (simp_all add: Let_def split: option.splits prod.splits)

lemma gapFill_keeps:
  "map Signals (gapFillSegmentLocations q did segs) = map Signals segs"
  "map EventCounts (gapFillSegmentLocations q did segs) = map EventCounts segs"
  by (simp_all add: gapFillSegmentLocations_def putBoundaries_keeps)

lemma Signals_summarized:
  "Signals (summarized env reqs names ecs aggs seg)
     = SortSignals env (concat (map (aggValueOf (fst (buildAggArgs (Vss env) reqs))) aggs))"
  "EventCounts (summarized env reqs names ecs aggs seg) = buildEventSummary (RangeCounts env) (eventCountsToMap ecs) names"
  by (simp_all add: summarized_def buildSummaryFromAggs_def Let_def case_prod_beta)

subsubsection \<open>The ranges\<close>

lemma segmentRangesLoop_ends:
  assumes "segmentRangesLoop to ext g segs = (rs, as, g')" and "i < length segs"
  shows "RangeTo (as ! i) = (if \<not> ext then segEndOr to (segs ! i)
     else if Suc i < length segs then min (segEndOr to (segs ! i) + summaryEndBuffer) (segStart (segs ! Suc i))
     else segEndOr to (segs ! i) + summaryEndBuffer)"
  using assms
proof (induction segs arbitrary: g rs as i)
  case (Cons seg segs)
  obtain g1 rs1 as1 where rest: "segmentRangesLoop to ext g1 segs = (rs1, as1, g')"
    and as: "as = \<lparr>RangeFrom = segStart seg, RangeTo = summaryEnd to ext seg segs\<rparr> # as1"
    using Cons.prems(1) by (auto simp: Let_def split: prod.splits)
  show ?case
  proof (cases i)
    case 0
    then show ?thesis by (cases segs) (auto simp: as summaryEnd_def Let_def After_def Add_def)
  next
    case (Suc j)
    then show ?thesis using Cons.IH [OF rest, of j] Cons.prems(2) by (simp add: as)
  qed
qed simp

lemma shape_ends: "map shape xs = map shape ys \<Longrightarrow> map (segEndOr to) xs = map (segEndOr to) ys"
proof -
  have e: "segEndOr to s = (case snd (shape s) of None \<Rightarrow> to | Some t \<Rightarrow> t)" for s
    by (simp add: segEndOr_def shape_def split: option.splits)
  assume "map shape xs = map shape ys"
  then have "map (\<lambda>p. case snd p of None \<Rightarrow> to | Some t \<Rightarrow> t) (map shape xs) = map (\<lambda>p. case snd p of None \<Rightarrow> to | Some t \<Rightarrow> t) (map shape ys)"
    by simp
  then show ?thesis unfolding map_map comp_def e [symmetric] .
qed

text \<open>What a page asks for: the range of every segment, and for the aggregates of refuels and recharges up to two minutes more,
  but never beyond the start of the next segment.\<close>

definition rangesOf :: "time \<Rightarrow> bool \<Rightarrow> segment list \<Rightarrow> queryRange list \<Rightarrow> queryRange list \<Rightarrow> bool" where
  "rangesOf to ext segs rs as =
     (map RangeFrom rs = map segStart segs \<and> map RangeTo rs = map (segEndOr to) segs
    \<and> map RangeFrom as = map segStart segs
    \<and> (\<forall>i < length segs. RangeTo (as ! i) = (if \<not> ext then segEndOr to (segs ! i)
         else if Suc i < length segs then min (segEndOr to (segs ! i) + summaryEndBuffer) (segStart (segs ! Suc i))
         else segEndOr to (segs ! i) + summaryEndBuffer)))"

lemma buildSegmentRanges_of:
  assumes "buildSegmentRanges cs to ext = (rs, as, gf, gt)" and "map shape segs = map shape cs"
  shows "rangesOf to ext segs rs as"
proof -
  obtain g where l: "segmentRangesLoop to ext None cs = (rs, as, g)"
    using assms(1) by (auto simp: buildSegmentRanges_def split: prod.splits)
  have len: "length segs = length cs" using assms(2) by (rule map_eq_imp_length_eq)
  have st: "map segStart segs = map segStart cs" by (rule shape_segStart [OF assms(2)])
  have en: "map (segEndOr to) segs = map (segEndOr to) cs" by (rule shape_ends [OF assms(2)])
  have "segStart (segs ! i) = segStart (cs ! i)" "segEndOr to (segs ! i) = segEndOr to (cs ! i)" if "i < length cs" for i
    using that arg_cong [OF st, of "\<lambda>xs. xs ! i"] arg_cong [OF en, of "\<lambda>xs. xs ! i"] len by simp_all
  then show ?thesis
    unfolding rangesOf_def using segmentRangesLoop_lists [OF l] segmentRangesLoop_ends [OF l] st en len by auto
qed

text \<open>
  C24. A page that holds a segment was made of candidates \<open>mid\<close>: all of them are on the page, in order,
  except that idling drops those that move and cuts to the limit. The event counts were asked for over
  the candidates' own ranges and the aggregates over the same ranges, which for refuels and recharges reach up
  to two minutes further but not beyond the start of the next candidate. The \<open>i\<close>-th candidate carries the
  sorted values of exactly the aggregation rows the query service returned with index \<open>i\<close>, and the count of the last
  row with index \<open>i\<close> and each name: of every requested event, 0 where there is no row, or of all
  names with a row when none was requested. This holds for every order in which Go ranges over its maps.
\<close>

theorem page_summaries_attributed:
  assumes "GetSegments env did from to mechanism config sreqs ereqs limit after = Inr ss"
    and "ss \<noteq> []" and "ranges_map (RangeCounts env)"
  shows "\<exists>mid rs as gf gt counts aggs.
      ss = dropMoving (Vss env) mechanism limit mid \<and> (mechanism \<noteq> Idling \<longrightarrow> mid = ss)
    \<and> GetEventCountsForRanges (Query env) did rs (eventNamesOf ereqs) = Inr counts
    \<and> GetAggregatedSignalsForRanges (Query env) did as gf gt
        (fst (buildAggArgs (Vss env) (pageReqs env mechanism sreqs))) (snd (buildAggArgs (Vss env) (pageReqs env mechanism sreqs))) = Inr aggs
    \<and> rangesOf (clampTo env to) (mechanism = Refuel \<or> mechanism = Recharge) mid rs as
    \<and> (\<forall>i < length mid.
        Signals (mid ! i) = SortSignals env (concat (map (aggValueOf (fst (buildAggArgs (Vss env) (pageReqs env mechanism sreqs))))
           (map scatterAgg (filter (\<lambda>a. ArSegIndex a = int i) aggs))))
      \<and> countsOf counts (int i) (eventNamesOf ereqs) (EventCounts (mid ! i)))"
proof -
  let ?to = "clampTo env to" and ?reqs = "pageReqs env mechanism sreqs" and ?names = "eventNamesOf ereqs"
  let ?ext = "mechanism = Refuel \<or> mechanism = Recharge"
  obtain cs where f: "finishPage env did ?to mechanism sreqs ereqs limit cs = Inr ss"
    using GetSegments_OkD [OF assms(1)] by blast
  then have ne: "cs \<noteq> []" using assms(2) by (auto simp: finishPage_Nil)
  obtain rs as gf gt where r: "buildSegmentRanges cs ?to ?ext = (rs, as, gf, gt)" by (metis prod_cases4)
  obtain c a where p: "pageBatch env did ?to mechanism sreqs ereqs cs = Inr (c, a)"
    and ss: "ss = dropMoving (Vss env) mechanism limit (gapFillSegmentLocations (Query env) did
      (map (\<lambda>(k, seg). summarized env ?reqs ?names (countsAt env c k) (at_key a (int k)) seg) (enumerate 0 cs)))"
    using f by (auto simp: finishPage_batch [OF ne] split: sum.splits)
  obtain counts aggs where q: "GetEventCountsForRanges (Query env) did rs ?names = Inr counts"
    "GetAggregatedSignalsForRanges (Query env) did as gf gt (fst (buildAggArgs (Vss env) ?reqs)) (snd (buildAggArgs (Vss env) ?reqs)) = Inr aggs"
    "c = scatterEventCountsByIndex counts" "a = scatterAggsByIndex aggs"
    using p r by (auto simp: pageBatch_def fetchBatch_def waitBoth_def case_prod_beta Let_def split: sum.splits if_splits)
  define mid where "mid = gapFillSegmentLocations (Query env) did
      (map (\<lambda>(k, seg). summarized env ?reqs ?names (countsAt env c k) (at_key a (int k)) seg) (enumerate 0 cs))"
  have shape: "map shape mid = map shape cs"
    unfolding mid_def gapFill(1) by (rule nth_equalityI) (simp_all add: nth_enumerate_eq shape_def summarized_def Let_def
      segStart_def option.map_comp comp_def split: prod.splits)
  have "Signals (mid ! i) = SortSignals env (concat (map (aggValueOf (fst (buildAggArgs (Vss env) ?reqs)))
           (map scatterAgg (filter (\<lambda>a. ArSegIndex a = int i) aggs))))
      \<and> countsOf counts (int i) ?names (EventCounts (mid ! i))" if i: "i < length mid" for i
  proof -
    let ?s = "summarized env ?reqs ?names (countsAt env c i) (at_key a (int i)) (cs ! i)"
    have ic: "i < length cs" using shape i by (metis length_map)
    then have "map Signals mid ! i = Signals ?s" "map EventCounts mid ! i = EventCounts ?s"
      unfolding mid_def gapFill_keeps by (simp_all add: nth_enumerate_eq)
    then show ?thesis using i buildEventSummary_counts [OF assms(3), of counts i ?names]
      by (simp add: Signals_summarized q(3,4) scatterAggsByIndex_at)
  qed
  moreover have "ss = dropMoving (Vss env) mechanism limit mid" using ss unfolding mid_def .
  moreover from this have "mechanism \<noteq> Idling \<longrightarrow> mid = ss" by (simp add: dropMoving_def)
  ultimately show ?thesis using q(1,2) buildSegmentRanges_of [OF r shape] by blast
qed

theorem page_summaries_attributed_witness:
  "\<exists>ss. GetSegments demo_env ''veh'' 500 9000 Refuel None [] [\<lparr>EventReqName = ''behavior.harsh''\<rparr>] (Some 2) None = Inr ss
    \<and> map EventCounts ss = [[\<lparr>EcName = ''behavior.harsh'', EcCount = 0\<rparr>], [\<lparr>EcName = ''behavior.harsh'', EcCount = 4\<rparr>]]"
proof -
  let ?e = "[\<lparr>EventReqName = ''behavior.harsh''\<rparr>]"
  obtain ss where ss: "GetSegments demo_env ''veh'' 500 9000 Refuel None [] ?e (Some 2) None = Inr ss"
    "map segStart ss = map segStart (pageCandidates Refuel (Some 2) None demo_segments)"
    using demo_page by blast
  have len: "length ss = 2"
    using arg_cong [OF ss(2), of length] by (simp add: pageCandidates_def truncateToLimit_take demo_segments_def)
  have rng: "ranges_map (RangeCounts demo_env)" by (simp add: ranges_map_def demo_env_def)
  have ne: "ss \<noteq> []" using len by auto
  obtain mid rs counts where c: "GetEventCountsForRanges (Query demo_env) ''veh'' rs (eventNamesOf ?e) = Inr counts"
    and "mid = ss" "\<forall>i < length mid. countsOf counts (int i) (eventNamesOf ?e) (EventCounts (mid ! i))"
    using page_summaries_attributed [OF ss(1) ne rng] by blast
  then have "\<forall>i < length ss. EventCounts (ss ! i) = map (\<lambda>n. \<lparr>EcName = n, EcCount = lastCount counts (int i) n\<rparr>) (eventNamesOf ?e)"
    by (simp add: countsOf_def eventNamesOf_def)
  moreover have "counts = [\<lparr>ErSegIndex = 1, ErName = ''behavior.harsh'', ErCount = 4\<rparr>]"
    using c by (simp add: demo_env_def demo_query_def)
  ultimately have "EventCounts (ss ! 0) = [\<lparr>EcName = ''behavior.harsh'', EcCount = 0\<rparr>]"
    "EventCounts (ss ! 1) = [\<lparr>EcName = ''behavior.harsh'', EcCount = 4\<rparr>]"
    using len by (simp_all add: lastCount_def eventNamesOf_def)
  moreover have "ss = [ss ! 0, ss ! 1]" using len by (intro nth_equalityI) (auto simp: less_2_cases_iff)
  ultimately show ?thesis using ss(1) by (metis list.simps(8) list.simps(9))
qed

subsection \<open>Merged requests\<close>

lemma mergeRequestsLoop_cong: "set seen = set seen' \<Longrightarrow> mergeRequestsLoop seen rs = mergeRequestsLoop seen' rs"
proof (induction rs arbitrary: seen seen')
  case (Cons r rs)
  have "mergeRequestsLoop (k # seen) rs = mergeRequestsLoop (k # seen') rs" for k
    using Cons.IH [of "k # seen" "k # seen'"] Cons.prems by simp
  then show ?case using Cons.prems Cons.IH [of seen seen'] by (cases r) auto
qed simp

lemma mergeRequestsLoop_append:
  "mergeRequestsLoop seen (xs @ ys) =
     mergeRequestsLoop seen xs @ mergeRequestsLoop (map reqKey (mergeRequestsLoop seen xs) @ seen) ys"
proof (induction xs arbitrary: seen)
  case (Cons x xs)
  then show ?case by (cases x) (auto intro: mergeRequestsLoop_cong)
qed simp

lemma mergeRequestsLoop_keys:
  "reqKey ` set (mergeRequestsLoop seen rs) = reqKey ` {r. Some r \<in> set rs} - set seen
   \<and> distinct (map reqKey (mergeRequestsLoop seen rs))"
proof (induction rs arbitrary: seen)
  case (Cons r rs)
  show ?case
  proof (cases r)
    case None
    then show ?thesis using Cons by simp
  next
    case (Some x)
    have "{q. Some q \<in> set (r # rs)} = insert x {q. Some q \<in> set rs}" by (auto simp: Some)
    then show ?thesis using Cons [of seen] Cons [of "reqKey x # seen"] by (auto simp: Some)
  qed
qed simp

lemma mergeRequestsLoop_all_seen:
  "reqKey ` set rs \<subseteq> set seen \<Longrightarrow> mergeRequestsLoop seen (map Some rs) = []"
  by (induction rs) auto

lemma mergeRequestsLoop_all_new:
  "reqKey ` set rs \<inter> set seen = {} \<Longrightarrow> distinct (map reqKey rs) \<Longrightarrow> mergeRequestsLoop seen (map Some rs) = rs"
proof (induction rs arbitrary: seen)
  case (Cons r rs)
  then show ?case by (subst list.map, subst mergeRequestsLoop.simps) auto
qed simp

text \<open>
  The merged signal requests keep one request per name and aggregation, start with the
  defaults, lose no requested key, and merging again changes nothing: the daily activity query
  passes merged requests to the segment query, which merges them with the same defaults.
\<close>

theorem merged_requests:
  "distinct (map reqKey (mergeSegmentSignalRequests defs reqs))
   \<and> reqKey ` set (mergeSegmentSignalRequests defs reqs) = reqKey ` {r. Some r \<in> set defs \<union> set reqs}
   \<and> (\<exists>more. mergeSegmentSignalRequests defs reqs = mergeSegmentSignalRequests defs [] @ more)
   \<and> mergeSegmentSignalRequests defs (map Some (mergeSegmentSignalRequests defs reqs)) = mergeSegmentSignalRequests defs reqs"
proof -
  define D where "D = mergeRequestsLoop [] defs"
  define C where "C = mergeRequestsLoop (map reqKey D) reqs"
  have m: "mergeSegmentSignalRequests defs reqs = D @ C"
    by (simp add: mergeSegmentSignalRequests_def mergeRequestsLoop_append D_def C_def)
  have d: "distinct (map reqKey D)" "distinct (map reqKey C)" "reqKey ` set C \<inter> set (map reqKey D) = {}"
    using mergeRequestsLoop_keys [of "[]" defs] mergeRequestsLoop_keys [of "map reqKey D" reqs] by (auto simp: D_def C_def)
  have "mergeSegmentSignalRequests defs (map Some (D @ C))
      = D @ mergeRequestsLoop (map reqKey D) (map Some D @ map Some C)"
    by (simp add: mergeSegmentSignalRequests_def mergeRequestsLoop_append [of "[]"] flip: D_def)
  also have "\<dots> = D @ C"
    using mergeRequestsLoop_all_seen [of D "map reqKey D"] mergeRequestsLoop_all_new [OF d(3,2)]
    by (simp add: mergeRequestsLoop_append [of "map reqKey D"])
  finally have "mergeSegmentSignalRequests defs (map Some (D @ C)) = D @ C" .
  then show ?thesis
    using mergeRequestsLoop_keys [of "[]" "defs @ reqs"] m
    by (auto simp: mergeSegmentSignalRequests_def D_def)
qed

subsection \<open>Error classes\<close>

lemma finishPage_ErrD:
  assumes "finishPage env did to mechanism sreqs ereqs limit cs = Inl e"
  shows "\<exists>b. e = handleDBError b \<and> ((\<exists>rs ns. GetEventCountsForRanges (Query env) did rs ns = Inl b)
    \<or> (\<exists>rs x y fs ls. GetAggregatedSignalsForRanges (Query env) did rs x y fs ls = Inl b))"
proof -
  have ne: "cs \<noteq> []" using assms by (auto simp: finishPage_Nil)
  then have "pageBatch env did to mechanism sreqs ereqs cs = Inl e"
    using assms by (auto simp: finishPage_batch split: sum.splits)
  then show ?thesis
    by (fastforce simp: pageBatch_def fetchBatch_def waitBoth_def case_prod_beta Let_def split: sum.splits if_splits)
qed

text \<open>
  A segment query fails with a bad request exactly when its arguments are invalid; otherwise
  the error wraps one a backend query returned, as service unavailable when that is a cancelled
  or expired context anywhere in its chain and as internal when it is not, never as the
  client's fault.
\<close>

theorem segment_query_errors:
  assumes "GetSegments env did from to mechanism config sreqs ereqs limit after = Inl e"
  shows "(if argsValid did from (clampTo env to) mechanism config limit
     then \<exists>b. (QuerySegments (Query env) did from (clampTo env to) mechanism config = Inl b
          \<or> (\<exists>rs ns. GetEventCountsForRanges (Query env) did rs ns = Inl b)
          \<or> (\<exists>rs x y fs ls. GetAggregatedSignalsForRanges (Query env) did rs x y fs ls = Inl b))
        \<and> (if errors_Is b ErrDeadlineExceeded \<or> errors_Is b ErrCanceled then \<exists>m. e = ServiceUnavailableError b m
           else \<exists>m. e = InternalError b m)
     else \<exists>v. e = BadRequestError v)"
proof (cases "argsValid did from (clampTo env to) mechanism config limit")
  case True
  have h: "if errors_Is b ErrDeadlineExceeded \<or> errors_Is b ErrCanceled then \<exists>m. handleDBError b = ServiceUnavailableError b m
      else \<exists>m. handleDBError b = InternalError b m" for b
    by (simp add: handleDBError_def newServiceUnavailableError_def)
  have "\<exists>b. e = handleDBError b \<and> (QuerySegments (Query env) did from (clampTo env to) mechanism config = Inl b
      \<or> (\<exists>rs ns. GetEventCountsForRanges (Query env) did rs ns = Inl b)
      \<or> (\<exists>rs x y fs ls. GetAggregatedSignalsForRanges (Query env) did rs x y fs ls = Inl b))"
    using assms True by (auto simp: GetSegments_eq dest!: finishPage_ErrD split: sum.splits)
  then show ?thesis using True h by (smt (verit))
next
  case False
  then show ?thesis using assms GetSegments_invalid [OF False, of sreqs ereqs after] by auto
qed

theorem segment_query_errors_witness:
  "\<exists>v. GetSegments demo_env ''veh'' 500 9000 Refuel None [] [] (Some 201) None = Inl (BadRequestError v)"
proof -
  have n: "\<not> argsValid ''veh'' 500 (clampTo demo_env 9000) Refuel None (Some 201)"
    by (simp add: argsValid_def validateSegmentLimit_def maxSegmentLimit_def)
  show ?thesis
  proof (cases "GetSegments demo_env ''veh'' 500 9000 Refuel None [] [] (Some 201) None")
    case (Inl e)
    then show ?thesis using segment_query_errors [OF Inl] n by simp
  next
    case (Inr ss)
    then show ?thesis using GetSegments_OkD [OF Inr] n by blast
  qed
qed

end
