(* ===== verification/Repo_Daily.thy ===== *)
theory Repo_Daily
  imports Repo_Summary
begin

section \<open>Daily activity (internal/repositories/segments.go)\<close>

text \<open>
  \<open>GetDailyActivity\<close> and its helpers. A \<open>time.Location\<close> is its table of transitions: the offset
  before the first one and the list of instants (unix seconds) with the offset from then on.
  \<open>goDate\<close> is \<open>time.Date\<close> of the standard library, which looks an offset up twice near a
  transition; a calendar day is its number since 1970-01-01, so that the day after day \<open>k\<close> is
  \<open>k + 1\<close>. The loop over the days need not end for an arbitrary table: its result is an option.

  Shown here: in a zone whose midnights exist, daylight saving time included, the windows tile
  the range, one per calendar day; in a zone that skips a midnight the last day is lost; the
  active seconds of a day are those of the positive overlaps, while the count also includes
  segments that end at midnight.
\<close>

subsection \<open>Calendar days\<close>

record zone =
  FirstOffset :: int
  Transitions :: "(int \<times> int) list"

definition UTC :: zone where "UTC = \<lparr>FirstOffset = 0, Transitions = []\<rparr>"

text \<open>\<open>lookup\<close>: the offset in use at an instant and the interval it is valid in.\<close>

fun lookupFrom :: "int \<Rightarrow> int \<Rightarrow> (int \<times> int) list \<Rightarrow> int \<Rightarrow> int \<times> int \<times> int" where
  "lookupFrom offset start [] sec = (offset, start, maxInt64)"
| "lookupFrom offset start ((t, o') # tx) sec =
     (if sec < t then (offset, start, t) else lookupFrom o' t tx sec)"

definition lookup :: "zone \<Rightarrow> int \<Rightarrow> int \<times> int \<times> int" where
  "lookup z sec = lookupFrom (FirstOffset z) minInt64 (Transitions z) sec"

definition daySeconds :: int where "daySeconds = 86400"

definition unixSeconds :: "time \<Rightarrow> int" where "unixSeconds t = (t - unixEpoch) div second"

definition ofUnix :: "int \<Rightarrow> int \<Rightarrow> time" where "ofUnix s ns = unixEpoch + s * second + ns"

text \<open>\<open>time.Date\<close> of day \<open>k\<close>, second \<open>s\<close> of the day and nanosecond \<open>ns\<close>.\<close>

definition goDate :: "zone \<Rightarrow> int \<Rightarrow> int \<Rightarrow> int \<Rightarrow> time" where
  "goDate z k s ns =
     (let unix = k * daySeconds + s;
          (offset, start, stop) = lookup z unix
      in if offset = 0 then ofUnix unix ns
         else let utc = unix - offset;
                  offset = (if utc < start \<or> stop \<le> utc then fst (lookup z utc) else offset)
              in ofUnix (unix - offset) ns)"

text \<open>The wall clock of an instant in a location: day, second of the day, nanosecond.\<close>

definition wall :: "zone \<Rightarrow> time \<Rightarrow> int \<times> int \<times> int" where
  "wall z t = (let s = unixSeconds t; w = s + fst (lookup z s)
               in (w div daySeconds, w mod daySeconds, (t - unixEpoch) mod second))"

definition dateOf :: "zone \<Rightarrow> time \<Rightarrow> time" where
  "dateOf z t = goDate z (fst (wall z t)) 0 0"

text \<open>\<open>t.AddDate(0, 0, 1)\<close>.\<close>

definition addDay :: "zone \<Rightarrow> time \<Rightarrow> time" where
  "addDay z t = (let (k, s, ns) = wall z t in goDate z (k + 1) s ns)"

record dayWindow =
  DayStart :: time
  DayEnd :: time

partial_function (option) dayLoop :: "zone \<Rightarrow> time \<Rightarrow> time \<Rightarrow> dayWindow list option" where
  "dayLoop z d toDate =
     (if After d toDate then Some []
      else Option.bind (dayLoop z (addDay z d) toDate)
             (\<lambda>days. Some (\<lparr>DayStart = d, DayEnd = addDay z d\<rparr> # days)))"

subsection \<open>One day\<close>

record dayStats =
  StCount :: int
  StSeconds :: int
  StFirst :: "segment option"
  StLast :: "segment option"

definition daySegEnd :: "time \<Rightarrow> segment \<Rightarrow> time" where
  "daySegEnd dayEnd seg = (case End seg of None \<Rightarrow> dayEnd
     | Some e \<Rightarrow> if Before (Timestamp e) dayEnd then Timestamp e else dayEnd)"

definition addSegment :: "time \<Rightarrow> time \<Rightarrow> segment \<Rightarrow> dayStats \<Rightarrow> dayStats" where
  "addSegment dayStart dayEnd seg st =
     (let segEnd = daySegEnd dayEnd seg in
      if After (segStart seg) dayEnd \<or> Before segEnd dayStart \<or> \<not> After segEnd (segStart seg) then st
      else let overlapStart = (if Before (segStart seg) dayStart then dayStart else segStart seg);
               overlapEnd = (if After segEnd dayEnd then dayEnd else segEnd)
           in \<lparr>StCount = StCount st + 1,
               StSeconds = StSeconds st + int_seconds (Sub overlapEnd overlapStart),
               StFirst = (case StFirst st of None \<Rightarrow> Some seg | f \<Rightarrow> f),
               StLast = Some seg\<rparr>)"

definition daySegmentStats :: "segment list \<Rightarrow> time \<Rightarrow> time \<Rightarrow> dayStats" where
  "daySegmentStats segments dayStart dayEnd =
     fold (addSegment dayStart dayEnd) segments \<lparr>StCount = 0, StSeconds = 0, StFirst = None, StLast = None\<rparr>"

record dailyActivity =
  DaSegmentCount :: int
  DaDuration :: int
  DaStart :: signalLocation
  DaEnd :: signalLocation
  DaSignals :: "signalAggregationValue list"
  DaEventCounts :: "eventCount list"

definition dayBoundariesOf :: "dailyActivity \<Rightarrow> signalLocation list" where
  "dayBoundariesOf d = (if LocValue (DaStart d) = None then [DaStart d] else [])
     @ (if LocValue (DaEnd d) = None then [DaEnd d] else [])"

fun putDayBoundaries :: "dailyActivity list \<Rightarrow> signalLocation list \<Rightarrow> dailyActivity list" where
  "putDayBoundaries [] bs = []"
| "putDayBoundaries (d # ds) bs =
     (let (d, bs) = (if LocValue (DaStart d) = None then (d\<lparr>DaStart := hd bs\<rparr>, tl bs) else (d, bs));
          (d, bs) = (if LocValue (DaEnd d) = None then (d\<lparr>DaEnd := hd bs\<rparr>, tl bs) else (d, bs))
      in d # putDayBoundaries ds bs)"

definition gapFillDailyLocations :: "queryService \<Rightarrow> string \<Rightarrow> dailyActivity list \<Rightarrow> dailyActivity list" where
  "gapFillDailyLocations q subject days =
     putDayBoundaries days (fillBoundaryLocations q subject (concat (map dayBoundariesOf days)))"

definition batchDaySummaries ::
  "repoEnv \<Rightarrow> string \<Rightarrow> dayWindow list \<Rightarrow> floatSignalArgs list \<Rightarrow> locationSignalArgs list \<Rightarrow> string list \<Rightarrow>
   ((int \<times> aggSignal list) list \<times> (int \<times> (string \<times> int) list) list) res" where
  "batchDaySummaries env did days floatArgs locationArgs eventNames =
     (if length days = 0 then Inr ([], [])
      else let ranges = map (\<lambda>w. \<lparr>RangeFrom = DayStart w, RangeTo = DayEnd w\<rparr>) days;
               globalFrom = DayStart (days ! 0);
               globalTo = DayEnd (days ! (length days - 1))
           in case waitBoth (CountsFirst env)
                     (GetEventCountsForRanges (Query env) did ranges eventNames)
                     (GetAggregatedSignalsForRanges (Query env) did ranges globalFrom globalTo floatArgs locationArgs) of
                Inl err \<Rightarrow> Inl (handleDBError err)
              | Inr (batchCounts, batchAggs) \<Rightarrow>
                  Inr (scatterAggsByIndex batchAggs, scatterEventCountsByIndex batchCounts))"

definition dayActivity ::
  "repoEnv \<Rightarrow> segment list \<Rightarrow> floatSignalArgs list \<Rightarrow> string list \<Rightarrow> (int \<times> aggSignal list) list \<Rightarrow>
   (int \<times> (string \<times> int) list) list \<Rightarrow> nat \<Rightarrow> dayWindow \<Rightarrow> dailyActivity" where
  "dayActivity env segments floatArgs eventNames aggsByDay countsByDay i w =
     (let st = daySegmentStats segments (DayStart w) (DayEnd w);
          (signalSummary, startLoc, endLoc) = buildSummaryFromAggs (SortSignals env) (at_key aggsByDay (int i)) floatArgs;
          eventSummary = buildEventSummary (RangeCounts env) (at_key countsByDay (int i)) eventNames;
          startLoc = (case StFirst st of None \<Rightarrow> startLoc
                      | Some s \<Rightarrow> (case LocValue (Start s) of None \<Rightarrow> startLoc | Some l \<Rightarrow> Some l));
          endLoc = (case StLast st of None \<Rightarrow> endLoc
                    | Some s \<Rightarrow> (case End s of None \<Rightarrow> endLoc
                        | Some e \<Rightarrow> (case LocValue e of None \<Rightarrow> endLoc | Some l \<Rightarrow> Some l)))
      in \<lparr>DaSegmentCount = StCount st, DaDuration = StSeconds st,
          DaStart = \<lparr>Timestamp = DayStart w, LocValue = startLoc\<rparr>,
          DaEnd = \<lparr>Timestamp = DayEnd w, LocValue = endLoc\<rparr>,
          DaSignals = signalSummary, DaEventCounts = eventSummary\<rparr>)"

definition mechanismName :: "detectionMechanism \<Rightarrow> string" where
  "mechanismName m = (case m of IgnitionDetection \<Rightarrow> ''IGNITION_DETECTION'' | FrequencyAnalysis \<Rightarrow> ''FREQUENCY_ANALYSIS''
     | ChangePointDetection \<Rightarrow> ''CHANGE_POINT_DETECTION'' | Idling \<Rightarrow> ''IDLING'' | Refuel \<Rightarrow> ''REFUEL''
     | Recharge \<Rightarrow> ''RECHARGE'' | UnknownMechanism s \<Rightarrow> s)"

text \<open>\<open>%q\<close> of a string without characters to escape.\<close>

definition quoted :: "string \<Rightarrow> string" where "quoted s = [CHR 0x22] @ s @ [CHR 0x22]"

text \<open>
  \<open>LoadLocation\<close> is the lookup in the time zone database; no name is UTC. \<open>dailyRecords\<close> is what
  follows the loop over the days, \<open>dailyInZone\<close> what follows the lookup of the zone. \<open>None\<close> as
  a result means that the loop over the days does not end.
\<close>

definition zoneOf :: "(string \<Rightarrow> zone res) \<Rightarrow> string option \<Rightarrow> zone res" where
  "zoneOf LoadLocation timezone = (case timezone of None \<Rightarrow> Inr UTC
     | Some tz \<Rightarrow> if tz = [] then Inr UTC else LoadLocation tz)"

definition dailyRecords ::
  "repoEnv \<Rightarrow> string \<Rightarrow> segment list \<Rightarrow> segmentSignalRequest list \<Rightarrow> string list \<Rightarrow> dayWindow list \<Rightarrow> dailyActivity list res" where
  "dailyRecords env did segments signalReqs eventNames days =
     (let (floatArgs, locationArgs) = buildAggArgs (Vss env) signalReqs
      in case batchDaySummaries env did days floatArgs locationArgs eventNames of
           Inl err \<Rightarrow> Inl err
         | Inr (aggsByDay, countsByDay) \<Rightarrow>
             Inr (gapFillDailyLocations (Query env) did
               (map (\<lambda>(i, w). dayActivity env segments floatArgs eventNames aggsByDay countsByDay i w)
                  (enumerate 0 days))))"

definition dailyInZone ::
  "repoEnv \<Rightarrow> zone \<Rightarrow> string \<Rightarrow> time \<Rightarrow> time \<Rightarrow> detectionMechanism \<Rightarrow> segmentConfig option \<Rightarrow>
   segmentSignalRequest option list \<Rightarrow> segmentEventRequest list \<Rightarrow> dailyActivity list res option" where
  "dailyInZone env z did from to mechanism config signalRequests eventRequests =
     (let fromDate = dateOf z from; toDate = dateOf z to in
      if After fromDate toDate then Some (Inl (BadRequestError (Err ''from date must be before to date'')))
      else if After toDate (Now env) then Some (Inl (BadRequestError (Err ''to date cannot be in the future'')))
      else case validateSegmentDateRange fromDate toDate of
        Some err \<Rightarrow> Some (Inl (BadRequestError err))
      | None \<Rightarrow>
          let rangeStart = fromDate; rangeEnd = addDay z toDate;
              signalReqs = mergeSegmentSignalRequests (defaultSegmentSignalSet (Vss env) mechanism) signalRequests;
              eventNames = eventNamesOf eventRequests
          in case GetSegments env did rangeStart rangeEnd mechanism config (map Some signalReqs) eventRequests None None of
               Inl err \<Rightarrow> Some (Inl err)
             | Inr segments \<Rightarrow>
                 map_option (dailyRecords env did segments signalReqs eventNames) (dayLoop z fromDate toDate))"

definition GetDailyActivity ::
  "repoEnv \<Rightarrow> (string \<Rightarrow> zone res) \<Rightarrow> string \<Rightarrow> time \<Rightarrow> time \<Rightarrow> detectionMechanism \<Rightarrow> segmentConfig option \<Rightarrow>
   segmentSignalRequest option list \<Rightarrow> segmentEventRequest list \<Rightarrow> string option \<Rightarrow> dailyActivity list res option" where
  "GetDailyActivity env LoadLocation did from to mechanism config signalRequests eventRequests timezone =
     (if mechanism = Idling \<or> mechanism = Refuel \<or> mechanism = Recharge
      then Some (Inl (BadRequestError (Err (''dailyActivity does not accept mechanism '' @ mechanismName mechanism
             @ ''; use IGNITION_DETECTION, FREQUENCY_ANALYSIS, or CHANGE_POINT_DETECTION''))))
      else case zoneOf LoadLocation timezone of
        Inl err \<Rightarrow> Some (Inl (BadRequestError
          (Wrap (''invalid timezone '' @ quoted (case timezone of None \<Rightarrow> [] | Some tz \<Rightarrow> tz)) err)))
      | Inr z \<Rightarrow> dailyInZone env z did from to mechanism config signalRequests eventRequests)"

subsection \<open>The windows tile the range\<close>

text \<open>
  A day is regular when midnight exists: the wall clock of \<open>time.Date\<close> at second 0 of the day is
  second 0 of that day. A transition elsewhere in the day does not matter.
\<close>

definition regularDay :: "zone \<Rightarrow> int \<Rightarrow> bool" where
  "regularDay z k = (wall z (goDate z k 0 0) = (k, 0, 0))"

definition midnight :: "zone \<Rightarrow> int \<Rightarrow> time" where "midnight z k = goDate z k 0 0"

definition regularDays :: "zone \<Rightarrow> int \<Rightarrow> int \<Rightarrow> bool" where
  "regularDays z a b = (\<forall>k \<in> {a..b}. regularDay z k \<and> (k < b \<longrightarrow> midnight z k < midnight z (k + 1)))"

lemma addDay_midnight: "regularDay z k \<Longrightarrow> addDay z (midnight z k) = midnight z (k + 1)"
  by (simp add: addDay_def regularDay_def midnight_def)

lemma dateOf_wall: "fst (wall z t) = k \<Longrightarrow> dateOf z t = midnight z k"
  by (simp add: dateOf_def midnight_def)

lemma regularDaysD:
  "regularDays z a b \<Longrightarrow> a \<le> k \<Longrightarrow> k \<le> b \<Longrightarrow> regularDay z k"
  "regularDays z a b \<Longrightarrow> a \<le> k \<Longrightarrow> k < b \<Longrightarrow> midnight z k < midnight z (k + 1)"
  by (simp_all add: regularDays_def)

lemma midnight_mono:
  assumes "regularDays z a b" "a \<le> i" "i < j" "j \<le> b"
  shows "midnight z i < midnight z j"
proof -
  have "midnight z i < midnight z (i + 1 + int n)" if "i + 1 + int n \<le> b" for n
    using that
  proof (induction n)
    case (Suc n)
    then have "midnight z (i + 1 + int n) < midnight z (i + 1 + int n + 1)"
      using assms(2) by (intro regularDaysD(2) [OF assms(1)]) auto
    moreover have "i + 1 + int (Suc n) = i + 1 + int n + 1" by simp
    ultimately show ?case using Suc by simp
  qed (use regularDaysD(2) [OF assms(1,2)] in simp)
  from this [of "nat (j - i - 1)"] show ?thesis using assms(3,4) by simp
qed

lemma dayLoop_days:
  assumes reg: "regularDays z a (b + 1)" and ab: "a \<le> b" and "a \<le> k" and "k \<le> b + 1"
  shows "dayLoop z (midnight z k) (midnight z b) =
    Some (map (\<lambda>j. \<lparr>DayStart = midnight z j, DayEnd = midnight z (j + 1)\<rparr>) [k..b])"
  using assms(3,4)
proof (induction "nat (b + 1 - k)" arbitrary: k)
  case 0
  then have k: "k = b + 1" by simp
  have "midnight z b < midnight z k" using midnight_mono [OF reg ab, of k] k by simp
  then show ?case using k by (subst dayLoop.simps) (simp add: go_defs)
next
  case (Suc n)
  then have kb: "k \<le> b" by simp
  have "\<not> midnight z b < midnight z k"
    using midnight_mono [OF reg, of k b] Suc.prems kb by (cases "k = b") auto
  moreover have "addDay z (midnight z k) = midnight z (k + 1)"
    using regularDaysD(1) [OF reg, of k] Suc.prems by (intro addDay_midnight) simp
  moreover have "dayLoop z (midnight z (k + 1)) (midnight z b) =
      Some (map (\<lambda>j. \<lparr>DayStart = midnight z j, DayEnd = midnight z (j + 1)\<rparr>) [k + 1..b])"
    using Suc.hyps(2) Suc.prems kb by (intro Suc.hyps(1)) auto
  moreover have "[k..b] = k # [k + 1..b]" using kb by (rule upto_rec1)
  ultimately show ?case by (subst dayLoop.simps) (simp add: go_defs)
qed

definition dayLocated :: "dailyActivity \<Rightarrow> bool" where
  "dayLocated d = (LocValue (DaStart d) \<noteq> None \<and> LocValue (DaEnd d) \<noteq> None)"

definition dayShape :: "dailyActivity \<Rightarrow> time \<times> time" where
  "dayShape d = (Timestamp (DaStart d), Timestamp (DaEnd d))"

lemma putDayBoundaries_filled:
  assumes "map Timestamp bs = map Timestamp (concat (map dayBoundariesOf ds))"
    and "\<forall>b \<in> set bs. LocValue b \<noteq> None"
  shows "map dayShape (putDayBoundaries ds bs) = map dayShape ds \<and> (\<forall>d \<in> set (putDayBoundaries ds bs). dayLocated d)"
  using assms
proof (induction ds arbitrary: bs)
  case (Cons d ds)
  define bs1 where "bs1 = (if LocValue (DaStart d) = None then tl bs else bs)"
  define bs2 where "bs2 = (if LocValue (DaEnd d) = None then tl bs1 else bs1)"
  have t1: "map Timestamp bs1 = map Timestamp ((if LocValue (DaEnd d) = None then [DaEnd d] else [])
      @ concat (map dayBoundariesOf ds))"
    using Cons.prems(1) by (auto simp: bs1_def dayBoundariesOf_def [of d] map_tl)
  then have t2: "map Timestamp bs2 = map Timestamp (concat (map dayBoundariesOf ds))"
    by (auto simp: bs2_def map_tl)
  have s1: "set bs1 \<subseteq> set bs" by (cases bs) (auto simp: bs1_def)
  moreover have "set bs2 \<subseteq> set bs1" by (cases bs1) (auto simp: bs2_def)
  ultimately have IH: "map dayShape (putDayBoundaries ds bs2) = map dayShape ds \<and> (\<forall>d \<in> set (putDayBoundaries ds bs2). dayLocated d)"
    using Cons.IH [OF t2] Cons.prems(2) by blast
  have h1: "LocValue (DaStart d) = None \<Longrightarrow> Timestamp (hd bs) = Timestamp (DaStart d) \<and> LocValue (hd bs) \<noteq> None"
    using Cons.prems by (cases bs) (auto simp: dayBoundariesOf_def [of d])
  have h2: "LocValue (DaEnd d) = None \<Longrightarrow> Timestamp (hd bs1) = Timestamp (DaEnd d) \<and> LocValue (hd bs1) \<noteq> None"
    using t1 s1 Cons.prems(2) by (cases bs1) auto
  define d' where "d' = (let x = (if LocValue (DaStart d) = None then d\<lparr>DaStart := hd bs\<rparr> else d) in
     if LocValue (DaEnd d) = None then x\<lparr>DaEnd := hd bs1\<rparr> else x)"
  have put: "putDayBoundaries (d # ds) bs = d' # putDayBoundaries ds bs2"
    by (cases "LocValue (DaStart d)"; cases "LocValue (DaEnd d)") (auto simp: d'_def bs1_def bs2_def Let_def)
  have "dayShape d' = dayShape d \<and> dayLocated d'"
    using h1 h2 unfolding d'_def by (auto simp: dayShape_def dayLocated_def Let_def)
  then show ?case using IH put by simp
qed simp

lemma gapFillDaily:
  "map dayShape (gapFillDailyLocations q subject ds) = map dayShape ds"
  "d \<in> set (gapFillDailyLocations q subject ds) \<Longrightarrow> dayLocated d"
  using putDayBoundaries_filled [of "fillBoundaryLocations q subject (concat (map dayBoundariesOf ds))" ds]
    fillBoundaryLocations_filled
  by (auto simp: gapFillDailyLocations_def)

lemma dayShape_dayActivity [simp]:
  "dayShape (dayActivity env segs fa names a c i w) = (DayStart w, DayEnd w)"
  by (simp add: dayActivity_def dayShape_def Let_def split: prod.splits)

lemma shapes_enumerate:
  "map dayShape (map (\<lambda>(i, w). dayActivity env segs fa names a c i w) (enumerate n ws))
   = map (\<lambda>w. (DayStart w, DayEnd w)) ws"
  by (induction ws arbitrary: n) simp_all

lemma dailyRecords_shape:
  assumes "dailyRecords env did segs reqs names ws = Inr days"
  shows "map dayShape days = map (\<lambda>w. (DayStart w, DayEnd w)) ws" and "d \<in> set days \<Longrightarrow> dayLocated d"
proof -
  obtain fa a c where "days = gapFillDailyLocations (Query env) did
      (map (\<lambda>(i, w). dayActivity env segs fa names a c i w) (enumerate 0 ws))"
    using assms unfolding dailyRecords_def Let_def by (auto split: prod.splits sum.splits)
  then show "map dayShape days = map (\<lambda>w. (DayStart w, DayEnd w)) ws" "d \<in> set days \<Longrightarrow> dayLocated d"
    using gapFillDaily shapes_enumerate by auto
qed

text \<open>
  C19. In a zone whose midnights exist from the first to the day after the last requested day
  (a daylight saving change at any other hour is fine), the daily activity query ends, and when
  it succeeds it returns one record per calendar day, from that day's midnight to the next, with
  a location at both ends.
\<close>

theorem daily_one_record_per_day:
  assumes z: "zoneOf LoadLocation timezone = Inr z" and a: "fst (wall z from) = a" and b: "fst (wall z to) = b"
    and reg: "regularDays z a (b + 1)" and ab: "a \<le> b"
  shows "\<exists>r. GetDailyActivity env LoadLocation did from to mechanism config sreqs ereqs timezone = Some r
    \<and> (\<forall>days. r = Inr days \<longrightarrow>
        map dayShape days = map (\<lambda>k. (midnight z k, midnight z (k + 1))) [a..b] \<and> (\<forall>d \<in> set days. dayLocated d))"
proof -
  let ?ws = "map (\<lambda>j. \<lparr>DayStart = midnight z j, DayEnd = midnight z (j + 1)\<rparr>) [a..b]"
  have d: "dateOf z from = midnight z a" "dateOf z to = midnight z b" using a b by (simp_all add: dateOf_wall)
  have l: "dayLoop z (midnight z a) (midnight z b) = Some ?ws" using dayLoop_days [OF reg ab order_refl] ab by simp
  have "\<exists>r. dailyInZone env z did from to mechanism config sreqs ereqs = Some r
      \<and> (\<forall>days. r = Inr days \<longrightarrow> (\<exists>segs reqs names. dailyRecords env did segs reqs names ?ws = Inr days))"
    unfolding dailyInZone_def d by (simp add: l Let_def split: option.splits sum.splits) blast
  then have "\<exists>r. GetDailyActivity env LoadLocation did from to mechanism config sreqs ereqs timezone = Some r
      \<and> (\<forall>days. r = Inr days \<longrightarrow> (\<exists>segs reqs names. dailyRecords env did segs reqs names ?ws = Inr days))"
    unfolding GetDailyActivity_def z by simp
  moreover have "map dayShape days = map (\<lambda>k. (midnight z k, midnight z (k + 1))) [a..b] \<and> (\<forall>d \<in> set days. dayLocated d)"
    if "dailyRecords env did segs reqs names ?ws = Inr days" for segs reqs names days
    using dailyRecords_shape [OF that] by (simp add: comp_def)
  ultimately show ?thesis by blast
qed

text \<open>
  Two zones: one that moves from UTC-5 to UTC-4 at two in the morning of 2024-03-10 (day 19792)
  and one that moves from UTC+2 to UTC+3 at midnight of 2024-03-31 (day 19813), so that this
  midnight does not exist.
\<close>

definition zone_two_am :: zone where
  "zone_two_am = \<lparr>FirstOffset = - 18000, Transitions = [(1710054000, - 14400)]\<rparr>"

definition zone_midnight :: zone where
  "zone_midnight = \<lparr>FirstOffset = 7200, Transitions = [(1711836000, 10800)]\<rparr>"

lemmas date_defs = goDate_def wall_def lookup_def unixSeconds_def ofUnix_def unixEpoch_def second_def
  daySeconds_def minInt64_def maxInt64_def zone_two_am_def zone_midnight_def

lemma zone_two_am_regular: "regularDays zone_two_am 19791 19793"
proof -
  have "{19791..19793} = {19791, 19792, 19793 :: int}" by auto
  then show ?thesis by (simp add: regularDays_def regularDay_def midnight_def date_defs)
qed

theorem daily_one_record_per_day_witness:
  "\<exists>r. GetDailyActivity demo_env (\<lambda>_. Inr zone_two_am) ''veh'' (ofUnix 1709990000 5) (ofUnix 1710100000 0)
      IgnitionDetection None [] [] (Some ''America/New_York'') = Some r
    \<and> map (midnight zone_two_am) [19791..19793] = map (\<lambda>s. ofUnix s 0) [1709960400, 1710046800, 1710129600]"
proof -
  have w: "fst (wall zone_two_am (ofUnix 1709990000 5)) = 19791" "fst (wall zone_two_am (ofUnix 1710100000 0)) = 19792"
    by (simp_all add: date_defs)
  have z: "zoneOf (\<lambda>_. Inr zone_two_am) (Some ''America/New_York'') = Inr zone_two_am" by (simp add: zoneOf_def)
  have u: "[19791..19793] = [19791, 19792, 19793 :: int]" by (simp add: upto.simps)
  have "map (midnight zone_two_am) [19791..19793] = map (\<lambda>s. ofUnix s 0) [1709960400, 1710046800, 1710129600]"
    unfolding u by (simp add: midnight_def date_defs)
  then show ?thesis
    using daily_one_record_per_day [OF z w, of demo_env "''veh''" IgnitionDetection None "[]" "[]"] zone_two_am_regular
    by auto
qed

text \<open>
  In a zone that skips a midnight east of Greenwich the loop over the days loses the last
  calendar day: \<open>AddDate\<close> carries the wall clock of the skipped midnight, one o'clock, to every
  later day, which is after the last day's midnight. From 2024-03-30 to 2024-04-02 there are
  three windows, none of which starts on the last day.
\<close>

theorem daily_skipped_midnight_loses_day:
  "dayLoop zone_midnight (dateOf zone_midnight (ofUnix 1711792800 0)) (dateOf zone_midnight (ofUnix 1712052000 0))
     = Some [\<lparr>DayStart = ofUnix 1711749600 0, DayEnd = ofUnix 1711836000 0\<rparr>,
             \<lparr>DayStart = ofUnix 1711836000 0, DayEnd = ofUnix 1711922400 0\<rparr>,
             \<lparr>DayStart = ofUnix 1711922400 0, DayEnd = ofUnix 1712008800 0\<rparr>]
   \<and> map (\<lambda>t. fst (wall zone_midnight t)) [ofUnix 1711792800 0, ofUnix 1711922400 0, ofUnix 1712052000 0]
       = [19812, 19814, 19815]"
proof -
  have d: "dateOf zone_midnight (ofUnix 1711792800 0) = ofUnix 1711749600 0"
    "dateOf zone_midnight (ofUnix 1712052000 0) = ofUnix 1712005200 0"
    "addDay zone_midnight (ofUnix 1711749600 0) = ofUnix 1711836000 0"
    "addDay zone_midnight (ofUnix 1711836000 0) = ofUnix 1711922400 0"
    "addDay zone_midnight (ofUnix 1711922400 0) = ofUnix 1712008800 0"
    by (simp_all add: dateOf_def addDay_def date_defs)
  have a: "\<not> After (ofUnix 1711749600 0) (ofUnix 1712005200 0)" "\<not> After (ofUnix 1711836000 0) (ofUnix 1712005200 0)"
    "\<not> After (ofUnix 1711922400 0) (ofUnix 1712005200 0)" "After (ofUnix 1712008800 0) (ofUnix 1712005200 0)"
    by (simp_all add: After_def ofUnix_def second_def)
  have "dayLoop zone_midnight (ofUnix 1712008800 0) (ofUnix 1712005200 0) = Some []"
    using a(4) by (subst dayLoop.simps) simp
  then have "dayLoop zone_midnight (ofUnix 1711922400 0) (ofUnix 1712005200 0)
      = Some [\<lparr>DayStart = ofUnix 1711922400 0, DayEnd = ofUnix 1712008800 0\<rparr>]"
    using a(3) d(5) by (subst dayLoop.simps) simp
  then have "dayLoop zone_midnight (ofUnix 1711836000 0) (ofUnix 1712005200 0)
      = Some [\<lparr>DayStart = ofUnix 1711836000 0, DayEnd = ofUnix 1711922400 0\<rparr>,
              \<lparr>DayStart = ofUnix 1711922400 0, DayEnd = ofUnix 1712008800 0\<rparr>]"
    using a(2) d(4) by (subst dayLoop.simps) simp
  then show ?thesis using a(1) d by (subst dayLoop.simps) (simp add: date_defs)
qed

subsection \<open>The statistics of a day\<close>

definition activeIn :: "time \<Rightarrow> time \<Rightarrow> segment \<Rightarrow> bool" where
  "activeIn dayStart dayEnd s = (max (segStart s) dayStart < daySegEnd dayEnd s)"

definition endsAt :: "time \<Rightarrow> time \<Rightarrow> segment \<Rightarrow> bool" where
  "endsAt dayStart dayEnd s = (segStart s < dayStart \<and> daySegEnd dayEnd s = dayStart)"

lemma daySegEnd_le: "daySegEnd dayEnd s \<le> dayEnd"
  by (auto simp: daySegEnd_def go_defs split: option.splits)

lemma addSegment_eq:
  assumes "dayStart < dayEnd" "dayEnd - dayStart < exact_span"
  shows "addSegment dayStart dayEnd s st =
    (if activeIn dayStart dayEnd s \<or> endsAt dayStart dayEnd s
     then \<lparr>StCount = StCount st + 1,
           StSeconds = StSeconds st + (if activeIn dayStart dayEnd s
              then (daySegEnd dayEnd s - max (segStart s) dayStart) div second else 0),
           StFirst = (case StFirst st of None \<Rightarrow> Some s | f \<Rightarrow> f), StLast = Some s\<rparr>
     else st)"
proof -
  let ?e = "daySegEnd dayEnd s" and ?o = "max (segStart s) dayStart"
  have le: "?e \<le> dayEnd" by (rule daySegEnd_le)
  have o: "(if Before (segStart s) dayStart then dayStart else segStart s) = ?o" by (auto simp: go_defs max_def)
  have e: "(if After ?e dayEnd then dayEnd else ?e) = ?e" using le by (auto simp: go_defs)
  show ?thesis
  proof (cases "activeIn dayStart dayEnd s \<or> endsAt dayStart dayEnd s")
    case True
    then have oe: "?o \<le> ?e" by (auto simp: activeIn_def endsAt_def)
    have "?e - ?o < exact_span" using le assms(2) by linarith
    moreover from this have "Sub ?e ?o = ?e - ?o"
      using oe by (intro Sub_eq) (auto simp: exact_span_def minInt64_def maxInt64_def)
    ultimately have sec: "int_seconds (Sub ?e ?o) = (?e - ?o) div second" using int_seconds_exact(1) oe by simp
    have g: "\<not> (After (segStart s) dayEnd \<or> Before ?e dayStart \<or> \<not> After ?e (segStart s))"
      using True le by (auto simp: activeIn_def endsAt_def go_defs)
    have "(?e - ?o) div second = (if activeIn dayStart dayEnd s then (?e - ?o) div second else 0)"
      using True by (auto simp: endsAt_def)
    then show ?thesis using True g sec unfolding addSegment_def Let_def o e by simp
  next
    case False
    then have "After (segStart s) dayEnd \<or> Before ?e dayStart \<or> \<not> After ?e (segStart s)"
      by (auto simp: activeIn_def endsAt_def go_defs)
    then show ?thesis using False by (simp add: addSegment_def Let_def)
  qed
qed

lemma fold_addSegment:
  assumes "dayStart < dayEnd" "dayEnd - dayStart < exact_span"
  shows "StCount (fold (addSegment dayStart dayEnd) segs st) = StCount st
      + int (length (filter (activeIn dayStart dayEnd) segs)) + int (length (filter (endsAt dayStart dayEnd) segs))
    \<and> StSeconds (fold (addSegment dayStart dayEnd) segs st) = StSeconds st
      + (\<Sum>s \<leftarrow> filter (activeIn dayStart dayEnd) segs. (daySegEnd dayEnd s - max (segStart s) dayStart) div second)"
proof (induction segs arbitrary: st)
  case (Cons s segs)
  have "\<not> (activeIn dayStart dayEnd s \<and> endsAt dayStart dayEnd s)" by (auto simp: activeIn_def endsAt_def)
  then show ?case using Cons by (auto simp: addSegment_eq [OF assms])
qed simp

text \<open>
  The active seconds of a day are the whole seconds of each segment's overlap with it. The
  number of segments is that of the segments with an overlap of positive length plus that of
  the segments that end exactly when the day starts, which belong to the day before.
\<close>

theorem day_stats:
  assumes "dayStart < dayEnd" "dayEnd - dayStart < exact_span"
  shows "StSeconds (daySegmentStats segs dayStart dayEnd) =
      (\<Sum>s \<leftarrow> filter (activeIn dayStart dayEnd) segs. (daySegEnd dayEnd s - max (segStart s) dayStart) div second)
    \<and> StCount (daySegmentStats segs dayStart dayEnd) =
      int (length (filter (activeIn dayStart dayEnd) segs)) + int (length (filter (endsAt dayStart dayEnd) segs))"
  using fold_addSegment [OF assms, of segs "\<lparr>StCount = 0, StSeconds = 0, StFirst = None, StLast = None\<rparr>"]
  by (simp add: daySegmentStats_def)

theorem day_stats_witness:
  "StCount (daySegmentStats [demo_segment 1000 (5 * second)] (5 * second) (100 * second)) = 1
   \<and> StSeconds (daySegmentStats [demo_segment 1000 (5 * second)] (5 * second) (100 * second)) = 0"
  using day_stats [of "5 * second" "100 * second" "[demo_segment 1000 (5 * second)]"]
  by (simp add: second_def exact_span_def activeIn_def endsAt_def daySegEnd_def demo_segment_def newSegment_def
      segStart_def go_defs)

end
