(* ===== verification/Repo_Signals.thy ===== *)
theory Repo_Signals
  imports Repo_Segments
begin

section \<open>Signal and event queries (internal/repositories/signals.go)\<close>

text \<open>
  The repository functions that answer the aggregated, latest, available, summary, snapshot
  and event queries, on top of the query layer \<open>signalBackend\<close>. A \<open>SignalCollection\<close> is the
  map from the JSON name of a field to its value; \<open>collectionFields\<close> lists the cases of the
  generated setter. The H3 library is the record \<open>h3Lib\<close> of the two conversions used, \<open>None\<close>
  being an error. A Go map of results by alias is a HOL map.

  Shown here: aggregated rows are grouped by bucket without loss, the latest query keeps the last
  row of each field, and an approximate location depends on the exact one only through its cell.
\<close>

subsection \<open>Data\<close>

record vssSignal =
  SgName :: string
  SgTimestamp :: time
  SgValueNumber :: f64
  SgValueString :: string
  SgValueLocation :: vssLocation

record vssEvent =
  EvSource :: string
  EvName :: string
  EvTimestamp :: time
  EvDurationNs :: nat
  EvMetadata :: string

record signalDataSummary =
  SdName :: string
  SdNumberOfSignals :: nat
  SdFirstSeen :: time
  SdLastSeen :: time

record eventSummary =
  EsName :: string
  EsCount :: nat
  EsFirstSeen :: time
  EsLastSeen :: time

record eventDataSummary =
  EdName :: string
  EdNumberOfEvents :: nat
  EdFirstSeen :: time
  EdLastSeen :: time

record dataSummary =
  DsNumberOfSignals :: nat
  DsAvailableSignals :: "string list"
  DsFirstSeen :: time
  DsLastSeen :: time
  DsSignalDataSummary :: "signalDataSummary list"
  DsEventDataSummary :: "eventDataSummary list"

record event =
  EventTimestamp :: time
  EventName :: string
  EventSource :: string
  EventDurationNs :: int
  EventMetadata :: "string option"

record latestSignal =
  LsName :: string
  LsTimestamp :: time
  LsValueNumber :: "f64 option"
  LsValueString :: "string option"
  LsValueLocation :: "location option"

record signalsSnapshot =
  SnLastSeen :: "time option"
  SnSignals :: "latestSignal list"

record signalAggregations =
  SaTimestamp :: time
  ValueNumbers :: "string \<rightharpoonup> f64"
  ValueStrings :: "string \<rightharpoonup> string"
  ValueLocations :: "string \<rightharpoonup> vssLocation"

datatype fieldKind = FloatField | StringField | LocationField

datatype fieldValue = SignalFloat time f64 | SignalString time string | SignalLocationValue time location

record signalCollection =
  CollLastSeen :: "time option"
  CollFields :: "string \<rightharpoonup> fieldValue"
  CurrentLocationApproximateCoordinates :: "signalLocation option"

record h3Lib =
  LatLngToCell :: "f64 \<Rightarrow> f64 \<Rightarrow> nat \<Rightarrow> nat option"
  CellToLatLng :: "nat \<Rightarrow> (f64 \<times> f64) option"

record signalBackend =
  BackendAggregatedSignals :: "string \<Rightarrow> aggregatedSignalArgs \<Rightarrow> aggSignal list res"
  BackendLatestSignals :: "string \<Rightarrow> latestSignalsArgs \<Rightarrow> vssSignal list res"
  BackendAllLatestSignals :: "string \<Rightarrow> signalFilter option \<Rightarrow> vssSignal list res"
  BackendAvailableSignals :: "string \<Rightarrow> signalFilter option \<Rightarrow> string list res"
  BackendSignalSummaries :: "string \<Rightarrow> signalFilter option \<Rightarrow> signalDataSummary list res"
  BackendEvents :: "string \<Rightarrow> time \<Rightarrow> time \<Rightarrow> eventFilter option \<Rightarrow> vssEvent list res"
  BackendEventSummaries :: "string \<Rightarrow> eventSummary list res"

definition LastSeenField :: string where "LastSeenField = ''lastSeen''"
definition ApproximateCoordinatesField :: string where
  "ApproximateCoordinatesField = ''currentLocationApproximateCoordinates''"
definition approximateLocationResolution :: nat where "approximateLocationResolution = 6"

subsection \<open>The generated setter\<close>

definition collectionFields1 :: "(string \<times> fieldKind) list" where
  "collectionFields1 = [(''angularVelocityYaw'', FloatField), (''bodyLightsIsAirbagWarningOn'', FloatField),
     (''bodyLockIsLocked'', FloatField), (''bodyTrunkFrontIsOpen'', FloatField),
     (''bodyTrunkRearIsOpen'', FloatField), (''cabinDoorRow1DriverSideIsOpen'', FloatField),
     (''cabinDoorRow1DriverSideWindowIsOpen'', FloatField),
     (''cabinDoorRow1PassengerSideIsOpen'', FloatField),
     (''cabinDoorRow1PassengerSideWindowIsOpen'', FloatField),
     (''cabinDoorRow2DriverSideIsOpen'', FloatField),
     (''cabinDoorRow2DriverSideWindowIsOpen'', FloatField),
     (''cabinDoorRow2PassengerSideIsOpen'', FloatField),
     (''cabinDoorRow2PassengerSideWindowIsOpen'', FloatField),
     (''cabinSeatRow1DriverSideIsBelted'', FloatField),
     (''cabinSeatRow1PassengerSideIsBelted'', FloatField),
     (''cabinSeatRow2DriverSideIsBelted'', FloatField), (''cabinSeatRow2MiddleIsBelted'', FloatField),
     (''cabinSeatRow2PassengerSideIsBelted'', FloatField),
     (''cabinSeatRow3DriverSideIsBelted'', FloatField),
     (''cabinSeatRow3PassengerSideIsBelted'', FloatField),
     (''chassisAxleRow1WheelLeftSpeed'', FloatField),
     (''chassisAxleRow1WheelLeftTirePressure'', FloatField),
     (''chassisAxleRow1WheelRightSpeed'', FloatField),
     (''chassisAxleRow1WheelRightTirePressure'', FloatField),
     (''chassisAxleRow2WheelLeftTirePressure'', FloatField),
     (''chassisAxleRow2WheelRightTirePressure'', FloatField), (''chassisAxleRow3Weight'', FloatField),
     (''chassisAxleRow4Weight'', FloatField), (''chassisAxleRow5Weight'', FloatField),
     (''chassisBrakeABSIsWarningOn'', FloatField)]"

definition collectionFields2 :: "(string \<times> fieldKind) list" where
  "collectionFields2 = [(''chassisBrakeCircuit1PressurePrimary'', FloatField),
     (''chassisBrakeCircuit2PressurePrimary'', FloatField),
     (''chassisBrakeIsPedalPressed'', FloatField), (''chassisBrakePedalPosition'', FloatField),
     (''chassisParkingBrakeIsEngaged'', FloatField), (''chassisTireSystemIsWarningOn'', FloatField),
     (''connectivityCellularIsJammingDetected'', FloatField), (''currentLocationAltitude'', FloatField),
     (''currentLocationCoordinates'', LocationField), (''currentLocationHeading'', FloatField),
     (''exteriorAirTemperature'', FloatField), (''isIgnitionOn'', FloatField),
     (''lowVoltageBatteryCurrentVoltage'', FloatField), (''obdBarometricPressure'', FloatField),
     (''obdCommandedEGR'', FloatField), (''obdCommandedEVAP'', FloatField),
     (''obdDTCList'', StringField), (''obdDistanceSinceDTCClear'', FloatField),
     (''obdDistanceWithMIL'', FloatField), (''obdEngineLoad'', FloatField),
     (''obdEthanolPercent'', FloatField), (''obdFuelPressure'', FloatField),
     (''obdFuelRailPressure'', FloatField), (''obdFuelRate'', FloatField),
     (''obdFuelTypeName'', StringField), (''obdIntakeTemp'', FloatField),
     (''obdIsEngineBlocked'', FloatField), (''obdIsPTOActive'', FloatField),
     (''obdIsPluggedIn'', FloatField)]"

definition collectionFields3 :: "(string \<times> fieldKind) list" where
  "collectionFields3 = [(''obdLongTermFuelTrim1'', FloatField), (''obdLongTermFuelTrim2'', FloatField),
     (''obdMAP'', FloatField), (''obdMaxMAF'', FloatField), (''obdO2WRSensor1Voltage'', FloatField),
     (''obdO2WRSensor2Voltage'', FloatField), (''obdOilTemperature'', FloatField),
     (''obdRunTime'', FloatField), (''obdShortTermFuelTrim1'', FloatField),
     (''obdStatusDTCCount'', FloatField), (''obdThrottlePosition'', FloatField),
     (''obdWarmupsSinceDTCClear'', FloatField),
     (''powertrainCombustionEngineDieselExhaustFluidCapacity'', FloatField),
     (''powertrainCombustionEngineDieselExhaustFluidLevel'', FloatField),
     (''powertrainCombustionEngineECT'', FloatField), (''powertrainCombustionEngineEOP'', FloatField),
     (''powertrainCombustionEngineEOT'', FloatField),
     (''powertrainCombustionEngineEngineOilLevel'', StringField),
     (''powertrainCombustionEngineEngineOilRelativeLevel'', FloatField),
     (''powertrainCombustionEngineMAF'', FloatField), (''powertrainCombustionEngineSpeed'', FloatField),
     (''powertrainCombustionEngineTPS'', FloatField),
     (''powertrainCombustionEngineTorque'', FloatField),
     (''powertrainCombustionEngineTorquePercent'', FloatField),
     (''powertrainFuelSystemAbsoluteLevel'', FloatField),
     (''powertrainFuelSystemAccumulatedConsumption'', FloatField),
     (''powertrainFuelSystemRelativeLevel'', FloatField),
     (''powertrainFuelSystemSupportedFuelTypes'', StringField), (''powertrainRange'', FloatField),
     (''powertrainTractionBatteryChargingAddedEnergy'', FloatField)]"

definition collectionFields4 :: "(string \<times> fieldKind) list" where
  "collectionFields4 = [(''powertrainTractionBatteryChargingChargeCurrentAC'', FloatField),
     (''powertrainTractionBatteryChargingChargeLimit'', FloatField),
     (''powertrainTractionBatteryChargingChargeVoltageUnknownType'', FloatField),
     (''powertrainTractionBatteryChargingIsCharging'', FloatField),
     (''powertrainTractionBatteryChargingIsChargingCableConnected'', FloatField),
     (''powertrainTractionBatteryChargingPower'', FloatField),
     (''powertrainTractionBatteryCurrentPower'', FloatField),
     (''powertrainTractionBatteryCurrentVoltage'', FloatField),
     (''powertrainTractionBatteryGrossCapacity'', FloatField),
     (''powertrainTractionBatteryRange'', FloatField),
     (''powertrainTractionBatteryStateOfChargeCurrent'', FloatField),
     (''powertrainTractionBatteryStateOfChargeCurrentEnergy'', FloatField),
     (''powertrainTractionBatteryStateOfHealth'', FloatField),
     (''powertrainTractionBatteryTemperatureAverage'', FloatField),
     (''powertrainTransmissionActualGear'', FloatField),
     (''powertrainTransmissionActualGearRatio'', FloatField),
     (''powertrainTransmissionCurrentGear'', FloatField),
     (''powertrainTransmissionIsClutchSwitchOperated'', FloatField),
     (''powertrainTransmissionRetarderActualTorque'', FloatField),
     (''powertrainTransmissionRetarderTorqueMode'', StringField),
     (''powertrainTransmissionSelectedGear'', FloatField),
     (''powertrainTransmissionTemperature'', FloatField),
     (''powertrainTransmissionTravelledDistance'', FloatField), (''powertrainType'', StringField),
     (''serviceDistanceToService'', FloatField), (''serviceTimeToService'', FloatField),
     (''speed'', FloatField)]"

definition collectionFields :: "(string \<times> fieldKind) list" where
  "collectionFields = collectionFields1 @ collectionFields2 @ collectionFields3 @ collectionFields4"

text \<open>A name outside the list is ignored; \<open>nil\<close> arguments do not occur.\<close>

definition fieldOf :: "fieldKind \<Rightarrow> vssSignal \<Rightarrow> fieldValue" where
  "fieldOf k s = (case k of
      FloatField \<Rightarrow> SignalFloat (SgTimestamp s) (SgValueNumber s)
    | StringField \<Rightarrow> SignalString (SgTimestamp s) (SgValueString s)
    | LocationField \<Rightarrow> SignalLocationValue (SgTimestamp s) (locOf (SgValueLocation s)))"

definition SetCollectionField :: "signalCollection \<Rightarrow> vssSignal \<Rightarrow> signalCollection" where
  "SetCollectionField coll s = (case map_of collectionFields (SgName s) of
      None \<Rightarrow> coll
    | Some k \<Rightarrow> coll\<lparr>CollFields := (CollFields coll)(SgName s \<mapsto> fieldOf k s)\<rparr>)"

subsection \<open>The repository\<close>

text \<open>
  \<open>NewRepository\<close> on the loaded definition file: the VSS names with their privileges.
  \<open>VSSToJSONName\<close> is a function of the schema package. The two maps are association lists.
\<close>

record repository =
  queryableSignals :: "string list"
  signalPrivileges :: "string \<rightharpoonup> string list"

definition NewRepository :: "(string \<Rightarrow> string) \<Rightarrow> (string \<times> string list) list res \<Rightarrow> repository res" where
  "NewRepository VSSToJSONName definitions = (case definitions of
      Inl err \<Rightarrow> Inl (Wrap ''error reading definition file'' err)
    | Inr defs \<Rightarrow> Inr \<lparr>queryableSignals = map (\<lambda>(n, p). VSSToJSONName n) defs,
        signalPrivileges = fold (\<lambda>(n, p) m. m(VSSToJSONName n \<mapsto> p)) defs Map.empty\<rparr>)"

definition RequiredPrivileges :: "repository \<Rightarrow> string \<Rightarrow> string list \<times> bool" where
  "RequiredPrivileges r signalName = (case signalPrivileges r signalName of None \<Rightarrow> ([], False) | Some p \<Rightarrow> (p, True))"

text \<open>
  The loop of \<open>GetSignal\<close>: \<open>done\<close> are the finished groups and \<open>cur\<close> the one being filled. A first
  row at the zero time finds no group: the write to its map panics.
\<close>

definition nilDereference :: goerr where "nilDereference = Err ''panic: nil pointer dereference''"

definition indexError :: "nat \<Rightarrow> string \<Rightarrow> nat \<Rightarrow> goerr" where
  "indexError n what i = Err (''only '' @ nat_str n @ '' '' @ what @ '' signal requests, but the query returned index '' @ nat_str i)"

definition putValue :: "aggregatedSignalArgs \<Rightarrow> aggSignal \<Rightarrow> signalAggregations option \<Rightarrow> signalAggregations res" where
  "putValue args s cur =
     (let i = SignalIndex s; with = (\<lambda>f. case cur of None \<Rightarrow> Inl nilDereference | Some c \<Rightarrow> Inr (f c)) in
      if SignalType s = FloatType
      then if length (FloatArgs args) \<le> i then Inl (indexError (length (FloatArgs args)) ''float'' i)
           else with (\<lambda>c. c\<lparr>ValueNumbers := (ValueNumbers c)(FaAlias (FloatArgs args ! i) \<mapsto> ValueNumber s)\<rparr>)
      else if SignalType s = StringType
      then if length (StringArgs args) \<le> i then Inl (indexError (length (StringArgs args)) ''string'' i)
           else with (\<lambda>c. c\<lparr>ValueStrings := (ValueStrings c)(SaAlias (StringArgs args ! i) \<mapsto> ValueString s)\<rparr>)
      else if SignalType s = LocType
      then if length (LocationArgs args) \<le> i then Inl (indexError (length (LocationArgs args)) ''location'' i)
           else with (\<lambda>c. c\<lparr>ValueLocations := (ValueLocations c)(LaAlias (LocationArgs args ! i) \<mapsto> ValueLocation s)\<rparr>)
      else Inl (Err (''scanned a row with unrecognized type number '' @ nat_str (SignalType s))))"

definition newAggs :: "time \<Rightarrow> signalAggregations" where
  "newAggs t = \<lparr>SaTimestamp = t, ValueNumbers = Map.empty, ValueStrings = Map.empty, ValueLocations = Map.empty\<rparr>"

fun getSignalLoop ::
  "aggregatedSignalArgs \<Rightarrow> time \<Rightarrow> signalAggregations list \<Rightarrow> signalAggregations option \<Rightarrow> aggSignal list \<Rightarrow>
   signalAggregations list res" where
  "getSignalLoop args lastTS dn cur [] = Inr (dn @ (case cur of None \<Rightarrow> [] | Some c \<Rightarrow> [c]))"
| "getSignalLoop args lastTS dn cur (s # ss) =
     (let fresh = (\<not> Equal lastTS (SigTimestamp s));
          dn' = (if fresh then dn @ (case cur of None \<Rightarrow> [] | Some c \<Rightarrow> [c]) else dn);
          cur' = (if fresh then Some (newAggs (SigTimestamp s)) else cur);
          lastTS' = (if fresh then SigTimestamp s else lastTS)
      in case putValue args s cur' of
           Inl err \<Rightarrow> Inl err
         | Inr c \<Rightarrow> getSignalLoop args lastTS' dn' (Some c) ss)"

definition GetSignal ::
  "signalBackend \<Rightarrow> (string \<Rightarrow> bool) \<Rightarrow> aggregatedSignalArgs option \<Rightarrow> signalAggregations list res" where
  "GetSignal q isEthrDID aggArgs = (case validateAggSigArgs isEthrDID aggArgs of
      Some err \<Rightarrow> Inl (BadRequestError err)
    | None \<Rightarrow> (case aggArgs of None \<Rightarrow> Inl nilDereference
        | Some args \<Rightarrow> (case BackendAggregatedSignals q (Subject (AggSignalArgs args)) args of
            Inl err \<Rightarrow> Inl (handleDBError err)
          | Inr signals \<Rightarrow> getSignalLoop args zeroTime [] None signals)))"

definition GetApproximateLoc :: "h3Lib \<Rightarrow> f64 \<Rightarrow> f64 \<Rightarrow> (f64 \<times> f64) option" where
  "GetApproximateLoc h lat long = (case LatLngToCell h lat long approximateLocationResolution of
      None \<Rightarrow> None | Some cell \<Rightarrow> CellToLatLng h cell)"

definition setApproximateLocationInCollection :: "h3Lib \<Rightarrow> signalCollection \<Rightarrow> signalCollection" where
  "setApproximateLocationInCollection h coll =
     (case CollFields coll ''currentLocationCoordinates'' of
        Some (SignalLocationValue ts l) \<Rightarrow>
          (case GetApproximateLoc h (Latitude l) (Longitude l) of None \<Rightarrow> coll
           | Some (lat, lng) \<Rightarrow> coll\<lparr>CurrentLocationApproximateCoordinates :=
               Some \<lparr>Timestamp = ts, LocValue = Some \<lparr>Latitude = lat, Longitude = lng, Hdop = Hdop l\<rparr>\<rparr>\<rparr>)
      | _ \<Rightarrow> coll)"

definition latestStep :: "vssSignal \<Rightarrow> signalCollection \<Rightarrow> signalCollection" where
  "latestStep s coll =
     (if SgName s = LastSeenField \<and> \<not> Equal (SgTimestamp s) unixEpoch
      then coll\<lparr>CollLastSeen := Some (SgTimestamp s)\<rparr> else SetCollectionField coll s)"

definition emptyCollection :: signalCollection where
  "emptyCollection = \<lparr>CollLastSeen = None, CollFields = Map.empty, CurrentLocationApproximateCoordinates = None\<rparr>"

definition GetSignalLatest ::
  "signalBackend \<Rightarrow> h3Lib \<Rightarrow> (string \<Rightarrow> bool) \<Rightarrow> latestSignalsArgs option \<Rightarrow> signalCollection res" where
  "GetSignalLatest q h isEthrDID latestArgs = (case validateLatestSigArgs isEthrDID latestArgs of
      Some err \<Rightarrow> Inl (BadRequestError err)
    | None \<Rightarrow> (case latestArgs of None \<Rightarrow> Inl nilDereference
        | Some args \<Rightarrow> (case BackendLatestSignals q (Subject (LatestSignalArgs args)) args of
            Inl err \<Rightarrow> Inl (handleDBError err)
          | Inr signals \<Rightarrow> Inr (setApproximateLocationInCollection h (fold latestStep signals emptyCollection)))))"

definition GetAvailableSignals :: "signalBackend \<Rightarrow> repository \<Rightarrow> string \<Rightarrow> signalFilter option \<Rightarrow> string list res" where
  "GetAvailableSignals q r subject flt = (case BackendAvailableSignals q subject flt of
      Inl err \<Rightarrow> Inl (handleDBError err)
    | Inr allSignals \<Rightarrow> Inr (filter (\<lambda>s. s \<in> set (queryableSignals r)) allSignals))"

definition foldTimeRange :: "time \<Rightarrow> time \<Rightarrow> time \<Rightarrow> time \<Rightarrow> time \<times> time" where
  "foldTimeRange minTime maxTime firstT lastT =
     (if Before firstT minTime then firstT else minTime, if After lastT maxTime then lastT else maxTime)"

text \<open>\<open>time.Date(1900, 1, 1, 0, 0, 0, 0, time.UTC)\<close>: 693595 days after year 1.\<close>

definition year1900 :: time where "year1900 = 693595 * 86400 * 1000000000"

definition GetDataSummary ::
  "signalBackend \<Rightarrow> time \<Rightarrow> string \<Rightarrow> signalFilter option \<Rightarrow> dataSummary res" where
  "GetDataSummary q now subject flt = (case BackendSignalSummaries q subject flt of
      Inl err \<Rightarrow> Inl (handleDBError err)
    | Inr sds \<Rightarrow> (case BackendEventSummaries q subject of
        Inl err \<Rightarrow> Inl (handleDBError err)
      | Inr ess \<Rightarrow>
          let eds = map (\<lambda>es. \<lparr>EdName = EsName es, EdNumberOfEvents = EsCount es,
                EdFirstSeen = EsFirstSeen es, EdLastSeen = EsLastSeen es\<rparr>) ess;
              totalCount = fold (\<lambda>m n. (n + SdNumberOfSignals m) mod 2 ^ 64) sds 0;
              span = fold (\<lambda>m (a, b). foldTimeRange a b (SdFirstSeen m) (SdLastSeen m)) sds (now, year1900);
              span = fold (\<lambda>es (a, b). foldTimeRange a b (EsFirstSeen es) (EsLastSeen es)) ess span
          in Inr \<lparr>DsNumberOfSignals = totalCount, DsAvailableSignals = map SdName sds, DsFirstSeen = fst span,
               DsLastSeen = snd span, DsSignalDataSummary = sds, DsEventDataSummary = eds\<rparr>))"

definition GetEvents ::
  "signalBackend \<Rightarrow> string \<Rightarrow> time \<Rightarrow> time \<Rightarrow> eventFilter option \<Rightarrow> event list res" where
  "GetEvents q did from to flt = (case validateEventArgs did from to flt of
      Some err \<Rightarrow> Inl (BadRequestError err)
    | None \<Rightarrow> (case BackendEvents q did from to flt of
        Inl err \<Rightarrow> Inl (handleDBError err)
      | Inr evs \<Rightarrow> Inr (map (\<lambda>e. \<lparr>EventTimestamp = EvTimestamp e, EventName = EvName e, EventSource = EvSource e,
            EventDurationNs = wrap64 (int (EvDurationNs e)),
            EventMetadata = (if EvMetadata e \<noteq> [] then Some (EvMetadata e) else None)\<rparr>) evs)))"

definition signalToLatestSignal :: "vssSignal \<Rightarrow> latestSignal" where
  "signalToLatestSignal s =
     (let ls = \<lparr>LsName = SgName s, LsTimestamp = SgTimestamp s, LsValueNumber = None, LsValueString = None,
                LsValueLocation = None\<rparr>;
          loc = SgValueLocation s
      in if f64_ne (VLatitude loc) (Fin 0) \<or> f64_ne (VLongitude loc) (Fin 0)
         then ls\<lparr>LsValueLocation := Some (locOf loc)\<rparr>
         else if SgValueString s \<noteq> [] then ls\<lparr>LsValueString := Some (SgValueString s)\<rparr>
         else ls\<lparr>LsValueNumber := Some (SgValueNumber s)\<rparr>)"

fun snapshotLoop ::
  "repository \<Rightarrow> vssFields \<Rightarrow> signalsSnapshot \<Rightarrow> vssSignal option \<Rightarrow> vssSignal list \<Rightarrow> signalsSnapshot \<times> vssSignal option" where
  "snapshotLoop r vss resp raw [] = (resp, raw)"
| "snapshotLoop r vss resp raw (s # ss) =
     (if SgName s = LastSeenField \<and> \<not> Equal (SgTimestamp s) unixEpoch
      then snapshotLoop r vss (resp\<lparr>SnLastSeen := Some (SgTimestamp s)\<rparr>) raw ss
      else if SgName s \<notin> set (queryableSignals r) then snapshotLoop r vss resp raw ss
      else snapshotLoop r vss (resp\<lparr>SnSignals := SnSignals resp @ [signalToLatestSignal s]\<rparr>)
             (if SgName s = FieldCurrentLocationCoordinates vss then Some s else raw) ss)"

definition GetSignalSnapshot ::
  "signalBackend \<Rightarrow> repository \<Rightarrow> vssFields \<Rightarrow> h3Lib \<Rightarrow> string \<Rightarrow> signalFilter option \<Rightarrow> signalsSnapshot res" where
  "GetSignalSnapshot q r vss h subject flt = (case BackendAllLatestSignals q subject flt of
      Inl err \<Rightarrow> Inl (handleDBError err)
    | Inr signals \<Rightarrow>
        (let (resp, raw) = snapshotLoop r vss \<lparr>SnLastSeen = None, SnSignals = []\<rparr> None signals in
         Inr (case raw of None \<Rightarrow> resp
           | Some s \<Rightarrow> let loc = SgValueLocation s in
               (case GetApproximateLoc h (VLatitude loc) (VLongitude loc) of None \<Rightarrow> resp
                | Some (lat, lng) \<Rightarrow> resp\<lparr>SnSignals := SnSignals resp @
                    [\<lparr>LsName = ApproximateCoordinatesField, LsTimestamp = SgTimestamp s, LsValueNumber = None,
                      LsValueString = None,
                      LsValueLocation = Some \<lparr>Latitude = lat, Longitude = lng, Hdop = VHDOP loc\<rparr>\<rparr>]\<rparr>))))"

subsection \<open>Buckets\<close>

text \<open>The effect of a row on a group, and the groups of a list of rows as a reference.\<close>

definition aliasOf :: "aggregatedSignalArgs \<Rightarrow> aggSignal \<Rightarrow> string" where
  "aliasOf args s = (if SignalType s = FloatType then FaAlias (FloatArgs args ! SignalIndex s)
     else if SignalType s = StringType then SaAlias (StringArgs args ! SignalIndex s)
     else LaAlias (LocationArgs args ! SignalIndex s))"

definition validRow :: "aggregatedSignalArgs \<Rightarrow> aggSignal \<Rightarrow> bool" where
  "validRow args s = (SignalType s = FloatType \<and> SignalIndex s < length (FloatArgs args)
     \<or> SignalType s = StringType \<and> SignalIndex s < length (StringArgs args)
     \<or> SignalType s = LocType \<and> SignalIndex s < length (LocationArgs args))"

definition addRow :: "aggregatedSignalArgs \<Rightarrow> aggSignal \<Rightarrow> signalAggregations \<Rightarrow> signalAggregations" where
  "addRow args s c =
     (if SignalType s = FloatType then c\<lparr>ValueNumbers := (ValueNumbers c)(aliasOf args s \<mapsto> ValueNumber s)\<rparr>
      else if SignalType s = StringType then c\<lparr>ValueStrings := (ValueStrings c)(aliasOf args s \<mapsto> ValueString s)\<rparr>
      else c\<lparr>ValueLocations := (ValueLocations c)(aliasOf args s \<mapsto> ValueLocation s)\<rparr>)"

definition bucket :: "aggregatedSignalArgs \<Rightarrow> time \<Rightarrow> aggSignal list \<Rightarrow> signalAggregations" where
  "bucket args t rows = fold (addRow args) (filter (\<lambda>s. SigTimestamp s = t) rows) (newAggs t)"

lemma putValue_valid: "validRow args s \<Longrightarrow> putValue args s (Some c) = Inr (addRow args s c)"
  by (auto simp: putValue_def validRow_def addRow_def aliasOf_def fieldType_defs Let_def)

lemma putValue_invalid: "\<not> validRow args s \<Longrightarrow> \<exists>e. putValue args s cur = Inl e"
  by (auto simp: putValue_def validRow_def Let_def)

lemma addRow_time [simp]: "SaTimestamp (addRow args s c) = SaTimestamp c"
  by (simp add: addRow_def)

lemma remdups_adj_sorted:
  "sorted (x # xs) \<Longrightarrow> remdups_adj (x # xs) = x # remdups_adj (filter (\<lambda>y. x < y) xs)" for x :: "'a :: linorder"
proof (induction xs)
  case (Cons y ys)
  show ?case
  proof (cases "x = y")
    case True
    then show ?thesis using Cons by simp
  next
    case False
    then have "x < y" using Cons.prems by auto
    moreover from this have "filter (\<lambda>z. x < z) ys = ys" using Cons.prems by (auto simp: filter_id_conv)
    ultimately show ?thesis using False by simp
  qed
qed simp

lemma bucket_Cons_other: "SigTimestamp s \<noteq> t \<Longrightarrow> bucket args t (s # rows) = bucket args t rows"
  by (simp add: bucket_def)

lemma getSignalLoop_valid:
  assumes "\<forall>s \<in> set rows. validRow args s" and "sorted (map SigTimestamp rows)"
    and "\<forall>s \<in> set rows. SaTimestamp c \<le> SigTimestamp s"
  shows "getSignalLoop args (SaTimestamp c) dn (Some c) rows = Inr (dn @
      fold (addRow args) (filter (\<lambda>s. SigTimestamp s = SaTimestamp c) rows) c #
      map (\<lambda>t. bucket args t rows) (remdups_adj (filter (\<lambda>t. SaTimestamp c < t) (map SigTimestamp rows))))"
  using assms
proof (induction rows arbitrary: c dn)
  case (Cons s rows)
  let ?t = "SigTimestamp s" and ?later = "\<lambda>x. filter (\<lambda>t. x < t) (map SigTimestamp rows)"
  have v: "validRow args s" "\<forall>r \<in> set rows. validRow args r" and so: "sorted (map SigTimestamp rows)"
    and ge: "\<forall>r \<in> set rows. ?t \<le> SigTimestamp r"
    using Cons.prems by auto
  have later: "map (\<lambda>t. bucket args t (s # rows)) (remdups_adj (?later x)) = map (\<lambda>t. bucket args t rows) (remdups_adj (?later x))"
    if "?t \<le> x" for x
    using that by (auto intro!: bucket_Cons_other)
  show ?case
  proof (cases "?t = SaTimestamp c")
    case True
    then have "getSignalLoop args (SaTimestamp c) dn (Some c) (s # rows)
        = getSignalLoop args (SaTimestamp (addRow args s c)) dn (Some (addRow args s c)) rows"
      using v(1) by (simp add: putValue_valid go_defs)
    then show ?thesis using Cons.IH [of "addRow args s c" dn] v(2) so ge True later [of "SaTimestamp c"] by simp
  next
    case False
    let ?c = "addRow args s (newAggs ?t)"
    have lt: "SaTimestamp c < ?t" using False Cons.prems(3) by auto
    have t: "SaTimestamp ?c = ?t" by (simp add: newAggs_def)
    have "getSignalLoop args (SaTimestamp c) dn (Some c) (s # rows)
        = getSignalLoop args (SaTimestamp ?c) (dn @ [c]) (Some ?c) rows"
      using v(1) False t by (simp add: putValue_valid go_defs)
    also have "\<dots> = Inr ((dn @ [c]) @ fold (addRow args) (filter (\<lambda>r. SigTimestamp r = ?t) rows) ?c
        # map (\<lambda>t. bucket args t rows) (remdups_adj (?later ?t)))"
      using Cons.IH [of ?c "dn @ [c]"] v(2) so ge t by simp
    also have "fold (addRow args) (filter (\<lambda>r. SigTimestamp r = ?t) rows) ?c = bucket args ?t (s # rows)"
      by (simp add: bucket_def)
    finally have loop: "getSignalLoop args (SaTimestamp c) dn (Some c) (s # rows) =
        Inr ((dn @ [c]) @ bucket args ?t (s # rows) # map (\<lambda>t. bucket args t (s # rows)) (remdups_adj (?later ?t)))"
      by (simp only: later [OF order_refl])
    have all: "filter (\<lambda>t. SaTimestamp c < t) (map SigTimestamp (s # rows)) = ?t # map SigTimestamp rows"
      using lt ge by (auto simp: filter_id_conv)
    have "filter (\<lambda>r. SigTimestamp r = SaTimestamp c) (s # rows) = []"
      using lt ge by (auto simp: filter_empty_conv)
    moreover have "remdups_adj (?t # map SigTimestamp rows) = ?t # remdups_adj (?later ?t)"
      using ge so by (intro remdups_adj_sorted) simp
    ultimately show ?thesis using loop by (simp only: all) simp
  qed
qed simp

lemma getSignalLoop_invalid:
  "s \<in> set rows \<Longrightarrow> \<not> validRow args s \<Longrightarrow> \<exists>e. getSignalLoop args t dn cur rows = Inl e"
proof (induction rows arbitrary: t dn cur)
  case (Cons r rows)
  show ?case
  proof (cases "validRow args r")
    case True
    then have "s \<in> set rows" using Cons.prems by auto
    then show ?thesis using Cons.IH Cons.prems(2) by (auto simp: Let_def split: sum.splits)
  next
    case False
    then obtain e where "putValue args r (if \<not> Equal t (SigTimestamp r) then Some (newAggs (SigTimestamp r)) else cur) = Inl e"
      using putValue_invalid by blast
    then show ?thesis by (simp add: Let_def)
  qed
qed simp

text \<open>
  C33. The aggregated query groups the rows of the query layer, ordered by bucket, without loss:
  one result per bucket, in order, holding the value of every row of the bucket under the alias of
  its request. It fails exactly when a row has an unknown type or an index out of range.
\<close>

theorem get_signal_buckets:
  assumes ok: "validateAggSigArgs isEthrDID (Some args) = None"
    and q: "BackendAggregatedSignals q (Subject (AggSignalArgs args)) args = Inr rows"
    and srt: "sorted (map SigTimestamp rows)" and pos: "\<forall>s \<in> set rows. zeroTime < SigTimestamp s"
  shows "if \<forall>s \<in> set rows. validRow args s
    then GetSignal q isEthrDID (Some args) = Inr (map (\<lambda>t. bucket args t rows) (remdups_adj (map SigTimestamp rows)))
    else \<exists>e. GetSignal q isEthrDID (Some args) = Inl e"
proof (cases "\<forall>s \<in> set rows. validRow args s")
  case True
  have g: "GetSignal q isEthrDID (Some args) = getSignalLoop args zeroTime [] None rows"
    using ok q by (simp add: GetSignal_def)
  show ?thesis
  proof (cases rows)
    case Nil
    then show ?thesis using g by simp
  next
    case (Cons s rs)
    let ?c = "addRow args s (newAggs (SigTimestamp s))"
    have t: "SaTimestamp ?c = SigTimestamp s" by (simp add: newAggs_def)
    have ge: "\<forall>r \<in> set rs. SaTimestamp ?c \<le> SigTimestamp r" using srt Cons t by auto
    have b: "map (\<lambda>t. bucket args t (s # rs)) (remdups_adj (filter (\<lambda>t. SigTimestamp s < t) (map SigTimestamp rs)))
        = map (\<lambda>t. bucket args t rs) (remdups_adj (filter (\<lambda>t. SigTimestamp s < t) (map SigTimestamp rs)))"
      by (auto intro!: bucket_Cons_other)
    have "zeroTime \<noteq> SigTimestamp s" using pos Cons by auto
    then have "getSignalLoop args zeroTime [] None rows = getSignalLoop args (SaTimestamp ?c) [] (Some ?c) rs"
      using True Cons t by (simp add: putValue_valid go_defs)
    also have "\<dots> = Inr (fold (addRow args) (filter (\<lambda>r. SigTimestamp r = SigTimestamp s) rs) ?c
        # map (\<lambda>t. bucket args t (s # rs)) (remdups_adj (filter (\<lambda>t. SigTimestamp s < t) (map SigTimestamp rs))))"
      using getSignalLoop_valid [of rs args ?c "[]"] True Cons srt ge t b by simp
    also have "fold (addRow args) (filter (\<lambda>r. SigTimestamp r = SigTimestamp s) rs) ?c = bucket args (SigTimestamp s) (s # rs)"
      by (simp add: bucket_def)
    finally show ?thesis
      using g True Cons srt remdups_adj_sorted [of "SigTimestamp s" "map SigTimestamp rs"] by simp
  qed
next
  case False
  then show ?thesis using ok q getSignalLoop_invalid by (auto simp: GetSignal_def)
qed

definition demo_row_at :: "time \<Rightarrow> nat \<Rightarrow> rat \<Rightarrow> aggSignal" where
  "demo_row_at t i v = \<lparr>SignalType = FloatType, SignalIndex = i, SigTimestamp = t, ValueNumber = Fin v, ValueString = [],
     ValueLocation = \<lparr>VLatitude = Fin 0, VLongitude = Fin 0, VHDOP = Fin 0\<rparr>\<rparr>"

definition demo_backend :: signalBackend where
  "demo_backend = \<lparr>BackendAggregatedSignals = \<lambda>_ _. Inr [demo_row_at 10 0 1, demo_row_at 10 1 2, demo_row_at 20 0 3],
     BackendLatestSignals = \<lambda>_ _. Inr
       [\<lparr>SgName = ''speed'', SgTimestamp = 5, SgValueNumber = Fin 50, SgValueString = [],
         SgValueLocation = \<lparr>VLatitude = Fin 0, VLongitude = Fin 0, VHDOP = Fin 0\<rparr>\<rparr>,
        \<lparr>SgName = ''currentLocationCoordinates'', SgTimestamp = 6, SgValueNumber = Fin 0, SgValueString = [],
         SgValueLocation = \<lparr>VLatitude = Fin 12, VLongitude = Fin 34, VHDOP = Fin 1\<rparr>\<rparr>],
     BackendAllLatestSignals = \<lambda>_ _. Inr [], BackendAvailableSignals = \<lambda>_ _. Inr [],
     BackendSignalSummaries = \<lambda>_ _. Inr [], BackendEvents = \<lambda>_ _ _ _. Inr [], BackendEventSummaries = \<lambda>_. Inr []\<rparr>"

definition demo_floatArgs :: aggregatedSignalArgs where
  "demo_floatArgs = demo_aggArgs\<lparr>FloatArgs :=
     [\<lparr>FaName = ''speed'', FaAgg = ''MAX'', FaAlias = ''s'', FaFilter = None\<rparr>,
      \<lparr>FaName = ''speed'', FaAgg = ''MIN'', FaAlias = ''m'', FaFilter = None\<rparr>]\<rparr>"

theorem get_signal_buckets_witness:
  "\<exists>a b. GetSignal demo_backend (\<lambda>_. True) (Some demo_floatArgs) = Inr [a, b]
     \<and> SaTimestamp a = 10 \<and> ValueNumbers a = [''s'' \<mapsto> Fin 1, ''m'' \<mapsto> Fin 2] \<and> ValueNumbers b = [''s'' \<mapsto> Fin 3]"
proof -
  let ?rows = "[demo_row_at 10 0 1, demo_row_at 10 1 2, demo_row_at 20 0 3]"
  have ok: "validateAggSigArgs (\<lambda>_. True) (Some demo_floatArgs) = None"
    by (simp add: validateAggSigArgs_def demo_floatArgs_def demo_aggArgs_def go_defs Microseconds_def microsecond_def Sub_def
        sat64_def minInt64_def maxInt64_def quot_def maxAggBuckets_def maxUint16_def validateLocationArg_def validateCircle_def
        isFilterLocationValid_def f64_le_def f64_eq_def isNaN_def isInf_def validateSignalArgs_def validateFilter_def)
  have q: "BackendAggregatedSignals demo_backend (Subject (AggSignalArgs demo_floatArgs)) demo_floatArgs = Inr ?rows"
    by (simp add: demo_backend_def)
  have t: "map SigTimestamp ?rows = [10, 10, 20]" by (simp add: demo_row_at_def)
  have v: "\<forall>s \<in> set ?rows. validRow demo_floatArgs s"
    by (simp add: demo_row_at_def validRow_def demo_floatArgs_def fieldType_defs)
  have "GetSignal demo_backend (\<lambda>_. True) (Some demo_floatArgs)
      = Inr (map (\<lambda>t. bucket demo_floatArgs t ?rows) (remdups_adj (map SigTimestamp ?rows)))"
    using get_signal_buckets [OF ok q] v by (simp add: demo_row_at_def zeroTime_def)
  also have "remdups_adj (map SigTimestamp ?rows) = [10, 20]" unfolding t by simp
  finally show ?thesis
    by (simp add: bucket_def addRow_def aliasOf_def newAggs_def demo_row_at_def demo_floatArgs_def fieldType_defs)
qed

subsection \<open>The latest values\<close>

lemma lastSeen_no_field: "map_of collectionFields LastSeenField = None"
  by (simp add: collectionFields_def collectionFields1_def collectionFields2_def collectionFields3_def
      collectionFields4_def LastSeenField_def)

definition lastNamed :: "string \<Rightarrow> vssSignal list \<Rightarrow> vssSignal option" where
  "lastNamed n ss = (case filter (\<lambda>s. SgName s = n) (rev ss) of [] \<Rightarrow> None | s # _ \<Rightarrow> Some s)"

lemma CollFields_latest:
  "CollFields (fold latestStep ss emptyCollection) n =
     (case map_of collectionFields n of None \<Rightarrow> None | Some k \<Rightarrow> map_option (fieldOf k) (lastNamed n ss))"
proof (induction ss rule: rev_induct)
  case Nil
  show ?case by (simp add: emptyCollection_def lastNamed_def split: option.splits)
next
  case (snoc s ss)
  then show ?case using lastSeen_no_field
    by (auto simp: latestStep_def SetCollectionField_def lastNamed_def split: option.splits)
qed

lemma approx_latest: "CurrentLocationApproximateCoordinates (fold latestStep ss c) = CurrentLocationApproximateCoordinates c"
  by (induction ss arbitrary: c) (simp_all add: latestStep_def SetCollectionField_def split: option.splits)

lemma coordinates_field: "map_of collectionFields ''currentLocationCoordinates'' = Some LocationField"
  by (simp add: collectionFields_def collectionFields1_def collectionFields2_def collectionFields3_def collectionFields4_def)

text \<open>
  The latest query sets each field of the collection from the last row with its name, in the
  kind the schema gives the field, and no other; the approximate coordinates are the centre of the
  cell that contains the last exact fix, with that fix's time and dilution of precision, and are
  absent when there is no fix.
\<close>

theorem latest_query_fields:
  assumes "validateLatestSigArgs isEthrDID (Some args) = None"
    and "BackendLatestSignals q (Subject (LatestSignalArgs args)) args = Inr rows"
  shows "\<exists>coll. GetSignalLatest q h isEthrDID (Some args) = Inr coll
    \<and> (\<forall>n. CollFields coll n = (case map_of collectionFields n of None \<Rightarrow> None | Some k \<Rightarrow> map_option (fieldOf k) (lastNamed n rows)))
    \<and> CurrentLocationApproximateCoordinates coll = Option.bind (lastNamed ''currentLocationCoordinates'' rows)
        (\<lambda>s. Option.bind (LatLngToCell h (VLatitude (SgValueLocation s)) (VLongitude (SgValueLocation s)) 6)
          (\<lambda>cell. map_option (\<lambda>(lat, lng). \<lparr>Timestamp = SgTimestamp s,
              LocValue = Some \<lparr>Latitude = lat, Longitude = lng, Hdop = VHDOP (SgValueLocation s)\<rparr>\<rparr>) (CellToLatLng h cell)))"
proof -
  let ?c = "fold latestStep rows emptyCollection" and ?n = "''currentLocationCoordinates''"
  have f: "CollFields (setApproximateLocationInCollection h c) = CollFields c" for c
    by (simp add: setApproximateLocationInCollection_def split: option.splits fieldValue.splits)
  have n: "CurrentLocationApproximateCoordinates ?c = None" by (simp add: approx_latest emptyCollection_def)
  have x: "CollFields ?c ?n = map_option (fieldOf LocationField) (lastNamed ?n rows)"
    by (simp add: CollFields_latest coordinates_field)
  have "CurrentLocationApproximateCoordinates (setApproximateLocationInCollection h ?c) = Option.bind (lastNamed ?n rows)
        (\<lambda>s. Option.bind (LatLngToCell h (VLatitude (SgValueLocation s)) (VLongitude (SgValueLocation s)) 6)
          (\<lambda>cell. map_option (\<lambda>(lat, lng). \<lparr>Timestamp = SgTimestamp s,
              LocValue = Some \<lparr>Latitude = lat, Longitude = lng, Hdop = VHDOP (SgValueLocation s)\<rparr>\<rparr>) (CellToLatLng h cell)))"
    using n x by (cases "lastNamed ?n rows")
      (auto simp: setApproximateLocationInCollection_def GetApproximateLoc_def approximateLocationResolution_def fieldOf_def
        locOf_def split: option.splits)
  then show ?thesis using assms f CollFields_latest by (simp add: GetSignalLatest_def)
qed

theorem latest_query_fields_witness:
  "\<exists>coll. GetSignalLatest demo_backend \<lparr>LatLngToCell = \<lambda>a b r. Some 7, CellToLatLng = \<lambda>c. Some (Fin 10, Fin 30)\<rparr> (\<lambda>_. True)
      (Some \<lparr>LatestSignalArgs = \<lparr>Filter = None, Subject = ''veh''\<rparr>, SignalNames = [], LocationSignalNames = [], IncludeLastSeen = False\<rparr>) = Inr coll
    \<and> CollFields coll ''speed'' = Some (SignalFloat 5 (Fin 50))
    \<and> CurrentLocationApproximateCoordinates coll
      = Some \<lparr>Timestamp = 6, LocValue = Some \<lparr>Latitude = Fin 10, Longitude = Fin 30, Hdop = Fin 1\<rparr>\<rparr>"
proof -
  let ?args = "\<lparr>LatestSignalArgs = \<lparr>Filter = None, Subject = ''veh''\<rparr>, SignalNames = [], LocationSignalNames = [], IncludeLastSeen = False\<rparr>"
  let ?h = "\<lparr>LatLngToCell = \<lambda>a b r. Some 7, CellToLatLng = \<lambda>c. Some (Fin 10, Fin 30)\<rparr>"
  have v: "validateLatestSigArgs (\<lambda>_. True) (Some ?args) = None"
    by (simp add: validateLatestSigArgs_def validateSignalArgs_def validateFilter_def)
  have s: "map_of collectionFields ''speed'' = Some FloatField"
    by (simp add: collectionFields_def collectionFields1_def collectionFields2_def collectionFields3_def collectionFields4_def)
  obtain rows where r: "BackendLatestSignals demo_backend (Subject (LatestSignalArgs ?args)) ?args = Inr rows"
    and "lastNamed ''speed'' rows = Some \<lparr>SgName = ''speed'', SgTimestamp = 5, SgValueNumber = Fin 50, SgValueString = [],
         SgValueLocation = \<lparr>VLatitude = Fin 0, VLongitude = Fin 0, VHDOP = Fin 0\<rparr>\<rparr>"
    "lastNamed ''currentLocationCoordinates'' rows = Some \<lparr>SgName = ''currentLocationCoordinates'', SgTimestamp = 6,
         SgValueNumber = Fin 0, SgValueString = [],
         SgValueLocation = \<lparr>VLatitude = Fin 12, VLongitude = Fin 34, VHDOP = Fin 1\<rparr>\<rparr>"
    by (simp add: demo_backend_def lastNamed_def)
  then show ?thesis using latest_query_fields [OF v r, of ?h] s by (auto simp: fieldOf_def)
qed

end
