(* ===== verification/Mat_Coordinates.thy ===== *)
theory Mat_Coordinates
  imports Go_Time "HOL-Library.Product_Lexorder"
begin

section \<open>Pruning and merging decoded signals (internal/materializer/decode.go, location.go)\<close>

text \<open>
  What happens to the signals of one raw event between the vendor module and the decoded rows:
  \<open>pruneFutureAndDuplicateSignals\<close> and the coordinate merging of \<open>handleCoordinates\<close>. Both sort
  with an unstable sort, the argument \<open>srt\<close>; the clock is the argument \<open>now\<close>. An index that Go
  initialises with -1 is an option.

  Shown here: pruning leaves exactly one signal per time and name and none from the future, with one
  error for each signal it rejects; coordinate merging keeps all signals but the latitude, longitude and
  HDOP readings and adds exactly the locations of the triples these form, as long as the readings carry a
  time; a reading at the zero time is paired with one of any later time.
\<close>

subsection \<open>Data\<close>

record ceHeader =
  HSubject :: string
  HSource :: string
  HProducer :: string
  HType :: string
  HDataVersion :: string
  HID :: string
  HTime :: time

record decLocation =
  DlLatitude :: f64
  DlLongitude :: f64
  DlHDOP :: f64
  DlHeading :: f64

record decSignal =
  SHeader :: ceHeader
  SName :: string
  STimestamp :: time
  SCloudEventID :: string
  SNumber :: f64
  SString :: string
  SLocation :: decLocation

definition noLocation :: decLocation where
  "noLocation = \<lparr>DlLatitude = Fin 0, DlLongitude = Fin 0, DlHDOP = Fin 0, DlHeading = Fin 0\<rparr>"

definition emptyHeader :: ceHeader where
  "emptyHeader = \<lparr>HSubject = [], HSource = [], HProducer = [], HType = [], HDataVersion = [], HID = [], HTime = zeroTime\<rparr>"

definition pruneSignalName :: string where "pruneSignalName = ''___prune''"

definition pruneSignal :: decSignal where
  "pruneSignal = \<lparr>SHeader = emptyHeader, SName = pruneSignalName, STimestamp = zeroTime, SCloudEventID = [],
     SNumber = Fin 0, SString = [], SLocation = noLocation\<rparr>"

definition allowableTimeSkew :: duration where "allowableTimeSkew = 5 * minute"
definition maxLatLongDur :: duration where "maxLatLongDur = 500 * millisecond"

definition errFutureTimestamp :: goerr where "errFutureTimestamp = Err ''future timestamp''"
definition errLatLongMismatch :: goerr where "errLatLongMismatch = Err ''latitude and longitude mismatch''"

definition fieldCurrentLocationLatitude :: string where
  "fieldCurrentLocationLatitude = ''currentLocationLatitude''"
definition fieldCurrentLocationLongitude :: string where
  "fieldCurrentLocationLongitude = ''currentLocationLongitude''"
definition fieldDIMOAftermarketHDOP :: string where
  "fieldDIMOAftermarketHDOP = ''dimoAftermarketHDOP''"

lemmas field_defs = fieldCurrentLocationLatitude_def fieldCurrentLocationLongitude_def fieldDIMOAftermarketHDOP_def

text \<open>The key both sorts order by: the timestamp, then the name.\<close>

definition sigKey :: "decSignal \<Rightarrow> time \<times> string" where
  "sigKey s = (STimestamp s, SName s)"

subsection \<open>Pruning\<close>

definition isFutureTimestamp :: "time \<Rightarrow> time \<Rightarrow> bool" where
  "isFutureTimestamp now ts = After ts (Add now allowableTimeSkew)"

definition signalEqual :: "decSignal \<Rightarrow> decSignal \<Rightarrow> bool" where
  "signalEqual a b = (SName a = SName b \<and> Equal (STimestamp a) (STimestamp b))"

text \<open>The loop over the sorted signals: what each position becomes, and the errors.\<close>

fun pruneLoop :: "time \<Rightarrow> decSignal list \<Rightarrow> decSignal list \<times> goerr list" where
  "pruneLoop now [] = ([], [])"
| "pruneLoop now (s # rest) =
     (let (out, errs) = pruneLoop now rest in
      if isFutureTimestamp now (STimestamp s)
      then (pruneSignal # out, Wrap (SName s) errFutureTimestamp # errs)
      else (case rest of [] \<Rightarrow> s # out | n # _ \<Rightarrow> (if signalEqual s n then pruneSignal else s) # out, errs))"

definition pruneFutureAndDuplicateSignals ::
  "(decSignal list \<Rightarrow> decSignal list) \<Rightarrow> time \<Rightarrow> decSignal list \<Rightarrow> decSignal list \<times> goerr list" where
  "pruneFutureAndDuplicateSignals srt now signals =
     (let (marked, errs) = pruneLoop now (srt signals)
      in (filter (\<lambda>s. SName s \<noteq> pruneSignalName) marked, errs))"

subsection \<open>Coordinates\<close>

definition validLatLon :: "f64 \<Rightarrow> f64 \<Rightarrow> bool" where
  "validLatLon lat lon =
     (if isNaN lat \<or> isNaN lon \<or> isInf lat \<or> isInf lon then False
      else if f64_eq lat (Fin 0) \<and> f64_eq lon (Fin 0) then False
      else f64_le (Fin (- 90)) lat \<and> f64_le lat (Fin 90) \<and> f64_le (Fin (- 180)) lon \<and> f64_le lon (Fin 180))"

record coordinateStore =
  lastLat :: "nat option"
  lastLon :: "nat option"
  lastHDOP :: "nat option"
  lastTime :: time
  csSignals :: "decSignal list"
  created :: "decSignal list"
  csErrs :: "goerr list"

definition newCoordinateStore :: "decSignal list \<Rightarrow> coordinateStore" where
  "newCoordinateStore signals = \<lparr>lastLat = None, lastLon = None, lastHDOP = None, lastTime = zeroTime,
     csSignals = signals, created = [], csErrs = []\<rparr>"

definition pruneAt :: "nat \<Rightarrow> coordinateStore \<Rightarrow> coordinateStore" where
  "pruneAt i c = c\<lparr>csSignals := (csSignals c)[i := (csSignals c ! i)\<lparr>SName := pruneSignalName\<rparr>]\<rparr>"

definition addErr :: "string \<Rightarrow> coordinateStore \<Rightarrow> coordinateStore" where
  "addErr m c = c\<lparr>csErrs := csErrs c @ [Wrap m errLatLongMismatch]\<rparr>"

definition templateOf :: "coordinateStore \<Rightarrow> decSignal" where
  "templateOf c = (case lastLat c of Some i \<Rightarrow> csSignals c ! i
     | None \<Rightarrow> (case lastLon c of Some i \<Rightarrow> csSignals c ! i
     | None \<Rightarrow> (case lastHDOP c of Some i \<Rightarrow> csSignals c ! i | None \<Rightarrow> csSignals c ! 0)))"

text \<open>The pairing of latitude and longitude: the location so far, whether to create it, and the store.\<close>

definition pairLatLon :: "coordinateStore \<Rightarrow> decLocation \<times> bool \<times> coordinateStore" where
  "pairLatLon c =
     (case (lastLat c, lastLon c) of
        (Some i, Some j) \<Rightarrow>
          let lat = SNumber (csSignals c ! i); lon = SNumber (csSignals c ! j) in
          if \<not> validLatLon lat lon
          then (noLocation, False, addErr ''invalid coordinate'' (pruneAt j (pruneAt i c)))
          else (noLocation\<lparr>DlLatitude := lat, DlLongitude := lon\<rparr>, True, pruneAt j (pruneAt i c))
      | (Some i, None) \<Rightarrow> (noLocation, False, addErr ''unpaired latitude'' (pruneAt i c))
      | (None, Some j) \<Rightarrow> (noLocation, False, addErr ''unpaired longitude'' (pruneAt j c))
      | (None, None) \<Rightarrow> (noLocation, False, c))"

definition addHDOP :: "decLocation \<times> bool \<times> coordinateStore \<Rightarrow> decLocation \<times> bool \<times> coordinateStore" where
  "addHDOP = (\<lambda>(loc, create, c). case lastHDOP c of
      None \<Rightarrow> (loc, create, c)
    | Some k \<Rightarrow> (loc\<lparr>DlHDOP := SNumber (csSignals c ! k)\<rparr>, True, pruneAt k c))"

definition tryCreateLocation :: "string \<Rightarrow> coordinateStore \<Rightarrow> coordinateStore" where
  "tryCreateLocation coordinates c =
     (let template = templateOf c;
          (loc, create, c') = addHDOP (pairLatLon c);
          c' = (if create
                then c'\<lparr>created := created c' @ [\<lparr>SHeader = SHeader template, SName = coordinates, STimestamp = lastTime c,
                       SCloudEventID = SCloudEventID template, SNumber = Fin 0, SString = [], SLocation = loc\<rparr>]\<rparr>
                else c')
      in c'\<lparr>lastLat := None, lastLon := None, lastHDOP := None, lastTime := zeroTime\<rparr>)"

definition processSignal :: "string \<Rightarrow> nat \<Rightarrow> coordinateStore \<Rightarrow> coordinateStore" where
  "processSignal coordinates i c =
     (let sig = csSignals c ! i;
          c = (if \<not> IsZero (lastTime c) \<and> maxLatLongDur \<le> Sub (STimestamp sig) (lastTime c)
               then tryCreateLocation coordinates c else c);
          start = (\<lambda>c. if IsZero (lastTime c) then c\<lparr>lastTime := STimestamp sig\<rparr> else c)
      in if SName sig = fieldCurrentLocationLatitude
         then start ((if lastLat c \<noteq> None then tryCreateLocation coordinates c else c)\<lparr>lastLat := Some i\<rparr>)
         else if SName sig = fieldCurrentLocationLongitude
         then start ((if lastLon c \<noteq> None then tryCreateLocation coordinates c else c)\<lparr>lastLon := Some i\<rparr>)
         else if SName sig = fieldDIMOAftermarketHDOP
         then start ((if lastHDOP c \<noteq> None then tryCreateLocation coordinates c else c)\<lparr>lastHDOP := Some i\<rparr>)
         else c)"

definition processSignals ::
  "string \<Rightarrow> (decSignal list \<Rightarrow> decSignal list) \<Rightarrow> coordinateStore \<Rightarrow> decSignal list \<times> goerr list" where
  "processSignals coordinates srt c =
     (if csSignals c = [] then ([], [])
      else let c = c\<lparr>csSignals := srt (csSignals c)\<rparr>;
               c = fold (processSignal coordinates) [0..<length (csSignals c)] c;
               c = tryCreateLocation coordinates c
           in (filter (\<lambda>s. SName s \<noteq> pruneSignalName) (csSignals c) @ created c, csErrs c))"

definition handleCoordinates ::
  "string \<Rightarrow> (decSignal list \<Rightarrow> decSignal list) \<Rightarrow> decSignal list \<Rightarrow> decSignal list \<times> goerr list" where
  "handleCoordinates coordinates srt signals = processSignals coordinates srt (newCoordinateStore signals)"

subsection \<open>What pruning leaves\<close>

lemma not_signalEqual_key: "signalEqual a b \<longleftrightarrow> sigKey a = sigKey b"
  by (auto simp: signalEqual_def sigKey_def go_defs)

text \<open>The reference: the last signal of every run of equal keys, future ones and marks left out.\<close>

fun lastOfRuns :: "decSignal list \<Rightarrow> decSignal list" where
  "lastOfRuns [] = []"
| "lastOfRuns [s] = [s]"
| "lastOfRuns (s # n # rest) = (if sigKey s = sigKey n then lastOfRuns (n # rest) else s # lastOfRuns (n # rest))"

definition keepable :: "time \<Rightarrow> decSignal \<Rightarrow> bool" where
  "keepable now s = (\<not> isFutureTimestamp now (STimestamp s) \<and> SName s \<noteq> pruneSignalName)"

lemma pruneLoop_Cons:
  "fst (pruneLoop now (s # n # rest)) =
     (if isFutureTimestamp now (STimestamp s) \<or> sigKey s = sigKey n then pruneSignal else s) # fst (pruneLoop now (n # rest))"
  by (simp add: not_signalEqual_key Let_def split: prod.splits)

lemma pruneLoop_runs:
  "filter (\<lambda>s. SName s \<noteq> pruneSignalName) (fst (pruneLoop now xs)) = filter (keepable now) (lastOfRuns xs)"
proof (induction xs rule: lastOfRuns.induct)
  case (3 s n rest)
  have "keepable now s = keepable now n" if "sigKey s = sigKey n"
    using that by (simp add: keepable_def sigKey_def)
  moreover have "filter (\<lambda>s. SName s \<noteq> pruneSignalName) (fst (pruneLoop now (n # rest))) = filter (keepable now) (lastOfRuns (n # rest))"
    using 3 by (cases "sigKey s = sigKey n") simp_all
  ultimately show ?case unfolding pruneLoop_Cons lastOfRuns.simps
    by (simp add: keepable_def [of now s] pruneSignal_def del: pruneLoop.simps)
qed (auto simp: keepable_def pruneSignal_def)

lemma lastOfRuns_keys: "sigKey ` set (lastOfRuns xs) = sigKey ` set xs" "set (lastOfRuns xs) \<subseteq> set xs"
  by (induction xs rule: lastOfRuns.induct) auto

lemma lastOfRuns_strict:
  "sorted (map sigKey xs) \<Longrightarrow> sorted_wrt (<) (map sigKey (lastOfRuns xs))"
proof (induction xs rule: lastOfRuns.induct)
  case (3 s n rest)
  show ?case
  proof (cases "sigKey s = sigKey n")
    case True
    then show ?thesis using 3 by simp
  next
    case False
    have "\<forall>x \<in> set (n # rest). sigKey n \<le> sigKey x" using "3.prems" by auto
    moreover have "sigKey s < sigKey n" using "3.prems" False by (auto simp: less_le)
    moreover have "set (lastOfRuns (n # rest)) \<subseteq> set (n # rest)" by (rule lastOfRuns_keys)
    ultimately have "\<forall>x \<in> set (lastOfRuns (n # rest)). sigKey s < sigKey x" by fastforce
    then show ?thesis using 3 False by simp
  qed
qed simp_all

lemma pruneFuture_spec:
  assumes "slice_sort sigKey srt" and "pruneFutureAndDuplicateSignals srt now signals = (out, errs)"
  shows "sorted_wrt (<) (map sigKey out) \<and> set out \<subseteq> set signals
    \<and> sigKey ` set out = {sigKey s | s. s \<in> set signals \<and> STimestamp s \<le> now + allowableTimeSkew \<and> SName s \<noteq> pruneSignalName}"
proof -
  have set: "set (srt signals) = set signals" and srt: "sorted (map sigKey (srt signals))"
    using slice_sort.set_srt [OF assms(1)] slice_sort.srt_sorted [OF assms(1)] by blast+
  have out: "out = filter (keepable now) (lastOfRuns (srt signals))"
    using assms(2) pruneLoop_runs [of now "srt signals"]
    by (auto simp: pruneFutureAndDuplicateSignals_def split: prod.splits)
  have s: "sorted_wrt (<) (map sigKey out)"
    using lastOfRuns_strict [OF srt] by (simp add: out sorted_wrt_map sorted_wrt_filter)
  have k: "keepable now s \<longleftrightarrow> STimestamp s \<le> now + allowableTimeSkew \<and> SName s \<noteq> pruneSignalName" for s
    by (auto simp: keepable_def isFutureTimestamp_def go_defs)
  have kk: "sigKey s = sigKey t \<Longrightarrow> keepable now s = keepable now t" for s t
    by (simp add: keepable_def sigKey_def)
  have sub: "set (lastOfRuns (srt signals)) \<subseteq> set signals" using lastOfRuns_keys(2) set by blast
  have "sigKey ` set out = {sigKey s | s. s \<in> set signals \<and> keepable now s}"
  proof (rule set_eqI, rule iffI)
    fix x assume "x \<in> sigKey ` set out"
    then show "x \<in> {sigKey s | s. s \<in> set signals \<and> keepable now s}" using sub by (auto simp: out)
  next
    fix x assume "x \<in> {sigKey s | s. s \<in> set signals \<and> keepable now s}"
    then obtain s where x: "x = sigKey s" "s \<in> set signals" "keepable now s" by blast
    then have "x \<in> sigKey ` set (lastOfRuns (srt signals))" using lastOfRuns_keys(1) set by blast
    then obtain t where t: "x = sigKey t" "t \<in> set (lastOfRuns (srt signals))" by blast
    then have "keepable now t" using x(1,3) kk [of s t] by simp
    then show "x \<in> sigKey ` set out" using t by (auto simp: out)
  qed
  moreover have "set out \<subseteq> set signals" using sub by (auto simp: out)
  ultimately show ?thesis using s unfolding k by blast
qed

lemma pruneLoop_errs:
  "snd (pruneLoop now xs) = map (\<lambda>s. Wrap (SName s) errFutureTimestamp) (filter (\<lambda>s. isFutureTimestamp now (STimestamp s)) xs)"
  by (induction xs) (auto simp: Let_def split: prod.splits list.splits)

lemma pruneFuture_errs:
  assumes "slice_sort sigKey srt" and "pruneFutureAndDuplicateSignals srt now signals = (out, errs)"
  shows "mset errs = mset (map (\<lambda>s. Wrap (SName s) errFutureTimestamp) (filter (\<lambda>s. now + allowableTimeSkew < STimestamp s) signals))"
proof -
  have "errs = map (\<lambda>s. Wrap (SName s) errFutureTimestamp) (filter (\<lambda>s. isFutureTimestamp now (STimestamp s)) (srt signals))"
    using assms(2) pruneLoop_errs [of now "srt signals"]
    by (auto simp: pruneFutureAndDuplicateSignals_def split: prod.splits)
  then show ?thesis using slice_sort.srt_perm [OF assms(1), of signals]
    by (simp add: mset_filter isFutureTimestamp_def go_defs)
qed

text \<open>
  C39. However the sort orders equal signals, pruning leaves signals of the input with strictly
  increasing time and name, so one for each pair. The pairs left are exactly those of the input
  that are at most five minutes in the future and do not bear the name that marks a pruned
  signal. The errors reported are one for each signal further in the future, naming it; a
  duplicate is dropped without one.
\<close>

theorem prune_signals:
  assumes "slice_sort sigKey srt" and "pruneFutureAndDuplicateSignals srt now signals = (out, errs)"
  shows "sorted_wrt (<) (map sigKey out) \<and> set out \<subseteq> set signals
    \<and> sigKey ` set out = {sigKey s | s. s \<in> set signals \<and> STimestamp s \<le> now + allowableTimeSkew \<and> SName s \<noteq> pruneSignalName}
    \<and> mset errs = mset (map (\<lambda>s. Wrap (SName s) errFutureTimestamp) (filter (\<lambda>s. now + allowableTimeSkew < STimestamp s) signals))"
  using pruneFuture_spec [OF assms] pruneFuture_errs [OF assms] by blast

definition demo_prune :: "decSignal list" where
  "demo_prune = [pruneSignal\<lparr>SName := ''b'', STimestamp := 7\<rparr>, pruneSignal\<lparr>SName := ''a'', STimestamp := 7\<rparr>,
     pruneSignal\<lparr>SName := ''b'', STimestamp := 7\<rparr>, pruneSignal\<lparr>SName := ''c'', STimestamp := 6 * minute\<rparr>]"

theorem prune_signals_witness:
  "map sigKey (fst (pruneFutureAndDuplicateSignals (sort_key sigKey) 0 demo_prune)) = [(7, ''a''), (7, ''b'')]
    \<and> snd (pruneFutureAndDuplicateSignals (sort_key sigKey) 0 demo_prune) = [Wrap ''c'' errFutureTimestamp]"
proof -
  obtain out errs where o: "pruneFutureAndDuplicateSignals (sort_key sigKey) 0 demo_prune = (out, errs)" by fastforce
  note p = prune_signals [OF slice_sort_sort_key o]
  have "{sigKey s | s. s \<in> set demo_prune \<and> STimestamp s \<le> 0 + allowableTimeSkew \<and> SName s \<noteq> pruneSignalName}
      = sigKey ` set (filter (\<lambda>s. STimestamp s \<le> 0 + allowableTimeSkew \<and> SName s \<noteq> pruneSignalName) demo_prune)"
    by auto
  also have "\<dots> = {(7, ''a''), (7, ''b'')}"
    by (auto simp: demo_prune_def sigKey_def allowableTimeSkew_def minute_def pruneSignalName_def)
  finally have "set (map sigKey out) = {(7, ''a''), (7, ''b'')}" using p by simp
  also have "\<dots> = set [(7::time, ''a''), (7, ''b'')]" by simp
  finally have "map sigKey out = [(7, ''a''), (7, ''b'')]"
    using p by (intro strict_sorted_equal) simp_all
  moreover have "mset errs = {#Wrap ''c'' errFutureTimestamp#}"
    using p by (simp add: demo_prune_def allowableTimeSkew_def minute_def)
  ultimately show ?thesis using o by simp
qed

subsection \<open>What coordinate merging does\<close>

definition partName :: "string \<Rightarrow> bool" where
  "partName n = (n = fieldCurrentLocationLatitude \<or> n = fieldCurrentLocationLongitude \<or> n = fieldDIMOAftermarketHDOP)"

definition partIdx :: "coordinateStore \<Rightarrow> nat set" where
  "partIdx c = set_option (lastLat c) \<union> set_option (lastLon c) \<union> set_option (lastHDOP c)"

definition pruned :: "decSignal \<Rightarrow> decSignal" where "pruned s = s\<lparr>SName := pruneSignalName\<rparr>"

lemma pruned_simps [simp]:
  "SName (pruned s) = pruneSignalName" "SNumber (pruned s) = SNumber s" "STimestamp (pruned s) = STimestamp s"
  "pruned (pruned s) = pruned s"
  by (simp_all add: pruned_def)

lemma prune_not_part [simp]: "\<not> partName pruneSignalName"
  by (simp add: partName_def field_defs pruneSignalName_def)

lemma pruneAt_simps [simp]:
  "lastLat (pruneAt i c) = lastLat c" "lastLon (pruneAt i c) = lastLon c" "lastHDOP (pruneAt i c) = lastHDOP c"
  "created (pruneAt i c) = created c" "lastTime (pruneAt i c) = lastTime c"
  "length (csSignals (pruneAt i c)) = length (csSignals c)"
  "csSignals (addErr m c) = csSignals c" "lastHDOP (addErr m c) = lastHDOP c" "created (addErr m c) = created c"
  by (simp_all add: pruneAt_def addErr_def)

lemma nth_pruneAt:
  "j < length (csSignals c) \<Longrightarrow> csSignals (pruneAt i c) ! j = (if i = j then pruned (csSignals c ! j) else csSignals c ! j)"
  by (simp add: pruneAt_def pruned_def)

lemma SNumber_pruneAt [simp]: "SNumber (csSignals (pruneAt i c) ! k) = SNumber (csSignals c ! k)"
  by (cases "i < length (csSignals c)") (auto simp: pruneAt_def nth_list_update list_update_beyond not_less)

text \<open>The location of a triple, from the latitude, longitude and HDOP it has.\<close>

definition locationOf :: "f64 option \<Rightarrow> f64 option \<Rightarrow> f64 option \<Rightarrow> decLocation option" where
  "locationOf lat lon hdop =
     (let pos = (case (lat, lon) of
            (Some a, Some b) \<Rightarrow> if validLatLon a b then Some (noLocation\<lparr>DlLatitude := a, DlLongitude := b\<rparr>) else None
          | _ \<Rightarrow> None)
      in case hdop of None \<Rightarrow> pos
         | Some h \<Rightarrow> Some ((case pos of None \<Rightarrow> noLocation | Some l \<Rightarrow> l)\<lparr>DlHDOP := h\<rparr>))"

definition slotNumber :: "coordinateStore \<Rightarrow> nat option \<Rightarrow> f64 option" where
  "slotNumber c slot = map_option (\<lambda>k. SNumber (csSignals c ! k)) slot"

abbreviation slotLocation :: "coordinateStore \<Rightarrow> decLocation option" where
  "slotLocation c \<equiv> locationOf (slotNumber c (lastLat c)) (slotNumber c (lastLon c)) (slotNumber c (lastHDOP c))"

lemma try_created:
  "created (tryCreateLocation co c) = created c @ (case slotLocation c of None \<Rightarrow> []
     | Some loc \<Rightarrow> [\<lparr>SHeader = SHeader (templateOf c), SName = co, STimestamp = lastTime c,
          SCloudEventID = SCloudEventID (templateOf c), SNumber = Fin 0, SString = [], SLocation = loc\<rparr>])"
  by (cases "lastLat c"; cases "lastLon c"; cases "lastHDOP c")
    (simp_all add: tryCreateLocation_def addHDOP_def pairLatLon_def locationOf_def slotNumber_def Let_def)

lemma try_signals:
  "length (csSignals (tryCreateLocation co c)) = length (csSignals c)"
  "j < length (csSignals c) \<Longrightarrow>
     csSignals (tryCreateLocation co c) ! j = (if j \<in> partIdx c then pruned (csSignals c ! j) else csSignals c ! j)"
  by (cases "lastLat c"; cases "lastLon c"; cases "lastHDOP c";
      auto simp: tryCreateLocation_def addHDOP_def pairLatLon_def partIdx_def Let_def nth_pruneAt)+

lemma try_reset [simp]:
  "lastLat (tryCreateLocation co c) = None" "lastLon (tryCreateLocation co c) = None"
  "lastHDOP (tryCreateLocation co c) = None" "lastTime (tryCreateLocation co c) = zeroTime"
  by (simp_all add: tryCreateLocation_def Let_def split: prod.splits)

lemma slotLocation_part: "slotLocation c = Some loc \<Longrightarrow> partIdx c \<noteq> {}"
  by (cases "lastLat c"; cases "lastHDOP c") (auto simp: locationOf_def slotNumber_def partIdx_def)

subsubsection \<open>The parts are consumed\<close>

definition coordInv :: "string \<Rightarrow> decSignal list \<Rightarrow> nat \<Rightarrow> coordinateStore \<Rightarrow> bool" where
  "coordInv co xs i c =
     (length (csSignals c) = length xs
    \<and> (\<forall>j < length xs. csSignals c ! j = xs ! j \<or> j < i \<and> partName (SName (xs ! j)) \<and> csSignals c ! j = pruned (xs ! j))
    \<and> (\<forall>j < i. j < length xs \<longrightarrow> partName (SName (csSignals c ! j)) \<longrightarrow> j \<in> partIdx c)
    \<and> (\<forall>j \<in> partIdx c. j < i \<and> partName (SName (xs ! j)))
    \<and> lastTime c \<in> insert zeroTime (STimestamp ` set xs)
    \<and> (partIdx c \<noteq> {} \<longrightarrow> lastTime c \<in> STimestamp ` set xs)
    \<and> (\<forall>l \<in> set (created c). SName l = co \<and> STimestamp l \<in> STimestamp ` set xs))"

lemma coordInv_try:
  assumes "coordInv co xs i c"
  shows "coordInv co xs i (tryCreateLocation co c)"
proof -
  let ?t = "tryCreateLocation co c"
  have len: "length (csSignals c) = length xs"
    and sig: "\<And>j. j < length xs \<Longrightarrow> csSignals c ! j = xs ! j \<or> j < i \<and> partName (SName (xs ! j)) \<and> csSignals c ! j = pruned (xs ! j)"
    and un: "\<And>j. j < i \<Longrightarrow> j < length xs \<Longrightarrow> partName (SName (csSignals c ! j)) \<Longrightarrow> j \<in> partIdx c"
    and part: "\<And>j. j \<in> partIdx c \<Longrightarrow> j < i \<and> partName (SName (xs ! j))"
    and time: "partIdx c \<noteq> {} \<Longrightarrow> lastTime c \<in> STimestamp ` set xs"
    and cr: "\<forall>l \<in> set (created c). SName l = co \<and> STimestamp l \<in> STimestamp ` set xs"
    using assms by (auto simp: coordInv_def)
  have "csSignals ?t ! j = xs ! j \<or> j < i \<and> partName (SName (xs ! j)) \<and> csSignals ?t ! j = pruned (xs ! j)"
    if "j < length xs" for j
    using sig [OF that] part [of j] that len try_signals(2) [of j c co] by (cases "j \<in> partIdx c") auto
  moreover have "\<not> partName (SName (csSignals ?t ! j))" if "j < i" "j < length xs" for j
    using un [OF that] that len try_signals(2) [of j c co] by auto
  moreover have "\<forall>l \<in> set (created ?t). SName l = co \<and> STimestamp l \<in> STimestamp ` set xs"
    using cr time slotLocation_part [of c] by (cases "slotLocation c") (auto simp: try_created)
  ultimately show ?thesis using len try_signals(1) [of co c] by (simp add: coordInv_def partIdx_def)
qed

lemma coordInv_put:
  assumes inv: "coordInv co xs i c" and i: "i < length xs" "partName (SName (xs ! i))"
    and c': "csSignals c' = csSignals c" "created c' = created c"
      "lastTime c' = (if IsZero (lastTime c) then STimestamp (xs ! i) else lastTime c)"
      "partIdx c' = insert i (partIdx c)"
  shows "coordInv co xs (Suc i) c'"
proof -
  have "csSignals c ! i = xs ! i" using inv i(1) unfolding coordInv_def by auto
  moreover have "lastTime c' \<in> STimestamp ` set xs"
    using inv i(1) c'(3) by (auto simp: coordInv_def IsZero_def zeroTime_def)
  ultimately show ?thesis
    using inv i c'(1,2,4) unfolding coordInv_def by (auto simp: less_Suc_eq)
qed

lemma coordInv_skip:
  assumes "coordInv co xs i c" and "i < length xs" and "\<not> partName (SName (xs ! i))"
  shows "coordInv co xs (Suc i) c"
proof -
  have "csSignals c ! i = xs ! i" using assms(1,2) by (auto simp: coordInv_def)
  then show ?thesis using assms unfolding coordInv_def by (auto simp: less_Suc_eq)
qed

lemma partIdx_update:
  "lastLat c = None \<Longrightarrow> partIdx (c\<lparr>lastLat := Some i\<rparr>) = insert i (partIdx c)"
  "lastLon c = None \<Longrightarrow> partIdx (c\<lparr>lastLon := Some i\<rparr>) = insert i (partIdx c)"
  "lastHDOP c = None \<Longrightarrow> partIdx (c\<lparr>lastHDOP := Some i\<rparr>) = insert i (partIdx c)"
  "partIdx (c\<lparr>lastTime := t\<rparr>) = partIdx c" "partIdx (tryCreateLocation co c) = {}"
  by (auto simp: partIdx_def)

text \<open>The store after the time gap is looked at, and the store a part is then put into.\<close>

definition afterGap :: "string \<Rightarrow> decSignal \<Rightarrow> coordinateStore \<Rightarrow> coordinateStore" where
  "afterGap co s c = (if \<not> IsZero (lastTime c) \<and> maxLatLongDur \<le> Sub (STimestamp s) (lastTime c)
     then tryCreateLocation co c else c)"

definition slotOf :: "string \<Rightarrow> coordinateStore \<Rightarrow> nat option" where
  "slotOf n c = (if n = fieldCurrentLocationLatitude then lastLat c
     else if n = fieldCurrentLocationLongitude then lastLon c
     else if n = fieldDIMOAftermarketHDOP then lastHDOP c else None)"

definition putPart :: "string \<Rightarrow> nat \<Rightarrow> time \<Rightarrow> coordinateStore \<Rightarrow> coordinateStore" where
  "putPart n i t c =
     (let c' = (if n = fieldCurrentLocationLatitude then c\<lparr>lastLat := Some i\<rparr>
        else if n = fieldCurrentLocationLongitude then c\<lparr>lastLon := Some i\<rparr> else c\<lparr>lastHDOP := Some i\<rparr>)
      in if IsZero (lastTime c') then c'\<lparr>lastTime := t\<rparr> else c')"

lemma processSignal_steps:
  "processSignal co i c =
     (let s = csSignals c ! i; c1 = afterGap co s c;
          c2 = (if slotOf (SName s) c1 \<noteq> None then tryCreateLocation co c1 else c1)
      in if partName (SName s) then putPart (SName s) i (STimestamp s) c2 else c1)"
  by (simp add: processSignal_def afterGap_def slotOf_def putPart_def partName_def field_defs Let_def)

lemma putPart_simps:
  "csSignals (putPart n i t c) = csSignals c" "created (putPart n i t c) = created c"
  "lastTime (putPart n i t c) = (if IsZero (lastTime c) then t else lastTime c)"
  "partName n \<Longrightarrow> slotOf n c = None \<Longrightarrow> partIdx (putPart n i t c) = insert i (partIdx c)"
  by (auto simp: putPart_def slotOf_def partName_def partIdx_update field_defs Let_def split: if_splits)

lemma putPart_slots:
  "lastLat (putPart n i t c) = (if n = fieldCurrentLocationLatitude then Some i else lastLat c)"
  "lastLon (putPart n i t c) = (if n = fieldCurrentLocationLongitude then Some i else lastLon c)"
  "partName n \<Longrightarrow> lastHDOP (putPart n i t c) = (if n = fieldDIMOAftermarketHDOP then Some i else lastHDOP c)"
  by (auto simp: putPart_def partName_def field_defs Let_def)

lemma coordInv_step:
  assumes inv: "coordInv co xs i c" and i: "i < length xs"
  shows "coordInv co xs (Suc i) (processSignal co i c)"
proof -
  have ii: "csSignals c ! i = xs ! i" using inv i by (auto simp: coordInv_def)
  let ?c1 = "afterGap co (xs ! i) c"
  let ?c2 = "if slotOf (SName (xs ! i)) ?c1 \<noteq> None then tryCreateLocation co ?c1 else ?c1"
  have inv1: "coordInv co xs i ?c1" using inv coordInv_try by (simp add: afterGap_def)
  have inv2: "coordInv co xs i ?c2" using inv1 coordInv_try by simp
  have none: "slotOf (SName (xs ! i)) ?c2 = None" by (simp add: slotOf_def)
  show ?thesis
  proof (cases "partName (SName (xs ! i))")
    case True
    then show ?thesis using coordInv_put [OF inv2 i True putPart_simps(1-3) putPart_simps(4) [OF True none]]
      by (simp add: processSignal_steps ii Let_def)
  qed (use coordInv_skip [OF inv1 i] in \<open>simp add: processSignal_steps ii Let_def\<close>)
qed

lemma coordInv_fold:
  "n \<le> length xs \<Longrightarrow> coordInv co xs n (fold (processSignal co) [0..<n] (newCoordinateStore xs))"
proof (induction n)
  case 0
  then show ?case by (simp add: coordInv_def newCoordinateStore_def partIdx_def)
qed (simp add: coordInv_step)

lemma filter_pruned:
  assumes "length ys = length xs" "\<forall>j < length xs. ys ! j = xs ! j \<and> \<not> partName (SName (xs ! j)) \<or> partName (SName (xs ! j)) \<and> ys ! j = pruned (xs ! j)"
  shows "filter (\<lambda>s. SName s \<noteq> pruneSignalName) ys = filter (\<lambda>s. SName s \<noteq> pruneSignalName \<and> \<not> partName (SName s)) xs"
  using assms
proof (induction ys xs rule: list_induct2)
  case (Cons y ys x xs)
  have "ys ! j = xs ! j \<and> \<not> partName (SName (xs ! j)) \<or> partName (SName (xs ! j)) \<and> ys ! j = pruned (xs ! j)" if "j < length xs" for j
    using Cons.prems [rule_format, of "Suc j"] that by simp
  moreover have "y = x \<and> \<not> partName (SName x) \<or> partName (SName x) \<and> y = pruned x" using Cons.prems [rule_format, of 0] by simp
  ultimately show ?case using Cons.IH by auto
qed simp

text \<open>The locations the loop creates over sorted signals.\<close>

definition createdBy :: "string \<Rightarrow> decSignal list \<Rightarrow> decSignal list" where
  "createdBy co xs = created (tryCreateLocation co (fold (processSignal co) [0..<length xs] (newCoordinateStore xs)))"

text \<open>
  Whatever the timestamps are, the parts leave the batch and everything else stays; a created
  location carries the time of a signal of the batch.
\<close>

lemma handleCoordinates_parts:
  assumes srt: "slice_sort sigKey srt" and h: "handleCoordinates co srt signals = (out, errs)"
  shows "\<exists>added. out = filter (\<lambda>s. SName s \<noteq> pruneSignalName \<and> \<not> partName (SName s)) (srt signals) @ added
    \<and> (\<forall>l \<in> set added. SName l = co \<and> STimestamp l \<in> STimestamp ` set signals)
    \<and> (signals \<noteq> [] \<longrightarrow> added = createdBy co (srt signals)) \<and> (signals = [] \<longrightarrow> added = [])"
proof (cases "signals = []")
  case True
  then show ?thesis
    using h slice_sort.srt_Nil [OF srt] by (simp add: handleCoordinates_def processSignals_def newCoordinateStore_def)
next
  case False
  let ?xs = "srt signals"
  have set: "set ?xs = set signals" by (rule slice_sort.set_srt [OF srt])
  let ?t = "tryCreateLocation co (fold (processSignal co) [0..<length ?xs] (newCoordinateStore ?xs))"
  have inv: "coordInv co ?xs (length ?xs) ?t" by (intro coordInv_try coordInv_fold) simp
  have out: "out = filter (\<lambda>s. SName s \<noteq> pruneSignalName) (csSignals ?t) @ createdBy co ?xs"
    using h False by (simp add: handleCoordinates_def processSignals_def newCoordinateStore_def createdBy_def Let_def)
  have len: "length (csSignals ?t) = length ?xs"
    and sig: "\<And>j. j < length ?xs \<Longrightarrow> csSignals ?t ! j = ?xs ! j \<or> partName (SName (?xs ! j)) \<and> csSignals ?t ! j = pruned (?xs ! j)"
    and cr: "\<forall>l \<in> set (createdBy co ?xs). SName l = co \<and> STimestamp l \<in> STimestamp ` set signals"
    using inv by (auto simp: coordInv_def createdBy_def set)
  have "\<not> partName (SName (csSignals ?t ! j))" if "j < length ?xs" for j
    using inv that partIdx_update(5) by (auto simp: coordInv_def)
  then have "\<forall>j < length ?xs. csSignals ?t ! j = ?xs ! j \<and> \<not> partName (SName (?xs ! j))
      \<or> partName (SName (?xs ! j)) \<and> csSignals ?t ! j = pruned (?xs ! j)"
    using sig by metis
  then show ?thesis using out filter_pruned [OF len] cr False by simp
qed

subsubsection \<open>The triples\<close>

text \<open>
  The reference: the parts in time order fall into triples; a part opens a new one when the first
  part of the current triple is 500 ms or more before it, or has a part of its name already.
\<close>

fun triples :: "decSignal list \<Rightarrow> decSignal list \<Rightarrow> decSignal list list" where
  "triples g [] = (if g = [] then [] else [g])"
| "triples g (s # ss) =
     (if g \<noteq> [] \<and> (STimestamp (hd g) + maxLatLongDur \<le> STimestamp s \<or> SName s \<in> SName ` set g)
      then g # triples [s] ss else triples (g @ [s]) ss)"

definition partOf :: "decSignal list \<Rightarrow> string \<Rightarrow> f64 option" where
  "partOf g n = map_of (map (\<lambda>s. (SName s, SNumber s)) g) n"

definition tripleAt :: "decSignal list \<Rightarrow> (time \<times> decLocation) option" where
  "tripleAt g = map_option (\<lambda>loc. (STimestamp (hd g), loc))
     (locationOf (partOf g fieldCurrentLocationLatitude) (partOf g fieldCurrentLocationLongitude)
        (partOf g fieldDIMOAftermarketHDOP))"

definition locationsOf :: "decSignal list \<Rightarrow> (time \<times> decLocation) list" where
  "locationsOf parts = List.map_filter tripleAt (triples [] parts)"

abbreviation timeLoc :: "decSignal \<Rightarrow> time \<times> decLocation" where
  "timeLoc l \<equiv> (STimestamp l, SLocation l)"

text \<open>The store before signal \<open>i\<close> holds the open triple \<open>g\<close>.\<close>

definition holdsTriple :: "decSignal list \<Rightarrow> nat \<Rightarrow> coordinateStore \<Rightarrow> decSignal list \<Rightarrow> bool" where
  "holdsTriple xs i c g =
     (length (csSignals c) = length xs \<and> (\<forall>j < length xs. i \<le> j \<longrightarrow> csSignals c ! j = xs ! j)
    \<and> slotNumber c (lastLat c) = partOf g fieldCurrentLocationLatitude
    \<and> slotNumber c (lastLon c) = partOf g fieldCurrentLocationLongitude
    \<and> slotNumber c (lastHDOP c) = partOf g fieldDIMOAftermarketHDOP
    \<and> partIdx c \<subseteq> {..<i}
    \<and> lastTime c = (if g = [] then zeroTime else STimestamp (hd g)) \<and> zeroTime \<notin> STimestamp ` set g)"

lemma partOf_Nil [simp]: "partOf [] n = None"
  by (simp add: partOf_def)

lemma partOf_snoc: "SName s \<notin> SName ` set g \<Longrightarrow> partOf (g @ [s]) n = (if n = SName s then Some (SNumber s) else partOf g n)"
proof -
  assume "SName s \<notin> SName ` set g"
  then have "map_of (map (\<lambda>s. (SName s, SNumber s)) g) (SName s) = None" by (simp add: map_of_eq_None_iff image_image)
  then show ?thesis by (auto simp: partOf_def map_add_def split: option.splits)
qed

lemma holdsTriple_slot:
  assumes "holdsTriple xs i c g" "partName n"
  shows "slotOf n c = None \<longleftrightarrow> n \<notin> SName ` set g"
proof -
  have "partOf g n = None \<longleftrightarrow> n \<notin> SName ` set g" by (simp add: partOf_def map_of_eq_None_iff image_image)
  moreover have "slotNumber c (slotOf n c) = partOf g n" using assms by (auto simp: holdsTriple_def slotOf_def partName_def)
  ultimately show ?thesis by (auto simp: slotNumber_def)
qed

lemma holdsTriple_try:
  assumes "holdsTriple xs i c g"
  shows "holdsTriple xs i (tryCreateLocation co c) []"
    and "map timeLoc (created (tryCreateLocation co c)) = map timeLoc (created c) @ (if g = [] then [] else List.map_filter tripleAt [g])"
proof -
  have "csSignals (tryCreateLocation co c) ! j = xs ! j" if "j < length xs" "i \<le> j" for j
    using assms that try_signals(2) [of j c co] by (auto simp: holdsTriple_def)
  then show "holdsTriple xs i (tryCreateLocation co c) []"
    using assms by (auto simp: holdsTriple_def try_signals slotNumber_def partIdx_def)
  show "map timeLoc (created (tryCreateLocation co c)) = map timeLoc (created c) @ (if g = [] then [] else List.map_filter tripleAt [g])"
  proof (cases "g = []")
    case True
    then show ?thesis using assms by (simp add: try_created holdsTriple_def locationOf_def)
  next
    case False
    then show ?thesis using assms
      by (simp add: try_created holdsTriple_def tripleAt_def List.map_filter_def split: option.splits)
  qed
qed

lemma holdsTriple_put:
  assumes h: "holdsTriple xs i c g" and i: "i < length xs" "partName (SName (xs ! i))" "SName (xs ! i) \<notin> SName ` set g"
    and nz: "STimestamp (xs ! i) \<noteq> zeroTime"
  shows "holdsTriple xs (Suc i) (putPart (SName (xs ! i)) i (STimestamp (xs ! i)) c) (g @ [xs ! i])"
proof -
  let ?c = "putPart (SName (xs ! i)) i (STimestamp (xs ! i)) c"
  have ii: "csSignals c ! i = xs ! i" using h i(1) by (simp add: holdsTriple_def)
  have num: "slotNumber ?c s = slotNumber c s" for s by (simp add: slotNumber_def putPart_simps)
  have "partIdx ?c = insert i (partIdx c)"
    by (rule putPart_simps(4)) (use i holdsTriple_slot [OF h] in simp_all)
  moreover have "lastTime ?c = STimestamp (hd (g @ [xs ! i]))"
    using h hd_in_set [of g] by (cases "g = []") (auto simp: putPart_simps holdsTriple_def IsZero_def zeroTime_def hd_append)
  moreover have "slotNumber ?c (Some i) = Some (SNumber (xs ! i))" by (simp add: slotNumber_def putPart_simps ii)
  ultimately show ?thesis
    using h nz i unfolding holdsTriple_def
    by (auto simp: putPart_simps putPart_slots num partOf_snoc [OF i(3)])
qed

lemma triples_late:
  "g \<noteq> [] \<Longrightarrow> \<forall>s \<in> set ss. STimestamp (hd g) + maxLatLongDur \<le> STimestamp s \<Longrightarrow> triples g ss = g # triples [] ss"
  by (cases ss) auto

lemma afterGap_triple:
  assumes h: "holdsTriple xs i c g" and late: "\<forall>s' \<in> set ss. STimestamp s \<le> STimestamp s'"
    and first: "\<forall>p \<in> set g. STimestamp p \<le> STimestamp s"
  obtains g' where "holdsTriple xs i (afterGap co s c) g'" "g' = [] \<or> g' = g \<and> (g = [] \<or> STimestamp s < STimestamp (hd g) + maxLatLongDur)"
    "map timeLoc (created (afterGap co s c)) @ List.map_filter tripleAt (triples g' ss)
       = map timeLoc (created c) @ List.map_filter tripleAt (triples g ss)"
proof (cases "\<not> IsZero (lastTime c) \<and> maxLatLongDur \<le> Sub (STimestamp s) (lastTime c)")
  case True
  then have g: "g \<noteq> []" "lastTime c = STimestamp (hd g)" using h by (auto simp: holdsTriple_def IsZero_def zeroTime_def split: if_splits)
  have "STimestamp (hd g) + maxLatLongDur \<le> STimestamp s"
    using True g(2) by (simp add: Sub_def sat64_ge_iff minInt64_def maxInt64_def maxLatLongDur_def millisecond_def)
  then have "triples g ss = g # triples [] ss" using triples_late [OF g(1)] late by force
  then show ?thesis using that [of "[]"] holdsTriple_try [OF h, of co] True g(1)
    by (simp add: afterGap_def List.map_filter_def)
next
  case False
  have "g = [] \<or> STimestamp s < STimestamp (hd g) + maxLatLongDur"
  proof (cases "g = []")
    case ne: False
    then have "STimestamp (hd g) \<noteq> zeroTime" using h hd_in_set [OF ne] unfolding holdsTriple_def by (metis imageI)
    then have l: "lastTime c = STimestamp (hd g)" "lastTime c \<noteq> zeroTime" using h ne by (auto simp: holdsTriple_def)
    moreover have "STimestamp (hd g) \<le> STimestamp s" using first hd_in_set [OF ne] by blast
    ultimately show ?thesis
      using False by (simp add: Sub_def sat64_ge_iff IsZero_def zeroTime_def minInt64_def maxInt64_def maxLatLongDur_def millisecond_def)
  qed simp
  moreover have "afterGap co s c = c" using False by (auto simp: afterGap_def)
  ultimately show ?thesis using that [of g] h by simp
qed

lemma fold_triples:
  assumes "sorted (map STimestamp xs)" "\<forall>s \<in> set xs. partName (SName s) \<longrightarrow> STimestamp s \<noteq> zeroTime"
    "i \<le> length xs" "holdsTriple xs i c g" "\<forall>p \<in> set g. \<forall>s \<in> set (drop i xs). STimestamp p \<le> STimestamp s"
  shows "map timeLoc (created (tryCreateLocation co (fold (processSignal co) [i..<length xs] c)))
     = map timeLoc (created c) @ List.map_filter tripleAt (triples g (filter (\<lambda>s. partName (SName s)) (drop i xs)))"
  using assms(3-5)
proof (induction "length xs - i" arbitrary: i c g)
  case 0
  then show ?case using holdsTriple_try(2) [of xs i c g co] by (auto simp: List.map_filter_def)
next
  case (Suc n)
  let ?s = "xs ! i" and ?rest = "drop (Suc i) xs"
  have i: "i < length xs" using Suc.hyps(2) by simp
  have d: "drop i xs = ?s # ?rest" by (simp add: Cons_nth_drop_Suc i)
  have fold: "fold (processSignal co) [i..<length xs] c = fold (processSignal co) [Suc i..<length xs] (processSignal co i c)"
    using i by (simp add: upt_conv_Cons)
  have "sorted (map STimestamp (drop i xs))" using assms(1) by (metis drop_map sorted_wrt_drop)
  then have ord: "\<forall>s' \<in> set ?rest. STimestamp ?s \<le> STimestamp s'" by (simp add: d)
  have ii: "csSignals c ! i = ?s" using Suc.prems(2) i by (simp add: holdsTriple_def)
  have first: "\<forall>p \<in> set g. STimestamp p \<le> STimestamp ?s" using Suc.prems(3) by (simp add: d)
  let ?ps = "filter (\<lambda>s. partName (SName s)) (drop i xs)"
  have "\<forall>s' \<in> set ?ps. STimestamp ?s \<le> STimestamp s'" using ord by (auto simp: d)
  then obtain g' where g': "holdsTriple xs i (afterGap co ?s c) g'"
      "g' = [] \<or> g' = g \<and> (g = [] \<or> STimestamp ?s < STimestamp (hd g) + maxLatLongDur)"
    and eq: "map timeLoc (created (afterGap co ?s c)) @ List.map_filter tripleAt (triples g' ?ps)
       = map timeLoc (created c) @ List.map_filter tripleAt (triples g ?ps)"
    using afterGap_triple [OF Suc.prems(2) _ first] by blast
  let ?c1 = "afterGap co ?s c"
  have pre: "\<forall>p \<in> set g'. \<forall>s \<in> set (drop i xs). STimestamp p \<le> STimestamp s" using g'(2) Suc.prems(3) by auto
  note IH = Suc.hyps(1) [of "Suc i"]
  show ?case
  proof (cases "partName (SName ?s)")
    case False
    have "holdsTriple xs (Suc i) ?c1 g'" using g'(1) by (auto simp: holdsTriple_def)
    then show ?thesis
      using IH [of ?c1 g'] Suc.hyps(2) i pre False eq by (simp add: fold processSignal_steps ii Let_def d)
  next
    case True
    let ?dup = "SName ?s \<in> SName ` set g'"
    let ?g2 = "if ?dup then [] else g'" and ?c2 = "if ?dup then tryCreateLocation co ?c1 else ?c1"
    let ?c3 = "putPart (SName ?s) i (STimestamp ?s) ?c2"
    have h2: "holdsTriple xs i ?c2 ?g2" using g'(1) holdsTriple_try(1) by simp
    have nz: "STimestamp ?s \<noteq> zeroTime" using assms(2) True i by simp
    have "holdsTriple xs (Suc i) ?c3 (?g2 @ [?s])" by (rule holdsTriple_put [OF h2 i True _ nz]) simp
    moreover have "processSignal co i c = ?c3"
    proof -
      have "(slotOf (SName ?s) ?c1 \<noteq> None) = ?dup" unfolding holdsTriple_slot [OF g'(1) True] by (rule not_not)
      then show ?thesis using True unfolding processSignal_steps ii Let_def by presburger
    qed
    moreover have "\<forall>p \<in> set (?g2 @ [?s]). \<forall>s \<in> set ?rest. STimestamp p \<le> STimestamp s"
      using pre ord by (auto simp: d)
    ultimately have IH': "map timeLoc (created (tryCreateLocation co (fold (processSignal co) [i..<length xs] c)))
        = map timeLoc (created ?c2) @ List.map_filter tripleAt (triples (?g2 @ [?s]) (filter (\<lambda>s. partName (SName s)) ?rest))"
      using IH [of ?c3 "?g2 @ [?s]"] Suc.hyps(2) i by (simp add: fold putPart_simps)
    have near: "g' \<noteq> [] \<Longrightarrow> \<not> STimestamp (hd g') + maxLatLongDur \<le> STimestamp ?s" using g'(2) by auto
    have "map timeLoc (created ?c2) @ List.map_filter tripleAt (triples (?g2 @ [?s]) (filter (\<lambda>s. partName (SName s)) ?rest))
        = map timeLoc (created ?c1) @ List.map_filter tripleAt (triples g' ?ps)"
    proof (cases ?dup)
      case dup: True
      then have "g' \<noteq> []" by auto
      then show ?thesis using dup True holdsTriple_try(2) [OF g'(1), of co] by (simp add: d List.map_filter_def)
    next
      case False
      then show ?thesis using True near by (cases "g' = []") (simp_all add: d)
    qed
    then show ?thesis using IH' eq by simp
  qed
qed

text \<open>Every triple consists of parts of the batch with different names, less than 500 ms after the first.\<close>

definition closeTo :: "decSignal \<Rightarrow> time \<Rightarrow> bool" where
  "closeTo s t = (t \<le> STimestamp s \<and> STimestamp s < t + maxLatLongDur)"

lemma triples_close:
  assumes "sorted (map STimestamp (g @ ss))" "\<forall>s \<in> set g. closeTo s (STimestamp (hd g))" "t \<in> set (triples g ss)"
  shows "t \<noteq> [] \<and> set t \<subseteq> set g \<union> set ss \<and> (\<forall>s \<in> set t. closeTo s (STimestamp (hd t)))"
  using assms
proof (induction g ss rule: triples.induct)
  case (2 g s ss)
  have self: "closeTo s (STimestamp s)" by (simp add: closeTo_def maxLatLongDur_def millisecond_def)
  show ?case
  proof (cases "g \<noteq> [] \<and> (STimestamp (hd g) + maxLatLongDur \<le> STimestamp s \<or> SName s \<in> SName ` set g)")
    case True
    then consider "t = g" | "t \<in> set (triples [s] ss)" using 2(5) by auto
    then show ?thesis
    proof cases
      case 2
      then show ?thesis using "2.IH"(1) [OF True] "2.prems"(1) self by (auto simp: sorted_append)
    qed (use True "2.prems"(2) in auto)
  next
    case False
    have "closeTo s (STimestamp (hd (g @ [s])))"
      using False self 2(3) hd_in_set [of g] by (cases "g = []") (auto simp: closeTo_def sorted_append)
    moreover have "g \<noteq> [] \<Longrightarrow> hd (g @ [s]) = hd g" by simp
    ultimately show ?thesis using "2.IH"(2) [OF False] 2(3-5) False by (cases "g = []") auto
  qed
qed (auto split: if_splits)

definition mergedFrom :: "decSignal list \<Rightarrow> decSignal \<Rightarrow> bool" where
  "mergedFrom xs l =
     ((\<exists>a \<in> set xs. \<exists>b \<in> set xs. SName a = fieldCurrentLocationLatitude \<and> SName b = fieldCurrentLocationLongitude
        \<and> closeTo a (STimestamp l) \<and> closeTo b (STimestamp l) \<and> validLatLon (SNumber a) (SNumber b)
        \<and> DlLatitude (SLocation l) = SNumber a \<and> DlLongitude (SLocation l) = SNumber b)
    \<or> (\<exists>h \<in> set xs. SName h = fieldDIMOAftermarketHDOP \<and> closeTo h (STimestamp l) \<and> DlHDOP (SLocation l) = SNumber h
        \<and> DlLatitude (SLocation l) = Fin 0 \<and> DlLongitude (SLocation l) = Fin 0))"

lemma partOf_Some: "partOf g n = Some v \<Longrightarrow> \<exists>s \<in> set g. SName s = n \<and> SNumber s = v"
proof -
  assume "partOf g n = Some v"
  then have "(n, v) \<in> set (map (\<lambda>s. (SName s, SNumber s)) g)" unfolding partOf_def by (rule map_of_SomeD)
  then show ?thesis by force
qed

lemma tripleAt_merged:
  assumes "tripleAt t = Some (timeLoc l)" "set t \<subseteq> set xs" "\<forall>s \<in> set t. closeTo s (STimestamp (hd t))"
  shows "mergedFrom xs l"
proof -
  let ?a = "partOf t fieldCurrentLocationLatitude" and ?b = "partOf t fieldCurrentLocationLongitude"
    and ?h = "partOf t fieldDIMOAftermarketHDOP"
  have loc: "locationOf ?a ?b ?h = Some (SLocation l)" and time: "STimestamp l = STimestamp (hd t)"
    using assms(1) by (auto simp: tripleAt_def)
  have part: "\<exists>s \<in> set xs. SName s = n \<and> SNumber s = v \<and> closeTo s (STimestamp l)" if "partOf t n = Some v" for n v
    using partOf_Some [OF that] assms(2,3) time by fastforce
  consider a b where "?a = Some a" "?b = Some b" "validLatLon a b" "DlLatitude (SLocation l) = a" "DlLongitude (SLocation l) = b"
    | h where "?h = Some h" "DlHDOP (SLocation l) = h" "DlLatitude (SLocation l) = Fin 0" "DlLongitude (SLocation l) = Fin 0"
    using loc [symmetric] by (cases ?a; cases ?b; cases ?h) (auto simp: locationOf_def noLocation_def split: if_splits)
  then show ?thesis
  proof cases
    case 1
    then show ?thesis using part [OF 1(1)] part [OF 1(2)] unfolding mergedFrom_def by metis
  next
    case 2
    then show ?thesis using part [OF 2(1)] unfolding mergedFrom_def by metis
  qed
qed

lemma sigKey_sorted: "sorted (map sigKey xs) \<Longrightarrow> sorted (map STimestamp xs)"
  by (auto simp: sorted_wrt_map sigKey_def less_eq_prod_def elim!: sorted_wrt_mono_rel [rotated])

lemma createdBy_triples:
  assumes "sorted (map STimestamp xs)" "\<forall>s \<in> set xs. partName (SName s) \<longrightarrow> STimestamp s \<noteq> zeroTime"
  shows "map timeLoc (createdBy co xs) = locationsOf (filter (\<lambda>s. partName (SName s)) xs)"
proof -
  have "holdsTriple xs 0 (newCoordinateStore xs) []"
    by (simp add: holdsTriple_def newCoordinateStore_def slotNumber_def partIdx_def)
  then show ?thesis
    using fold_triples [OF assms, of 0 "newCoordinateStore xs" "[]" co]
    by (simp add: createdBy_def locationsOf_def newCoordinateStore_def)
qed

lemma createdBy_merged:
  assumes s: "sorted (map STimestamp xs)" and nz: "\<forall>s \<in> set xs. partName (SName s) \<longrightarrow> STimestamp s \<noteq> zeroTime"
    and l: "l \<in> set (createdBy co xs)"
  shows "mergedFrom xs l"
proof -
  let ?ps = "filter (\<lambda>s. partName (SName s)) xs"
  have "timeLoc l \<in> set (locationsOf ?ps)" 
    unfolding createdBy_triples [OF s nz, of co, symmetric] using l by simp
  then obtain t where t: "t \<in> set (triples [] ?ps)" "tripleAt t = Some (timeLoc l)"
    by (auto simp: locationsOf_def List.map_filter_def)
  have "sorted (map STimestamp ([] @ ?ps))" using s by (simp add: sorted_filter)
  from triples_close [OF this _ t(1)] have "set t \<subseteq> set xs" "\<forall>s \<in> set t. closeTo s (STimestamp (hd t))" by auto
  with t(2) show ?thesis by (rule tripleAt_merged)
qed

text \<open>
  C35. In a batch whose latitude, longitude and HDOP readings all carry a time (a zero timestamp never
  expires, see \<open>zero_time_pairs_anything\<close>), coordinate merging keeps every other signal, in time
  order, and drops those readings. The locations it adds are those of the triples of the readings, in
  order, one for each triple with a valid position or an HDOP reading and none for the others. So
  each is made of a latitude and a longitude of the batch, both less than 500 ms after the
  location's time and together a valid position, or, when only an HDOP reading was left of the
  triple, has latitude and longitude 0.
\<close>

theorem coordinates_merged:
  assumes srt: "slice_sort sigKey srt"
    and nz: "\<forall>s \<in> set signals. partName (SName s) \<longrightarrow> STimestamp s \<noteq> zeroTime"
    and h: "handleCoordinates co srt signals = (out, errs)"
  shows "\<exists>added. out = filter (\<lambda>s. SName s \<noteq> pruneSignalName \<and> \<not> partName (SName s)) (srt signals) @ added
    \<and> map (\<lambda>l. (STimestamp l, SLocation l)) added = locationsOf (filter (\<lambda>s. partName (SName s)) (srt signals))
    \<and> (\<forall>l \<in> set added. SName l = co \<and> mergedFrom signals l)"
proof -
  let ?xs = "srt signals"
  have set: "set ?xs = set signals" by (rule slice_sort.set_srt [OF srt])
  have s: "sorted (map STimestamp ?xs)" by (rule sigKey_sorted) (rule slice_sort.srt_sorted [OF srt])
  have nz': "\<forall>s \<in> set ?xs. partName (SName s) \<longrightarrow> STimestamp s \<noteq> zeroTime" using nz set by simp
  obtain added where o: "out = filter (\<lambda>s. SName s \<noteq> pruneSignalName \<and> \<not> partName (SName s)) ?xs @ added"
    and n: "\<forall>l \<in> set added. SName l = co"
    and a: "signals \<noteq> [] \<Longrightarrow> added = createdBy co ?xs" "signals = [] \<Longrightarrow> added = []"
    using handleCoordinates_parts [OF srt h] by blast
  have "\<forall>l \<in> set added. mergedFrom signals l"
    using a createdBy_merged [OF s nz', of _ co] set by (cases "signals = []") (auto simp: mergedFrom_def)
  moreover have "map timeLoc added = locationsOf (filter (\<lambda>s. partName (SName s)) ?xs)"
    using a createdBy_triples [OF s nz', of co] slice_sort.srt_Nil [OF srt]
    by (cases "signals = []") (simp_all add: locationsOf_def List.map_filter_def)
  ultimately show ?thesis using o n by blast
qed

definition demo_part :: "string \<Rightarrow> time \<Rightarrow> rat \<Rightarrow> decSignal" where
  "demo_part n t v = \<lparr>SHeader = emptyHeader, SName = n, STimestamp = t, SCloudEventID = ''e'', SNumber = Fin v, SString = [],
     SLocation = noLocation\<rparr>"

lemma sort_key_sorted: "sorted (map key xs) \<Longrightarrow> sort_key key xs = xs"
  by (simp add: sort_key_id_if_sorted)

lemma valid_demo: "validLatLon (Fin 12) (Fin 34)"
  by (simp add: validLatLon_def isNaN_def isInf_def f64_le_def f64_eq_def)

theorem coordinates_merged_witness:
  "\<exists>l. fst (handleCoordinates ''coords'' (sort_key sigKey)
      [demo_part fieldCurrentLocationLatitude 10 12, demo_part fieldCurrentLocationLongitude 20 34, demo_part ''speed'' 30 50,
       demo_part fieldCurrentLocationLatitude (20 + maxLatLongDur) 12])
     = [demo_part ''speed'' 30 50, l] \<and> STimestamp l = 10 \<and> SLocation l = noLocation\<lparr>DlLatitude := Fin 12, DlLongitude := Fin 34\<rparr>"
proof -
  let ?in = "[demo_part fieldCurrentLocationLatitude 10 12, demo_part fieldCurrentLocationLongitude 20 34, demo_part ''speed'' 30 50,
    demo_part fieldCurrentLocationLatitude (20 + maxLatLongDur) 12]"
  let ?ps = "[demo_part fieldCurrentLocationLatitude 10 12, demo_part fieldCurrentLocationLongitude 20 34,
    demo_part fieldCurrentLocationLatitude (20 + maxLatLongDur) 12]"
  obtain out errs where h: "handleCoordinates ''coords'' (sort_key sigKey) ?in = (out, errs)" by fastforce
  have s: "sort_key sigKey ?in = ?in"
    by (rule sort_key_sorted) (simp add: sigKey_def demo_part_def less_eq_prod_def maxLatLongDur_def millisecond_def)
  have nz: "\<forall>s \<in> set ?in. partName (SName s) \<longrightarrow> STimestamp s \<noteq> zeroTime"
    by (simp add: demo_part_def zeroTime_def maxLatLongDur_def millisecond_def)
  have f: "filter (\<lambda>s. partName (SName s)) ?in = ?ps"
    "filter (\<lambda>s. SName s \<noteq> pruneSignalName \<and> \<not> partName (SName s)) ?in = [demo_part ''speed'' 30 50]"
    by (simp_all add: demo_part_def partName_def field_defs pruneSignalName_def)
  have "locationsOf ?ps = [(10, noLocation\<lparr>DlLatitude := Fin 12, DlLongitude := Fin 34\<rparr>)]"
    by (simp add: locationsOf_def List.map_filter_def tripleAt_def partOf_def locationOf_def valid_demo demo_part_def field_defs
        maxLatLongDur_def millisecond_def)
  moreover obtain added where "out = demo_part ''speed'' 30 50 # added" "map timeLoc added = locationsOf ?ps"
    using coordinates_merged [OF slice_sort_sort_key nz h] unfolding s f by auto
  ultimately show ?thesis unfolding h by auto
qed

text \<open>
  The time of the first part doubles as the mark that there is none: a latitude at the zero time
  is paired with a longitude of any later time, here ten years on, and the location gets the
  longitude's time.
\<close>

lemma zero_time_pairs_anything:
  "handleCoordinates ''coords'' (sort_key sigKey)
     [demo_part fieldCurrentLocationLatitude zeroTime 12, demo_part fieldCurrentLocationLongitude (87600 * hour) 34]
   = ([(demo_part ''coords'' (87600 * hour) 0)\<lparr>SLocation := noLocation\<lparr>DlLatitude := Fin 12, DlLongitude := Fin 34\<rparr>\<rparr>], [])"
proof -
  let ?in = "[demo_part fieldCurrentLocationLatitude zeroTime 12, demo_part fieldCurrentLocationLongitude (87600 * hour) 34]"
  have s: "sort_key sigKey ?in = ?in"
    by (rule sort_key_sorted) (simp add: sigKey_def demo_part_def less_eq_prod_def zeroTime_def hour_def)
  show ?thesis
    unfolding handleCoordinates_def processSignals_def newCoordinateStore_def coordinateStore.simps s
    by (simp add: s valid_demo demo_part_def processSignal_def tryCreateLocation_def pairLatLon_def addHDOP_def pruneAt_def
        templateOf_def field_defs IsZero_def zeroTime_def hour_def pruneSignalName_def Let_def)
qed

text \<open>
  A batch with an invalid position and an HDOP reading still yields a location at latitude and
  longitude 0, which the next stages treat as a reading.
\<close>

theorem coordinates_null_island:
  "handleCoordinates ''coords'' (sort_key sigKey)
     [demo_part fieldCurrentLocationLatitude 10 95, demo_part fieldCurrentLocationLongitude 10 34, demo_part fieldDIMOAftermarketHDOP 10 1]
   = ([(demo_part ''coords'' 10 0)\<lparr>SLocation := noLocation\<lparr>DlHDOP := Fin 1\<rparr>\<rparr>], [Wrap ''invalid coordinate'' errLatLongMismatch])"
proof -
  let ?in = "[demo_part fieldCurrentLocationLatitude 10 95, demo_part fieldCurrentLocationLongitude 10 34, demo_part fieldDIMOAftermarketHDOP 10 1]"
  have s: "sort_key sigKey ?in = ?in"
    by (rule sort_key_sorted) (simp add: sigKey_def demo_part_def less_eq_prod_def field_defs less_eq_char_def)
  have v: "\<not> validLatLon (Fin 95) (Fin 34)"
    by (simp add: validLatLon_def isNaN_def isInf_def f64_le_def f64_eq_def)
  show ?thesis
    unfolding handleCoordinates_def processSignals_def newCoordinateStore_def coordinateStore.simps s
    by (simp add: s v demo_part_def processSignal_def tryCreateLocation_def pairLatLon_def addHDOP_def pruneAt_def
        addErr_def templateOf_def field_defs IsZero_def zeroTime_def Sub_def sat64_def minInt64_def maxInt64_def maxLatLongDur_def
        millisecond_def noLocation_def pruneSignalName_def Let_def)
qed

end
