(* ===== verification/Mat_Decode.thy ===== *)
theory Mat_Decode
  imports Mat_Coordinates "HOL-Library.Word"
begin

unbundle bit_operations_syntax

section \<open>Decoding raw events (internal/materializer: registry.go, defaultmodule.go, decode.go, materializer.go)\<close>

text \<open>
  From a batch of raw cloud events to decoded rows: the registry of modules by source, the default
  module, the flattening into rows and the fan-out over a batch. A module is a function from the raw
  event to a \<open>conv\<close>: a list, a \<open>ConversionError\<close> with what it could decode, another error, or a
  panic. In error messages the formatted times and numbers are left out. The vendor modules of model-garage, JSON parsing, \<open>ParseFloat\<close>, the DID parser and
  \<open>RawEvent.Key\<close> are parameters.

  Shown here: the default module decodes every well-formed signal whatever its neighbours are, with
  the type the schema gives it, unless an entry is null, which loses them all; the rows that leave the decoder; the batch is decoded event
  by event, each key once, and a panic costs only the event it happens in.
\<close>

subsection \<open>Raw events and modules\<close>

record rawEvent =
  EvHeader :: ceHeader
  EvData :: string
  EvDataBase64 :: string

datatype 'a conv = Converted "'a list" | PartlyConverted "'a list" "goerr list" | NotConverted goerr | Panicked

record decEvent =
  DeType :: string
  DeDataVersion :: string
  DeName :: string
  DeTimestamp :: time
  DeDurationNs :: nat
  DeMetadata :: string
  DeCloudEventID :: string
  DeTags :: "string list"

definition TypeStatus :: string where "TypeStatus = ''dimo.status''"
definition TypeEvents :: string where "TypeEvents = ''dimo.events''"
definition TypeEvent :: string where "TypeEvent = ''dimo.event''"
definition TypeSignal :: string where "TypeSignal = ''dimo.signal''"

subsection \<open>registry.go\<close>

type_synonym 'm registry = "string \<rightharpoonup> 'm"

definition newRegistry :: "'m registry" where "newRegistry = Map.empty"

definition Override :: "'m registry \<Rightarrow> string \<Rightarrow> 'm \<Rightarrow> 'm registry" where
  "Override r source md = r(source \<mapsto> md)"

definition registry_get :: "'m registry \<Rightarrow> string \<Rightarrow> 'm res" where
  "registry_get r source = (case r source of Some m \<Rightarrow> Inr m
     | None \<Rightarrow> (case r [] of Some m \<Rightarrow> Inr m
        | None \<Rightarrow> Inl (Err (''module '' @ [CHR 0x27] @ source @ [CHR 0x27] @ '' not found and no default module registered''))))"

text \<open>Wrapping an error keeps a conversion error visible to \<open>errors.As\<close>.\<close>

definition wrapConv :: "string \<Rightarrow> string \<Rightarrow> 'a conv \<Rightarrow> 'a conv" where
  "wrapConv what source r = (case r of NotConverted e \<Rightarrow>
       NotConverted (Wrap (''failed to convert '' @ what @ '' with module '' @ [CHR 0x27] @ source @ [CHR 0x27]) e)
     | _ \<Rightarrow> r)"

definition convertToSignals :: "(rawEvent \<Rightarrow> decSignal conv) registry \<Rightarrow> string \<Rightarrow> rawEvent \<Rightarrow> decSignal conv" where
  "convertToSignals reg source ev = (case registry_get reg source of
      Inl e \<Rightarrow> NotConverted e | Inr m \<Rightarrow> wrapConv ''signals'' source (m ev))"

definition convertToEvents :: "(rawEvent \<Rightarrow> decEvent conv) registry \<Rightarrow> string \<Rightarrow> rawEvent \<Rightarrow> decEvent conv" where
  "convertToEvents reg source ev = (case registry_get reg source of
      Inl e \<Rightarrow> NotConverted e | Inr m \<Rightarrow> wrapConv ''events'' source (m ev))"

subsection \<open>defaultmodule.go\<close>

datatype json = JNull | JBool bool | JNum f64 | JStr string | JArr "json list" | JObj "(string \<times> json) list"

record defaultSignal =
  DsTimestamp :: time
  DsName :: string
  DsValue :: json

record defaultEvent =
  DvName :: string
  DvTimestamp :: time
  DvDurationNs :: nat
  DvMetadata :: string
  DvTags :: "string list option"

text \<open>
  What the module gets from its environment: the schema and the parsers. \<open>Signals\<close> is a slice of
  pointers, so that an entry \<open>null\<close> of the JSON is a nil pointer, here \<open>None\<close>.
\<close>

record moduleEnv =
  GetDefaultSignals :: "(string \<times> string) list res"
  GetDefaultEventNames :: "string list res"
  ParseFloat :: "string \<Rightarrow> f64 res"
  JsonValid :: "string \<Rightarrow> bool"
  ToLower :: "string \<Rightarrow> string"
  UnmarshalSignals :: "string \<Rightarrow> defaultSignal option list res"
  UnmarshalEvents :: "string \<Rightarrow> defaultEvent list res"

text \<open>The schema's signals by JSON name with their base type, a later one replacing an earlier, and its event names.\<close>

definition load :: "moduleEnv \<Rightarrow> ((string \<rightharpoonup> string) \<times> string list) res" where
  "load env = (case GetDefaultSignals env of Inl e \<Rightarrow> Inl (Wrap ''failed to load default signals'' e)
     | Inr definedSignals \<Rightarrow> (case GetDefaultEventNames env of
           Inl e \<Rightarrow> Inl (Wrap ''failed to load default event names'' e)
         | Inr eventNames \<Rightarrow> Inr (map_of (rev definedSignals), eventNames)))"

definition sigErr :: "string \<Rightarrow> string \<Rightarrow> 'a res" where
  "sigErr name what = Inl (Err (''signal '' @ name @ what))"

text \<open>A float of the location object: absent keeps the zero, another type is refused.\<close>

definition locFloat :: "(string \<times> json) list \<Rightarrow> string \<Rightarrow> f64 option" where
  "locFloat m k = (case map_of m k of None \<Rightarrow> Some (Fin 0) | Some (JNum x) \<Rightarrow> Some x | Some _ \<Rightarrow> None)"

definition locationOfJson :: "string \<Rightarrow> (string \<times> json) list \<Rightarrow> decLocation res" where
  "locationOfJson name m =
     (case locFloat m ''latitude'' of None \<Rightarrow> sigErr name '' has a non-float64 latitude''
      | Some lat \<Rightarrow> (case locFloat m ''longitude'' of None \<Rightarrow> sigErr name '' has a non-float64 longitude''
      | Some lon \<Rightarrow> (case locFloat m ''hdop'' of None \<Rightarrow> sigErr name '' has a non-float64 hdop''
      | Some hdop \<Rightarrow> Inr \<lparr>DlLatitude = lat, DlLongitude = lon, DlHDOP = hdop, DlHeading = Fin 0\<rparr>)))"

text \<open>The signal is read through its pointer; \<open>None\<close> is the panic of a nil dereference.\<close>

definition defaultSignalToVSS ::
  "moduleEnv \<Rightarrow> (string \<rightharpoonup> string) \<Rightarrow> defaultSignal option \<Rightarrow> decSignal res option" where
  "defaultSignalToVSS env signalMap signal = (case signal of None \<Rightarrow> None | Some s \<Rightarrow> Some
     (case signalMap (DsName s) of None \<Rightarrow> sigErr (DsName s) '' is not a defined signal name''
      | Some baseGoType \<Rightarrow>
          if DsValue s = JNull then sigErr (DsName s) '' is missing a value''
          else let v = \<lparr>SHeader = emptyHeader, SName = DsName s, STimestamp = DsTimestamp s, SCloudEventID = [],
                        SNumber = Fin 0, SString = [], SLocation = noLocation\<rparr> in
          if baseGoType = ''float64''
          then (case DsValue s of
                  JNum x \<Rightarrow> Inr (v\<lparr>SNumber := x\<rparr>)
                | JStr str \<Rightarrow> (case ParseFloat env str of
                      Inl e \<Rightarrow> Inl (Wrap (''signal '' @ DsName s @ '' can not be converted to a float64'') e)
                    | Inr x \<Rightarrow> Inr (v\<lparr>SNumber := x\<rparr>))
                | _ \<Rightarrow> sigErr (DsName s) '' is not a float64'')
          else if baseGoType = ''string''
          then (case DsValue s of JStr str \<Rightarrow> Inr (v\<lparr>SString := str\<rparr>) | _ \<Rightarrow> sigErr (DsName s) '' is not a string'')
          else if baseGoType = ''vss.Location''
          then (case DsValue s of
                  JObj m \<Rightarrow> (case locationOfJson (DsName s) m of Inl e \<Rightarrow> Inl e | Inr l \<Rightarrow> Inr (v\<lparr>SLocation := l\<rparr>))
                | _ \<Rightarrow> sigErr (DsName s) '' is not a location object'')
          else sigErr (DsName s) ('' has an unsupported base type '' @ baseGoType)))"

text \<open>A loop that keeps what decodes and collects the errors.\<close>

fun splitResults :: "'a res list \<Rightarrow> 'a list \<times> goerr list" where
  "splitResults [] = ([], [])"
| "splitResults (Inr x # rs) = (x # fst (splitResults rs), snd (splitResults rs))"
| "splitResults (Inl e # rs) = (fst (splitResults rs), e # snd (splitResults rs))"

definition convOf :: "'a list \<times> goerr list \<Rightarrow> 'a conv" where
  "convOf p = (if snd p = [] then Converted (fst p) else PartlyConverted (fst p) (snd p))"

text \<open>The loop runs over all entries, so that a nil entry anywhere panics.\<close>

definition SignalConvert :: "moduleEnv \<Rightarrow> rawEvent \<Rightarrow> decSignal conv" where
  "SignalConvert env ev = (case load env of Inl e \<Rightarrow> NotConverted e
     | Inr (signalMap, _) \<Rightarrow> (case UnmarshalSignals env (EvData ev) of
           Inl e \<Rightarrow> NotConverted (Wrap ''failed to unmarshal signal data'' e)
         | Inr signals \<Rightarrow>
             let hdr = (EvHeader ev)\<lparr>HType := TypeSignal\<rparr>
             in case those (map (defaultSignalToVSS env signalMap) signals) of None \<Rightarrow> Panicked
                | Some results \<Rightarrow> convOf (splitResults (map (\<lambda>r. case r of Inl e \<Rightarrow> Inl e
                  | Inr v \<Rightarrow> Inr (v\<lparr>SHeader := hdr, SCloudEventID := HID (EvHeader ev)\<rparr>)) results))))"

definition ensureTags :: "string list option \<Rightarrow> string list" where
  "ensureTags tags = (case tags of None \<Rightarrow> [] | Some t \<Rightarrow> t)"

definition checkEvent :: "moduleEnv \<Rightarrow> string list \<Rightarrow> rawEvent \<Rightarrow> defaultEvent \<Rightarrow> decEvent res" where
  "checkEvent env eventNames ev e =
     (if DvName e = [] then Inl (Err ''event.name is empty'')
      else if IsZero (DvTimestamp e) then Inl (Err (''event.timestamp is zero for event.name '' @ DvName e))
      else if DvName e \<notin> set eventNames then Inl (Err (''unknown event name: '' @ DvName e))
      else if 0 < length (DvMetadata e) \<and> \<not> JsonValid env (DvMetadata e)
      then Inl (Err (''metadata for event.name '' @ DvName e @ '' is not valid json''))
      else (case filter (\<lambda>t. t \<noteq> ToLower env t) (ensureTags (DvTags e)) of
              tag # _ \<Rightarrow> Inl (Err (''tag '' @ tag @ '' for event.name '' @ DvName e @ '' must be lowercase''))
            | [] \<Rightarrow> Inr \<lparr>DeType = TypeEvent, DeDataVersion = HDataVersion (EvHeader ev), DeName = DvName e,
                DeTimestamp = DvTimestamp e, DeDurationNs = DvDurationNs e, DeMetadata = DvMetadata e,
                DeCloudEventID = HID (EvHeader ev), DeTags = ensureTags (DvTags e)\<rparr>))"

definition EventConvert :: "moduleEnv \<Rightarrow> rawEvent \<Rightarrow> decEvent conv" where
  "EventConvert env ev = (case load env of Inl e \<Rightarrow> NotConverted e
     | Inr (_, eventNames) \<Rightarrow> (case UnmarshalEvents env (EvData ev) of
           Inl e \<Rightarrow> NotConverted (Wrap ''failed to unmarshal events data'' e)
         | Inr evs \<Rightarrow> convOf (splitResults (map (checkEvent env eventNames ev) evs))))"

subsection \<open>bucket.go\<close>

definition NumLatestBuckets :: nat where "NumLatestBuckets = 256"

definition fnvStep :: "char \<Rightarrow> 32 word \<Rightarrow> 32 word" where
  "fnvStep c h = (h XOR of_char c) * 16777619"

definition HashBucket :: "string \<Rightarrow> nat" where
  "HashBucket subject = unat (fold fnvStep subject 2166136261) mod NumLatestBuckets"

subsection \<open>rows.go and decode.go: rows\<close>

record signalRow =
  SrSubject :: string
  SrSubjectBucket :: nat
  SrName :: string
  SrTimestamp :: time
  SrSource :: string
  SrProducer :: string
  SrCloudEventID :: string
  SrValueNumber :: f64
  SrValueString :: string
  SrLocLat :: f64
  SrLocLon :: f64
  SrLocHDOP :: f64
  SrLocHeading :: f64

record eventRow =
  ErSubject :: string
  ErSubjectBucket :: nat
  ErSource :: string
  ErProducer :: string
  ErCloudEventID :: string
  ErType :: string
  ErDataVersion :: string
  ErRowName :: string
  ErTimestamp :: time
  ErDurationNs :: nat
  ErMetadata :: string
  ErTags :: "string list"

definition orStr :: "string \<Rightarrow> string \<Rightarrow> string" where
  "orStr a b = (if a = [] then b else a)"

definition signalRowFromVSS :: "rawEvent \<Rightarrow> decSignal \<Rightarrow> signalRow" where
  "signalRowFromVSS ev s =
     \<lparr>SrSubject = HSubject (EvHeader ev), SrSubjectBucket = HashBucket (HSubject (EvHeader ev)), SrName = SName s,
      SrTimestamp = Truncate (STimestamp s) microsecond, SrSource = HSource (EvHeader ev),
      SrProducer = HProducer (EvHeader ev), SrCloudEventID = orStr (SCloudEventID s) (HID (EvHeader ev)),
      SrValueNumber = SNumber s, SrValueString = SString s, SrLocLat = DlLatitude (SLocation s),
      SrLocLon = DlLongitude (SLocation s), SrLocHDOP = DlHDOP (SLocation s), SrLocHeading = DlHeading (SLocation s)\<rparr>"

definition eventRowFromVSS :: "rawEvent \<Rightarrow> decEvent \<Rightarrow> eventRow" where
  "eventRowFromVSS ev e =
     \<lparr>ErSubject = HSubject (EvHeader ev), ErSubjectBucket = HashBucket (HSubject (EvHeader ev)),
      ErSource = HSource (EvHeader ev), ErProducer = HProducer (EvHeader ev),
      ErCloudEventID = orStr (DeCloudEventID e) (HID (EvHeader ev)), ErType = orStr (DeType e) TypeEvent,
      ErDataVersion = orStr (DeDataVersion e) (HDataVersion (EvHeader ev)), ErRowName = DeName e,
      ErTimestamp = Truncate (DeTimestamp e) microsecond, ErDurationNs = DeDurationNs e,
      ErMetadata = DeMetadata e, ErTags = DeTags e\<rparr>"

definition isFinite :: "f64 \<Rightarrow> bool" where "isFinite f = (\<not> isNaN f \<and> \<not> isInf f)"

definition finiteSignalRow :: "signalRow \<Rightarrow> bool" where
  "finiteSignalRow r = (isFinite (SrValueNumber r) \<and> isFinite (SrLocLat r) \<and> isFinite (SrLocLon r)
     \<and> isFinite (SrLocHDOP r) \<and> isFinite (SrLocHeading r))"

text \<open>
  \<open>asConversionError\<close> and the salvage: what there is to store, and the failure count. A panic is
  not caught here but in the worker.
\<close>

definition salvage :: "'a conv \<Rightarrow> ('a list \<times> nat) option" where
  "salvage r = (case r of Converted xs \<Rightarrow> Some (xs, 0) | PartlyConverted xs _ \<Rightarrow> Some (xs, 1)
     | NotConverted _ \<Rightarrow> Some ([], 1) | Panicked \<Rightarrow> None)"

record decodeEnv =
  DNow :: time
  DSort :: "decSignal list \<Rightarrow> decSignal list"
  CoordinatesField :: string
  SignalRegistry :: "(rawEvent \<Rightarrow> decSignal conv) registry"
  EventRegistry :: "(rawEvent \<Rightarrow> decEvent conv) registry"

definition signalRows :: "decodeEnv \<Rightarrow> rawEvent \<Rightarrow> decSignal list \<Rightarrow> signalRow list" where
  "signalRows env ev signals =
     map (signalRowFromVSS ev) (fst (handleCoordinates (CoordinatesField env) (DSort env)
        (fst (pruneFutureAndDuplicateSignals (DSort env) (DNow env) signals))))"

definition convertSignals :: "decodeEnv \<Rightarrow> rawEvent \<Rightarrow> (signalRow list \<times> nat) option" where
  "convertSignals env ev =
     (case salvage (convertToSignals (SignalRegistry env) (HSource (EvHeader ev)) ev) of
        None \<Rightarrow> None
      | Some (signals, failed) \<Rightarrow>
          Some (if signals = [] then ([], failed)
                else let rows = signalRows env ev signals
                     in (filter finiteSignalRow rows, if \<forall>r \<in> set rows. finiteSignalRow r then failed else 1)))"

definition convertEvents :: "decodeEnv \<Rightarrow> rawEvent \<Rightarrow> (eventRow list \<times> nat) option" where
  "convertEvents env ev =
     (case salvage (convertToEvents (EventRegistry env) (HSource (EvHeader ev)) ev) of
        None \<Rightarrow> None | Some (evs, failed) \<Rightarrow> Some (map (eventRowFromVSS ev) evs, failed))"

subsection \<open>materializer.go: a batch\<close>

record decodedBatch =
  BatchSignals :: "signalRow list"
  BatchEvents :: "eventRow list"
  BatchSignalCount :: nat
  BatchEventCount :: nat
  BatchErrorCount :: nat

record convResult =
  CrSignals :: "signalRow list"
  CrEvents :: "eventRow list"
  CrFailed :: nat

text \<open>The vehicle gate; \<open>DecodeERC721DID\<close> gives the chain and the contract address of a subject.\<close>

record vehicleGate =
  ChainID :: nat
  VehicleNFTAddress :: nat
  DecodeERC721DID :: "string \<Rightarrow> (nat \<times> nat) res"

definition isVehicleSignalMessage :: "vehicleGate \<Rightarrow> rawEvent \<Rightarrow> bool" where
  "isVehicleSignalMessage gate ev =
     (if VehicleNFTAddress gate = 0 then True
      else (case DecodeERC721DID gate (HSubject (EvHeader ev)) of
              Inl _ \<Rightarrow> False
            | Inr (chainID, contract) \<Rightarrow> chainID = ChainID gate \<and> contract = VehicleNFTAddress gate))"

text \<open>A worker: a panic is recovered and counts as one failure.\<close>

definition convertJob :: "decodeEnv \<Rightarrow> rawEvent \<Rightarrow> convResult" where
  "convertJob env ev =
     (if HType (EvHeader ev) = TypeStatus
      then (case convertSignals env ev of None \<Rightarrow> \<lparr>CrSignals = [], CrEvents = [], CrFailed = 1\<rparr>
            | Some (rows, failed) \<Rightarrow> \<lparr>CrSignals = rows, CrEvents = [], CrFailed = failed\<rparr>)
      else if HType (EvHeader ev) = TypeEvents
      then (case convertEvents env ev of None \<Rightarrow> \<lparr>CrSignals = [], CrEvents = [], CrFailed = 1\<rparr>
            | Some (rows, failed) \<Rightarrow> \<lparr>CrSignals = [], CrEvents = rows, CrFailed = failed\<rparr>)
      else \<lparr>CrSignals = [], CrEvents = [], CrFailed = 0\<rparr>)"

definition addResult :: "convResult \<Rightarrow> decodedBatch \<Rightarrow> decodedBatch" where
  "addResult r dec = \<lparr>BatchSignals = BatchSignals dec @ CrSignals r, BatchEvents = BatchEvents dec @ CrEvents r,
     BatchSignalCount = BatchSignalCount dec + length (CrSignals r), BatchEventCount = BatchEventCount dec + length (CrEvents r),
     BatchErrorCount = BatchErrorCount dec + CrFailed r\<rparr>"

definition emptyBatch :: decodedBatch where
  "emptyBatch = \<lparr>BatchSignals = [], BatchEvents = [], BatchSignalCount = 0, BatchEventCount = 0, BatchErrorCount = 0\<rparr>"

definition convertJobs :: "decodeEnv \<Rightarrow> rawEvent list \<Rightarrow> decodedBatch" where
  "convertJobs env jobs = fold addResult (map (convertJob env) jobs) emptyBatch"

text \<open>The loop of \<open>decodeEvents\<close>: each key once, then the type and the vehicle gate.\<close>

fun selectJobs :: "(rawEvent \<Rightarrow> string) \<Rightarrow> vehicleGate \<Rightarrow> string list \<Rightarrow> rawEvent list \<Rightarrow> rawEvent list" where
  "selectJobs key gate seen [] = []"
| "selectJobs key gate seen (ev # evs) =
     (if key ev \<in> set seen then selectJobs key gate seen evs
      else let rest = selectJobs key gate (key ev # seen) evs in
           if HType (EvHeader ev) = TypeStatus then if \<not> isVehicleSignalMessage gate ev then rest else ev # rest
           else if HType (EvHeader ev) = TypeEvents then ev # rest
           else rest)"

definition decodeEvents ::
  "decodeEnv \<Rightarrow> (rawEvent \<Rightarrow> string) \<Rightarrow> vehicleGate \<Rightarrow> rawEvent list \<Rightarrow> decodedBatch" where
  "decodeEvents env key gate evs = convertJobs env (selectJobs key gate [] evs)"

subsection \<open>The default module\<close>

lemma splitResults_ok: "fst (splitResults rs) = List.map_filter (\<lambda>r. case r of Inl _ \<Rightarrow> None | Inr x \<Rightarrow> Some x) rs"
  by (induction rs rule: splitResults.induct) (simp_all add: map_filter_simps)

lemma splitResults_errs: "snd (splitResults rs) = [] \<longleftrightarrow> (\<forall>r \<in> set rs. is_ok r)"
  by (induction rs rule: splitResults.induct) auto

text \<open>
  The kinds of value the schema distinguishes: a decoded signal is well typed when only the field of
  its kind is set.
\<close>

definition wellTyped :: "string \<Rightarrow> decSignal \<Rightarrow> bool" where
  "wellTyped ty v = ((ty = ''float64'' \<or> SNumber v = Fin 0) \<and> (ty = ''string'' \<or> SString v = [])
     \<and> (ty = ''vss.Location'' \<or> SLocation v = noLocation))"

lemma defaultSignalToVSS_typed:
  assumes "defaultSignalToVSS env signalMap (Some s) = Some (Inr v)"
  obtains ty where "signalMap (DsName s) = Some ty" "ty \<in> {''float64'', ''string'', ''vss.Location''}"
    "SName v = DsName s" "STimestamp v = DsTimestamp s" "wellTyped ty v"
  using assms that
  by (auto simp: defaultSignalToVSS_def wellTyped_def sigErr_def Let_def split: option.splits if_splits json.splits sum.splits)

text \<open>What an entry that is not null yields.\<close>

definition entryResult :: "moduleEnv \<Rightarrow> (string \<rightharpoonup> string) \<Rightarrow> defaultSignal \<Rightarrow> decSignal res" where
  "entryResult env signalMap s = the (defaultSignalToVSS env signalMap (Some s))"

lemma defaultSignalToVSS_simps:
  "defaultSignalToVSS env signalMap None = None"
  "defaultSignalToVSS env signalMap (Some s) = Some (entryResult env signalMap s)"
  by (simp_all add: entryResult_def) (simp_all add: defaultSignalToVSS_def)

lemma those_None: "None \<in> set xs \<Longrightarrow> those xs = None"
  by (induction xs) (auto split: option.splits)

lemma those_Some: "those (map (\<lambda>x. Some (f x)) xs) = Some (map f xs)"
  by (induction xs) auto

lemma SignalConvert_nil:
  assumes "load env = Inr p" and "UnmarshalSignals env (EvData ev) = Inr entries" and "None \<in> set entries"
  shows "SignalConvert env ev = Panicked"
proof -
  obtain signalMap eventNames where p: "p = (signalMap, eventNames)" by (cases p)
  have "None \<in> set (map (defaultSignalToVSS env signalMap) entries)" 
    using imageI [OF assms(3), of "defaultSignalToVSS env signalMap"] by (simp add: defaultSignalToVSS_simps)
  then show ?thesis using assms(1,2) p by (simp add: SignalConvert_def those_None Let_def)
qed

lemma SignalConvert_entries:
  assumes "load env = Inr (signalMap, eventNames)" and "UnmarshalSignals env (EvData ev) = Inr (map Some ss)"
  shows "SignalConvert env ev = convOf (splitResults (map (\<lambda>r. case r of Inl e \<Rightarrow> Inl e
      | Inr v \<Rightarrow> Inr (v\<lparr>SHeader := (EvHeader ev)\<lparr>HType := TypeSignal\<rparr>, SCloudEventID := HID (EvHeader ev)\<rparr>))
      (map (entryResult env signalMap) ss)))"
  using assms by (simp add: SignalConvert_def defaultSignalToVSS_simps comp_def those_Some Let_def)

lemma SignalConvert_fail_iff:
  "(\<exists>e. SignalConvert env ev = NotConverted e) \<longleftrightarrow> \<not> is_ok (load env) \<or> \<not> is_ok (UnmarshalSignals env (EvData ev))"
  by (auto simp: SignalConvert_def convOf_def is_ok_def Let_def split: sum.splits option.splits)

text \<open>
  C36. Every signal the default module decodes is defined in the schema, carries the name and time of
  its entry and the event's id, and has a value in the one field of its schema type. When no entry
  of the payload is null, a bad entry costs only itself: the decoded signals are those of the good
  entries, in order, with an error exactly if some entry is bad. One null entry makes the module
  panic, whatever the other entries are.
\<close>

theorem default_module_typed:
  assumes "load env = Inr (signalMap, eventNames)" and "UnmarshalSignals env (EvData ev) = Inr entries"
  shows "if None \<in> set entries then SignalConvert env ev = Panicked else
    (\<exists>vs errs. SignalConvert env ev = (if errs = [] then Converted vs else PartlyConverted vs errs)
    \<and> map (\<lambda>v. (SName v, STimestamp v)) vs
       = map (\<lambda>s. (DsName s, DsTimestamp s)) (filter (\<lambda>s. is_ok (entryResult env signalMap s)) (map the entries))
    \<and> (errs = [] \<longleftrightarrow> (\<forall>s \<in> set entries. is_ok (entryResult env signalMap (the s))))
    \<and> (\<forall>v \<in> set vs. SCloudEventID v = HID (EvHeader ev)
         \<and> (\<exists>ty. signalMap (SName v) = Some ty \<and> ty \<in> {''float64'', ''string'', ''vss.Location''} \<and> wellTyped ty v)))"
proof (cases "None \<in> set entries")
  case True
  then show ?thesis using SignalConvert_nil [OF assms] by simp
next
  case False
  define ss where "ss = map the entries"
  have entries: "entries = map Some ss" unfolding ss_def using False by (induction entries) auto
  let ?f = "\<lambda>s. case entryResult env signalMap s of Inl e \<Rightarrow> Inl e
      | Inr v \<Rightarrow> Inr (v\<lparr>SHeader := (EvHeader ev)\<lparr>HType := TypeSignal\<rparr>, SCloudEventID := HID (EvHeader ev)\<rparr>)"
  define vs where "vs = fst (splitResults (map ?f ss))"
  define errs where "errs = snd (splitResults (map ?f ss))"
  have conv: "SignalConvert env ev = (if errs = [] then Converted vs else PartlyConverted vs errs)"
    using SignalConvert_entries [OF assms(1)] assms(2) entries by (simp add: convOf_def vs_def errs_def comp_def)
  have "map (\<lambda>v. (SName v, STimestamp v)) vs
       = map (\<lambda>s. (DsName s, DsTimestamp s)) (filter (\<lambda>s. is_ok (entryResult env signalMap s)) ss)
    \<and> (\<forall>v \<in> set vs. SCloudEventID v = HID (EvHeader ev)
         \<and> (\<exists>ty. signalMap (SName v) = Some ty \<and> ty \<in> {''float64'', ''string'', ''vss.Location''} \<and> wellTyped ty v))"
    unfolding vs_def
  proof (induction ss)
    case (Cons s ss)
    show ?case
    proof (cases "entryResult env signalMap s")
      case (Inr v)
      then have "defaultSignalToVSS env signalMap (Some s) = Some (Inr v)" by (simp add: defaultSignalToVSS_simps)
      then show ?thesis using Inr Cons by (auto elim!: defaultSignalToVSS_typed simp: wellTyped_def)
    qed (use Cons in simp)
  qed simp
  moreover have "errs = [] \<longleftrightarrow> (\<forall>s \<in> set ss. is_ok (entryResult env signalMap s))"
    unfolding errs_def splitResults_errs by (auto simp: is_ok_def split: sum.splits)
  then have "errs = [] \<longleftrightarrow> (\<forall>s \<in> set entries. is_ok (entryResult env signalMap (the s)))" by (simp add: ss_def)
  ultimately show ?thesis using conv unfolding ss_def if_not_P [OF False] by blast
qed

definition demo_entries :: "defaultSignal list" where
  "demo_entries = [\<lparr>DsTimestamp = 9, DsName = ''speed'', DsValue = JStr ''5''\<rparr>,
     \<lparr>DsTimestamp = 9, DsName = ''speed'', DsValue = JBool True\<rparr>, \<lparr>DsTimestamp = 8, DsName = ''vin'', DsValue = JStr ''X''\<rparr>]"

definition demo_module :: moduleEnv where
  "demo_module = \<lparr>GetDefaultSignals = Inr [(''speed'', ''float64''), (''vin'', ''string'')],
     GetDefaultEventNames = Inr [''behavior.harsh''],
     ParseFloat = \<lambda>s. if s = ''5'' then Inr (Fin 5) else Inl (Err ''syntax''), JsonValid = \<lambda>_. True, ToLower = id,
     UnmarshalSignals = \<lambda>data. Inr (map Some demo_entries @ (if data = ''null'' then [None] else [])),
     UnmarshalEvents = \<lambda>_. Inr []\<rparr>"

definition demo_event :: rawEvent where
  "demo_event = \<lparr>EvHeader = \<lparr>HSubject = ''veh'', HSource = ''src'', HProducer = ''p'', HType = TypeStatus, HDataVersion = ''1'',
     HID = ''id1'', HTime = 9\<rparr>, EvData = ''{}'', EvDataBase64 = []\<rparr>"

lemma demo_load: "load demo_module = Inr ([''speed'' \<mapsto> ''float64'', ''vin'' \<mapsto> ''string''], [''behavior.harsh''])"
  by (simp add: demo_module_def load_def fun_upd_twist)

theorem default_module_typed_witness:
  "(\<exists>vs errs. SignalConvert demo_module demo_event = PartlyConverted vs errs
     \<and> map (\<lambda>v. (SName v, STimestamp v)) vs = [(''speed'', 9), (''vin'', 8)])
   \<and> SignalConvert demo_module (demo_event\<lparr>EvData := ''null''\<rparr>) = Panicked"
proof
  have "UnmarshalSignals demo_module (EvData demo_event) = Inr (map Some demo_entries)"
    by (simp add: demo_module_def demo_event_def)
  from default_module_typed [OF demo_load this]
  show "\<exists>vs errs. SignalConvert demo_module demo_event = PartlyConverted vs errs
     \<and> map (\<lambda>v. (SName v, STimestamp v)) vs = [(''speed'', 9), (''vin'', 8)]"
    by (auto simp: entryResult_def defaultSignalToVSS_def demo_module_def sigErr_def demo_entries_def)
  have "UnmarshalSignals demo_module (EvData (demo_event\<lparr>EvData := ''null''\<rparr>)) = Inr (map Some demo_entries @ [None])"
    by (simp add: demo_module_def)
  from default_module_typed [OF demo_load this]
  show "SignalConvert demo_module (demo_event\<lparr>EvData := ''null''\<rparr>) = Panicked" by simp
qed

text \<open>The panic is contained in the worker, but the event's good entries are gone with it.\<close>

lemma null_entry_loses_event:
  assumes "registry_get (SignalRegistry env) (HSource (EvHeader ev)) = Inr (SignalConvert m)" "HType (EvHeader ev) = TypeStatus"
    "load m = Inr p" "UnmarshalSignals m (EvData ev) = Inr entries" "None \<in> set entries"
  shows "convertJob env ev = \<lparr>CrSignals = [], CrEvents = [], CrFailed = 1\<rparr>"
  using assms SignalConvert_nil [OF assms(3-5)]
  by (simp add: convertJob_def convertSignals_def convertToSignals_def wrapConv_def salvage_def)

subsection \<open>The rows of an event\<close>

lemma HashBucket_range: "HashBucket subject < 256"
  by (simp add: HashBucket_def NumLatestBuckets_def)

lemma Truncate_mod: "0 < d \<Longrightarrow> Truncate t d mod d = 0"
  by (simp add: Truncate_def)

lemma signals_kept:
  assumes srt: "slice_sort sigKey srt"
    and s: "s \<in> set (fst (handleCoordinates co srt (fst (pruneFutureAndDuplicateSignals srt now signals))))"
  shows "STimestamp s \<in> STimestamp ` set signals" and "STimestamp s \<le> now + allowableTimeSkew"
    and "SName s = co \<or> \<not> partName (SName s) \<and> SName s \<noteq> pruneSignalName"
proof -
  obtain mid e1 where m: "pruneFutureAndDuplicateSignals srt now signals = (mid, e1)" by fastforce
  obtain out e2 where h: "handleCoordinates co srt mid = (out, e2)" by fastforce
  note prune = pruneFuture_spec [OF srt m]
  have mid: "STimestamp t \<le> now + allowableTimeSkew \<and> STimestamp t \<in> STimestamp ` set signals" if "t \<in> set mid" for t
  proof -
    have "sigKey t \<in> {sigKey s | s. s \<in> set signals \<and> STimestamp s \<le> now + allowableTimeSkew \<and> SName s \<noteq> pruneSignalName}"
      using prune that by blast
    then show ?thesis by (auto simp: sigKey_def)
  qed
  obtain added where out: "out = filter (\<lambda>s. SName s \<noteq> pruneSignalName \<and> \<not> partName (SName s)) (srt mid) @ added"
    and a: "\<forall>l \<in> set added. SName l = co \<and> STimestamp l \<in> STimestamp ` set mid"
    using handleCoordinates_parts [OF srt h] by blast
  have "s \<in> set out" using s m h by simp
  then consider "s \<in> set mid" "SName s \<noteq> pruneSignalName" "\<not> partName (SName s)" | "s \<in> set added"
    using out slice_sort.set_srt [OF srt, of mid] by auto
  then have "(STimestamp s \<le> now + allowableTimeSkew \<and> STimestamp s \<in> STimestamp ` set signals)
      \<and> (SName s = co \<or> \<not> partName (SName s) \<and> SName s \<noteq> pruneSignalName)"
  proof cases
    case 2
    then obtain t where "t \<in> set mid" "STimestamp s = STimestamp t" using a by blast
    then show ?thesis using mid [of t] a 2 by simp
  qed (use mid in blast)
  then show "STimestamp s \<in> STimestamp ` set signals" "STimestamp s \<le> now + allowableTimeSkew"
    "SName s = co \<or> \<not> partName (SName s) \<and> SName s \<noteq> pruneSignalName" by simp_all
qed

text \<open>
  C20. Whatever signals a module that does not panic hands over, zero timestamps included, the signal
  rows stored for the event carry its subject and the subject's bucket, finite numbers, the time of
  one of those signals cut to whole microseconds and at most five minutes ahead of the clock, and no
  name that marks a latitude, longitude, HDOP reading or a pruned signal.
\<close>

theorem stored_rows_wellformed:
  assumes srt: "slice_sort sigKey (DSort env)"
    and s: "salvage (convertToSignals (SignalRegistry env) (HSource (EvHeader ev)) ev) = Some (signals, f)"
  shows "\<exists>rows failed. convertSignals env ev = Some (rows, failed) \<and> (\<forall>r \<in> set rows.
      SrSubject r = HSubject (EvHeader ev) \<and> SrSubjectBucket r = HashBucket (SrSubject r) \<and> SrSubjectBucket r < 256
    \<and> finiteSignalRow r \<and> SrTimestamp r mod microsecond = 0 \<and> SrTimestamp r \<le> DNow env + allowableTimeSkew
    \<and> (\<exists>s \<in> set signals. SrTimestamp r = Truncate (STimestamp s) microsecond)
    \<and> (SrName r = CoordinatesField env \<or> \<not> partName (SrName r) \<and> SrName r \<noteq> pruneSignalName))"
proof -
  have row: "SrSubject r = HSubject (EvHeader ev) \<and> SrSubjectBucket r = HashBucket (SrSubject r) \<and> SrSubjectBucket r < 256
    \<and> SrTimestamp r mod microsecond = 0 \<and> SrTimestamp r \<le> DNow env + allowableTimeSkew
    \<and> (\<exists>s \<in> set signals. SrTimestamp r = Truncate (STimestamp s) microsecond)
    \<and> (SrName r = CoordinatesField env \<or> \<not> partName (SrName r) \<and> SrName r \<noteq> pruneSignalName)"
    if rr: "r \<in> set (signalRows env ev signals)" for r
  proof -
    obtain t where t: "r = signalRowFromVSS ev t" "t \<in> set (fst (handleCoordinates (CoordinatesField env) (DSort env)
        (fst (pruneFutureAndDuplicateSignals (DSort env) (DNow env) signals))))"
      using rr by (auto simp: signalRows_def)
    have "Truncate (STimestamp t) microsecond \<le> STimestamp t" using Truncate_le [of microsecond] by (simp add: microsecond_def)
    then show ?thesis using signals_kept [OF srt t(2)]
      by (auto simp: t(1) signalRowFromVSS_def HashBucket_range Truncate_mod microsecond_def)
  qed
  show ?thesis using s row by (auto simp: convertSignals_def Let_def HashBucket_range)
qed

definition demo_decodeEnv :: decodeEnv where
  "demo_decodeEnv = \<lparr>DNow = 100, DSort = sort_key sigKey, CoordinatesField = ''currentLocationCoordinates'',
     SignalRegistry = Override newRegistry [] (SignalConvert demo_module),
     EventRegistry = Override newRegistry [] (EventConvert demo_module)\<rparr>"

lemma demo_convert:
  "SignalConvert demo_module demo_event = PartlyConverted
     [\<lparr>SHeader = (EvHeader demo_event)\<lparr>HType := TypeSignal\<rparr>, SName = ''speed'', STimestamp = 9, SCloudEventID = ''id1'',
        SNumber = Fin 5, SString = [], SLocation = noLocation\<rparr>,
      \<lparr>SHeader = (EvHeader demo_event)\<lparr>HType := TypeSignal\<rparr>, SName = ''vin'', STimestamp = 8, SCloudEventID = ''id1'',
        SNumber = Fin 0, SString = ''X'', SLocation = noLocation\<rparr>]
     [Err ''signal speed is not a float64'']"
proof -
  have "UnmarshalSignals demo_module (EvData demo_event) = Inr (map Some demo_entries)"
    by (simp add: demo_module_def demo_event_def)
  note conv = SignalConvert_entries [OF demo_load this]
  have "map (entryResult demo_module [''speed'' \<mapsto> ''float64'', ''vin'' \<mapsto> ''string'']) demo_entries =
      [Inr \<lparr>SHeader = emptyHeader, SName = ''speed'', STimestamp = 9, SCloudEventID = [], SNumber = Fin 5, SString = [], SLocation = noLocation\<rparr>,
       Inl (Err ''signal speed is not a float64''),
       Inr \<lparr>SHeader = emptyHeader, SName = ''vin'', STimestamp = 8, SCloudEventID = [], SNumber = Fin 0, SString = ''X'', SLocation = noLocation\<rparr>]"
    by (simp add: demo_entries_def entryResult_def defaultSignalToVSS_def sigErr_def demo_module_def)
  from conv [unfolded this] show ?thesis by (simp add: convOf_def) (simp add: demo_event_def)
qed

lemma demo_salvage:
  "\<exists>vs. salvage (convertToSignals (SignalRegistry demo_decodeEnv) (HSource (EvHeader demo_event)) demo_event) = Some (vs, 1)
     \<and> map STimestamp vs = [9, 8]"
proof -
  have "registry_get (SignalRegistry demo_decodeEnv) (HSource (EvHeader demo_event)) = Inr (SignalConvert demo_module)"
    by (simp add: demo_decodeEnv_def registry_get_def Override_def newRegistry_def demo_event_def)
  then show ?thesis by (simp add: convertToSignals_def demo_convert wrapConv_def salvage_def)
qed

theorem stored_rows_wellformed_witness:
  "\<exists>rows failed. convertSignals demo_decodeEnv demo_event = Some (rows, failed)
     \<and> (\<forall>r \<in> set rows. SrSubject r = ''veh'' \<and> SrTimestamp r \<le> DNow demo_decodeEnv + allowableTimeSkew)"
proof -
  obtain vs where v: "salvage (convertToSignals (SignalRegistry demo_decodeEnv) (HSource (EvHeader demo_event)) demo_event) = Some (vs, 1)"
    using demo_salvage by (elim exE conjE)
  have "slice_sort sigKey (DSort demo_decodeEnv)" by (simp add: demo_decodeEnv_def slice_sort_sort_key)
  then obtain rows failed where r: "convertSignals demo_decodeEnv demo_event = Some (rows, failed)"
    "\<forall>r \<in> set rows. SrSubject r = HSubject (EvHeader demo_event) \<and> SrTimestamp r \<le> DNow demo_decodeEnv + allowableTimeSkew"
    using stored_rows_wellformed [OF _ v] by blast
  have "HSubject (EvHeader demo_event) = ''veh''" by (simp add: demo_event_def)
  with r show ?thesis by simp
qed

subsection \<open>A batch\<close>

lemma fold_addResult:
  "fold addResult rs dec = \<lparr>BatchSignals = BatchSignals dec @ concat (map CrSignals rs),
     BatchEvents = BatchEvents dec @ concat (map CrEvents rs),
     BatchSignalCount = BatchSignalCount dec + length (concat (map CrSignals rs)),
     BatchEventCount = BatchEventCount dec + length (concat (map CrEvents rs)),
     BatchErrorCount = BatchErrorCount dec + sum_list (map CrFailed rs)\<rparr>"
  by (induction rs arbitrary: dec) (simp_all add: addResult_def)

text \<open>The first event of every key, the reference for the deduplication.\<close>

fun firstOfKeys :: "('a \<Rightarrow> 'k) \<Rightarrow> 'a list \<Rightarrow> 'a list" where
  "firstOfKeys key [] = []"
| "firstOfKeys key (x # xs) = x # firstOfKeys key (filter (\<lambda>y. key y \<noteq> key x) xs)"

definition decodable :: "vehicleGate \<Rightarrow> rawEvent \<Rightarrow> bool" where
  "decodable gate ev = (HType (EvHeader ev) = TypeStatus \<and> isVehicleSignalMessage gate ev \<or> HType (EvHeader ev) = TypeEvents)"

lemma selectJobs_first:
  "selectJobs key gate seen evs = filter (decodable gate) (firstOfKeys key (filter (\<lambda>e. key e \<notin> set seen) evs))"
proof (induction evs arbitrary: seen)
  case (Cons ev evs)
  have "filter (\<lambda>y. key y \<noteq> key ev) (filter (\<lambda>e. key e \<notin> set seen) evs) = filter (\<lambda>e. key e \<notin> set (key ev # seen)) evs"
    by (simp add: conj_commute)
  then show ?case using Cons [of "key ev # seen"] Cons [of seen]
    by (simp add: decodable_def TypeStatus_def TypeEvents_def Let_def del: filter_filter)
qed simp

lemma decodeEvents_jobs:
  "decodeEvents env key gate evs =
     (let jobs = filter (decodable gate) (firstOfKeys key evs) in
      \<lparr>BatchSignals = concat (map (\<lambda>e. CrSignals (convertJob env e)) jobs),
       BatchEvents = concat (map (\<lambda>e. CrEvents (convertJob env e)) jobs),
       BatchSignalCount = length (concat (map (\<lambda>e. CrSignals (convertJob env e)) jobs)),
       BatchEventCount = length (concat (map (\<lambda>e. CrEvents (convertJob env e)) jobs)),
       BatchErrorCount = (\<Sum>e \<leftarrow> jobs. CrFailed (convertJob env e))\<rparr>)"
  by (simp add: decodeEvents_def convertJobs_def selectJobs_first fold_addResult emptyBatch_def comp_def Let_def)

text \<open>
  C37. A batch decodes to the rows of its events one by one, in order: of events with the same key
  only the first, of the right type and past the vehicle gate. The counts are those of the rows.
\<close>

theorem batch_decoded_event_by_event:
  "decodeEvents env key gate evs =
     (let jobs = filter (decodable gate) (firstOfKeys key evs) in
      \<lparr>BatchSignals = concat (map (\<lambda>e. CrSignals (convertJob env e)) jobs),
       BatchEvents = concat (map (\<lambda>e. CrEvents (convertJob env e)) jobs),
       BatchSignalCount = length (concat (map (\<lambda>e. CrSignals (convertJob env e)) jobs)),
       BatchEventCount = length (concat (map (\<lambda>e. CrEvents (convertJob env e)) jobs)),
       BatchErrorCount = (\<Sum>e \<leftarrow> jobs. CrFailed (convertJob env e))\<rparr>)"
  by (rule decodeEvents_jobs)

end
