(* ===== verification/Mat_Db.thy ===== *)
theory Mat_Db
  imports Mat_Decode
begin

section \<open>The writer's catalog and its insert path (internal/materializer/ducklake.go)\<close>

text \<open>
  The state of \<open>DuckLakeMaterializer\<close>, the tables it writes and the transactions it runs. The
  database is a parameter: the \<open>n\<close>-th call of a run succeeds, fails before its commit, or fails at
  the commit with the transaction rolled back or landed all the same; between two calls other
  processes (\<open>Others\<close>) may write. A cancelled context shows as
  the failure of the next call. A table is a list of rows read as a bag; a statement is the HOL
  function its SQL text denotes. Cursors are numbers, as \<open>fmt.Sprint\<close> and \<open>fmt.Sscan\<close> round-trip
  them; a cell that holds something else is \<open>BadCursor\<close>.

  Shown here: the idempotent insert of decoded rows never stores an identity twice while the rows
  are younger than the probe floor, and never drops a row whose identity is new.
\<close>

subsection \<open>Tables and state\<close>

datatype cursorCell = NoCursorRow | NullCursor | BadCursor | CursorAt int

datatype watermarkCell = NoWatermark | BadWatermark | WatermarkAt time

text \<open>A row of lake.signals_latest and of lake.events_latest.\<close>

record rollupRow =
  RrSubject :: string
  RrSubjectBucket :: nat
  RrName :: string
  RrTimestamp :: time
  RrValueNumber :: f64
  RrValueString :: string
  RrLocLat :: f64
  RrLocLon :: f64
  RrLocHDOP :: f64
  RrLocHeading :: f64
  RrLocTS :: time
  RrCount :: nat
  RrFirstSeen :: time
  RrLastSeen :: time

record eventRollupRow =
  XrSubject :: string
  XrSubjectBucket :: nat
  XrName :: string
  XrCount :: nat
  XrFirstSeen :: time
  XrLastSeen :: time

record lakeDb =
  DbSignals :: "signalRow list"
  DbEvents :: "eventRow list"
  DbSignalsLatest :: "rollupRow list"
  DbEventsLatest :: "eventRollupRow list"
  DbShadow :: "rollupRow list option"
  DbLateSubjects :: "string list"
  DbCursor :: cursorCell
  DbWatermark :: watermarkCell
  DbConsumerProgress :: "int option"

record matCfg =
  maxSnapshotSpan :: int
  windowByteBudget :: int
  maxRowsPerWindow :: int
  backfillMode :: bool
  maxDirtySubjects :: nat
  dailyMode :: string
  dailyDelay :: duration
  HasLatestPub :: bool

text \<open>
  The fields of the process; \<open>Published\<close> and \<open>SettledBatches\<close> record the calls to the publisher,
  \<open>Ncalls\<close> counts the calls to the database.
\<close>

record mat =
  Db :: lakeDb
  Ncalls :: nat
  dirtySubjects :: "string set"
  rollupFullRebuild :: bool
  dirtyEventSubjects :: "string set"
  eventRollupFullRebuild :: bool
  dailyWatermark :: time
  dailyStateLoaded :: bool
  dailyLateSeen :: "string set"
  lastProgressReport :: time
  lastReportedSnapshot :: int
  Published :: "signalRow list list"
  SettledBatches :: nat

datatype txOutcome = TxOk | TxStmt goerr | TxCommitErr bool goerr

record lakeEnv =
  Tx :: "nat \<Rightarrow> txOutcome"
  Rd :: "nat \<Rightarrow> goerr option"
  Others :: "nat \<Rightarrow> lakeDb \<Rightarrow> lakeDb"
  Clock :: "nat \<Rightarrow> time"
  Pick :: "signalRow list \<Rightarrow> signalRow"
  PickEvent :: "eventRow list \<Rightarrow> eventRow"

text \<open>The end of a call; other processes may have changed the tables before the next one.\<close>

definition tick :: "('e) lakeEnv_scheme \<Rightarrow> mat \<Rightarrow> mat" where
  "tick env m = m\<lparr>Ncalls := Suc (Ncalls m), Db := Others env (Ncalls m) (Db m)\<rparr>"

text \<open>The time of \<open>time.Now()\<close> at this point of the run.\<close>

definition nowAt :: "('e) lakeEnv_scheme \<Rightarrow> mat \<Rightarrow> time" where "nowAt env m = Clock env (Ncalls m)"

text \<open>One transaction that applies \<open>f\<close> to the tables; the error is what the statement or \<open>Commit\<close> returned.\<close>

definition runTx :: "('e) lakeEnv_scheme \<Rightarrow> (lakeDb \<Rightarrow> lakeDb) \<Rightarrow> mat \<Rightarrow> goerr option \<times> mat" where
  "runTx env f m =
     (case Tx env (Ncalls m) of
        TxOk \<Rightarrow> (None, tick env (m\<lparr>Db := f (Db m)\<rparr>))
      | TxStmt e \<Rightarrow> (Some e, tick env m)
      | TxCommitErr landed e \<Rightarrow> (Some e, tick env (if landed then m\<lparr>Db := f (Db m)\<rparr> else m)))"

definition readCall :: "('e) lakeEnv_scheme \<Rightarrow> mat \<Rightarrow> goerr option \<times> mat" where
  "readCall env m = (Rd env (Ncalls m), tick env m)"

subsection \<open>Errors by their text\<close>

fun errText :: "goerr \<Rightarrow> string" where
  "errText (Err s) = s"
| "errText (Wrap s e) = s @ '': '' @ errText e"
| "errText ErrCanceled = ''context canceled''"
| "errText ErrDeadlineExceeded = ''context deadline exceeded''"
| "errText (BadRequestError e) = errText e"
| "errText (ServiceUnavailableError e s) = errText e"
| "errText (InternalError e s) = errText e"

fun hasPrefix :: "string \<Rightarrow> string \<Rightarrow> bool" where
  "hasPrefix [] s = True"
| "hasPrefix (p # ps) [] = False"
| "hasPrefix (p # ps) (c # s) = (p = c \<and> hasPrefix ps s)"

fun contains :: "string \<Rightarrow> string \<Rightarrow> bool" where
  "contains [] sub = (sub = [])"
| "contains (c # s) sub = (hasPrefix sub (c # s) \<or> contains s sub)"

definition isCommitConflict :: "goerr \<Rightarrow> bool" where
  "isCommitConflict e = (contains (errText e) ''Transaction conflict''
     \<or> contains (errText e) ''Failed to commit DuckLake transaction'')"

definition isDatabaseInvalidated :: "goerr \<Rightarrow> bool" where
  "isDatabaseInvalidated e = contains (errText e) ''database has been invalidated''"

definition errSnapshotMoved :: goerr where
  "errSnapshotMoved = Err ''snapshot cursor advanced by another writer''"

subsection \<open>The probe window and the idempotent insert\<close>

definition dedupProbeFloor :: duration where "dedupProbeFloor = 30 * 24 * hour"

fun minMaxLoop :: "time list \<Rightarrow> time \<Rightarrow> time \<Rightarrow> time \<times> time" where
  "minMaxLoop [] minT maxT = (minT, maxT)"
| "minMaxLoop (t # ts) minT maxT =
     minMaxLoop ts (if Before t minT then t else minT) (if After t maxT then t else maxT)"

definition minMaxTime :: "('r \<Rightarrow> time) \<Rightarrow> 'r list \<Rightarrow> time \<times> time" where
  "minMaxTime ts rows = (case map ts rows of [] \<Rightarrow> (zeroTime, zeroTime) | t # rest \<Rightarrow> minMaxLoop rest t t)"

definition clampProbeFloor :: "time \<Rightarrow> time \<times> time \<Rightarrow> time \<times> time" where
  "clampProbeFloor now = (\<lambda>(minT, maxT).
     if IsZero minT then (minT, maxT)
     else let minT = (if Before minT (Add now (- dedupProbeFloor)) then Add now (- dedupProbeFloor) else minT);
              maxT = (if Before maxT minT then minT else maxT)
          in (minT, maxT))"

definition timeRange :: "time \<Rightarrow> ('r \<Rightarrow> time) \<Rightarrow> 'r list \<Rightarrow> time \<times> time" where
  "timeRange now ts rows = clampProbeFloor now (minMaxTime ts rows)"

text \<open>A timestamp literal has microseconds.\<close>

definition sqlTimestampLit :: "time \<Rightarrow> time" where "sqlTimestampLit t = Truncate t microsecond"

text \<open>What the anti-join compares: bucket, time, event id and name.\<close>

type_synonym rowIdent = "nat \<times> time \<times> string \<times> string"

definition signalIdent :: "signalRow \<Rightarrow> rowIdent" where
  "signalIdent r = (SrSubjectBucket r, SrTimestamp r, SrCloudEventID r, SrName r)"

definition eventIdent :: "eventRow \<Rightarrow> rowIdent" where
  "eventIdent r = (ErSubjectBucket r, ErTimestamp r, ErCloudEventID r, ErRowName r)"

definition antiJoinInsert :: "('r \<Rightarrow> rowIdent) \<Rightarrow> time \<times> time \<Rightarrow> bool \<Rightarrow> 'r list \<Rightarrow> 'r list \<Rightarrow> 'r list" where
  "antiJoinInsert ident window skipDedup src tab =
     (if skipDedup then tab @ src
      else tab @ filter (\<lambda>s. \<not> (\<exists>t \<in> set tab. sqlTimestampLit (fst window) \<le> fst (snd (ident t))
              \<and> fst (snd (ident t)) \<le> sqlTimestampLit (snd window) \<and> ident t = ident s)) src)"

subsection \<open>Late subjects and dirty subjects\<close>

definition DailyRollupOff :: string where "DailyRollupOff = ''off''"
definition DailyRollupOn :: string where "DailyRollupOn = ''on''"

definition dailyConfigured :: "matCfg \<Rightarrow> bool" where
  "dailyConfigured cfg = (dailyMode cfg \<noteq> [] \<and> dailyMode cfg \<noteq> DailyRollupOff)"

definition dailyActive :: "matCfg \<Rightarrow> mat \<Rightarrow> bool" where
  "dailyActive cfg m = (dailyConfigured cfg \<and> dailyStateLoaded m \<and> \<not> IsZero (dailyWatermark m))"

text \<open>The subjects to record; the loop's \<open>seen\<close> set.\<close>

fun lateLoop :: "mat \<Rightarrow> string set \<Rightarrow> signalRow list \<Rightarrow> string list" where
  "lateLoop m seen [] = []"
| "lateLoop m seen (r # rs) =
     (if \<not> Before (SrTimestamp r) (dailyWatermark m) then lateLoop m seen rs
      else if SrSubject r \<in> dailyLateSeen m then lateLoop m seen rs
      else if SrSubject r \<in> seen then lateLoop m seen rs
      else SrSubject r # lateLoop m (insert (SrSubject r) seen) rs)"

definition lateDailyInsert :: "mat \<Rightarrow> signalRow list \<Rightarrow> string list" where
  "lateDailyInsert m signals = lateLoop m {} signals"

definition markLateDailySeen :: "matCfg \<Rightarrow> signalRow list \<Rightarrow> mat \<Rightarrow> mat" where
  "markLateDailySeen cfg signals m =
     (let seen = dailyLateSeen m \<union> SrSubject ` set (filter (\<lambda>r. Before (SrTimestamp r) (dailyWatermark m)) signals)
      in m\<lparr>dailyLateSeen := (if maxDirtySubjects cfg < card seen then {} else seen)\<rparr>)"

definition markDirtyFromBatch :: "matCfg \<Rightarrow> decodedBatch \<Rightarrow> mat \<Rightarrow> mat" where
  "markDirtyFromBatch cfg dec m =
     (let m = (if backfillMode cfg
               then let d = dirtySubjects m \<union> SrSubject ` set (BatchSignals dec)
                    in if maxDirtySubjects cfg < card d then m\<lparr>dirtySubjects := {}, rollupFullRebuild := True\<rparr>
                       else m\<lparr>dirtySubjects := d\<rparr>
               else m);
          d = dirtyEventSubjects m \<union> ErSubject ` set (BatchEvents dec);
          m = (if maxDirtySubjects cfg < card d then m\<lparr>dirtyEventSubjects := {}, eventRollupFullRebuild := True\<rparr>
               else m\<lparr>dirtyEventSubjects := d\<rparr>)
      in if dailyActive cfg m then markLateDailySeen cfg (BatchSignals dec) m else m)"

text \<open>What the inserts of a steady batch do to the tables, inside one transaction.\<close>

definition insertDecodedSteady :: "matCfg \<Rightarrow> time \<Rightarrow> mat \<Rightarrow> decodedBatch \<Rightarrow> lakeDb \<Rightarrow> lakeDb" where
  "insertDecodedSteady cfg now m dec d =
     (let d = (if BatchSignals dec \<noteq> []
               then let d = d\<lparr>DbSignals := antiJoinInsert signalIdent (timeRange now SrTimestamp (BatchSignals dec))
                              (backfillMode cfg) (BatchSignals dec) (DbSignals d)\<rparr>
                    in if dailyActive cfg m
                       then d\<lparr>DbLateSubjects := DbLateSubjects d @ lateDailyInsert m (BatchSignals dec)\<rparr> else d
               else d)
      in if BatchEvents dec \<noteq> []
         then d\<lparr>DbEvents := antiJoinInsert eventIdent (timeRange now ErTimestamp (BatchEvents dec))
                (backfillMode cfg) (BatchEvents dec) (DbEvents d)\<rparr>
         else d)"

text \<open>\<open>publishLatest\<close> before the transaction, and the settle function the callers defer.\<close>

definition publishLatest :: "matCfg \<Rightarrow> decodedBatch \<Rightarrow> mat \<Rightarrow> mat" where
  "publishLatest cfg dec m =
     (if \<not> HasLatestPub cfg \<or> BatchSignals dec = [] then m else m\<lparr>Published := Published m @ [BatchSignals dec]\<rparr>)"

definition settled :: "matCfg \<Rightarrow> decodedBatch \<Rightarrow> mat \<Rightarrow> mat" where
  "settled cfg dec m =
     (if \<not> HasLatestPub cfg \<or> BatchSignals dec = [] then m else m\<lparr>SettledBatches := Suc (SettledBatches m)\<rparr>)"

subsection \<open>What the insert does\<close>

lemma minMaxLoop_bounds:
  "minMaxLoop ts a b = (lo, hi) \<Longrightarrow> lo \<le> a \<and> b \<le> hi \<and> (\<forall>t \<in> set ts. lo \<le> t \<and> t \<le> hi)"
proof (induction ts a b rule: minMaxLoop.induct)
  case (2 t ts a b)
  from 2(1) [of] 2(2) show ?case by (auto simp: Before_def After_def split: if_splits)
qed simp

lemma minMaxTime_bounds:
  assumes "minMaxTime ts rows = (lo, hi)" and "r \<in> set rows"
  shows "lo \<le> ts r \<and> ts r \<le> hi"
proof (cases rows)
  case (Cons x xs)
  then show ?thesis
    using assms minMaxLoop_bounds [of "map ts xs" "ts x" "ts x" lo hi] by (auto simp: minMaxTime_def)
qed (use assms in simp)

lemma Truncate_mono: "0 < d \<Longrightarrow> a \<le> b \<Longrightarrow> Truncate a d \<le> Truncate b d"
proof -
  assume d: "0 < d" and ab: "a \<le> b"
  have "Truncate x d = d * (x div d)" for x using d by (simp add: Truncate_def minus_mod_eq_mult_div)
  then show ?thesis using zdiv_mono1 [OF ab d] d by (simp add: mult_left_mono)
qed

lemma Truncate_fixed: "0 < d \<Longrightarrow> t mod d = 0 \<Longrightarrow> Truncate t d = t"
  by (simp add: Truncate_def)

text \<open>A row of the batch that is not older than the floor lies in the probe window.\<close>

lemma probe_window:
  assumes w: "timeRange now ts rows = (lo, hi)" and r: "r \<in> set rows"
    and micro: "ts r mod microsecond = 0" and recent: "now - dedupProbeFloor \<le> ts r"
  shows "sqlTimestampLit lo \<le> ts r \<and> ts r \<le> sqlTimestampLit hi"
proof -
  obtain a b where ab: "minMaxTime ts rows = (a, b)" by fastforce
  have rab: "a \<le> ts r" "ts r \<le> b" using minMaxTime_bounds [OF ab r] by auto
  then have "lo \<le> ts r" "ts r \<le> hi"
    using w ab recent by (auto simp: timeRange_def clampProbeFloor_def Let_def Before_def Add_def IsZero_def split: if_splits)
  moreover have "0 < microsecond" by (simp add: microsecond_def)
  ultimately show ?thesis
    using Truncate_le [of microsecond lo] Truncate_mono [of microsecond "ts r" hi] Truncate_fixed [OF _ micro]
    by (simp add: sqlTimestampLit_def)
qed

lemma antiJoin_idents: "ident ` set (antiJoinInsert ident w skip src tab) = ident ` set tab \<union> ident ` set src"
proof (cases skip)
  case False
  let ?P = "\<lambda>s t. sqlTimestampLit (fst w) \<le> fst (snd (ident t)) \<and> fst (snd (ident t)) \<le> sqlTimestampLit (snd w) \<and> ident t = ident s"
  have "ident s \<in> ident ` set tab \<union> ident ` set (filter (\<lambda>s. \<not> (\<exists>t \<in> set tab. ?P s t)) src)" if "s \<in> set src" for s
  proof (cases "\<exists>t \<in> set tab. ?P s t")
    case True
    then obtain t where "t \<in> set tab" "ident t = ident s" by blast
    then have "ident s \<in> ident ` set tab" by (metis imageI)
    then show ?thesis ..
  next
    case False
    then have "s \<in> set (filter (\<lambda>s. \<not> (\<exists>t \<in> set tab. ?P s t)) src)" using that by simp
    then show ?thesis by blast
  qed
  then have "ident ` set src \<subseteq> ident ` set tab \<union> ident ` set (filter (\<lambda>s. \<not> (\<exists>t \<in> set tab. ?P s t)) src)" by blast
  moreover have "ident ` set (filter (\<lambda>s. \<not> (\<exists>t \<in> set tab. ?P s t)) src) \<subseteq> ident ` set src" by auto
  ultimately have "ident ` set tab \<union> ident ` set (filter (\<lambda>s. \<not> (\<exists>t \<in> set tab. ?P s t)) src) = ident ` set tab \<union> ident ` set src"
    by blast
  then show ?thesis using False by (simp add: antiJoinInsert_def image_Un)
qed (simp add: antiJoinInsert_def image_Un)

lemma count_map_filter: "count_list (map f (filter P xs)) x \<le> count_list (map f xs) x"
  by (induction xs) auto

text \<open>
  An identity that the batch holds at most once, and whose time is in the probe window, is in the
  table at most once afterwards.
\<close>

lemma antiJoin_count:
  assumes "count_list (map ident tab) x \<le> 1" "count_list (map ident src) x \<le> 1"
    and "x \<in> ident ` set src \<Longrightarrow> sqlTimestampLit (fst w) \<le> fst (snd x) \<and> fst (snd x) \<le> sqlTimestampLit (snd w)"
  shows "count_list (map ident (antiJoinInsert ident w False src tab)) x \<le> 1"
proof -
  define new where "new = filter (\<lambda>s. \<not> (\<exists>t \<in> set tab. sqlTimestampLit (fst w) \<le> fst (snd (ident t))
              \<and> fst (snd (ident t)) \<le> sqlTimestampLit (snd w) \<and> ident t = ident s)) src"
  have eq: "map ident (antiJoinInsert ident w False src tab) = map ident tab @ map ident new"
    by (simp add: antiJoinInsert_def new_def)
  show ?thesis
  proof (cases "x \<in> ident ` set tab")
    case True
    then obtain t where t: "t \<in> set tab" "ident t = x" by (metis imageE)
    have "ident s \<noteq> x" if "s \<in> set new" for s
    proof
      assume s: "ident s = x"
      then have "x \<in> ident ` set src" using that by (auto simp: new_def)
      from assms(3) [OF this] show False using that t s unfolding new_def by auto
    qed
    then have "x \<notin> set (map ident new)" by auto
    then have "count_list (map ident new) x = 0" by (simp add: count_list_0_iff)
    then show ?thesis using assms(1) by (simp add: eq)
  next
    case False
    then have "count_list (map ident tab) x = 0" by (simp add: count_list_0_iff)
    moreover have "count_list (map ident new) x \<le> 1"
      unfolding new_def by (rule order_trans [OF count_map_filter assms(2)])
    ultimately show ?thesis by (simp add: eq)
  qed
qed

text \<open>
  The price of the floor: when every row of a batch is older than it, the probe sees none of the
  stored copies, and a replayed batch is stored again in full.
\<close>

lemma minMaxLoop_below:
  "minMaxLoop ts a b = (lo, hi) \<Longrightarrow> \<forall>t \<in> set ts. t < c \<Longrightarrow> a < c \<Longrightarrow> b < c \<Longrightarrow> lo < c \<and> hi < c"
  by (induction ts a b rule: minMaxLoop.induct) (auto simp: Before_def After_def split: if_splits)

lemma old_replay_stored_twice:
  assumes "rows \<noteq> []" and old: "\<forall>r \<in> set rows. ts r < now - dedupProbeFloor"
    and nz: "\<forall>r \<in> set rows. ts r \<noteq> zeroTime" and micro: "(now - dedupProbeFloor) mod microsecond = 0"
    and time: "\<And>r. fst (snd (ident r)) = ts r"
  shows "antiJoinInsert ident (timeRange now ts rows) False rows (tab @ rows) = tab @ rows @ rows"
proof -
  obtain a b where ab: "minMaxTime ts rows = (a, b)" by fastforce
  obtain x xs where rows: "rows = x # xs" using assms(1) by (cases rows) auto
  have below: "a < now - dedupProbeFloor" "b < now - dedupProbeFloor"
    using minMaxLoop_below [of "map ts xs" "ts x" "ts x" a b "now - dedupProbeFloor"] ab old by (auto simp: minMaxTime_def rows)
  show ?thesis
  proof (cases "IsZero a")
    case False
    then have "timeRange now ts rows = (now - dedupProbeFloor, now - dedupProbeFloor)"
      using below by (simp add: timeRange_def clampProbeFloor_def ab Before_def Add_def Let_def)
    moreover have "sqlTimestampLit (now - dedupProbeFloor) = now - dedupProbeFloor"
      using Truncate_fixed [OF _ micro] by (simp add: sqlTimestampLit_def microsecond_def)
    moreover have "\<not> (now - dedupProbeFloor \<le> fst (snd (ident t)) \<and> fst (snd (ident t)) \<le> now - dedupProbeFloor \<and> ident t = ident s)"
      if "s \<in> set rows" for s t
      using old that time [of s] by auto
    ultimately show ?thesis unfolding antiJoinInsert_def by (auto simp: filter_id_conv)
  next
    case True
    have "a \<in> ts ` set rows"
    proof -
      have "minMaxLoop us p q = (lo, hi) \<Longrightarrow> lo = p \<or> lo \<in> set us" for us p q lo hi
        by (induction us p q rule: minMaxLoop.induct) (auto split: if_splits)
      from this [of "map ts xs" "ts x" "ts x" a b] ab show ?thesis by (auto simp: minMaxTime_def rows)
    qed
    then show ?thesis using True nz by (auto simp: IsZero_def zeroTime_def)
  qed
qed

subsubsection \<open>Identities\<close>

datatype rowKind = SignalRows | EventRows

definition kindIds :: "rowKind \<Rightarrow> decodedBatch \<Rightarrow> rowIdent list" where
  "kindIds k b = (case k of SignalRows \<Rightarrow> map signalIdent (BatchSignals b) | EventRows \<Rightarrow> map eventIdent (BatchEvents b))"

definition storedIds :: "rowKind \<Rightarrow> lakeDb \<Rightarrow> rowIdent list" where
  "storedIds k d = (case k of SignalRows \<Rightarrow> map signalIdent (DbSignals d) | EventRows \<Rightarrow> map eventIdent (DbEvents d))"

lemma insert_signals:
  "signalIdent ` set (DbSignals (insertDecodedSteady cfg now m dec d)) = signalIdent ` set (DbSignals d) \<union> signalIdent ` set (BatchSignals dec)"
  "eventIdent ` set (DbEvents (insertDecodedSteady cfg now m dec d)) = eventIdent ` set (DbEvents d) \<union> eventIdent ` set (BatchEvents dec)"
  by (simp_all add: insertDecodedSteady_def Let_def antiJoin_idents)

lemma insert_frame:
  "DbCursor (insertDecodedSteady cfg now m dec d) = DbCursor d"
  "DbWatermark (insertDecodedSteady cfg now m dec d) = DbWatermark d"
  "DbSignalsLatest (insertDecodedSteady cfg now m dec d) = DbSignalsLatest d"
  "DbEventsLatest (insertDecodedSteady cfg now m dec d) = DbEventsLatest d"
  "DbConsumerProgress (insertDecodedSteady cfg now m dec d) = DbConsumerProgress d"
  by (simp_all add: insertDecodedSteady_def Let_def)

lemma insert_once:
  assumes "\<not> backfillMode cfg" and "count_list (storedIds k d) x \<le> 1" and "count_list (kindIds k dec) x \<le> 1"
    and "x \<in> set (kindIds k dec) \<Longrightarrow> fst (snd x) mod microsecond = 0" and "now - dedupProbeFloor \<le> fst (snd x)"
  shows "count_list (storedIds k (insertDecodedSteady cfg now m dec d)) x \<le> 1"
proof (cases k)
  case SignalRows
  have "count_list (map signalIdent (antiJoinInsert signalIdent (timeRange now SrTimestamp (BatchSignals dec)) False
      (BatchSignals dec) (DbSignals d))) x \<le> 1"
  proof (rule antiJoin_count)
    assume "x \<in> signalIdent ` set (BatchSignals dec)"
    then obtain r where r: "r \<in> set (BatchSignals dec)" "x = signalIdent r" by blast
    then show "sqlTimestampLit (fst (timeRange now SrTimestamp (BatchSignals dec))) \<le> fst (snd x)
      \<and> fst (snd x) \<le> sqlTimestampLit (snd (timeRange now SrTimestamp (BatchSignals dec)))"
      using probe_window [OF prod.collapse [symmetric] r(1), of SrTimestamp now] assms(4,5) SignalRows
      by (auto simp: kindIds_def signalIdent_def)
  qed (use assms(2,3) SignalRows in \<open>simp_all add: storedIds_def kindIds_def\<close>)
  then show ?thesis using assms(1,2) SignalRows by (simp add: storedIds_def insertDecodedSteady_def Let_def)
next
  case EventRows
  have "count_list (map eventIdent (antiJoinInsert eventIdent (timeRange now ErTimestamp (BatchEvents dec)) False
      (BatchEvents dec) (DbEvents d))) x \<le> 1"
  proof (rule antiJoin_count)
    assume "x \<in> eventIdent ` set (BatchEvents dec)"
    then obtain r where r: "r \<in> set (BatchEvents dec)" "x = eventIdent r" by blast
    then show "sqlTimestampLit (fst (timeRange now ErTimestamp (BatchEvents dec))) \<le> fst (snd x)
      \<and> fst (snd x) \<le> sqlTimestampLit (snd (timeRange now ErTimestamp (BatchEvents dec)))"
      using probe_window [OF prod.collapse [symmetric] r(1), of ErTimestamp now] assms(4,5) EventRows
      by (auto simp: kindIds_def eventIdent_def)
  qed (use assms(2,3) EventRows in \<open>simp_all add: storedIds_def kindIds_def\<close>)
  then show ?thesis using assms(1,2) EventRows by (simp add: storedIds_def insertDecodedSteady_def Let_def)
qed

end
