(* ===== verification/Mat_Span.thy ===== *)
theory Mat_Span
  imports Mat_Db
begin

section \<open>The span protocol (internal/materializer/ducklake.go)\<close>

text \<open>
  One pass of the decoder: read the cursor and the head, decode the insert delta of a bounded span
  of snapshots in windows of bounded size, write every window but the last without moving the
  cursor, and let the last window's transaction move it. The change feed, the blob store and the
  order of equal keys are parameters; every database call may fail, and a commit may land although
  it reports an error.

  The loops take fuel; a pass is shown to return for enough of it. Shown here: the windows read
  every row of the span; a raw row at or below the cursor has been decoded and its rows stored,
  whatever failed and crashed on the way, unless its snapshot had expired; no identity is stored
  twice; the reported floor is never ahead of the cursor; a stored batch was published first.
\<close>

subsection \<open>Rows of the feed\<close>

type_synonym rawRow = "rawEvent \<times> string"

type_synonym rawRowKey = "string \<times> time \<times> string"

definition rowKey :: "rawRow \<Rightarrow> rawRowKey" where
  "rowKey r = (HSubject (EvHeader (fst r)), HTime (EvHeader (fst r)), HID (EvHeader (fst r)))"

text \<open>Row values compare lexicographically.\<close>

definition keyLess :: "rawRowKey \<Rightarrow> rawRowKey \<Rightarrow> bool" where
  "keyLess a b = (fst a < fst b \<or> fst a = fst b \<and> (fst (snd a) < fst (snd b)
     \<or> fst (snd a) = fst (snd b) \<and> snd (snd a) < snd (snd b)))"

datatype blobErr = BlobNotFound | BlobTooLarge | BlobSealedNoKey | BlobDecrypt | BlobOther goerr

record spanEnv = lakeEnv +
  RawEventsExist :: "nat \<Rightarrow> bool res"
  Head :: "nat \<Rightarrow> int option res"
  Oldest :: "nat \<Rightarrow> int option res"
  Feed :: "nat \<Rightarrow> int \<Rightarrow> int \<Rightarrow> rawRow list res"
  OrderBy :: "rawRow list \<Rightarrow> rawRow list"
  BlobStore :: "(nat \<Rightarrow> string \<Rightarrow> blobErr + string) option"
  BlobCipher :: "(string \<Rightarrow> string \<Rightarrow> blobErr + string) option"
  IsSealed :: "string \<Rightarrow> bool"
  DecodeAt :: "nat \<Rightarrow> decodeEnv"
  RawKey :: "rawEvent \<Rightarrow> string"
  Vehicles :: vehicleGate

definition BlobKeyPrefix :: string where "BlobKeyPrefix = ''cloudevent/blobs/''"

subsection \<open>Blob payloads\<close>

definition resolveBlob :: "spanEnv \<Rightarrow> nat \<Rightarrow> rawEvent \<Rightarrow> string \<Rightarrow> blobErr + rawEvent" where
  "resolveBlob env n ev key =
     (if EvData ev \<noteq> [] \<or> EvDataBase64 ev \<noteq> [] then Inr ev
      else if \<not> hasPrefix BlobKeyPrefix key then Inr ev
      else (case BlobStore env of
              None \<Rightarrow> Inl (BlobOther (Err (''raw_events row '' @ HID (EvHeader ev) @ '' references blob payload '' @ key
                          @ '' but no object store is configured'')))
            | Some get \<Rightarrow> (case get n key of
                  Inl e \<Rightarrow> Inl e
                | Inr bytes \<Rightarrow> (case BlobCipher env of
                      Some unseal \<Rightarrow> (case unseal key bytes of Inl e \<Rightarrow> Inl e | Inr plain \<Rightarrow> Inr (ev\<lparr>EvData := plain\<rparr>))
                    | None \<Rightarrow> if IsSealed env bytes then Inl BlobSealedNoKey else Inr (ev\<lparr>EvData := bytes\<rparr>)))))"

text \<open>A row after its fetch: kept, skipped for good, or the failure that aborts the pass.\<close>

datatype resolved = Kept rawEvent | Skipped | Transient goerr

definition resolveRow :: "spanEnv \<Rightarrow> nat \<Rightarrow> rawRow \<Rightarrow> resolved" where
  "resolveRow env n r =
     (case resolveBlob env n (fst r) (snd r) of
        Inr ev \<Rightarrow> Kept ev
      | Inl BlobNotFound \<Rightarrow> Skipped
      | Inl BlobTooLarge \<Rightarrow> Skipped
      | Inl BlobSealedNoKey \<Rightarrow> Skipped
      | Inl BlobDecrypt \<Rightarrow> Skipped
      | Inl (BlobOther e) \<Rightarrow> Transient e)"

fun resolveBlobs :: "spanEnv \<Rightarrow> nat \<Rightarrow> rawRow list \<Rightarrow> rawEvent list res" where
  "resolveBlobs env n [] = Inr []"
| "resolveBlobs env n (r # rs) =
     (case resolveRow env n r of
        Transient e \<Rightarrow> Inl e
      | Skipped \<Rightarrow> resolveBlobs env n rs
      | Kept ev \<Rightarrow> (case resolveBlobs env n rs of Inl e \<Rightarrow> Inl e | Inr evs \<Rightarrow> Inr (ev # evs)))"

subsection \<open>Windows\<close>

definition windowReadChunk :: nat where "windowReadChunk = 512"

record spanCounts =
  rawRows :: nat
  signalCount :: nat
  eventCount :: nat
  errCount :: nat
  oldestSeen :: time

definition noCounts :: spanCounts where
  "noCounts = \<lparr>rawRows = 0, signalCount = 0, eventCount = 0, errCount = 0, oldestSeen = zeroTime\<rparr>"

definition earlier :: "time \<Rightarrow> time \<Rightarrow> time" where
  "earlier a b = (if IsZero a then b else if IsZero b then a else if Before b a then b else a)"

definition appendDecoded :: "decodedBatch \<Rightarrow> decodedBatch \<Rightarrow> decodedBatch" where
  "appendDecoded dst src =
     \<lparr>BatchSignals = BatchSignals dst @ BatchSignals src, BatchEvents = BatchEvents dst @ BatchEvents src,
      BatchSignalCount = BatchSignalCount dst + BatchSignalCount src,
      BatchEventCount = BatchEventCount dst + BatchEventCount src,
      BatchErrorCount = BatchErrorCount dst + BatchErrorCount src\<rparr>"

definition rawResidentBytes :: "rawEvent list \<Rightarrow> int" where
  "rawResidentBytes evs = (\<Sum>e \<leftarrow> evs. int (length (EvData e)) + int (length (EvDataBase64 e)))"

definition pageOf :: "spanEnv \<Rightarrow> rawRowKey option \<Rightarrow> nat \<Rightarrow> rawRow list \<Rightarrow> rawRow list" where
  "pageOf env after limit rows =
     take limit (OrderBy env (filter (\<lambda>r. case after of None \<Rightarrow> True | Some k \<Rightarrow> keyLess k (rowKey r)) rows))"

definition readDeltaWindow ::
  "spanEnv \<Rightarrow> int \<Rightarrow> int \<Rightarrow> rawRowKey option \<Rightarrow> nat \<Rightarrow> mat \<Rightarrow> (rawEvent list \<times> rawRowKey option \<times> nat) res \<times> mat" where
  "readDeltaWindow env start upTo after limit m =
     (case Feed env (Ncalls m) start upTo of
        Inl e \<Rightarrow> (Inl (Wrap ''reading raw_events delta window'' e), tick env m)
      | Inr rows \<Rightarrow>
          let page = pageOf env after limit rows;
              lastKey = (if page = [] then None else Some (rowKey (last page)))
          in (case resolveBlobs env (Ncalls m) page of
                Inl e \<Rightarrow> (Inl e, tick env m)
              | Inr evs \<Rightarrow> (Inr (evs, lastKey, length page), tick env m)))"

definition addPage :: "decodedBatch \<Rightarrow> rawEvent list \<Rightarrow> nat \<Rightarrow> spanCounts \<Rightarrow> spanCounts" where
  "addPage d evs got c = \<lparr>rawRows = rawRows c + got, signalCount = signalCount c + BatchSignalCount d,
     eventCount = eventCount c + BatchEventCount d, errCount = errCount c + BatchErrorCount d,
     oldestSeen = fold (\<lambda>e t. earlier t (HTime (EvHeader e))) evs (oldestSeen c)\<rparr>"

definition decodePage :: "spanEnv \<Rightarrow> nat \<Rightarrow> rawEvent list \<Rightarrow> decodedBatch" where
  "decodePage env n evs = decodeEvents (DecodeAt env n) (RawKey env) (Vehicles env) evs"

text \<open>How many rows the next page may have; \<open>None\<close> when the window is full.\<close>

definition readLimit :: "matCfg \<Rightarrow> spanCounts \<Rightarrow> nat option" where
  "readLimit cfg c =
     (if 0 < maxRowsPerWindow cfg
      then let left = maxRowsPerWindow cfg - int (rawRows c)
           in if left \<le> 0 then None else if left < int windowReadChunk then Some (nat left) else Some windowReadChunk
      else Some windowReadChunk)"

fun windowLoop ::
  "nat \<Rightarrow> matCfg \<Rightarrow> spanEnv \<Rightarrow> int \<Rightarrow> int \<Rightarrow> rawRowKey option \<Rightarrow> decodedBatch \<Rightarrow> spanCounts \<Rightarrow> int \<Rightarrow> mat
     \<Rightarrow> ((rawRowKey option \<times> decodedBatch \<times> spanCounts) res \<times> mat) option" where
  "windowLoop 0 cfg env start upTo after win c winBytes m = None"
| "windowLoop (Suc fuel) cfg env start upTo after win c winBytes m =
     (case readLimit cfg c of
        None \<Rightarrow> Some (Inr (after, win, c), m)
      | Some limit \<Rightarrow>
          (case readDeltaWindow env start upTo after limit m of
             (Inl e, m) \<Rightarrow> Some (Inl e, m)
           | (Inr (evs, lastKey, got), m) \<Rightarrow>
               if got = 0 then Some (Inr (after, win, c), m)
               else let d = decodePage env (Ncalls m) evs;
                        bytes = winBytes + rawResidentBytes evs;
                        win = appendDecoded win d;
                        c = addPage d evs got c
                    in if got < limit then Some (Inr (lastKey, win, c), m)
                       else if 0 < windowByteBudget cfg \<and> windowByteBudget cfg \<le> bytes then Some (Inr (lastKey, win, c), m)
                       else windowLoop fuel cfg env start upTo lastKey win c bytes m))"

definition nextWindow ::
  "nat \<Rightarrow> matCfg \<Rightarrow> spanEnv \<Rightarrow> int \<Rightarrow> int \<Rightarrow> rawRowKey option \<Rightarrow> mat
     \<Rightarrow> ((rawRowKey option \<times> decodedBatch \<times> spanCounts) res \<times> mat) option" where
  "nextWindow fuel cfg env start upTo after m = windowLoop fuel cfg env start upTo after emptyBatch noCounts 0 m"

subsection \<open>Cursor, commit and intermediate windows\<close>

text \<open>\<open>cursor\<close>: a missing row is seeded again.\<close>

definition seedCursor :: "lakeDb \<Rightarrow> lakeDb" where
  "seedCursor d = (if DbCursor d = NoCursorRow then d\<lparr>DbCursor := CursorAt 0\<rparr> else d)"

definition cursor :: "spanEnv \<Rightarrow> mat \<Rightarrow> int res \<times> mat" where
  "cursor env m =
     (case readCall env m of
        (Some e, m) \<Rightarrow> (Inl (Wrap ''reading snapshot cursor'' e), m)
      | (None, m) \<Rightarrow>
          (case DbCursor (Db m) of
             NoCursorRow \<Rightarrow> (case runTx env seedCursor m of
                 (Some e, m) \<Rightarrow> (Inl (Wrap ''re-seeding missing ingest_progress cursor'' e), m)
               | (None, m) \<Rightarrow> (Inr 0, m))
           | NullCursor \<Rightarrow> (Inr 0, m)
           | BadCursor \<Rightarrow> (Inl (Err ''parsing snapshot cursor''), m)
           | CursorAt n \<Rightarrow> (Inr n, m)))"

definition casCursor :: "int \<Rightarrow> int \<Rightarrow> lakeDb \<Rightarrow> lakeDb" where
  "casCursor start upTo d = (if DbCursor d = CursorAt start then d\<lparr>DbCursor := CursorAt upTo\<rparr> else d)"

definition commitLanded :: "spanEnv \<Rightarrow> int \<Rightarrow> mat \<Rightarrow> bool \<times> mat" where
  "commitLanded env upTo m = (case cursor env m of (Inl e, m) \<Rightarrow> (False, m) | (Inr c, m) \<Rightarrow> (c = upTo, m))"

text \<open>
  \<open>commit\<close>: inserts and the cursor's compare-and-swap in one transaction, which is given up when
  the swap finds another cursor. A commit error that is no conflict may be a lost acknowledgement.
\<close>

definition commitTx :: "matCfg \<Rightarrow> spanEnv \<Rightarrow> decodedBatch \<Rightarrow> int \<Rightarrow> int \<Rightarrow> mat \<Rightarrow> unit res \<times> mat" where
  "commitTx cfg env dec start upTo m =
     (if DbCursor (Db m) \<noteq> CursorAt start
      then (case Tx env (Ncalls m) of TxStmt e \<Rightarrow> (Inl e, tick env m) | _ \<Rightarrow> (Inl errSnapshotMoved, tick env m))
      else (case runTx env (\<lambda>d. casCursor start upTo (insertDecodedSteady cfg (nowAt env m) m dec d)) m of
              (None, m) \<Rightarrow> (Inr (), markDirtyFromBatch cfg dec m)
            | (Some e, m') \<Rightarrow>
                (case Tx env (Ncalls m) of
                   TxCommitErr _ _ \<Rightarrow>
                     if isCommitConflict e then (Inl errSnapshotMoved, m')
                     else (case commitLanded env upTo m' of
                             (True, m') \<Rightarrow> (Inr (), markDirtyFromBatch cfg dec m')
                           | (False, m') \<Rightarrow> (Inl (Wrap ''commit'' e), m'))
                 | _ \<Rightarrow> (Inl e, m'))))"

definition commit :: "matCfg \<Rightarrow> spanEnv \<Rightarrow> decodedBatch \<Rightarrow> int \<Rightarrow> int \<Rightarrow> mat \<Rightarrow> unit res \<times> mat" where
  "commit cfg env dec start upTo m =
     (let (res, m) = commitTx cfg env dec start upTo (publishLatest cfg dec m) in (res, settled cfg dec m))"

definition writeWindow :: "matCfg \<Rightarrow> spanEnv \<Rightarrow> decodedBatch \<Rightarrow> mat \<Rightarrow> unit res \<times> mat" where
  "writeWindow cfg env dec m =
     (if BatchSignals dec = [] \<and> BatchEvents dec = [] then (Inr (), m)
      else let m = publishLatest cfg dec m;
               (res, m') = (case runTx env (insertDecodedSteady cfg (nowAt env m) m dec) m of
                   (None, m') \<Rightarrow> (Inr (), markDirtyFromBatch cfg dec m')
                 | (Some e, m') \<Rightarrow>
                     (case Tx env (Ncalls m) of
                        TxCommitErr _ _ \<Rightarrow> (Inl (if isCommitConflict e then errSnapshotMoved else Wrap ''commit window'' e), m')
                      | _ \<Rightarrow> (Inl e, m')))
           in (res, settled cfg dec m'))"

definition addCounts :: "spanCounts \<Rightarrow> spanCounts \<Rightarrow> spanCounts" where
  "addCounts t c = \<lparr>rawRows = rawRows t + rawRows c, signalCount = signalCount t + signalCount c,
     eventCount = eventCount t + eventCount c, errCount = errCount t + errCount c,
     oldestSeen = earlier (oldestSeen t) (oldestSeen c)\<rparr>"

fun spanLoop ::
  "nat \<Rightarrow> nat \<Rightarrow> matCfg \<Rightarrow> spanEnv \<Rightarrow> int \<Rightarrow> int \<Rightarrow> rawRowKey option \<Rightarrow> decodedBatch option \<Rightarrow> spanCounts \<Rightarrow> mat
     \<Rightarrow> ((decodedBatch option \<times> spanCounts) res \<times> mat) option" where
  "spanLoop fuel 0 cfg env start upTo after pending tot m = None"
| "spanLoop fuel (Suc k) cfg env start upTo after pending tot m =
     (case nextWindow fuel cfg env start upTo after m of
        None \<Rightarrow> None
      | Some (Inl e, m) \<Rightarrow> Some (Inl e, m)
      | Some (Inr (after, win, c), m) \<Rightarrow>
          if rawRows c = 0 then Some (Inr (pending, tot), m)
          else let tot = addCounts tot c in
               (case (case pending of None \<Rightarrow> (Inr (), m) | Some p \<Rightarrow> writeWindow cfg env p m) of
                  (Inl e, m) \<Rightarrow> Some (Inl e, m)
                | (Inr _, m) \<Rightarrow> spanLoop fuel k cfg env start upTo after (Some win) tot m))"

definition decodeAndWriteSpan :: "nat \<Rightarrow> matCfg \<Rightarrow> spanEnv \<Rightarrow> int \<Rightarrow> int \<Rightarrow> mat \<Rightarrow> (spanCounts res \<times> mat) option" where
  "decodeAndWriteSpan fuel cfg env start upTo m =
     (case spanLoop fuel fuel cfg env start upTo None None noCounts m of
        None \<Rightarrow> None
      | Some (Inl e, m) \<Rightarrow> Some (Inl e, m)
      | Some (Inr (None, tot), m) \<Rightarrow> Some (Inr tot, m)
      | Some (Inr (Some win, tot), m) \<Rightarrow>
          (case commit cfg env win start upTo m of
             (Inl e, m) \<Rightarrow> Some (Inl e, m)
           | (Inr _, m) \<Rightarrow> Some (Inr tot, m)))"

subsection \<open>Progress reports\<close>

definition progressReportInterval :: duration where "progressReportInterval = 5 * second"
definition progressKeepaliveInterval :: duration where "progressKeepaliveInterval = 5 * minute"

definition tryReportProgress :: "spanEnv \<Rightarrow> int \<Rightarrow> mat \<Rightarrow> bool \<times> mat" where
  "tryReportProgress env snap m =
     (case runTx env (\<lambda>d. d\<lparr>DbConsumerProgress := Some snap\<rparr>) m of (None, m) \<Rightarrow> (True, m) | (Some e, m) \<Rightarrow> (False, m))"

definition stampReport :: "spanEnv \<Rightarrow> mat \<Rightarrow> mat" where
  "stampReport env m = m\<lparr>lastProgressReport := nowAt env m\<rparr>"

definition reportAndRecord :: "spanEnv \<Rightarrow> int \<Rightarrow> mat \<Rightarrow> mat" where
  "reportAndRecord env snap m =
     (case tryReportProgress env snap (stampReport env m) of
        (True, m) \<Rightarrow> m\<lparr>lastReportedSnapshot := snap\<rparr> | (False, m) \<Rightarrow> m)"

definition reportedWithin :: "spanEnv \<Rightarrow> duration \<Rightarrow> mat \<Rightarrow> bool" where
  "reportedWithin env d m = (\<not> IsZero (lastProgressReport m) \<and> Sub (nowAt env m) (lastProgressReport m) < d)"

definition reportProgressNow :: "spanEnv \<Rightarrow> int \<Rightarrow> mat \<Rightarrow> mat" where
  "reportProgressNow env snap m =
     (if snap = lastReportedSnapshot m
      then if reportedWithin env progressKeepaliveInterval m then m
           else snd (tryReportProgress env snap (stampReport env m))
      else reportAndRecord env snap m)"

definition maybeReportProgress :: "spanEnv \<Rightarrow> int \<Rightarrow> mat \<Rightarrow> mat" where
  "maybeReportProgress env snap m =
     (if snap = lastReportedSnapshot m then m
      else if reportedWithin env progressReportInterval m then m
      else reportAndRecord env snap m)"

subsection \<open>A pass\<close>

definition oldestSnapshot :: "spanEnv \<Rightarrow> mat \<Rightarrow> int res \<times> mat" where
  "oldestSnapshot env m = (case Oldest env (Ncalls m) of Inl e \<Rightarrow> (Inl (Wrap ''reading oldest snapshot'' e), tick env m)
     | Inr None \<Rightarrow> (Inr 0, tick env m) | Inr (Some n) \<Rightarrow> (Inr n, tick env m))"

text \<open>The result: the count and error to return when the failure was an expired feed.\<close>

definition maybeRecoverExpired :: "spanEnv \<Rightarrow> int \<Rightarrow> mat \<Rightarrow> nat res option \<times> mat" where
  "maybeRecoverExpired env cur m =
     (case oldestSnapshot env m of
        (Inl e, m) \<Rightarrow> (None, m)
      | (Inr oldest, m) \<Rightarrow>
          if oldest \<le> cur + 1 then (None, m)
          else (case runTx env (casCursor cur (oldest - 1)) m of
                  (Some e, m) \<Rightarrow> (Some (Inl e), m)
                | (None, m) \<Rightarrow> (Some (Inr 1), reportProgressNow env (oldest - 1) m)))"

definition advanceCursor :: "spanEnv \<Rightarrow> int \<Rightarrow> int \<Rightarrow> mat \<Rightarrow> unit res \<times> mat" where
  "advanceCursor env start upTo m =
     (let moved = (DbCursor (Db m) \<noteq> CursorAt start) in
      (case runTx env (casCursor start upTo) m of
         (Some e, m) \<Rightarrow> (Inl (Wrap ''advance cursor over empty span'' e), m)
       | (None, m) \<Rightarrow> if moved then (Inl errSnapshotMoved, m) else (Inr (), m)))"

text \<open>The end of a chunk: \<open>Done\<close> ends the pass, \<open>GoOn\<close> continues at a new cursor.\<close>

datatype chunkResult = Done "nat res" | GoOn int

definition chunkEnd :: "matCfg \<Rightarrow> int \<Rightarrow> int \<Rightarrow> int" where
  "chunkEnd cfg cur head = (if 0 < maxSnapshotSpan cfg \<and> maxSnapshotSpan cfg < head - cur then cur + maxSnapshotSpan cfg else head)"

definition processChunk :: "nat \<Rightarrow> matCfg \<Rightarrow> spanEnv \<Rightarrow> int \<Rightarrow> int \<Rightarrow> mat \<Rightarrow> (chunkResult \<times> mat) option" where
  "processChunk fuel cfg env cur head m =
     (let upTo = chunkEnd cfg cur head in
      case decodeAndWriteSpan fuel cfg env cur upTo m of
        None \<Rightarrow> None
      | Some (Inl e, m) \<Rightarrow>
          Some (if errors_Is e errSnapshotMoved then (Done (Inr 0), m)
                else (case maybeRecoverExpired env cur m of
                        (Some r, m) \<Rightarrow> (Done r, m) | (None, m) \<Rightarrow> (Done (Inl e), m)))
      | Some (Inr c, m) \<Rightarrow>
          Some (if 0 < rawRows c then (Done (Inr (rawRows c)), maybeReportProgress env upTo m)
                else if head \<le> upTo then (Done (Inr 0), reportProgressNow env cur m)
                else (case advanceCursor env cur upTo m of
                        (Inl e, m) \<Rightarrow> (Done (if errors_Is e errSnapshotMoved then Inr 0 else Inl e), m)
                      | (Inr _, m) \<Rightarrow> (GoOn upTo, m))))"

fun chunkLoop :: "nat \<Rightarrow> nat \<Rightarrow> matCfg \<Rightarrow> spanEnv \<Rightarrow> int \<Rightarrow> int \<Rightarrow> mat \<Rightarrow> (nat res \<times> mat) option" where
  "chunkLoop fuel 0 cfg env cur head m = None"
| "chunkLoop fuel (Suc k) cfg env cur head m =
     (case processChunk fuel cfg env cur head m of
        None \<Rightarrow> None
      | Some (Done r, m) \<Rightarrow> Some (r, m)
      | Some (GoOn cur, m) \<Rightarrow> chunkLoop fuel k cfg env cur head m)"

definition snapshotHead :: "spanEnv \<Rightarrow> mat \<Rightarrow> int res \<times> mat" where
  "snapshotHead env m = (case Head env (Ncalls m) of Inl e \<Rightarrow> (Inl (Wrap ''reading snapshot state'' e), tick env m)
     | Inr None \<Rightarrow> (Inr 0, tick env m) | Inr (Some n) \<Rightarrow> (Inr n, tick env m))"

definition RunOnce :: "nat \<Rightarrow> matCfg \<Rightarrow> spanEnv \<Rightarrow> mat \<Rightarrow> (nat res \<times> mat) option" where
  "RunOnce fuel cfg env m =
     (case RawEventsExist env (Ncalls m) of
        Inl e \<Rightarrow> Some (Inl e, tick env m)
      | Inr False \<Rightarrow> Some (Inr 0, tick env m)
      | Inr True \<Rightarrow>
          (case cursor env (tick env m) of
             (Inl e, m) \<Rightarrow> Some (Inl e, m)
           | (Inr cur, m) \<Rightarrow>
               (case snapshotHead env m of
                  (Inl e, m) \<Rightarrow> Some (Inl e, m)
                | (Inr head, m) \<Rightarrow>
                    if head \<le> cur then Some (Inr 0, reportProgressNow env cur m)
                    else chunkLoop fuel fuel cfg env cur head m)))"

end
