(* ===== verification/Access.thy ===== *)
theory Access
  imports Repo_Signals Mat_Span
begin

section \<open>Who may read what (internal/auth, internal/fetch/rpc, internal/graph)\<close>

text \<open>
  The token checks in front of the data: the directives of the GraphQL schema, the claim middleware,
  the interceptor of the gRPC fetch service, the check of the requested subjects and the filter of the
  signals a caller may see. The five RPCs and the cloud event queries are modelled on top of any
  \<open>EventService\<close>; the permission names (\<open>tokenPerms\<close>), the JWT validator, the DID decoder and the identity
  service are parameters. Headers are passed through as they are; messages of errors are shortened.

  Shown: the answer to an RPC or a cloud event query does not depend on anything stored for a subject
  the token has no right to.
\<close>

subsection \<open>Claims\<close>

record dqClaim =
  Asset :: string
  Permissions :: "string list"

record tokenPerms =
  PermissionGetNonLocationHistory :: string
  PermissionExecuteCommands :: string
  PermissionGetCurrentLocation :: string
  PermissionGetLocationHistory :: string
  PermissionGetVINCredential :: string
  PermissionGetApproximateLocation :: string
  PermissionGetRawData :: string

text \<open>What the validator hands over, and the request context with its two claim keys.\<close>

datatype validated = NotValidatedClaims | NoCustomClaims | OtherCustomClaims | DQClaims dqClaim

record reqCtx =
  DQClaimKey :: "dqClaim option"
  ClaimsKey :: "dqClaim option"
  FieldArgs :: "(string \<rightharpoonup> string option) option"

definition getDQClaim :: "reqCtx \<Rightarrow> dqClaim res" where
  "getDQClaim ctx = (case DQClaimKey ctx of None \<Rightarrow> Inl (Err ''jwt missing'') | Some c \<Rightarrow> Inr c)"

definition DQClaimFromContext :: "reqCtx \<Rightarrow> dqClaim option" where
  "DQClaimFromContext ctx = DQClaimKey ctx"

text \<open>\<open>AddClaimHandler\<close>: \<open>None\<close> is the default error handler's answer.\<close>

definition AddClaimHandler :: "validated option \<Rightarrow> (reqCtx \<Rightarrow> 'a) \<Rightarrow> reqCtx \<Rightarrow> 'a option" where
  "AddClaimHandler claims next ctx =
     (case claims of
        None \<Rightarrow> Some (next ctx)
      | Some NotValidatedClaims \<Rightarrow> Some (next ctx)
      | Some NoCustomClaims \<Rightarrow> Some (next ctx)
      | Some OtherCustomClaims \<Rightarrow> None
      | Some (DQClaims c) \<Rightarrow> Some (next (ctx\<lparr>DQClaimKey := Some c, ClaimsKey := Some c\<rparr>)))"

subsection \<open>Directives\<close>

datatype unauthorized = Unauthorized string "goerr option"

text \<open>An argument that is no string has the value \<open>None\<close>.\<close>

definition getArg :: "reqCtx \<Rightarrow> string \<Rightarrow> string res" where
  "getArg ctx name =
     (case FieldArgs ctx of
        None \<Rightarrow> Inl (Err ''no field context found'')
      | Some args \<Rightarrow> (case args name of
          None \<Rightarrow> Inl (Err (''no argument named '' @ name))
        | Some None \<Rightarrow> Inl (Err (''argument '' @ name @ '' had another type''))
        | Some (Some v) \<Rightarrow> Inr v))"

definition didArg :: string where "didArg = ''subject''"

definition NewVehicleTokenCheck :: "(reqCtx \<Rightarrow> unauthorized + 'a) \<Rightarrow> reqCtx \<Rightarrow> unauthorized + 'a" where
  "NewVehicleTokenCheck next ctx =
     (case getArg ctx didArg of
        Inl err \<Rightarrow> Inl (Unauthorized [] (Some err))
      | Inr requestedDID \<Rightarrow>
          (case getDQClaim ctx of
             Inl err \<Rightarrow> Inl (Unauthorized [] (Some err))
           | Inr claim \<Rightarrow>
               if Asset claim \<noteq> requestedDID then Inl (Unauthorized ''DID in query does not match token claim'' None)
               else next ctx))"

fun allOfLoop :: "string list \<Rightarrow> string list \<Rightarrow> string option" where
  "allOfLoop perms [] = None"
| "allOfLoop perms (p # ps) = (if p \<notin> set perms then Some p else allOfLoop perms ps)"

definition AllOfPrivilegeCheck :: "string list \<Rightarrow> (reqCtx \<Rightarrow> unauthorized + 'a) \<Rightarrow> reqCtx \<Rightarrow> unauthorized + 'a" where
  "AllOfPrivilegeCheck requiredPrivs next ctx =
     (case getDQClaim ctx of
        Inl err \<Rightarrow> Inl (Unauthorized [] (Some err))
      | Inr claim \<Rightarrow>
          (case allOfLoop (Permissions claim) requiredPrivs of
             Some p \<Rightarrow> Inl (Unauthorized (''missing required privilege '' @ p) None)
           | None \<Rightarrow> next ctx))"

definition OneOfPrivilegeCheck :: "string list \<Rightarrow> (reqCtx \<Rightarrow> unauthorized + 'a) \<Rightarrow> reqCtx \<Rightarrow> unauthorized + 'a" where
  "OneOfPrivilegeCheck requiredPrivs next ctx =
     (case getDQClaim ctx of
        Inl err \<Rightarrow> Inl (Unauthorized [] (Some err))
      | Inr claim \<Rightarrow>
          if list_ex (\<lambda>p. p \<in> set (Permissions claim)) requiredPrivs then next ctx
          else Inl (Unauthorized ''requires at least one of the following privileges'' None))"

subsection \<open>The gRPC interceptor\<close>

datatype grpcCode = Unauthenticated | PermissionDenied | InvalidArgument | NotFoundCode | InternalCode | ResourceExhausted

datatype grpcStatus = Status grpcCode string

type_synonym 'a grpcRes = "grpcStatus + 'a"

definition lowerAscii :: "char \<Rightarrow> char" where
  "lowerAscii c = (let n = of_char c :: nat in if 65 \<le> n \<and> n \<le> 90 then char_of (n + 32) else c)"

definition isSpaceAscii :: "char \<Rightarrow> bool" where
  "isSpaceAscii c = (let n = of_char c :: nat in n = 32 \<or> (9 \<le> n \<and> n \<le> 13))"

definition trimSpace :: "string \<Rightarrow> string" where
  "trimSpace s = rev (dropWhile isSpaceAscii (rev (dropWhile isSpaceAscii s)))"

text \<open>The values of the authorization header; no metadata is \<open>None\<close>.\<close>

definition bearerFromMetadata :: "string list option \<Rightarrow> string" where
  "bearerFromMetadata md =
     (case md of None \<Rightarrow> [] | Some [] \<Rightarrow> []
      | Some (tok # _) \<Rightarrow>
          if 7 \<le> length tok \<and> map lowerAscii (take 7 tok) = ''bearer '' then trimSpace (drop 7 tok) else tok)"

definition grpcHasRawDataAccess :: "tokenPerms \<Rightarrow> string list \<Rightarrow> bool" where
  "grpcHasRawDataAccess tc perms =
     (if PermissionGetRawData tc \<in> set perms then True
      else PermissionGetLocationHistory tc \<in> set perms \<and> PermissionGetNonLocationHistory tc \<in> set perms)"

definition NewGRPCFetchAuthInterceptor ::
  "tokenPerms \<Rightarrow> (string \<Rightarrow> validated res) \<Rightarrow> bool \<Rightarrow> string list option \<Rightarrow> (reqCtx \<Rightarrow> 'a grpcRes) \<Rightarrow> reqCtx \<Rightarrow> 'a grpcRes" where
  "NewGRPCFetchAuthInterceptor tc ValidateToken require md handler ctx =
     (let raw = bearerFromMetadata md in
      if raw = [] then (if require then Inl (Status Unauthenticated ''missing bearer token'') else handler ctx)
      else (case ValidateToken raw of
              Inl err \<Rightarrow> Inl (Status Unauthenticated ''invalid token'')
            | Inr (DQClaims dq) \<Rightarrow>
                if \<not> grpcHasRawDataAccess tc (Permissions dq) then Inl (Status PermissionDenied ''token lacks raw-data permission'')
                else handler (ctx\<lparr>DQClaimKey := Some dq\<rparr>)
            | Inr _ \<Rightarrow> Inl (Status Unauthenticated ''invalid token claims'')))"

subsection \<open>The subjects of a request\<close>

datatype stringFilterOption = StringFilterOption (GetIn: "string list") (GetNotIn: "string list") (GetOr: "stringFilterOption list")

datatype arrayFilterOption =
  ArrayFilterOption (ContainsAny: "string list") (ContainsAll: "string list") (NotContainsAny: "string list") (NotContainsAll: "string list")
    (ArrayOr: "arrayFilterOption list")

record advancedSearchOptions =
  AdvAfter :: "time option"
  AdvBefore :: "time option"
  AdvTimestampAsc :: "bool option"
  AdvType :: "stringFilterOption option"
  AdvDataVersion :: "stringFilterOption option"
  AdvSubject :: "stringFilterOption option"
  AdvSource :: "stringFilterOption option"
  AdvProducer :: "stringFilterOption option"
  AdvExtras :: "stringFilterOption option"
  AdvId :: "stringFilterOption option"
  AdvTags :: "arrayFilterOption option"

record 'o searchOptions =
  SoSubject :: "string option"
  SoOther :: 'o

text \<open>The DID decoder gives the normalized text; the identity client may be missing.\<close>

record identityEnv =
  DecodeDID :: "string \<Rightarrow> string res"
  IdentityClient :: "(string \<Rightarrow> string res) option"

definition authorizeSubject :: "identityEnv \<Rightarrow> reqCtx \<Rightarrow> string \<Rightarrow> string grpcRes" where
  "authorizeSubject idn ctx requestedSubject =
     (case DQClaimFromContext ctx of
        None \<Rightarrow> Inl (Status Unauthenticated ''no token claims'')
      | Some claim \<Rightarrow>
          if requestedSubject = [] then Inl (Status PermissionDenied ''subject is required'')
          else if requestedSubject = Asset claim then Inr requestedSubject
          else (case DecodeDID idn requestedSubject of
                  Inl err \<Rightarrow> Inl (Status PermissionDenied ''no access to subject'')
                | Inr parsed \<Rightarrow>
                    (case IdentityClient idn of
                       None \<Rightarrow> Inl (Status PermissionDenied ''no access to subject'')
                     | Some GetLinkedDIDForDevice \<Rightarrow>
                         (case GetLinkedDIDForDevice parsed of
                            Inl err \<Rightarrow> Inl (Status PermissionDenied ''no access to subject'')
                          | Inr linked \<Rightarrow> if linked \<noteq> Asset claim then Inl (Status PermissionDenied ''no access to subject'')
                              else Inr parsed))))"

fun authorizeAll :: "identityEnv \<Rightarrow> reqCtx \<Rightarrow> string list \<Rightarrow> string list grpcRes" where
  "authorizeAll idn ctx [] = Inr []"
| "authorizeAll idn ctx (s # ss) =
     (case authorizeSubject idn ctx s of
        Inl st \<Rightarrow> Inl st
      | Inr a \<Rightarrow> (case authorizeAll idn ctx ss of Inl st \<Rightarrow> Inl st | Inr as \<Rightarrow> Inr (a # as)))"

definition authorizeAdvancedOpts :: "identityEnv \<Rightarrow> reqCtx \<Rightarrow> advancedSearchOptions \<Rightarrow> advancedSearchOptions grpcRes" where
  "authorizeAdvancedOpts idn ctx opts =
     (let subjects = (case AdvSubject opts of None \<Rightarrow> [] | Some f \<Rightarrow> GetIn f) in
      if subjects = [] then Inl (Status PermissionDenied ''subject is required'')
      else (case authorizeAll idn ctx subjects of
              Inl st \<Rightarrow> Inl st
            | Inr authorized \<Rightarrow> Inr (opts\<lparr>AdvSubject := Some (StringFilterOption authorized [] [])\<rparr>)))"

definition authorizeOpts :: "identityEnv \<Rightarrow> reqCtx \<Rightarrow> 'o searchOptions option \<Rightarrow> 'o searchOptions grpcRes" where
  "authorizeOpts idn ctx opts =
     (case opts of
        None \<Rightarrow> Inl (Status PermissionDenied ''subject is required'')
      | Some o1 \<Rightarrow>
          (case authorizeSubject idn ctx (case SoSubject o1 of None \<Rightarrow> [] | Some s \<Rightarrow> s) of
             Inl st \<Rightarrow> Inl st
           | Inr authorized \<Rightarrow> Inr (o1\<lparr>SoSubject := Some authorized\<rparr>)))"

subsection \<open>The event service and the five RPCs\<close>

datatype svcError = NoRows | NoSuchKey | PayloadBudgetExceeded | OtherError string

record 'h objectIndex =
  IxSubject :: string
  IxKey :: string
  IxHeader :: 'h

record typeSummary =
  TsType :: string
  TsCount :: nat
  TsFirstSeen :: time
  TsLastSeen :: time

record ('o, 'h, 'e) eventService =
  SvcGetLatestIndex :: "'o searchOptions \<Rightarrow> svcError + 'h objectIndex"
  SvcGetLatestIndexAdvanced :: "advancedSearchOptions \<Rightarrow> svcError + 'h objectIndex"
  SvcListIndexes :: "int \<Rightarrow> 'o searchOptions \<Rightarrow> svcError + 'h objectIndex list"
  SvcListIndexesAdvanced :: "int \<Rightarrow> advancedSearchOptions \<Rightarrow> svcError + 'h objectIndex list"
  SvcGetCloudEventTypeSummariesAdvanced :: "advancedSearchOptions \<Rightarrow> svcError + typeSummary list"
  SvcGetCloudEventFromIndex :: "'h objectIndex \<Rightarrow> svcError + 'e"
  SvcListCloudEventsFromIndexes :: "'h objectIndex list \<Rightarrow> svcError + 'e list"
  SvcPresignBlobURL :: "string \<Rightarrow> svcError + string"
  SvcBlobsMaybeSealed :: bool

definition maxIndexKeysPerRequest :: nat where "maxIndexKeysPerRequest = 1000"

fun hasDots :: "string \<Rightarrow> bool" where
  "hasDots (a # b # s) = (a = CHR ''.'' \<and> b = CHR ''.'' \<or> hasDots (b # s))"
| "hasDots s = False"

definition validObjectKey :: "string \<Rightarrow> bool" where
  "validObjectKey key = (key \<noteq> [] \<and> \<not> hasDots key)"

datatype 'o rpcOpts = RpcOpts (GetAdvancedOptions: "advancedSearchOptions option") (GetOptions: "'o searchOptions option")

datatype ('o, 'h) fetchRequest =
  GetLatestIndexRequest "'o rpcOpts"
| ListIndexesRequest int "'o rpcOpts"
| ListCloudEventsRequest int "'o rpcOpts"
| GetLatestCloudEventRequest "'o rpcOpts"
| ListCloudEventsFromKeysRequest "'h objectIndex list"

datatype ('h, 'e) fetchResponse =
  IndexResponse "'h objectIndex"
| IndexesResponse "'h objectIndex list"
| CloudEventsResponse "'e list"
| CloudEventResponse 'e

text \<open>The two authorized calls the handlers share: the latest index and the list of indexes.\<close>

definition latestIndexFor :: "identityEnv \<Rightarrow> ('o, 'h, 'e) eventService \<Rightarrow> reqCtx \<Rightarrow> 'o rpcOpts \<Rightarrow> (svcError + 'h objectIndex) grpcRes" where
  "latestIndexFor idn svc ctx ro =
     (case GetAdvancedOptions ro of
        Some a \<Rightarrow> (case authorizeAdvancedOpts idn ctx a of Inl st \<Rightarrow> Inl st | Inr a \<Rightarrow> Inr (SvcGetLatestIndexAdvanced svc a))
      | None \<Rightarrow> (case authorizeOpts idn ctx (GetOptions ro) of Inl st \<Rightarrow> Inl st | Inr p \<Rightarrow> Inr (SvcGetLatestIndex svc p)))"

definition indexesFor :: "identityEnv \<Rightarrow> ('o, 'h, 'e) eventService \<Rightarrow> reqCtx \<Rightarrow> int \<Rightarrow> 'o rpcOpts \<Rightarrow> (svcError + 'h objectIndex list) grpcRes" where
  "indexesFor idn svc ctx limit ro =
     (case GetAdvancedOptions ro of
        Some a \<Rightarrow> (case authorizeAdvancedOpts idn ctx a of Inl st \<Rightarrow> Inl st | Inr a \<Rightarrow> Inr (SvcListIndexesAdvanced svc limit a))
      | None \<Rightarrow> (case authorizeOpts idn ctx (GetOptions ro) of Inl st \<Rightarrow> Inl st | Inr p \<Rightarrow> Inr (SvcListIndexes svc limit p)))"

definition indexError :: "string \<Rightarrow> string \<Rightarrow> svcError \<Rightarrow> grpcStatus" where
  "indexError none failed e = (if e = NoRows then Status NotFoundCode none else Status InternalCode failed)"

definition GetLatestIndex :: "identityEnv \<Rightarrow> ('o, 'h, 'e) eventService \<Rightarrow> reqCtx \<Rightarrow> 'o rpcOpts \<Rightarrow> ('h, 'e) fetchResponse grpcRes" where
  "GetLatestIndex idn svc ctx ro =
     (case latestIndexFor idn svc ctx ro of
        Inl st \<Rightarrow> Inl st | Inr (Inl e) \<Rightarrow> Inl (indexError ''no index key Found'' ''failed to get latest index'' e) | Inr (Inr index) \<Rightarrow> Inr (IndexResponse index))"

definition ListIndexes :: "identityEnv \<Rightarrow> ('o, 'h, 'e) eventService \<Rightarrow> reqCtx \<Rightarrow> int \<Rightarrow> 'o rpcOpts \<Rightarrow> ('h, 'e) fetchResponse grpcRes" where
  "ListIndexes idn svc ctx limit ro =
     (case indexesFor idn svc ctx limit ro of
        Inl st \<Rightarrow> Inl st | Inr (Inl e) \<Rightarrow> Inl (indexError ''no index key Found'' ''failed to get index keys'' e)
      | Inr (Inr objs) \<Rightarrow> if objs = [] then Inl (Status NotFoundCode ''no index keys found'') else Inr (IndexesResponse objs))"

definition ListCloudEventsFromIndexes :: "('o, 'h, 'e) eventService \<Rightarrow> 'h objectIndex list \<Rightarrow> svcError + 'e list" where
  "ListCloudEventsFromIndexes svc indexKeys = (if indexKeys = [] then Inr [] else SvcListCloudEventsFromIndexes svc indexKeys)"

definition ListCloudEvents :: "identityEnv \<Rightarrow> ('o, 'h, 'e) eventService \<Rightarrow> reqCtx \<Rightarrow> int \<Rightarrow> 'o rpcOpts \<Rightarrow> ('h, 'e) fetchResponse grpcRes" where
  "ListCloudEvents idn svc ctx limit ro =
     (case indexesFor idn svc ctx limit ro of
        Inl st \<Rightarrow> Inl st | Inr (Inl e) \<Rightarrow> Inl (indexError ''no index keys Found'' ''failed to get index keys'' e)
      | Inr (Inr metaList) \<Rightarrow>
          if metaList = [] then Inl (Status NotFoundCode ''no index keys found'')
          else (case ListCloudEventsFromIndexes svc metaList of
                  Inl PayloadBudgetExceeded \<Rightarrow> Inl (Status ResourceExhausted [])
                | Inl e \<Rightarrow> Inl (Status InternalCode ''failed to get objects'')
                | Inr evs \<Rightarrow> Inr (CloudEventsResponse evs)))"

definition GetLatestCloudEvent :: "identityEnv \<Rightarrow> ('o, 'h, 'e) eventService \<Rightarrow> reqCtx \<Rightarrow> 'o rpcOpts \<Rightarrow> ('h, 'e) fetchResponse grpcRes" where
  "GetLatestCloudEvent idn svc ctx ro =
     (case latestIndexFor idn svc ctx ro of
        Inl st \<Rightarrow> Inl st | Inr (Inl e) \<Rightarrow> Inl (indexError ''no index key Found'' ''failed to get latest index'' e)
      | Inr (Inr metadata) \<Rightarrow>
          (case SvcGetCloudEventFromIndex svc metadata of
             Inl e \<Rightarrow> Inl (Status InternalCode ''failed to get latest object'')
           | Inr ev \<Rightarrow> Inr (CloudEventResponse ev)))"

fun keysLoop :: "identityEnv \<Rightarrow> reqCtx \<Rightarrow> 'h objectIndex list \<Rightarrow> unit grpcRes" where
  "keysLoop idn ctx [] = Inr ()"
| "keysLoop idn ctx (index # rest) =
     (if \<not> validObjectKey (IxKey index) then Inl (Status InvalidArgument ''invalid index key'')
      else (case authorizeSubject idn ctx (IxSubject index) of Inl st \<Rightarrow> Inl st | Inr _ \<Rightarrow> keysLoop idn ctx rest))"

definition ListCloudEventsFromIndex :: "identityEnv \<Rightarrow> ('o, 'h, 'e) eventService \<Rightarrow> reqCtx \<Rightarrow> 'h objectIndex list \<Rightarrow> ('h, 'e) fetchResponse grpcRes" where
  "ListCloudEventsFromIndex idn svc ctx indexes =
     (if maxIndexKeysPerRequest < length indexes then Inl (Status InvalidArgument ''too many indexes'')
      else (case keysLoop idn ctx indexes of
              Inl st \<Rightarrow> Inl st
            | Inr _ \<Rightarrow>
                (case ListCloudEventsFromIndexes svc indexes of
                   Inl NoSuchKey \<Rightarrow> Inl (Status NotFoundCode ''no objects found'')
                 | Inl e \<Rightarrow> Inl (Status InternalCode ''failed to get objects'')
                 | Inr evs \<Rightarrow> Inr (CloudEventsResponse evs))))"

text \<open>The service as registered: the method of a request.\<close>

fun fetchServer :: "identityEnv \<Rightarrow> ('o, 'h, 'e) eventService \<Rightarrow> ('o, 'h) fetchRequest \<Rightarrow> reqCtx \<Rightarrow> ('h, 'e) fetchResponse grpcRes" where
  "fetchServer idn svc (GetLatestIndexRequest ro) ctx = GetLatestIndex idn svc ctx ro"
| "fetchServer idn svc (ListIndexesRequest n ro) ctx = ListIndexes idn svc ctx n ro"
| "fetchServer idn svc (ListCloudEventsRequest n ro) ctx = ListCloudEvents idn svc ctx n ro"
| "fetchServer idn svc (GetLatestCloudEventRequest ro) ctx = GetLatestCloudEvent idn svc ctx ro"
| "fetchServer idn svc (ListCloudEventsFromKeysRequest ixs) ctx = ListCloudEventsFromIndex idn svc ctx ixs"

subsection \<open>Cloud event queries\<close>

definition hasRawDataAccess :: "tokenPerms \<Rightarrow> string list \<Rightarrow> bool" where
  "hasRawDataAccess tc perms =
     (let hasGetRawData = (PermissionGetRawData tc \<in> set perms);
          hasAllTimeData = (PermissionGetLocationHistory tc \<in> set perms \<and> PermissionGetNonLocationHistory tc \<in> set perms)
      in hasGetRawData \<or> hasAllTimeData)"

definition requireRawDataToken :: "tokenPerms \<Rightarrow> reqCtx \<Rightarrow> dqClaim res" where
  "requireRawDataToken tc ctx =
     (case ClaimsKey ctx of
        None \<Rightarrow> Inl (Err ''unauthorized: no token claims'')
      | Some tok \<Rightarrow> if \<not> hasRawDataAccess tc (Permissions tok)
                   then Inl (Err ''unauthorized: token does not have required permission for this operation'') else Inr tok)"

definition errNoAccessToSubject :: goerr where
  "errNoAccessToSubject = Err ''unauthorized: token does not have access to this subject''"

definition ensureRequestedDIDLinkedToPermissionedSubject :: "identityEnv \<Rightarrow> string \<Rightarrow> string \<Rightarrow> string res" where
  "ensureRequestedDIDLinkedToPermissionedSubject idn requestedDID tokenSubjectDID =
     (if requestedDID = tokenSubjectDID then Inr requestedDID
      else (case DecodeDID idn requestedDID of
              Inl err \<Rightarrow> Inl errNoAccessToSubject
            | Inr parsed \<Rightarrow>
                (case IdentityClient idn of
                   None \<Rightarrow> Inl errNoAccessToSubject
                 | Some GetLinkedDIDForDevice \<Rightarrow>
                     (case GetLinkedDIDForDevice parsed of
                        Inl err \<Rightarrow> Inl errNoAccessToSubject
                      | Inr linkedDID \<Rightarrow> if linkedDID \<noteq> tokenSubjectDID then Inl errNoAccessToSubject else Inr parsed))))"

record cloudEventFilter =
  CfID :: "string option"
  CfType :: "string option"
  CfTypes :: "string list"
  CfDataversion :: "string option"
  CfSource :: "string option"
  CfProducer :: "string option"
  CfBefore :: "time option"
  CfAfter :: "time option"

definition oneOf :: "string option \<Rightarrow> stringFilterOption option" where
  "oneOf v = map_option (\<lambda>s. StringFilterOption [s] [] []) v"

definition filterToAdvancedSearchOptions :: "cloudEventFilter option \<Rightarrow> string \<Rightarrow> advancedSearchOptions" where
  "filterToAdvancedSearchOptions flt subject =
     (let opts = \<lparr>AdvAfter = None, AdvBefore = None, AdvTimestampAsc = None, AdvType = None, AdvDataVersion = None,
            AdvSubject = Some (StringFilterOption [subject] [] []), AdvSource = None, AdvProducer = None, AdvExtras = None, AdvId = None, AdvTags = None\<rparr>
      in (case flt of None \<Rightarrow> opts
          | Some f \<Rightarrow>
              let allTypes = (case CfType f of None \<Rightarrow> [] | Some t \<Rightarrow> [t]) @ CfTypes f
              in opts\<lparr>AdvType := (if allTypes \<noteq> [] then Some (StringFilterOption allTypes [] []) else None),
                   AdvId := oneOf (CfID f), AdvDataVersion := oneOf (CfDataversion f), AdvSource := oneOf (CfSource f),
                   AdvProducer := oneOf (CfProducer f), AdvBefore := CfBefore f, AdvAfter := CfAfter f\<rparr>))"

definition requireSubjectOptsByDID :: "tokenPerms \<Rightarrow> identityEnv \<Rightarrow> reqCtx \<Rightarrow> string \<Rightarrow> cloudEventFilter option \<Rightarrow> advancedSearchOptions res" where
  "requireSubjectOptsByDID tc idn ctx requestedDID flt =
     (case requireRawDataToken tc ctx of
        Inl err \<Rightarrow> Inl err
      | Inr token \<Rightarrow>
          (case ensureRequestedDIDLinkedToPermissionedSubject idn requestedDID (Asset token) of
             Inl err \<Rightarrow> Inl err
           | Inr searchSubject \<Rightarrow> Inr (filterToAdvancedSearchOptions flt searchSubject)))"

definition defaultLimit :: int where "defaultLimit = 10"

definition resolveLimit :: "int option \<Rightarrow> int" where
  "resolveLimit limit = (case limit of None \<Rightarrow> defaultLimit | Some l \<Rightarrow> if 0 < l then l else defaultLimit)"

datatype ('h, 'e) cloudEventWrapper = HeaderOnly "'h objectIndex" | WithURL "'h objectIndex" string | WithEvent 'e

datatype queryError = QueryError goerr | ServiceError svcError

text \<open>A blob is served as a URL unless stored blobs may be sealed.\<close>

definition presigned :: "('o, 'h, 'e) eventService \<Rightarrow> 'h objectIndex \<Rightarrow> bool" where
  "presigned svc idx = (hasPrefix BlobKeyPrefix (IxKey idx) \<and> \<not> SvcBlobsMaybeSealed svc)"

text \<open>\<open>fetchData\<close> tells whether the selection asks for the payload.\<close>

definition LatestCloudEvent ::
  "tokenPerms \<Rightarrow> identityEnv \<Rightarrow> ('o, 'h, 'e) eventService \<Rightarrow> bool \<Rightarrow> reqCtx \<Rightarrow> string \<Rightarrow> cloudEventFilter option
     \<Rightarrow> queryError + ('h, 'e) cloudEventWrapper" where
  "LatestCloudEvent tc idn svc fetchData ctx subject flt =
     (case requireSubjectOptsByDID tc idn ctx subject flt of
        Inl err \<Rightarrow> Inl (QueryError err)
      | Inr opts \<Rightarrow>
          (case SvcGetLatestIndexAdvanced svc opts of
             Inl e \<Rightarrow> Inl (ServiceError e)
           | Inr idx \<Rightarrow>
               if presigned svc idx
               then (case SvcPresignBlobURL svc (IxKey idx) of Inl e \<Rightarrow> Inl (ServiceError e) | Inr url \<Rightarrow> Inr (WithURL idx url))
               else if \<not> fetchData then Inr (HeaderOnly idx)
               else (case SvcGetCloudEventFromIndex svc idx of Inl e \<Rightarrow> Inl (ServiceError e) | Inr ev \<Rightarrow> Inr (WithEvent ev))))"

text \<open>The first loop of \<open>CloudEvents\<close>: a slot is filled or waits for its event.\<close>

fun slotLoop :: "('o, 'h, 'e) eventService \<Rightarrow> bool \<Rightarrow> 'h objectIndex list \<Rightarrow> svcError + ('h objectIndex + ('h, 'e) cloudEventWrapper) list" where
  "slotLoop svc fetchData [] = Inr []"
| "slotLoop svc fetchData (idx # rest) =
     (case (if presigned svc idx
            then (case SvcPresignBlobURL svc (IxKey idx) of Inl e \<Rightarrow> Inl e | Inr url \<Rightarrow> Inr (Inr (WithURL idx url)))
            else if fetchData then Inr (Inl idx) else Inr (Inr (HeaderOnly idx))) of
        Inl e \<Rightarrow> Inl e
      | Inr slot \<Rightarrow> (case slotLoop svc fetchData rest of Inl e \<Rightarrow> Inl e | Inr slots \<Rightarrow> Inr (slot # slots)))"

text \<open>The second: the j-th event goes to the j-th waiting slot; a slot without one stays nil.\<close>

fun fillSlots :: "('h objectIndex + ('h, 'e) cloudEventWrapper) list \<Rightarrow> 'e list \<Rightarrow> ('h, 'e) cloudEventWrapper option list" where
  "fillSlots [] evs = []"
| "fillSlots (Inr w # slots) evs = Some w # fillSlots slots evs"
| "fillSlots (Inl idx # slots) [] = None # fillSlots slots []"
| "fillSlots (Inl idx # slots) (ev # evs) = Some (WithEvent ev) # fillSlots slots evs"

definition CloudEvents ::
  "tokenPerms \<Rightarrow> identityEnv \<Rightarrow> ('o, 'h, 'e) eventService \<Rightarrow> bool \<Rightarrow> reqCtx \<Rightarrow> string \<Rightarrow> int option \<Rightarrow> cloudEventFilter option
     \<Rightarrow> queryError + ('h, 'e) cloudEventWrapper option list" where
  "CloudEvents tc idn svc fetchData ctx subject limit flt =
     (case requireSubjectOptsByDID tc idn ctx subject flt of
        Inl err \<Rightarrow> Inl (QueryError err)
      | Inr opts \<Rightarrow>
          (case SvcListIndexesAdvanced svc (resolveLimit limit) opts of
             Inl NoRows \<Rightarrow> Inr []
           | Inl e \<Rightarrow> Inl (ServiceError e)
           | Inr idxs \<Rightarrow>
               (case slotLoop svc fetchData idxs of
                  Inl e \<Rightarrow> Inl (ServiceError e)
                | Inr slots \<Rightarrow>
                    let pending = concat (map (case_sum (\<lambda>i. [i]) (\<lambda>_. [])) slots) in
                    if pending = [] then Inr (fillSlots slots [])
                    else (case ListCloudEventsFromIndexes svc pending of
                            Inl e \<Rightarrow> Inl (ServiceError e)
                          | Inr evs \<Rightarrow> if length pending < length evs then Inl (QueryError (Err ''index out of range''))
                              else Inr (fillSlots slots evs)))))"

record cloudEventTypeSummary =
  CtType :: string
  CtCount :: int
  CtFirstSeen :: time
  CtLastSeen :: time

definition AvailableCloudEventTypes ::
  "tokenPerms \<Rightarrow> identityEnv \<Rightarrow> ('o, 'h, 'e) eventService \<Rightarrow> reqCtx \<Rightarrow> string \<Rightarrow> cloudEventFilter option
     \<Rightarrow> queryError + cloudEventTypeSummary list" where
  "AvailableCloudEventTypes tc idn svc ctx subject flt =
     (case requireSubjectOptsByDID tc idn ctx subject flt of
        Inl err \<Rightarrow> Inl (QueryError err)
      | Inr opts \<Rightarrow>
          (case SvcGetCloudEventTypeSummariesAdvanced svc opts of
             Inl e \<Rightarrow> Inl (ServiceError e)
           | Inr summaries \<Rightarrow> Inr (map (\<lambda>s. \<lparr>CtType = TsType s, CtCount = wrap64 (int (TsCount s)), CtFirstSeen = TsFirstSeen s,
               CtLastSeen = TsLastSeen s\<rparr>) summaries)))"

subsection \<open>Signals a caller may see\<close>

definition privilegeEnumToPermission :: "tokenPerms \<Rightarrow> string \<rightharpoonup> string" where
  "privilegeEnumToPermission tc = map_of
     [(''VEHICLE_NON_LOCATION_DATA'', PermissionGetNonLocationHistory tc), (''VEHICLE_COMMANDS'', PermissionExecuteCommands tc),
      (''VEHICLE_CURRENT_LOCATION'', PermissionGetCurrentLocation tc), (''VEHICLE_ALL_TIME_LOCATION'', PermissionGetLocationHistory tc),
      (''VEHICLE_VIN_CREDENTIAL'', PermissionGetVINCredential tc), (''VEHICLE_APPROXIMATE_LOCATION'', PermissionGetApproximateLocation tc),
      (''VEHICLE_RAW_DATA'', PermissionGetRawData tc)]"

fun privLoop :: "tokenPerms \<Rightarrow> string list \<Rightarrow> string list \<Rightarrow> bool" where
  "privLoop tc perms [] = True"
| "privLoop tc perms (p # ps) =
     (case privilegeEnumToPermission tc p of None \<Rightarrow> False
      | Some perm \<Rightarrow> if perm \<notin> set perms then False else privLoop tc perms ps)"

definition hasPrivilegesForSignal :: "tokenPerms \<Rightarrow> repository \<Rightarrow> string \<Rightarrow> string list \<Rightarrow> bool" where
  "hasPrivilegesForSignal tc repo name perms =
     (if name = ApproximateCoordinatesField
      then PermissionGetApproximateLocation tc \<in> set perms \<or> PermissionGetLocationHistory tc \<in> set perms
      else (case RequiredPrivileges repo name of (required, ok) \<Rightarrow> if \<not> ok then False else privLoop tc perms required))"

definition permissionsFromCtx :: "reqCtx \<Rightarrow> string list" where
  "permissionsFromCtx ctx = (case ClaimsKey ctx of None \<Rightarrow> [] | Some tok \<Rightarrow> Permissions tok)"

definition AvailableSignals :: "tokenPerms \<Rightarrow> signalBackend \<Rightarrow> repository \<Rightarrow> reqCtx \<Rightarrow> string \<Rightarrow> signalFilter option \<Rightarrow> string list res" where
  "AvailableSignals tc q repo ctx subject flt =
     (case GetAvailableSignals q repo subject flt of
        Inl err \<Rightarrow> Inl err
      | Inr names \<Rightarrow> Inr (filter (\<lambda>n. hasPrivilegesForSignal tc repo n (permissionsFromCtx ctx)) names))"

definition DataSummary :: "tokenPerms \<Rightarrow> signalBackend \<Rightarrow> repository \<Rightarrow> time \<Rightarrow> reqCtx \<Rightarrow> string \<Rightarrow> signalFilter option \<Rightarrow> dataSummary res" where
  "DataSummary tc q repo now ctx subject flt =
     (case GetDataSummary q now subject flt of
        Inl err \<Rightarrow> Inl err
      | Inr sm \<Rightarrow>
          let perms = permissionsFromCtx ctx;
              sds = filter (\<lambda>s. hasPrivilegesForSignal tc repo (SdName s) perms) (DsSignalDataSummary sm)
          in Inr (sm\<lparr>DsAvailableSignals := filter (\<lambda>n. hasPrivilegesForSignal tc repo n perms) (DsAvailableSignals sm),
               DsSignalDataSummary := sds, DsNumberOfSignals := fold (\<lambda>s n. (n + SdNumberOfSignals s) mod 2 ^ 64) sds 0\<rparr>))"

definition SignalsSnapshot ::
  "tokenPerms \<Rightarrow> signalBackend \<Rightarrow> repository \<Rightarrow> vssFields \<Rightarrow> h3Lib \<Rightarrow> reqCtx \<Rightarrow> string \<Rightarrow> signalFilter option \<Rightarrow> signalsSnapshot res" where
  "SignalsSnapshot tc q repo vss h ctx subject flt =
     (case GetSignalSnapshot q repo vss h subject flt of
        Inl err \<Rightarrow> Inl err
      | Inr resp \<Rightarrow> Inr (resp\<lparr>SnSignals := filter (\<lambda>s. hasPrivilegesForSignal tc repo (LsName s) (permissionsFromCtx ctx)) (SnSignals resp)\<rparr>))"

subsection \<open>What a token grants\<close>

text \<open>
  The subjects of a token: its asset, and the devices the identity service links to it, as they are
  written in the request or normalized; never the empty one.
\<close>

definition granted :: "identityEnv \<Rightarrow> dqClaim \<Rightarrow> string \<Rightarrow> bool" where
  "granted idn c s = (s \<noteq> [] \<and> (s = Asset c \<or> (\<exists>raw n link. (s = raw \<or> s = n) \<and> DecodeDID idn raw = Inr n
     \<and> IdentityClient idn = Some link \<and> link n = Inr (Asset c))))"

text \<open>The printed form of a decoded DID is never empty.\<close>

definition didsPrinted :: "identityEnv \<Rightarrow> bool" where "didsPrinted idn = (\<forall>raw. DecodeDID idn raw \<noteq> Inr [])"

text \<open>
  What the access checks rely on of the event service. It returns indexes of the subjects it was asked
  for (\<open>honest\<close>), and its answers about the subjects of \<open>S\<close> depend on nothing stored for others
  (\<open>agreeOn\<close>), where a search names at least one subject.
\<close>

definition honest :: "('o, 'h, 'e) eventService \<Rightarrow> bool" where
  "honest svc = ((\<forall>p s i. SoSubject p = Some s \<longrightarrow> SvcGetLatestIndex svc p = Inr i \<longrightarrow> IxSubject i = s)
     \<and> (\<forall>a xs i. AdvSubject a = Some (StringFilterOption xs [] []) \<longrightarrow> xs \<noteq> [] \<longrightarrow> SvcGetLatestIndexAdvanced svc a = Inr i \<longrightarrow> IxSubject i \<in> set xs)
     \<and> (\<forall>n p s is i. SoSubject p = Some s \<longrightarrow> SvcListIndexes svc n p = Inr is \<longrightarrow> i \<in> set is \<longrightarrow> IxSubject i = s)
     \<and> (\<forall>n a xs is i. AdvSubject a = Some (StringFilterOption xs [] []) \<longrightarrow> xs \<noteq> [] \<longrightarrow> SvcListIndexesAdvanced svc n a = Inr is
          \<longrightarrow> i \<in> set is \<longrightarrow> IxSubject i \<in> set xs))"

definition agreeOn :: "string set \<Rightarrow> ('o, 'h, 'e) eventService \<Rightarrow> ('o, 'h, 'e) eventService \<Rightarrow> bool" where
  "agreeOn S svc svc' =
     ((\<forall>p s. SoSubject p = Some s \<longrightarrow> s \<in> S \<longrightarrow> SvcGetLatestIndex svc' p = SvcGetLatestIndex svc p
          \<and> (\<forall>n. SvcListIndexes svc' n p = SvcListIndexes svc n p))
     \<and> (\<forall>a xs. AdvSubject a = Some (StringFilterOption xs [] []) \<longrightarrow> xs \<noteq> [] \<longrightarrow> set xs \<subseteq> S
          \<longrightarrow> SvcGetLatestIndexAdvanced svc' a = SvcGetLatestIndexAdvanced svc a
            \<and> SvcGetCloudEventTypeSummariesAdvanced svc' a = SvcGetCloudEventTypeSummariesAdvanced svc a
            \<and> (\<forall>n. SvcListIndexesAdvanced svc' n a = SvcListIndexesAdvanced svc n a))
     \<and> (\<forall>i. IxSubject i \<in> S \<longrightarrow> SvcGetCloudEventFromIndex svc' i = SvcGetCloudEventFromIndex svc i)
     \<and> (\<forall>is. IxSubject ` set is \<subseteq> S \<longrightarrow> SvcListCloudEventsFromIndexes svc' is = SvcListCloudEventsFromIndexes svc is)
     \<and> SvcPresignBlobURL svc' = SvcPresignBlobURL svc \<and> SvcBlobsMaybeSealed svc' = SvcBlobsMaybeSealed svc)"

lemma authorizeSubject_granted:
  assumes "authorizeSubject idn ctx s = Inr a" and "didsPrinted idn"
  shows "\<exists>c. DQClaimKey ctx = Some c \<and> granted idn c s \<and> granted idn c a"
  using assms unfolding authorizeSubject_def granted_def DQClaimFromContext_def didsPrinted_def
  by (auto split: option.splits sum.splits if_splits)

lemma authorizeAll_granted:
  "authorizeAll idn ctx ss = Inr as \<Longrightarrow> didsPrinted idn \<Longrightarrow> DQClaimKey ctx = Some c \<Longrightarrow> \<forall>a \<in> set as. granted idn c a"
proof (induction ss arbitrary: as)
  case (Cons s ss)
  obtain a as' where a: "authorizeSubject idn ctx s = Inr a" "authorizeAll idn ctx ss = Inr as'" "as = a # as'"
    using Cons.prems(1) by (auto split: sum.splits)
  then show ?case using Cons.IH Cons.prems(2,3) authorizeSubject_granted [OF a(1)] by auto
qed simp

lemma authorizeAll_claim: "authorizeAll idn ctx ss = Inr as \<Longrightarrow> ss \<noteq> [] \<Longrightarrow> as \<noteq> [] \<and> DQClaimKey ctx \<noteq> None"
  by (cases ss) (auto simp: authorizeSubject_def DQClaimFromContext_def split: sum.splits option.splits)

lemma advanced_granted:
  assumes "authorizeAdvancedOpts idn ctx opts = Inr opts'" and "didsPrinted idn"
  obtains c xs where "DQClaimKey ctx = Some c" "AdvSubject opts' = Some (StringFilterOption xs [] [])" "xs \<noteq> []" "set xs \<subseteq> {s. granted idn c s}"
proof -
  let ?ss = "case AdvSubject opts of None \<Rightarrow> [] | Some f \<Rightarrow> GetIn f"
  obtain as where as: "?ss \<noteq> []" "authorizeAll idn ctx ?ss = Inr as" "opts' = opts\<lparr>AdvSubject := Some (StringFilterOption as [] [])\<rparr>"
    using assms(1) by (auto simp: authorizeAdvancedOpts_def Let_def split: sum.splits if_splits)
  obtain c where c: "DQClaimKey ctx = Some c" using authorizeAll_claim [OF as(2,1)] by blast
  show ?thesis by (rule that [OF c]) (use authorizeAll_granted [OF as(2) assms(2) c] authorizeAll_claim [OF as(2,1)] as(3) in auto)
qed

lemma opts_granted:
  assumes "authorizeOpts idn ctx opts = Inr p" and "didsPrinted idn"
  obtains c s where "DQClaimKey ctx = Some c" "SoSubject p = Some s" "granted idn c s"
  using assms by (auto simp: authorizeOpts_def split: option.splits sum.splits dest!: authorizeSubject_granted)

subsection \<open>The answers do not depend on other subjects\<close>

definition sameView :: "identityEnv \<Rightarrow> dqClaim option \<Rightarrow> ('o, 'h, 'e) eventService \<Rightarrow> ('o, 'h, 'e) eventService \<Rightarrow> bool" where
  "sameView idn claim svc svc' = (honest svc \<and> didsPrinted idn \<and> (\<forall>c. claim = Some c \<longrightarrow> agreeOn {s. granted idn c s} svc svc'))"

lemma latestIndex_same:
  assumes "sameView idn (DQClaimKey ctx) svc svc'"
  shows "latestIndexFor idn svc' ctx ro = latestIndexFor idn svc ctx ro"
    "latestIndexFor idn svc ctx ro = Inr (Inr i) \<Longrightarrow> SvcGetCloudEventFromIndex svc' i = SvcGetCloudEventFromIndex svc i"
proof -
  have h: "honest svc" and d: "didsPrinted idn" and ag: "\<And>c. DQClaimKey ctx = Some c \<Longrightarrow> agreeOn {s. granted idn c s} svc svc'"
    using assms by (auto simp: sameView_def)
  have "latestIndexFor idn svc' ctx ro = latestIndexFor idn svc ctx ro
    \<and> (latestIndexFor idn svc ctx ro = Inr (Inr i) \<longrightarrow> SvcGetCloudEventFromIndex svc' i = SvcGetCloudEventFromIndex svc i)"
  proof (cases "GetAdvancedOptions ro")
    case (Some a)
    show ?thesis
    proof (cases "authorizeAdvancedOpts idn ctx a")
      case (Inr a')
      obtain c xs where c: "DQClaimKey ctx = Some c" "AdvSubject a' = Some (StringFilterOption xs [] [])" "xs \<noteq> []" "set xs \<subseteq> {s. granted idn c s}"
        by (rule advanced_granted [OF Inr d])
      note ag = ag [OF c(1), unfolded agreeOn_def]
      have "SvcGetLatestIndexAdvanced svc' a' = SvcGetLatestIndexAdvanced svc a'" using ag c(2-4) by blast
      moreover have "IxSubject i \<in> {s. granted idn c s}" if "SvcGetLatestIndexAdvanced svc a' = Inr i"
        using h c(2-4) that unfolding honest_def by blast
      ultimately show ?thesis using Some Inr ag by (simp add: latestIndexFor_def)
    qed (use Some in \<open>simp add: latestIndexFor_def\<close>)
  next
    case None
    show ?thesis
    proof (cases "authorizeOpts idn ctx (GetOptions ro)")
      case (Inr p)
      obtain c s where c: "DQClaimKey ctx = Some c" "SoSubject p = Some s" "granted idn c s" by (rule opts_granted [OF Inr d])
      note ag = ag [OF c(1), unfolded agreeOn_def]
      have "SvcGetLatestIndex svc' p = SvcGetLatestIndex svc p" using ag c(2,3) by blast
      moreover have "IxSubject i = s" if "SvcGetLatestIndex svc p = Inr i" using h c(2) that unfolding honest_def by blast
      ultimately show ?thesis using None Inr ag c(3) by (simp add: latestIndexFor_def)
    qed (use None in \<open>simp add: latestIndexFor_def\<close>)
  qed
  then show "latestIndexFor idn svc' ctx ro = latestIndexFor idn svc ctx ro"
    "latestIndexFor idn svc ctx ro = Inr (Inr i) \<Longrightarrow> SvcGetCloudEventFromIndex svc' i = SvcGetCloudEventFromIndex svc i" by simp_all
qed

lemma indexes_same:
  assumes "sameView idn (DQClaimKey ctx) svc svc'"
  shows "indexesFor idn svc' ctx n ro = indexesFor idn svc ctx n ro"
    "indexesFor idn svc ctx n ro = Inr (Inr is) \<Longrightarrow> SvcListCloudEventsFromIndexes svc' is = SvcListCloudEventsFromIndexes svc is"
proof -
  have h: "honest svc" and d: "didsPrinted idn" and ag: "\<And>c. DQClaimKey ctx = Some c \<Longrightarrow> agreeOn {s. granted idn c s} svc svc'"
    using assms by (auto simp: sameView_def)
  have "indexesFor idn svc' ctx n ro = indexesFor idn svc ctx n ro
    \<and> (indexesFor idn svc ctx n ro = Inr (Inr is) \<longrightarrow> SvcListCloudEventsFromIndexes svc' is = SvcListCloudEventsFromIndexes svc is)"
  proof (cases "GetAdvancedOptions ro")
    case (Some a)
    show ?thesis
    proof (cases "authorizeAdvancedOpts idn ctx a")
      case (Inr a')
      obtain c xs where c: "DQClaimKey ctx = Some c" "AdvSubject a' = Some (StringFilterOption xs [] [])" "xs \<noteq> []" "set xs \<subseteq> {s. granted idn c s}"
        by (rule advanced_granted [OF Inr d])
      note ag = ag [OF c(1), unfolded agreeOn_def]
      have "SvcListIndexesAdvanced svc' n a' = SvcListIndexesAdvanced svc n a'" using ag c(2-4) by blast
      moreover have "IxSubject ` set is \<subseteq> {s. granted idn c s}" if "SvcListIndexesAdvanced svc n a' = Inr is"
        using h c(2-4) that unfolding honest_def by blast
      ultimately show ?thesis using Some Inr ag by (simp add: indexesFor_def)
    qed (use Some in \<open>simp add: indexesFor_def\<close>)
  next
    case None
    show ?thesis
    proof (cases "authorizeOpts idn ctx (GetOptions ro)")
      case (Inr p)
      obtain c s where c: "DQClaimKey ctx = Some c" "SoSubject p = Some s" "granted idn c s" by (rule opts_granted [OF Inr d])
      note ag = ag [OF c(1), unfolded agreeOn_def]
      have "SvcListIndexes svc' n p = SvcListIndexes svc n p" using ag c(2,3) by blast
      moreover have "IxSubject ` set is \<subseteq> {s. granted idn c s}" if "SvcListIndexes svc n p = Inr is"
        using h c(2,3) that unfolding honest_def by blast
      ultimately show ?thesis using None Inr ag by (simp add: indexesFor_def)
    qed (use None in \<open>simp add: indexesFor_def\<close>)
  qed
  then show "indexesFor idn svc' ctx n ro = indexesFor idn svc ctx n ro"
    "indexesFor idn svc ctx n ro = Inr (Inr is) \<Longrightarrow> SvcListCloudEventsFromIndexes svc' is = SvcListCloudEventsFromIndexes svc is" by simp_all
qed

lemma keysLoop_granted:
  "keysLoop idn ctx ixs = Inr () \<Longrightarrow> didsPrinted idn \<Longrightarrow> DQClaimKey ctx = Some c \<Longrightarrow> \<forall>i \<in> set ixs. granted idn c (IxSubject i)"
  by (induction ixs) (auto split: if_splits sum.splits dest!: authorizeSubject_granted)

lemma keys_same:
  assumes "sameView idn (DQClaimKey ctx) svc svc'" and "keysLoop idn ctx ixs = Inr ()"
  shows "ListCloudEventsFromIndexes svc' ixs = ListCloudEventsFromIndexes svc ixs"
proof (cases ixs)
  case (Cons i rest)
  then obtain c where c: "DQClaimKey ctx = Some c"
    using assms(2) by (auto simp: authorizeSubject_def DQClaimFromContext_def split: if_splits sum.splits option.splits)
  have "didsPrinted idn" using assms(1) by (simp add: sameView_def)
  then have "IxSubject ` set ixs \<subseteq> {s. granted idn c s}" using keysLoop_granted [OF assms(2) _ c] by auto
  moreover have "agreeOn {s. granted idn c s} svc svc'" using assms(1) c by (simp add: sameView_def)
  ultimately show ?thesis unfolding ListCloudEventsFromIndexes_def agreeOn_def by simp
qed (simp add: ListCloudEventsFromIndexes_def)

lemma fetchServer_same:
  assumes "sameView idn (DQClaimKey ctx) svc svc'"
  shows "fetchServer idn svc' req ctx = fetchServer idn svc req ctx"
proof (cases req)
  case (GetLatestIndexRequest ro)
  then show ?thesis by (simp add: GetLatestIndex_def latestIndex_same(1) [OF assms])
next
  case (ListIndexesRequest n ro)
  then show ?thesis by (simp add: ListIndexes_def indexes_same(1) [OF assms])
next
  case (ListCloudEventsRequest n ro)
  then show ?thesis using indexes_same(2) [OF assms, of n ro]
    by (auto simp: ListCloudEvents_def ListCloudEventsFromIndexes_def indexes_same(1) [OF assms] split: sum.splits)
next
  case (GetLatestCloudEventRequest ro)
  then show ?thesis using latestIndex_same(2) [OF assms, of ro]
    by (auto simp: GetLatestCloudEvent_def latestIndex_same(1) [OF assms] split: sum.splits)
next
  case (ListCloudEventsFromKeysRequest ixs)
  then show ?thesis using keys_same [OF assms, of ixs] by (auto simp: ListCloudEventsFromIndex_def split: sum.splits)
qed

text \<open>The claim with which the interceptor lets a call in.\<close>

definition admittedClaim :: "tokenPerms \<Rightarrow> (string \<Rightarrow> validated res) \<Rightarrow> string list option \<Rightarrow> dqClaim option" where
  "admittedClaim tc ValidateToken md =
     (if bearerFromMetadata md = [] then None
      else (case ValidateToken (bearerFromMetadata md) of
              Inr (DQClaims c) \<Rightarrow> if grpcHasRawDataAccess tc (Permissions c) then Some c else None | _ \<Rightarrow> None))"

text \<open>A vehicle's token, for the examples.\<close>

definition demoClaim :: dqClaim where "demoClaim = \<lparr>Asset = ''veh'', Permissions = [''raw'']\<rparr>"

definition demoPerms :: tokenPerms where
  "demoPerms = \<lparr>PermissionGetNonLocationHistory = ''nonloc'', PermissionExecuteCommands = ''cmd'', PermissionGetCurrentLocation = ''cur'',
     PermissionGetLocationHistory = ''loc'', PermissionGetVINCredential = ''vin'', PermissionGetApproximateLocation = ''approx'',
     PermissionGetRawData = ''raw''\<rparr>"

definition demoIdentity :: identityEnv where "demoIdentity = \<lparr>DecodeDID = \<lambda>_. Inl (Err ''no DID''), IdentityClient = None\<rparr>"

definition demoCtx :: "dqClaim option \<Rightarrow> reqCtx" where
  "demoCtx c = \<lparr>DQClaimKey = c, ClaimsKey = c, FieldArgs = None\<rparr>"

lemma rpc_same:
  assumes "DQClaimKey ctx = None" and "sameView idn (admittedClaim tc ValidateToken md) svc svc'"
  shows "NewGRPCFetchAuthInterceptor tc ValidateToken require md (fetchServer idn svc' req) ctx
    = NewGRPCFetchAuthInterceptor tc ValidateToken require md (fetchServer idn svc req) ctx"
proof (cases "bearerFromMetadata md = []")
  case True
  then have "sameView idn (DQClaimKey ctx) svc svc'" using assms by (simp add: admittedClaim_def)
  then show ?thesis using True fetchServer_same [of idn ctx svc svc' req] by (simp add: NewGRPCFetchAuthInterceptor_def)
next
  case False
  have "fetchServer idn svc' req (ctx\<lparr>DQClaimKey := Some c\<rparr>) = fetchServer idn svc req (ctx\<lparr>DQClaimKey := Some c\<rparr>)"
    if "ValidateToken (bearerFromMetadata md) = Inr (DQClaims c)" "grpcHasRawDataAccess tc (Permissions c)" for c
    by (rule fetchServer_same) (use assms(2) False that in \<open>simp add: admittedClaim_def\<close>)
  then show ?thesis using False
    by (auto simp: NewGRPCFetchAuthInterceptor_def Let_def split: sum.splits validated.splits)
qed

lemma slotLoop_same:
  assumes "agreeOn S svc svc'"
  shows "slotLoop svc' fetchData is = slotLoop svc fetchData is"
proof -
  have "presigned svc' = presigned svc" "SvcPresignBlobURL svc' = SvcPresignBlobURL svc"
    using assms by (simp_all add: agreeOn_def presigned_def fun_eq_iff)
  then show ?thesis by (induction "is") (simp_all cong: sum.case_cong)
qed

lemma slotLoop_pending:
  "slotLoop svc fetchData is = Inr slots \<Longrightarrow> set (concat (map (case_sum (\<lambda>i. [i]) (\<lambda>_. [])) slots)) \<subseteq> set is"
  by (induction "is" arbitrary: slots) (fastforce split: sum.splits if_splits)+

lemma queries_same:
  assumes "sameView idn (case requireRawDataToken tc ctx of Inl _ \<Rightarrow> None | Inr c \<Rightarrow> Some c) svc svc'"
    and asset: "\<And>c. requireRawDataToken tc ctx = Inr c \<Longrightarrow> Asset c \<noteq> []"
  shows "LatestCloudEvent tc idn svc' fetchData ctx subject flt = LatestCloudEvent tc idn svc fetchData ctx subject flt
    \<and> CloudEvents tc idn svc' fetchData ctx subject limit flt = CloudEvents tc idn svc fetchData ctx subject limit flt
    \<and> AvailableCloudEventTypes tc idn svc' ctx subject flt = AvailableCloudEventTypes tc idn svc ctx subject flt"
proof (cases "requireSubjectOptsByDID tc idn ctx subject flt")
  case (Inl err)
  then show ?thesis by (simp add: LatestCloudEvent_def CloudEvents_def AvailableCloudEventTypes_def)
next
  case (Inr opts)
  then obtain c x where c: "requireRawDataToken tc ctx = Inr c" "ensureRequestedDIDLinkedToPermissionedSubject idn subject (Asset c) = Inr x"
    "opts = filterToAdvancedSearchOptions flt x"
    by (auto simp: requireSubjectOptsByDID_def split: sum.splits)
  let ?S = "{s. granted idn c s}"
  have ag: "agreeOn ?S svc svc'" and h: "honest svc" and d: "didsPrinted idn" using assms(1) c(1) by (simp_all add: sameView_def)
  have x: "granted idn c x"
    using c(2) asset [OF c(1)] d unfolding ensureRequestedDIDLinkedToPermissionedSubject_def granted_def didsPrinted_def
    by (auto split: if_splits sum.splits option.splits)
  have opts: "AdvSubject opts = Some (StringFilterOption [x] [] [])"
    by (simp add: c(3) filterToAdvancedSearchOptions_def Let_def split: option.splits)
  have same: "SvcGetLatestIndexAdvanced svc' opts = SvcGetLatestIndexAdvanced svc opts" "SvcListIndexesAdvanced svc' n opts = SvcListIndexesAdvanced svc n opts"
    "SvcGetCloudEventTypeSummariesAdvanced svc' opts = SvcGetCloudEventTypeSummariesAdvanced svc opts"
    "presigned svc' = presigned svc" "SvcPresignBlobURL svc' = SvcPresignBlobURL svc" for n
    using ag opts x by (auto simp: agreeOn_def presigned_def fun_eq_iff)
  have one: "SvcGetCloudEventFromIndex svc' i = SvcGetCloudEventFromIndex svc i" if "SvcGetLatestIndexAdvanced svc opts = Inr i" for i
    using h ag opts x that unfolding honest_def agreeOn_def by fastforce
  have many: "ListCloudEventsFromIndexes svc' p = ListCloudEventsFromIndexes svc p"
    if "SvcListIndexesAdvanced svc n opts = Inr is" "set p \<subseteq> set is" for n "is" p
  proof -
    have "IxSubject i = x" if "i \<in> set is" for i
      using h opts that \<open>SvcListIndexesAdvanced svc n opts = Inr is\<close> unfolding honest_def by fastforce
    then have "IxSubject ` set p \<subseteq> ?S" using that(2) x by auto
    then show ?thesis using ag unfolding ListCloudEventsFromIndexes_def agreeOn_def by simp
  qed
  have "LatestCloudEvent tc idn svc' fetchData ctx subject flt = LatestCloudEvent tc idn svc fetchData ctx subject flt"
    using Inr one by (simp add: LatestCloudEvent_def same split: sum.splits)
  moreover have "CloudEvents tc idn svc' fetchData ctx subject limit flt = CloudEvents tc idn svc fetchData ctx subject limit flt"
  proof (cases "SvcListIndexesAdvanced svc (resolveLimit limit) opts")
    case (Inl e)
    then show ?thesis using \<open>requireSubjectOptsByDID tc idn ctx subject flt = Inr opts\<close> by (simp add: CloudEvents_def same)
  next
    case idxs: (Inr idxs)
    show ?thesis
    proof (cases "slotLoop svc fetchData idxs")
      case (Inr slots)
      have "ListCloudEventsFromIndexes svc' (concat (map (case_sum (\<lambda>i. [i]) (\<lambda>_. [])) slots))
          = ListCloudEventsFromIndexes svc (concat (map (case_sum (\<lambda>i. [i]) (\<lambda>_. [])) slots))"
        by (rule many [OF idxs slotLoop_pending [OF Inr]])
      then show ?thesis using \<open>requireSubjectOptsByDID tc idn ctx subject flt = Inr opts\<close> idxs Inr
        by (simp add: CloudEvents_def same slotLoop_same [OF ag] Let_def)
    qed (use \<open>requireSubjectOptsByDID tc idn ctx subject flt = Inr opts\<close> idxs in \<open>simp add: CloudEvents_def same slotLoop_same [OF ag]\<close>)
  qed
  moreover have "AvailableCloudEventTypes tc idn svc' ctx subject flt = AvailableCloudEventTypes tc idn svc ctx subject flt"
    using Inr by (simp add: AvailableCloudEventTypes_def same)
  ultimately show ?thesis by simp
qed

text \<open>
  The interface of the event service over a store: \<open>same S w w'\<close> tells that two stores hold the same for the
  subjects of \<open>S\<close>, and anything for the others.
\<close>

locale event_service =
  fixes service :: "'w \<Rightarrow> ('o, 'h, 'e) eventService" and same :: "string set \<Rightarrow> 'w \<Rightarrow> 'w \<Rightarrow> bool"
  assumes service_honest: "honest (service w)"
    and service_scoped: "same S w w' \<Longrightarrow> [] \<notin> S \<Longrightarrow> agreeOn S (service w) (service w')"
begin

lemma service_view:
  "didsPrinted idn \<Longrightarrow> (\<And>c. claim = Some c \<Longrightarrow> same {s. granted idn c s} w w') \<Longrightarrow> sameView idn claim (service w) (service w')"
  using service_honest service_scoped by (simp add: sameView_def granted_def)

lemma rpc_scoped:
  assumes "DQClaimKey ctx = None" and "didsPrinted idn"
    and "\<And>c. admittedClaim tc ValidateToken md = Some c \<Longrightarrow> same {s. granted idn c s} w w'"
  shows "NewGRPCFetchAuthInterceptor tc ValidateToken require md (fetchServer idn (service w') req) ctx
    = NewGRPCFetchAuthInterceptor tc ValidateToken require md (fetchServer idn (service w) req) ctx"
  by (rule rpc_same [OF assms(1) service_view [OF assms(2,3)]])

lemma queries_scoped:
  assumes "didsPrinted idn" and "\<And>c. requireRawDataToken tc ctx = Inr c \<Longrightarrow> Asset c \<noteq> [] \<and> same {s. granted idn c s} w w'"
  shows "LatestCloudEvent tc idn (service w') fetchData ctx subject flt = LatestCloudEvent tc idn (service w) fetchData ctx subject flt
    \<and> CloudEvents tc idn (service w') fetchData ctx subject limit flt = CloudEvents tc idn (service w) fetchData ctx subject limit flt
    \<and> AvailableCloudEventTypes tc idn (service w') ctx subject flt = AvailableCloudEventTypes tc idn (service w) ctx subject flt"
proof (rule queries_same)
  show "sameView idn (case requireRawDataToken tc ctx of Inl _ \<Rightarrow> None | Inr c \<Rightarrow> Some c) (service w) (service w')"
    by (rule service_view [OF assms(1)]) (use assms(2) in \<open>auto split: sum.splits\<close>)
  show "Asset c \<noteq> []" if "requireRawDataToken tc ctx = Inr c" for c using assms(2) [OF that] by simp
qed

end

text \<open>A call without a token is let in while the token is optional, but no method with search options answers it.\<close>

lemma no_claim_denied:
  fixes svc :: "('o, 'h, 'e) eventService"
  assumes "DQClaimKey ctx = None"
  shows "\<exists>st. GetLatestIndex idn svc ctx ro = Inl st" "\<exists>st. ListIndexes idn svc ctx n ro = Inl st"
    "\<exists>st. ListCloudEvents idn svc ctx n ro = Inl st" "\<exists>st. GetLatestCloudEvent idn svc ctx ro = Inl st"
proof -
  have one: "\<exists>st. authorizeSubject idn ctx s = Inl st" for s using assms by (simp add: authorizeSubject_def DQClaimFromContext_def)
  then have o: "\<exists>st. authorizeOpts idn ctx p = Inl st" for p :: "'o searchOptions option"
    by (auto simp: authorizeOpts_def split: option.splits sum.splits) (metis sum.distinct(1))+
  have a: "\<exists>st. authorizeAdvancedOpts idn ctx a = Inl st" for a
  proof (cases "case AdvSubject a of None \<Rightarrow> [] | Some f \<Rightarrow> GetIn f")
    case (Cons s ss)
    then show ?thesis using one [of s] by (auto simp: authorizeAdvancedOpts_def)
  qed (simp add: authorizeAdvancedOpts_def)
  have l: "\<exists>st. latestIndexFor idn svc ctx ro = Inl st"
    using o [of "GetOptions ro"] a [of "the (GetAdvancedOptions ro)"] by (cases "GetAdvancedOptions ro") (auto simp: latestIndexFor_def)
  have i: "\<exists>st. indexesFor idn svc ctx n ro = Inl st"
    using o [of "GetOptions ro"] a [of "the (GetAdvancedOptions ro)"] by (cases "GetAdvancedOptions ro") (auto simp: indexesFor_def)
  from l show "\<exists>st. GetLatestIndex idn svc ctx ro = Inl st" "\<exists>st. GetLatestCloudEvent idn svc ctx ro = Inl st"
    by (auto simp: GetLatestIndex_def GetLatestCloudEvent_def)
  from i show "\<exists>st. ListIndexes idn svc ctx n ro = Inl st" "\<exists>st. ListCloudEvents idn svc ctx n ro = Inl st"
    by (auto simp: ListIndexes_def ListCloudEvents_def)
qed

subsection \<open>The data summary\<close>

definition visible :: "dataSummary \<Rightarrow> string list \<times> signalDataSummary list \<times> nat \<times> eventDataSummary list" where
  "visible sm = (DsAvailableSignals sm, DsSignalDataSummary sm, DsNumberOfSignals sm, DsEventDataSummary sm)"

lemma filter_names: "filter P (map SdName sds) = map SdName (filter (\<lambda>s. P (SdName s)) sds)"
  by (simp add: filter_map comp_def)

text \<open>C23. The names, the summaries by signal, the count and the events of a data summary depend only on the signals
  the caller's permissions cover.\<close>

theorem summary_hides_signals:
  assumes "BackendSignalSummaries q subject flt = Inr sds" and "BackendSignalSummaries q' subject flt = Inr sds'"
    and "filter (\<lambda>s. hasPrivilegesForSignal tc repo (SdName s) (permissionsFromCtx ctx)) sds'
       = filter (\<lambda>s. hasPrivilegesForSignal tc repo (SdName s) (permissionsFromCtx ctx)) sds"
    and "BackendEventSummaries q' subject = BackendEventSummaries q subject"
  shows "map_sum id visible (DataSummary tc q' repo now ctx subject flt) = map_sum id visible (DataSummary tc q repo now ctx subject flt)"
  using assms by (cases "BackendEventSummaries q subject") (simp_all add: DataSummary_def GetDataSummary_def visible_def Let_def filter_names)

definition demoBackend :: "time \<Rightarrow> signalBackend" where
  "demoBackend t = \<lparr>BackendAggregatedSignals = \<lambda>_ _. Inr [], BackendLatestSignals = \<lambda>_ _. Inr [], BackendAllLatestSignals = \<lambda>_ _. Inr [],
     BackendAvailableSignals = \<lambda>_ _. Inr [], BackendSignalSummaries = \<lambda>_ _. Inr [\<lparr>SdName = ''loc'', SdNumberOfSignals = 1, SdFirstSeen = t, SdLastSeen = t\<rparr>],
     BackendEvents = \<lambda>_ _ _ _. Inr [], BackendEventSummaries = \<lambda>_. Inr []\<rparr>"

definition demoRepo :: repository where
  "demoRepo = \<lparr>queryableSignals = [''loc''], signalPrivileges = [''loc'' \<mapsto> [''VEHICLE_ALL_TIME_LOCATION'']]\<rparr>"

lemma demo_hidden: "\<not> hasPrivilegesForSignal demoPerms demoRepo ''loc'' [''raw'']"
  by (simp add: hasPrivilegesForSignal_def RequiredPrivileges_def demoRepo_def privilegeEnumToPermission_def demoPerms_def ApproximateCoordinatesField_def)

theorem summary_hides_signals_witness:
  "map_sum id visible (DataSummary demoPerms (demoBackend 5) demoRepo 9 (demoCtx (Some demoClaim)) ''veh'' None)
    = map_sum id visible (DataSummary demoPerms (demoBackend 6) demoRepo 9 (demoCtx (Some demoClaim)) ''veh'' None)"
  by (rule summary_hides_signals [where sds = "[\<lparr>SdName = ''loc'', SdNumberOfSignals = 1, SdFirstSeen = 6, SdLastSeen = 6\<rparr>]"
        and sds' = "[\<lparr>SdName = ''loc'', SdNumberOfSignals = 1, SdFirstSeen = 5, SdLastSeen = 5\<rparr>]"])
    (use demo_hidden in \<open>simp_all add: demoBackend_def permissionsFromCtx_def demoCtx_def demoClaim_def\<close>)

text \<open>Its first and last time do not: they are folded over the hidden signals too.\<close>

lemma summary_span_shows_hidden:
  "map_sum id DsFirstSeen (DataSummary demoPerms (demoBackend 5) demoRepo 9 (demoCtx (Some demoClaim)) ''veh'' None) = Inr 5"
  "map_sum id DsFirstSeen (DataSummary demoPerms (demoBackend 6) demoRepo 9 (demoCtx (Some demoClaim)) ''veh'' None) = Inr 6"
  by (simp_all add: DataSummary_def GetDataSummary_def demoBackend_def foldTimeRange_def Before_def Let_def)

end
