(* ===== verification/Mat_Rollup.thy ===== *)
theory Mat_Rollup
  imports Mat_Db
begin

section \<open>The rollups and their daily refresh (internal/materializer: ducklake.go, daily_rollup.go)\<close>

text \<open>
  lake.signals_latest holds one row per subject and signal name: the latest reading, the latest
  nonzero fix, and count, first and last time. It is refreshed once a day: the seed recomputes it up
  to a midnight, later refreshes fold the rows between the old and the new midnight onto it and
  recompute the subjects that received rows stamped before the old one. lake.events_latest is the
  same for events, recomputed for the subjects that changed.

  SQL is translated: \<open>rollupSelect\<close> is the text of \<open>rollupSelectSQL\<close>; which of several rows with the
  same subject, name, time and event id \<open>ROW_NUMBER\<close> keeps is the parameter \<open>Pick\<close>.
\<close>

subsection \<open>The select of the signal rollup\<close>

definition locNonzero :: "signalRow \<Rightarrow> bool" where
  "locNonzero r = (f64_ne (SrLocLat r) (Fin 0) \<or> f64_ne (SrLocLon r) (Fin 0))"

text \<open>The deduplicated rows of one group, one per time, in time order.\<close>

definition dedupRows :: "(signalRow list \<Rightarrow> signalRow) \<Rightarrow> signalRow list \<Rightarrow> signalRow list" where
  "dedupRows pick rows = map (\<lambda>t. pick (filter (\<lambda>r. SrTimestamp r = t) rows)) (sorted_list_of_set (SrTimestamp ` set rows))"

text \<open>The four location columns and \<open>loc_ts\<close>.\<close>

definition locCols :: "signalRow list \<Rightarrow> f64 \<times> f64 \<times> f64 \<times> f64 \<times> time" where
  "locCols fixes' = (if fixes' = [] then (Fin 0, Fin 0, Fin 0, Fin 0, unixEpoch)
     else let r = last fixes' in (SrLocLat r, SrLocLon r, SrLocHDOP r, SrLocHeading r, SrTimestamp r))"

definition rowOf :: "string \<times> string \<Rightarrow> nat \<Rightarrow> signalRow list \<Rightarrow> rollupRow" where
  "rowOf key bucket rows =
     (let (lat, lon, hdop, heading, lts) = locCols (filter locNonzero rows); r = last rows in
      \<lparr>RrSubject = fst key, RrSubjectBucket = bucket, RrName = snd key, RrTimestamp = SrTimestamp r,
       RrValueNumber = SrValueNumber r, RrValueString = SrValueString r, RrLocLat = lat, RrLocLon = lon,
       RrLocHDOP = hdop, RrLocHeading = heading, RrLocTS = lts, RrCount = length rows,
       RrFirstSeen = SrTimestamp (hd rows), RrLastSeen = SrTimestamp r\<rparr>)"

definition signalKey2 :: "signalRow \<Rightarrow> string \<times> string" where "signalKey2 r = (SrSubject r, SrName r)"

definition groupOf :: "string \<times> string \<Rightarrow> signalRow list \<Rightarrow> signalRow list" where
  "groupOf key rows = filter (\<lambda>r. signalKey2 r = key) rows"

definition groupRow :: "(signalRow list \<Rightarrow> signalRow) \<Rightarrow> signalRow list \<Rightarrow> string \<times> string \<Rightarrow> rollupRow" where
  "groupRow pick rows key =
     (let g = groupOf key rows in rowOf key (SrSubjectBucket (hd g)) (dedupRows pick g))"

definition rollupSelect :: "(signalRow list \<Rightarrow> signalRow) \<Rightarrow> (signalRow \<Rightarrow> bool) \<Rightarrow> signalRow list \<Rightarrow> rollupRow list" where
  "rollupSelect pick wh tab = (let rows = filter wh tab in map (groupRow pick rows) (remdups (map signalKey2 rows)))"

subsection \<open>Recomputing subjects and buckets\<close>

definition rollupSubjectChunk :: nat where "rollupSubjectChunk = 500"

function chunksOf :: "nat \<Rightarrow> 'a list \<Rightarrow> 'a list list" where
  "chunksOf n xs = (if xs = [] \<or> n = 0 then [] else take n xs # chunksOf n (drop n xs))"
  by pat_completeness auto
termination by (relation "measure (\<lambda>(n, xs). length xs)") auto

declare chunksOf.simps [simp del]

text \<open>Subjects by bucket, both sorted, in chunks.\<close>

definition subjectChunks :: "string list \<Rightarrow> (nat \<times> string list) list" where
  "subjectChunks subjects =
     concat (map (\<lambda>b. map (Pair b) (chunksOf rollupSubjectChunk (sort (filter (\<lambda>s. HashBucket s = b) subjects))))
       (sort (remdups (map HashBucket subjects))))"

definition inSubjects :: "nat \<Rightarrow> string list \<Rightarrow> signalRow \<Rightarrow> bool" where
  "inSubjects b ss r = (SrSubjectBucket r = b \<and> SrSubject r \<in> set ss)"

definition recomputeSubjectsTx :: "(signalRow list \<Rightarrow> signalRow) \<Rightarrow> nat \<Rightarrow> string list \<Rightarrow> lakeDb \<Rightarrow> lakeDb" where
  "recomputeSubjectsTx pick b ss d = d\<lparr>DbSignalsLatest :=
     filter (\<lambda>v. \<not> (RrSubjectBucket v = b \<and> RrSubject v \<in> set ss)) (DbSignalsLatest d)
     @ rollupSelect pick (inSubjects b ss) (DbSignals d)\<rparr>"

definition recomputeSubjects :: "('e) lakeEnv_scheme \<Rightarrow> nat \<Rightarrow> string list \<Rightarrow> mat \<Rightarrow> goerr option \<times> mat" where
  "recomputeSubjects env b ss m = runTx env (recomputeSubjectsTx (Pick env) b ss) m"

definition recomputeBucketTx :: "(signalRow list \<Rightarrow> signalRow) \<Rightarrow> nat \<Rightarrow> lakeDb \<Rightarrow> lakeDb" where
  "recomputeBucketTx pick b d = d\<lparr>DbSignalsLatest :=
     filter (\<lambda>v. RrSubjectBucket v \<noteq> b) (DbSignalsLatest d)
     @ rollupSelect pick (\<lambda>r. SrSubjectBucket r = b) (DbSignals d)\<rparr>"

fun recomputeBuckets :: "('e) lakeEnv_scheme \<Rightarrow> nat list \<Rightarrow> mat \<Rightarrow> goerr option \<times> mat" where
  "recomputeBuckets env [] m = (None, m)"
| "recomputeBuckets env (b # bs) m =
     (case runTx env (recomputeBucketTx (Pick env) b) m of
        (Some e, m) \<Rightarrow> (Some (Wrap (''rollup recompute bucket '' @ nat_str b) e), m)
      | (None, m) \<Rightarrow> recomputeBuckets env bs m)"

definition RecomputeRollup :: "matCfg \<Rightarrow> ('e) lakeEnv_scheme \<Rightarrow> mat \<Rightarrow> goerr option \<times> mat" where
  "RecomputeRollup cfg env m =
     (if dailyMode cfg = DailyRollupOn
      then (Some (Err ''RecomputeRollup is disabled under MATERIALIZER_DAILY_ROLLUP_MODE=on: drop the daily watermark row to force a bounded reseed instead''), m)
      else recomputeBuckets env [0..<NumLatestBuckets] m)"

fun flushChunks :: "('e) lakeEnv_scheme \<Rightarrow> (nat \<times> string list) list \<Rightarrow> mat \<Rightarrow> goerr option \<times> mat" where
  "flushChunks env [] m = (None, m)"
| "flushChunks env ((b, ss) # cs) m =
     (case recomputeSubjects env b ss m of
        (Some e, m) \<Rightarrow> (Some (Wrap (''rollup recompute bucket '' @ nat_str b) e), m)
      | (None, m) \<Rightarrow> flushChunks env cs (m\<lparr>dirtySubjects := dirtySubjects m - set ss\<rparr>))"

text \<open>\<open>order\<close> enumerates the dirty set the way the map iteration does.\<close>

definition FlushRollup :: "matCfg \<Rightarrow> ('e) lakeEnv_scheme \<Rightarrow> string list \<Rightarrow> mat \<Rightarrow> goerr option \<times> mat" where
  "FlushRollup cfg env order m =
     (if dailyMode cfg = DailyRollupOn then (None, m\<lparr>dirtySubjects := {}, rollupFullRebuild := False\<rparr>)
      else if rollupFullRebuild m
      then (case RecomputeRollup cfg env m of
              (Some e, m) \<Rightarrow> (Some e, m)
            | (None, m) \<Rightarrow> (None, m\<lparr>rollupFullRebuild := False, dirtySubjects := {}\<rparr>))
      else if dirtySubjects m = {} then (None, m)
      else flushChunks env (subjectChunks order) m)"

subsection \<open>The event rollup\<close>

definition dedupEvents :: "(eventRow list \<Rightarrow> eventRow) \<Rightarrow> eventRow list \<Rightarrow> eventRow list" where
  "dedupEvents pick rows = map (\<lambda>k. pick (filter (\<lambda>r. (ErTimestamp r, ErSource r) = k) rows))
     (remdups (map (\<lambda>r. (ErTimestamp r, ErSource r)) rows))"

definition eventKey2 :: "eventRow \<Rightarrow> string \<times> string" where "eventKey2 r = (ErSubject r, ErRowName r)"

definition eventGroupRow :: "(eventRow list \<Rightarrow> eventRow) \<Rightarrow> eventRow list \<Rightarrow> string \<times> string \<Rightarrow> eventRollupRow" where
  "eventGroupRow pick rows key =
     (let g = filter (\<lambda>r. eventKey2 r = key) rows; ts = map ErTimestamp (dedupEvents pick g) in
      \<lparr>XrSubject = fst key, XrSubjectBucket = ErSubjectBucket (hd g), XrName = snd key, XrCount = length ts,
       XrFirstSeen = Min (set ts), XrLastSeen = Max (set ts)\<rparr>)"

definition eventRollupSelect :: "(eventRow list \<Rightarrow> eventRow) \<Rightarrow> (eventRow \<Rightarrow> bool) \<Rightarrow> eventRow list \<Rightarrow> eventRollupRow list" where
  "eventRollupSelect pick wh tab = (let rows = filter wh tab in map (eventGroupRow pick rows) (remdups (map eventKey2 rows)))"

definition recomputeEventSubjectsTx :: "(eventRow list \<Rightarrow> eventRow) \<Rightarrow> nat \<Rightarrow> string list \<Rightarrow> lakeDb \<Rightarrow> lakeDb" where
  "recomputeEventSubjectsTx pick b ss d = d\<lparr>DbEventsLatest :=
     filter (\<lambda>v. \<not> (XrSubjectBucket v = b \<and> XrSubject v \<in> set ss)) (DbEventsLatest d)
     @ eventRollupSelect pick (\<lambda>r. ErSubjectBucket r = b \<and> ErSubject r \<in> set ss) (DbEvents d)\<rparr>"

definition recomputeEventBucketTx :: "(eventRow list \<Rightarrow> eventRow) \<Rightarrow> nat \<Rightarrow> lakeDb \<Rightarrow> lakeDb" where
  "recomputeEventBucketTx pick b d = d\<lparr>DbEventsLatest :=
     filter (\<lambda>v. XrSubjectBucket v \<noteq> b) (DbEventsLatest d)
     @ eventRollupSelect pick (\<lambda>r. ErSubjectBucket r = b) (DbEvents d)\<rparr>"

fun recomputeEventBuckets :: "('e) lakeEnv_scheme \<Rightarrow> nat list \<Rightarrow> mat \<Rightarrow> goerr option \<times> mat" where
  "recomputeEventBuckets env [] m = (None, m)"
| "recomputeEventBuckets env (b # bs) m =
     (case runTx env (recomputeEventBucketTx (PickEvent env) b) m of
        (Some e, m) \<Rightarrow> (Some (Wrap (''event rollup recompute bucket '' @ nat_str b) e), m)
      | (None, m) \<Rightarrow> recomputeEventBuckets env bs m)"

definition RecomputeEventRollup :: "('e) lakeEnv_scheme \<Rightarrow> mat \<Rightarrow> goerr option \<times> mat" where
  "RecomputeEventRollup env m = recomputeEventBuckets env [0..<NumLatestBuckets] m"

fun flushEventChunks :: "('e) lakeEnv_scheme \<Rightarrow> (nat \<times> string list) list \<Rightarrow> mat \<Rightarrow> goerr option \<times> mat" where
  "flushEventChunks env [] m = (None, m)"
| "flushEventChunks env ((b, ss) # cs) m =
     (case runTx env (recomputeEventSubjectsTx (PickEvent env) b ss) m of
        (Some e, m) \<Rightarrow> (Some (Wrap (''event rollup recompute bucket '' @ nat_str b) e), m)
      | (None, m) \<Rightarrow> flushEventChunks env cs (m\<lparr>dirtyEventSubjects := dirtyEventSubjects m - set ss\<rparr>))"

definition FlushEventRollup :: "('e) lakeEnv_scheme \<Rightarrow> string list \<Rightarrow> mat \<Rightarrow> goerr option \<times> mat" where
  "FlushEventRollup env order m =
     (if eventRollupFullRebuild m
      then (case RecomputeEventRollup env m of
              (Some e, m) \<Rightarrow> (Some e, m)
            | (None, m) \<Rightarrow> (None, m\<lparr>eventRollupFullRebuild := False, dirtyEventSubjects := {}\<rparr>))
      else if dirtyEventSubjects m = {} then (None, m)
      else flushEventChunks env (subjectChunks order) m)"

subsection \<open>Retention\<close>

definition keepsSignal :: "lakeDb \<Rightarrow> time \<Rightarrow> rollupRow \<Rightarrow> bool" where
  "keepsSignal d cutoff v = (\<not> (RrLastSeen v < cutoff \<and> \<not> (\<exists>r \<in> set (DbSignals d).
     SrSubjectBucket r = RrSubjectBucket v \<and> SrSubject r = RrSubject v \<and> SrName r = RrName v)))"

definition keepsEvent :: "lakeDb \<Rightarrow> time \<Rightarrow> eventRollupRow \<Rightarrow> bool" where
  "keepsEvent d cutoff v = (\<not> (XrLastSeen v < cutoff \<and> \<not> (\<exists>r \<in> set (DbEvents d).
     ErSubjectBucket r = XrSubjectBucket v \<and> ErSubject r = XrSubject v \<and> ErRowName r = XrName v)))"

text \<open>Four statements, each its own transaction; the count is what the first two removed.\<close>

definition PruneDecoded :: "('e) lakeEnv_scheme \<Rightarrow> duration \<Rightarrow> mat \<Rightarrow> nat \<times> goerr option \<times> mat" where
  "PruneDecoded env retention m =
     (if retention \<le> 0 then (0, None, m)
      else let cutoff = Truncate (Add (nowAt env m) (- retention)) microsecond;
               n1 = length (filter (\<lambda>r. SrTimestamp r < cutoff) (DbSignals (Db m))) in
      (case runTx env (\<lambda>d. d\<lparr>DbSignals := filter (\<lambda>r. \<not> SrTimestamp r < cutoff) (DbSignals d)\<rparr>) m of
         (Some e, m) \<Rightarrow> (0, Some (Wrap ''pruning lake.signals'' e), m)
       | (None, m) \<Rightarrow>
         let n2 = length (filter (\<lambda>r. ErTimestamp r < cutoff) (DbEvents (Db m))) in
         (case runTx env (\<lambda>d. d\<lparr>DbEvents := filter (\<lambda>r. \<not> ErTimestamp r < cutoff) (DbEvents d)\<rparr>) m of
            (Some e, m) \<Rightarrow> (n1, Some (Wrap ''pruning lake.events'' e), m)
          | (None, m) \<Rightarrow>
            (case runTx env (\<lambda>d. d\<lparr>DbSignalsLatest := filter (keepsSignal d cutoff) (DbSignalsLatest d)\<rparr>) m of
               (Some e, m) \<Rightarrow> (n1 + n2, Some (Wrap ''pruning orphaned rollup rows'' e), m)
             | (None, m) \<Rightarrow>
               (case runTx env (\<lambda>d. d\<lparr>DbEventsLatest := filter (keepsEvent d cutoff) (DbEventsLatest d)\<rparr>) m of
                  (Some e, m) \<Rightarrow> (n1 + n2, Some (Wrap ''pruning orphaned event rollup rows'' e), m)
                | (None, m) \<Rightarrow> (n1 + n2, None, m))))))"

end
