(* ===== verification/Mat_Daily.thy ===== *)
theory Mat_Daily
  imports Mat_Rollup
begin

section \<open>The daily refresh of the signal rollup (internal/materializer/daily_rollup.go)\<close>

text \<open>
  lake.signals_latest is exact up to a watermark, a midnight kept in lake.ingest_progress: the seed
  recomputes it in full, the daily fold merges the rows between the old and the new watermark onto
  it, and the subjects that received rows stamped before the watermark are recorded in
  lake.rollup_late_subjects by the insert path and recomputed by the next refresh. A leftover table
  of the earlier scheme (\<open>DbShadow\<close>) is promoted at boot.

  This theory holds the definitions; Mat_Daily_Exact shows the invariant the comment of the source
  states. A failing statement returns \<open>TxStmt e\<close> with the text the code wraps around it; gauges, log lines and
  the text of times in errors are left out.
\<close>

subsection \<open>Configuration and boundary\<close>

definition defaultDailyRollupDelay :: duration where "defaultDailyRollupDelay = 3 * hour + 30 * minute"

definition ParseDailyRollupMode :: "string \<Rightarrow> string \<times> bool" where
  "ParseDailyRollupMode s =
     (if s = [] \<or> s = DailyRollupOn then (DailyRollupOn, True)
      else if s = DailyRollupOff then (DailyRollupOff, True)
      else (DailyRollupOff, False))"

definition WithDailyRollup :: "string \<Rightarrow> duration \<Rightarrow> matCfg \<Rightarrow> matCfg" where
  "WithDailyRollup mode delay cfg =
     cfg\<lparr>dailyMode := mode, dailyDelay := (if delay \<le> 0 then defaultDailyRollupDelay else delay)\<rparr>"

definition dailyRefreshBoundary :: "time \<Rightarrow> time \<Rightarrow> duration \<Rightarrow> time" where
  "dailyRefreshBoundary now watermark delay =
     (let boundary = Truncate now (24 * hour);
          boundary = (if Sub now boundary < delay then Add boundary (- 24 * hour) else boundary)
      in if \<not> IsZero watermark \<and> \<not> Before watermark boundary then zeroTime else boundary)"

subsection \<open>Statements with retries\<close>

fun retryLoop :: "('e) lakeEnv_scheme \<Rightarrow> nat \<Rightarrow> (lakeDb \<Rightarrow> lakeDb) \<Rightarrow> goerr option \<Rightarrow> mat \<Rightarrow> goerr option \<times> mat" where
  "retryLoop env 0 f err m = (err, m)"
| "retryLoop env (Suc n) f err m =
     (case runTx env f m of
        (None, m) \<Rightarrow> (None, m)
      | (Some e, m) \<Rightarrow> if \<not> isCommitConflict e then (Some e, m) else retryLoop env n f (Some e) m)"

definition execRetryConflict :: "('e) lakeEnv_scheme \<Rightarrow> (lakeDb \<Rightarrow> lakeDb) \<Rightarrow> mat \<Rightarrow> goerr option \<times> mat" where
  "execRetryConflict env f m = retryLoop env 5 f None m"

subsection \<open>Seed\<close>

definition beforeBound :: "time \<Rightarrow> signalRow \<Rightarrow> bool" where
  "beforeBound W r = (SrTimestamp r < sqlTimestampLit W)"

definition seedBucketTx :: "(signalRow list \<Rightarrow> signalRow) \<Rightarrow> time \<Rightarrow> nat \<Rightarrow> lakeDb \<Rightarrow> lakeDb" where
  "seedBucketTx pick W b d = d\<lparr>DbSignalsLatest := DbSignalsLatest d
     @ rollupSelect pick (\<lambda>r. SrSubjectBucket r = b \<and> beforeBound W r) (DbSignals d)\<rparr>"

fun seedBuckets :: "('e) lakeEnv_scheme \<Rightarrow> time \<Rightarrow> nat list \<Rightarrow> mat \<Rightarrow> goerr option \<times> mat" where
  "seedBuckets env W [] m = (None, m)"
| "seedBuckets env W (b # bs) m =
     (case runTx env (seedBucketTx (Pick env) W b) m of
        (Some e, m) \<Rightarrow> (Some (Wrap (''daily seed bucket '' @ nat_str b) e), m)
      | (None, m) \<Rightarrow> seedBuckets env W bs m)"

definition seedDailyRollup :: "('e) lakeEnv_scheme \<Rightarrow> time \<Rightarrow> mat \<Rightarrow> goerr option \<times> mat" where
  "seedDailyRollup env boundary m =
     (case execRetryConflict env (\<lambda>d. d\<lparr>DbSignalsLatest := []\<rparr>) m of
        (Some e, m) \<Rightarrow> (Some (Wrap ''daily seed clear'' e), m)
      | (None, m) \<Rightarrow>
          (case seedBuckets env boundary [0..<NumLatestBuckets] m of
             (Some e, m) \<Rightarrow> (Some e, m)
           | (None, m) \<Rightarrow> runTx env (\<lambda>d. d\<lparr>DbWatermark := WatermarkAt boundary, DbLateSubjects := []\<rparr>) m))"

subsection \<open>Fold\<close>

text \<open>The columns of \<open>_daily_merged\<close> for a tail row and the row the left join found.\<close>

definition mergeRow :: "rollupRow option \<Rightarrow> rollupRow \<Rightarrow> rollupRow" where
  "mergeRow p t =
     (let t = (if RrLocTS t > unixEpoch then t
               else (case p of
                 None \<Rightarrow> t\<lparr>RrLocLat := Fin 0, RrLocLon := Fin 0, RrLocHDOP := Fin 0, RrLocHeading := Fin 0, RrLocTS := unixEpoch\<rparr>
               | Some p \<Rightarrow> t\<lparr>RrLocLat := RrLocLat p, RrLocLon := RrLocLon p, RrLocHDOP := RrLocHDOP p,
                   RrLocHeading := RrLocHeading p, RrLocTS := RrLocTS p\<rparr>))
      in (case p of None \<Rightarrow> t
          | Some p \<Rightarrow> t\<lparr>RrCount := RrCount p + RrCount t, RrFirstSeen := min (RrFirstSeen p) (RrFirstSeen t)\<rparr>))"

definition sameRollupKey :: "rollupRow \<Rightarrow> rollupRow \<Rightarrow> bool" where
  "sameRollupKey p t = (RrSubjectBucket p = RrSubjectBucket t \<and> RrSubject p = RrSubject t \<and> RrName p = RrName t)"

definition joinRow :: "rollupRow list \<Rightarrow> rollupRow \<Rightarrow> rollupRow list" where
  "joinRow stored t = (case filter (\<lambda>p. sameRollupKey p t) stored of
     [] \<Rightarrow> [mergeRow None t] | ps \<Rightarrow> map (\<lambda>p. mergeRow (Some p) t) ps)"

definition foldWindow :: "time \<Rightarrow> time \<Rightarrow> signalRow \<Rightarrow> bool" where
  "foldWindow from' to' r = (sqlTimestampLit from' \<le> SrTimestamp r \<and> SrTimestamp r < sqlTimestampLit to')"

definition foldTx :: "(signalRow list \<Rightarrow> signalRow) \<Rightarrow> time \<Rightarrow> time \<Rightarrow> lakeDb \<Rightarrow> lakeDb" where
  "foldTx pick from' to' d =
     (let merged = concat (map (joinRow (DbSignalsLatest d)) (rollupSelect pick (foldWindow from' to') (DbSignals d))) in
      d\<lparr>DbSignalsLatest := filter (\<lambda>p. \<not> (\<exists>n \<in> set merged. sameRollupKey n p)) (DbSignalsLatest d) @ merged,
        DbWatermark := WatermarkAt to'\<rparr>)"

text \<open>\<open>recomputeDailyChunk\<close> and \<open>recomputeLateDailySubjects\<close>.\<close>

definition recomputeDailyTx :: "(signalRow list \<Rightarrow> signalRow) \<Rightarrow> time \<Rightarrow> nat \<Rightarrow> string list \<Rightarrow> lakeDb \<Rightarrow> lakeDb" where
  "recomputeDailyTx pick W b ss d =
     d\<lparr>DbSignalsLatest := filter (\<lambda>v. \<not> (RrSubjectBucket v = b \<and> RrSubject v \<in> set ss)) (DbSignalsLatest d)
         @ rollupSelect pick (\<lambda>r. inSubjects b ss r \<and> beforeBound W r) (DbSignals d),
       DbLateSubjects := filter (\<lambda>s. s \<notin> set ss) (DbLateSubjects d)\<rparr>"

definition recomputeDailyChunk :: "('e) lakeEnv_scheme \<Rightarrow> time \<Rightarrow> nat \<Rightarrow> string list \<Rightarrow> mat \<Rightarrow> goerr option \<times> mat" where
  "recomputeDailyChunk env W b ss m = runTx env (recomputeDailyTx (Pick env) W b ss) m"

fun lateChunks :: "('e) lakeEnv_scheme \<Rightarrow> time \<Rightarrow> (nat \<times> string list) list \<Rightarrow> mat \<Rightarrow> goerr option \<times> mat" where
  "lateChunks env W [] m = (None, m)"
| "lateChunks env W ((b, ss) # cs) m =
     (case recomputeDailyChunk env W b ss m of
        (Some e, m) \<Rightarrow> (Some (Wrap (''daily late recompute bucket '' @ nat_str b) e), m)
      | (None, m) \<Rightarrow> lateChunks env W cs m)"

definition recomputeLateDailySubjects :: "matCfg \<Rightarrow> ('e) lakeEnv_scheme \<Rightarrow> time \<Rightarrow> mat \<Rightarrow> goerr option \<times> mat" where
  "recomputeLateDailySubjects cfg env boundary m =
     (let subjects = remdups (DbLateSubjects (Db m)) in
      (case readCall env m of
         (Some e, m) \<Rightarrow> (Some (Wrap ''reading late subjects'' e), m)
       | (None, m) \<Rightarrow>
          if subjects = [] then (None, m)
          else if maxDirtySubjects cfg < length subjects
          then (case execRetryConflict env (\<lambda>d. d\<lparr>DbLateSubjects := []\<rparr>) m of
                  (Some e, m) \<Rightarrow> (Some e, m)
                | (None, m) \<Rightarrow> seedDailyRollup env boundary m)
          else lateChunks env boundary (subjectChunks subjects) m))"

definition errWatermarkMoved :: goerr where
  "errWatermarkMoved = Err ''daily fold watermark moved out from under the refresh''"

definition foldDailyRollup :: "matCfg \<Rightarrow> ('e) lakeEnv_scheme \<Rightarrow> time \<Rightarrow> time \<Rightarrow> mat \<Rightarrow> goerr option \<times> mat" where
  "foldDailyRollup cfg env from' to' m =
     (if DbWatermark (Db m) \<noteq> WatermarkAt from'
      then (case Tx env (Ncalls m) of TxStmt e \<Rightarrow> (Some e, tick env m) | _ \<Rightarrow> (Some errWatermarkMoved, tick env m))
      else (case runTx env (foldTx (Pick env) from' to') m of
              (Some e, m') \<Rightarrow>
                (case Tx env (Ncalls m) of
                   TxCommitErr _ _ \<Rightarrow> (Some (Wrap ''daily fold commit'' e), m')
                 | _ \<Rightarrow> (Some e, m'))
            | (None, m) \<Rightarrow> recomputeLateDailySubjects cfg env to' m))"

subsection \<open>Loading the state, promotion\<close>

definition loadDailyWatermark :: "('e) lakeEnv_scheme \<Rightarrow> mat \<Rightarrow> time res \<times> mat" where
  "loadDailyWatermark env m =
     (case readCall env m of
        (Some e, m') \<Rightarrow> (Inl (Wrap ''loading daily rollup watermark'' e), m')
      | (None, m') \<Rightarrow>
          (case DbWatermark (Db m) of
             NoWatermark \<Rightarrow> (Inr zeroTime, m')
           | BadWatermark \<Rightarrow> (Inl (Err ''unparseable daily rollup watermark''), m')
           | WatermarkAt w \<Rightarrow> (Inr w, m')))"

definition rollupKey2 :: "rollupRow \<Rightarrow> string \<times> string" where "rollupKey2 v = (RrSubject v, RrName v)"

definition promoteDailyRollup :: "('e) lakeEnv_scheme \<Rightarrow> mat \<Rightarrow> goerr option \<times> mat" where
  "promoteDailyRollup env m =
     (case DbShadow (Db m) of
        None \<Rightarrow> (Some (Err ''promote insert''), tick env m)
      | Some shadow \<Rightarrow>
         (case runTx env (\<lambda>d. d\<lparr>DbSignalsLatest := shadow\<rparr>) m of
            (Some e, m) \<Rightarrow> (Some (Wrap ''promote commit'' e), m)
          | (None, m) \<Rightarrow>
             (case readCall env m of
                (Some e, m') \<Rightarrow> (Some (Wrap ''promote verification'' e), m')
              | (None, m') \<Rightarrow>
                 if length (remdups (map rollupKey2 (DbSignalsLatest (Db m)))) \<noteq> length (DbSignalsLatest (Db m))
                 then (Some (Err ''promote verification failed''), m')
                 else (case execRetryConflict env (\<lambda>d. d\<lparr>DbShadow := None\<rparr>) m' of
                         (Some e, m) \<Rightarrow> (Some (Wrap ''dropping promoted shadow table'' e), m)
                       | (None, m) \<Rightarrow> (None, m)))))"

text \<open>The end of the load; the cardinality probe is a read whose result is only reported.\<close>

definition dailyLoaded :: "('e) lakeEnv_scheme \<Rightarrow> time \<Rightarrow> mat \<Rightarrow> mat" where
  "dailyLoaded env w m = tick env (m\<lparr>dailyWatermark := w, dailyLateSeen := {}, dailyStateLoaded := True\<rparr>)"

definition LoadDailyRollupState :: "matCfg \<Rightarrow> ('e) lakeEnv_scheme \<Rightarrow> mat \<Rightarrow> goerr option \<times> mat" where
  "LoadDailyRollupState cfg env m =
     (if \<not> dailyConfigured cfg \<or> dailyStateLoaded m then (None, m)
      else let daily = (DbShadow (Db m) \<noteq> None) in
      (case readCall env m of
         (Some e, m) \<Rightarrow> (Some e, m)
       | (None, m) \<Rightarrow>
         (case execRetryConflict env (\<lambda>d. d) m of
            (Some e, m) \<Rightarrow> (Some (Wrap ''ensuring daily rollup objects'' e), m)
          | (None, m) \<Rightarrow>
            (case loadDailyWatermark env m of
               (Inl e, m) \<Rightarrow> (Some e, m)
             | (Inr w, m) \<Rightarrow>
               if \<not> daily then (None, dailyLoaded env w m)
               else if IsZero w
               then (case execRetryConflict env (\<lambda>d. d\<lparr>DbShadow := None\<rparr>) m of
                       (Some e, m) \<Rightarrow> (Some (Wrap ''dropping unwatermarked shadow table'' e), m)
                     | (None, m) \<Rightarrow> (None, dailyLoaded env w m))
               else (case promoteDailyRollup env m of
                       (Some e, m) \<Rightarrow> (Some e, m)
                     | (None, m) \<Rightarrow> (None, dailyLoaded env w m))))))"

subsection \<open>The refresh\<close>

definition errNotMidnight :: goerr where
  "errNotMidnight = Err ''daily rollup boundary is not a UTC-midnight partition edge''"

definition RunDailyRollupRefresh :: "matCfg \<Rightarrow> ('e) lakeEnv_scheme \<Rightarrow> time \<Rightarrow> mat \<Rightarrow> goerr option \<times> mat" where
  "RunDailyRollupRefresh cfg env boundary m =
     (case LoadDailyRollupState cfg env m of
        (Some e, m) \<Rightarrow> (Some e, m)
      | (None, m) \<Rightarrow>
         if \<not> Equal boundary (Truncate boundary (24 * hour)) then (Some errNotMidnight, m)
         else if \<not> IsZero (dailyWatermark m) \<and> \<not> After boundary (dailyWatermark m) then (None, m)
         else (case (if IsZero (dailyWatermark m) then seedDailyRollup env boundary m
                     else foldDailyRollup cfg env (dailyWatermark m) boundary m) of
                 (Some e, m) \<Rightarrow> (Some e, m)
               | (None, m) \<Rightarrow> (None, tick env (m\<lparr>dailyWatermark := boundary, dailyLateSeen := {}\<rparr>))))"

definition MaybeDailyRollupRefresh :: "matCfg \<Rightarrow> ('e) lakeEnv_scheme \<Rightarrow> mat \<Rightarrow> goerr option \<times> mat" where
  "MaybeDailyRollupRefresh cfg env m =
     (if \<not> dailyConfigured cfg \<or> backfillMode cfg then (None, m)
      else (case LoadDailyRollupState cfg env m of
              (Some e, m) \<Rightarrow> (Some e, m)
            | (None, m) \<Rightarrow>
               let boundary = dailyRefreshBoundary (nowAt env m) (dailyWatermark m) (dailyDelay cfg) in
               if IsZero boundary then (None, m) else RunDailyRollupRefresh cfg env boundary m))"

subsection \<open>The hand-off of a backfill\<close>

fun persistChunks :: "('e) lakeEnv_scheme \<Rightarrow> string list list \<Rightarrow> mat \<Rightarrow> goerr option \<times> mat" where
  "persistChunks env [] m = (None, m)"
| "persistChunks env (chunk # cs) m =
     (case runTx env (\<lambda>d. d\<lparr>DbLateSubjects := DbLateSubjects d @ chunk\<rparr>) m of
        (Some e, m) \<Rightarrow> (Some (Wrap ''persisting backfill late subjects'' e), m)
      | (None, m) \<Rightarrow> persistChunks env cs m)"

definition PersistDailyLateSubjects :: "matCfg \<Rightarrow> ('e) lakeEnv_scheme \<Rightarrow> mat \<Rightarrow> goerr option \<times> mat" where
  "PersistDailyLateSubjects cfg env m =
     (if \<not> dailyConfigured cfg then (None, m)
      else (case LoadDailyRollupState cfg env m of
              (Some e, m) \<Rightarrow> (Some e, m)
            | (None, m) \<Rightarrow>
               if rollupFullRebuild m
               then (case execRetryConflict env (\<lambda>d. d\<lparr>DbWatermark := NoWatermark\<rparr>) m of
                       (Some e, m) \<Rightarrow> (Some (Wrap ''dropping daily watermark for reseed'' e), m)
                     | (None, m) \<Rightarrow> (None, m\<lparr>dailyWatermark := zeroTime\<rparr>))
               else persistChunks env (chunksOf rollupSubjectChunk (sorted_list_of_set (dirtySubjects m))) m))"

end
