(* ===== verification/Mat_Daily_Exact.thy ===== *)
theory Mat_Daily_Exact
  imports Mat_Daily "HOL-Library.Multiset"
begin

section \<open>The daily refresh keeps the rollup exact\<close>

text \<open>
  The comment at the head of daily_rollup.go states the invariant: after a refresh to watermark W,
  lake.signals_latest is exactly \<open>rollupSelectSQL\<close> over the rows stamped before W, and the subjects
  for which it is not are in the late set. The theory proves it for the seed, the fold, the late
  recompute and the insert path, under every failure of the database, and shows two runs in which
  the code leaves it.
\<close>

subsection \<open>The select, key by key\<close>

definition keyRows :: "(signalRow list \<Rightarrow> signalRow) \<Rightarrow> string \<times> string \<Rightarrow> signalRow list \<Rightarrow> rollupRow list" where
  "keyRows pick k rows = (if groupOf k rows = [] then [] else [groupRow pick rows k])"

definition latestOf :: "string \<times> string \<Rightarrow> rollupRow list \<Rightarrow> rollupRow list" where
  "latestOf k tab = filter (\<lambda>v. rollupKey2 v = k) tab"

lemma latestOf_append [simp]: "latestOf k (xs @ ys) = latestOf k xs @ latestOf k ys"
  by (simp add: latestOf_def)

lemma latestOf_Nil [simp]: "latestOf k [] = []"
  by (simp add: latestOf_def)

lemma rowOf_key [simp]:
  "RrSubject (rowOf k b rows) = fst k" "RrName (rowOf k b rows) = snd k" "RrSubjectBucket (rowOf k b rows) = b"
  "rollupKey2 (rowOf k b rows) = k"
  by (simp_all add: rowOf_def rollupKey2_def Let_def split: prod.splits)

lemma groupRow_key [simp]: "rollupKey2 (groupRow pick rows k) = k"
  by (simp add: groupRow_def Let_def)

lemma filter_eq_remdups: "filter (\<lambda>x. x = k) (remdups xs) = (if k \<in> set xs then [k] else [])"
  by (induction xs) auto

lemma groupOf_empty: "groupOf k rows = [] \<longleftrightarrow> k \<notin> signalKey2 ` set rows"
  by (auto simp: groupOf_def filter_empty_conv)

lemma select_key: "latestOf k (rollupSelect pick wh tab) = keyRows pick k (filter wh tab)"
proof -
  have "latestOf k (rollupSelect pick wh tab)
      = map (groupRow pick (filter wh tab)) (filter (\<lambda>x. x = k) (remdups (map signalKey2 (filter wh tab))))"
    by (simp add: latestOf_def rollupSelect_def Let_def filter_map comp_def)
  also have "\<dots> = keyRows pick k (filter wh tab)"
    by (auto simp: filter_eq_remdups keyRows_def groupOf_empty)
  finally show ?thesis .
qed

lemma keyRows_cong: "groupOf k xs = groupOf k ys \<Longrightarrow> keyRows pick k xs = keyRows pick k ys"
  by (simp add: keyRows_def groupRow_def)

lemma keyRows_none: "groupOf k xs = [] \<Longrightarrow> keyRows pick k xs = []"
  by (simp add: keyRows_def)

lemma groupOf_filter: "groupOf k (filter P tab) = filter P (groupOf k tab)"
  by (simp add: groupOf_def conj_commute)

text \<open>Two tables with the same rows under every key are the same bag.\<close>

lemma mset_by_key:
  assumes "\<And>k. latestOf k A = latestOf k B"
  shows "mset A = mset B"
proof (rule multiset_eqI)
  fix v
  have c: "count (mset T) v = count (mset (latestOf (rollupKey2 v) T)) v" for T by (simp add: latestOf_def)
  show "count (mset A) v = count (mset B) v" using c [of A] c [of B] assms by simp
qed

subsection \<open>Merging a tail onto a stored row\<close>

text \<open>\<open>ROW_NUMBER() \<dots> = 1\<close> keeps a row of the partition.\<close>

definition picksRow :: "(signalRow list \<Rightarrow> signalRow) \<Rightarrow> bool" where
  "picksRow pick = (\<forall>xs. xs \<noteq> [] \<longrightarrow> pick xs \<in> set xs)"

lemma sorted_list_of_set_split:
  fixes A B :: "int set"
  assumes "finite A" "finite B" "\<And>a b. a \<in> A \<Longrightarrow> b \<in> B \<Longrightarrow> a < b"
  shows "sorted_list_of_set (A \<union> B) = sorted_list_of_set A @ sorted_list_of_set B"
proof (rule sorted_distinct_set_unique)
  have "A \<inter> B = {}" using assms(3) by fastforce
  then show "distinct (sorted_list_of_set A @ sorted_list_of_set B)" using assms(1,2) by simp
  show "sorted (sorted_list_of_set A @ sorted_list_of_set B)"
    using assms by (auto simp: sorted_append intro: less_imp_le)
qed (use assms(1,2) in auto)

lemma dedupRows_split:
  "dedupRows pick g = dedupRows pick (filter (\<lambda>r. SrTimestamp r < W) g) @ dedupRows pick (filter (\<lambda>r. \<not> SrTimestamp r < W) g)"
proof -
  let ?lo = "filter (\<lambda>r. SrTimestamp r < W) g" and ?hi = "filter (\<lambda>r. \<not> SrTimestamp r < W) g"
  have "SrTimestamp ` set g = SrTimestamp ` set ?lo \<union> SrTimestamp ` set ?hi" by auto
  moreover have "sorted_list_of_set (SrTimestamp ` set ?lo \<union> SrTimestamp ` set ?hi)
      = sorted_list_of_set (SrTimestamp ` set ?lo) @ sorted_list_of_set (SrTimestamp ` set ?hi)"
    by (rule sorted_list_of_set_split) auto
  moreover have "filter (\<lambda>r. SrTimestamp r = t) g = filter (\<lambda>r. SrTimestamp r = t) ?lo" if "t \<in> SrTimestamp ` set ?lo" for t
    using that by (auto intro: filter_cong)
  moreover have "filter (\<lambda>r. SrTimestamp r = t) g = filter (\<lambda>r. SrTimestamp r = t) ?hi" if "t \<in> SrTimestamp ` set ?hi" for t
    using that by (auto intro: filter_cong)
  ultimately show ?thesis by (simp add: dedupRows_def cong: map_cong)
qed

lemma dedupRows_mem:
  assumes "picksRow pick"
  shows "set (dedupRows pick g) \<subseteq> set g"
proof
  fix r assume "r \<in> set (dedupRows pick g)"
  then obtain t where t: "t \<in> SrTimestamp ` set g" "r = pick (filter (\<lambda>r. SrTimestamp r = t) g)"
    by (auto simp: dedupRows_def)
  then have "filter (\<lambda>r. SrTimestamp r = t) g \<noteq> []" by (auto simp: filter_empty_conv)
  then have "r \<in> set (filter (\<lambda>r. SrTimestamp r = t) g)" using assms t(2) unfolding picksRow_def by blast
  then show "r \<in> set g" by simp
qed

lemma dedupRows_empty: "dedupRows pick g = [] \<longleftrightarrow> g = []"
  by (simp add: dedupRows_def)

lemma merge_none:
  assumes "d \<noteq> []" "\<And>r. r \<in> set d \<Longrightarrow> unixEpoch < SrTimestamp r"
  shows "mergeRow None (rowOf k b d) = rowOf k b d"
proof (cases "filter locNonzero d = []")
  case True
  then show ?thesis by (simp add: mergeRow_def rowOf_def locCols_def Let_def)
next
  case False
  then have "last (filter locNonzero d) \<in> set d" using last_in_set [OF False] by simp
  then show ?thesis using False assms(2) by (simp add: mergeRow_def rowOf_def locCols_def Let_def)
qed

lemma merge_some:
  assumes "d1 \<noteq> []" "d2 \<noteq> []" "\<And>r. r \<in> set d1 \<Longrightarrow> SrTimestamp r < W" "\<And>r. r \<in> set d2 \<Longrightarrow> W \<le> SrTimestamp r" "unixEpoch < W"
  shows "mergeRow (Some (rowOf k b d1)) (rowOf k b d2) = rowOf k b (d1 @ d2)"
proof -
  have first: "min (SrTimestamp (hd d1)) (SrTimestamp (hd d2)) = SrTimestamp (hd d1)"
    using assms(3) [of "hd d1"] assms(4) [of "hd d2"] assms(1,2) by simp
  show ?thesis
  proof (cases "filter locNonzero d2 = []")
    case True
    then show ?thesis using assms(1,2) first by (simp add: mergeRow_def rowOf_def locCols_def Let_def)
  next
    case False
    then have "last (filter locNonzero d2) \<in> set d2" using last_in_set [OF False] by simp
    then have "unixEpoch < SrTimestamp (last (filter locNonzero d2))" using assms(4,5) by fastforce
    then show ?thesis using False assms(1,2) first by (simp add: mergeRow_def rowOf_def locCols_def Let_def)
  qed
qed

subsection \<open>The invariant of the tables\<close>

definition goodWatermark :: "time \<Rightarrow> bool" where
  "goodWatermark W = (unixEpoch < W \<and> W mod (24 * hour) = 0)"

definition rowsBucketed :: "lakeDb \<Rightarrow> bool" where
  "rowsBucketed d = (\<forall>r \<in> set (DbSignals d). SrSubjectBucket r = HashBucket (SrSubject r))"

definition latestBucketed :: "lakeDb \<Rightarrow> bool" where
  "latestBucketed d = (\<forall>v \<in> set (DbSignalsLatest d). RrSubjectBucket v = HashBucket (RrSubject v))"

definition exactAt :: "(signalRow list \<Rightarrow> signalRow) \<Rightarrow> lakeDb \<Rightarrow> time \<Rightarrow> string \<times> string \<Rightarrow> bool" where
  "exactAt pick d W k = (latestOf k (DbSignalsLatest d) = keyRows pick k (filter (beforeBound W) (DbSignals d)))"

definition exactOff :: "(signalRow list \<Rightarrow> signalRow) \<Rightarrow> lakeDb \<Rightarrow> time \<Rightarrow> bool" where
  "exactOff pick d W = (goodWatermark W \<and> rowsBucketed d \<and> latestBucketed d
     \<and> (\<forall>k. fst k \<notin> set (DbLateSubjects d) \<longrightarrow> exactAt pick d W k))"

lemma exactOffD:
  assumes "exactOff pick d W"
  shows "goodWatermark W" "rowsBucketed d" "latestBucketed d" "fst k \<notin> set (DbLateSubjects d) \<Longrightarrow> exactAt pick d W k"
  using assms unfolding exactOff_def by metis+

lemma exactOffI:
  assumes "goodWatermark W" "rowsBucketed d" "latestBucketed d" "\<And>k. fst k \<notin> set (DbLateSubjects d) \<Longrightarrow> exactAt pick d W k"
  shows "exactOff pick d W"
  using assms unfolding exactOff_def by metis

text \<open>
  The invariant: whenever a watermark is stored, every subject outside the late set has exactly the
  rows the select gives up to it. Without a watermark the rollup promises nothing.
\<close>

definition lakeExact :: "(signalRow list \<Rightarrow> signalRow) \<Rightarrow> lakeDb \<Rightarrow> bool" where
  "lakeExact pick d = (rowsBucketed d \<and> DbShadow d = None
     \<and> (case DbWatermark d of WatermarkAt W \<Rightarrow> exactOff pick d W | _ \<Rightarrow> True))"

lemma goodWatermark_lit [simp]: "goodWatermark W \<Longrightarrow> sqlTimestampLit W = W"
proof -
  assume "goodWatermark W"
  then have "86400000000000 dvd W" by (auto simp: goodWatermark_def hour_def dvd_eq_mod_eq_0)
  then have "1000 dvd W" by (rule dvd_trans [rotated]) simp
  then show ?thesis by (simp add: sqlTimestampLit_def Truncate_def microsecond_def)
qed

lemma goodWatermark_nonzero: "goodWatermark W \<Longrightarrow> \<not> IsZero W"
  by (auto simp: goodWatermark_def IsZero_def unixEpoch_def)

text \<open>With every key exact the table is the bag the select gives.\<close>

lemma exact_whole:
  assumes "\<And>k. exactAt pick d W k"
  shows "mset (DbSignalsLatest d) = mset (rollupSelect pick (beforeBound W) (DbSignals d))"
  by (rule mset_by_key) (use assms in \<open>simp add: exactAt_def select_key\<close>)

lemma group_bucket:
  assumes "rowsBucketed d" and "r \<in> set (groupOf k (DbSignals d))"
  shows "SrSubjectBucket r = HashBucket (fst k)" "SrSubject r = fst k"
  using assms by (auto simp: rowsBucketed_def groupOf_def signalKey2_def)

lemma keyRows_restrict:
  assumes "rowsBucketed d" and "\<And>r. SrSubject r = fst k \<Longrightarrow> SrSubjectBucket r = HashBucket (fst k) \<Longrightarrow> wh r = (c \<and> P r)"
  shows "keyRows pick k (filter wh (DbSignals d)) = (if c then keyRows pick k (filter P (DbSignals d)) else [])"
proof -
  have "filter wh (groupOf k (DbSignals d)) = filter (\<lambda>r. c \<and> P r) (groupOf k (DbSignals d))"
    by (rule filter_cong) (use assms group_bucket [OF assms(1)] in auto)
  then have "groupOf k (filter wh (DbSignals d)) = (if c then groupOf k (filter P (DbSignals d)) else [])"
    by (simp add: groupOf_filter)
  then show ?thesis by (auto intro: keyRows_cong keyRows_none)
qed

lemma select_bucketed:
  assumes "rowsBucketed d" and "v \<in> set (rollupSelect pick wh (DbSignals d))"
  shows "RrSubjectBucket v = HashBucket (RrSubject v)"
proof -
  obtain k where k: "k \<in> signalKey2 ` set (filter wh (DbSignals d))" "v = groupRow pick (filter wh (DbSignals d)) k"
    using assms(2) by (auto simp: rollupSelect_def Let_def)
  then have "groupOf k (filter wh (DbSignals d)) \<noteq> []" by (simp add: groupOf_empty)
  then have "hd (groupOf k (filter wh (DbSignals d))) \<in> set (groupOf k (filter wh (DbSignals d)))" by simp
  then have "hd (groupOf k (filter wh (DbSignals d))) \<in> set (groupOf k (DbSignals d))"
    by (auto simp: groupOf_filter)
  then show ?thesis using group_bucket(1) [OF assms(1)] k(2) by (simp add: groupRow_def Let_def)
qed

subsection \<open>The transactions of the refresh\<close>

lemma sameKey_latest:
  assumes "latestBucketed d" and "RrSubjectBucket t = HashBucket (RrSubject t)" and "v \<in> set (DbSignalsLatest d)"
  shows "sameRollupKey v t = (rollupKey2 v = rollupKey2 t)" "sameRollupKey t v = (rollupKey2 v = rollupKey2 t)"
  using assms by (auto simp: sameRollupKey_def rollupKey2_def latestBucketed_def)

lemma merge_key [simp]:
  "RrSubject (mergeRow p t) = RrSubject t" "RrName (mergeRow p t) = RrName t" "RrSubjectBucket (mergeRow p t) = RrSubjectBucket t"
  "rollupKey2 (mergeRow p t) = rollupKey2 t" "sameRollupKey (mergeRow p t) v = sameRollupKey t v"
  by (simp_all add: mergeRow_def rollupKey2_def sameRollupKey_def Let_def split: option.splits)

lemma joinRow_mem: "n \<in> set (joinRow stored t) \<Longrightarrow> \<exists>p. n = mergeRow p t"
  by (auto simp: joinRow_def split: list.splits)

lemma joinRow_key:
  assumes "n \<in> set (joinRow stored t)"
  shows "rollupKey2 n = rollupKey2 t" "RrSubjectBucket n = RrSubjectBucket t" "RrSubject n = RrSubject t"
  using joinRow_mem [OF assms] by auto

lemma joinRow_nonempty: "joinRow stored t \<noteq> []"
  by (auto simp: joinRow_def split: list.splits)

lemma latestOf_concat_join:
  "latestOf k (concat (map (joinRow stored) ts)) = concat (map (joinRow stored) (latestOf k ts))"
proof (induction ts)
  case (Cons t ts)
  have "latestOf k (joinRow stored t) = (if rollupKey2 t = k then joinRow stored t else [])"
    using joinRow_key(1) [of _ stored t] by (auto simp: latestOf_def filter_id_conv filter_empty_conv)
  then show ?case using Cons by (simp add: latestOf_def)
qed (simp add: latestOf_def)

text \<open>One key of the fold: merging the tail's group onto the stored row gives the group of both.\<close>

lemma join_exact:
  assumes pick: "picksRow pick" and W: "unixEpoch < W"
    and g: "\<And>r. r \<in> set g \<Longrightarrow> SrSubjectBucket r = b"
    and hi: "filter (\<lambda>r. \<not> SrTimestamp r < W) g \<noteq> []"
    and stored: "filter (\<lambda>p. sameRollupKey p (rowOf k b (dedupRows pick (filter (\<lambda>r. \<not> SrTimestamp r < W) g)))) tab
      = (if filter (\<lambda>r. SrTimestamp r < W) g = [] then [] else [rowOf k b (dedupRows pick (filter (\<lambda>r. SrTimestamp r < W) g))])"
  shows "joinRow tab (rowOf k b (dedupRows pick (filter (\<lambda>r. \<not> SrTimestamp r < W) g))) = [rowOf k b (dedupRows pick g)]"
proof -
  let ?d1 = "dedupRows pick (filter (\<lambda>r. SrTimestamp r < W) g)" and ?d2 = "dedupRows pick (filter (\<lambda>r. \<not> SrTimestamp r < W) g)"
  have lo: "SrTimestamp r < W" if "r \<in> set ?d1" for r using that dedupRows_mem [OF pick] by fastforce
  have ge: "W \<le> SrTimestamp r" if "r \<in> set ?d2" for r using that dedupRows_mem [OF pick] by fastforce
  have d2: "?d2 \<noteq> []" using hi by (simp add: dedupRows_empty)
  show ?thesis
  proof (cases "filter (\<lambda>r. SrTimestamp r < W) g = []")
    case True
    then have "dedupRows pick g = ?d2" using dedupRows_split [of pick g W] by (simp add: dedupRows_empty)
    moreover have "mergeRow None (rowOf k b ?d2) = rowOf k b ?d2" by (rule merge_none [OF d2]) (use ge W in fastforce)
    ultimately show ?thesis using stored True by (simp add: joinRow_def)
  next
    case False
    then have "?d1 \<noteq> []" by (simp add: dedupRows_empty)
    then have "mergeRow (Some (rowOf k b ?d1)) (rowOf k b ?d2) = rowOf k b (?d1 @ ?d2)"
      by (rule merge_some [OF _ d2 lo ge W])
    then show ?thesis using stored False by (simp add: joinRow_def dedupRows_split [of pick g W])
  qed
qed

lemma keyRows_rowOf:
  assumes "\<And>r. r \<in> set (groupOf k rows) \<Longrightarrow> SrSubjectBucket r = b"
  shows "keyRows pick k rows = (if groupOf k rows = [] then [] else [rowOf k b (dedupRows pick (groupOf k rows))])"
  using assms [of "hd (groupOf k rows)"] by (simp add: keyRows_def groupRow_def Let_def)

lemma fold_key:
  assumes pick: "picksRow pick" and W: "goodWatermark W" and W2: "goodWatermark W2" "W < W2"
    and rb: "rowsBucketed d" and lb: "latestBucketed d" and ex: "exactAt pick d W k"
  shows "exactAt pick (foldTx pick W W2 d) W2 k"
proof -
  let ?tail = "rollupSelect pick (foldWindow W W2) (DbSignals d)" and ?b = "HashBucket (fst k)"
  let ?merged = "concat (map (joinRow (DbSignalsLatest d)) ?tail)"
  let ?g = "groupOf k (filter (beforeBound W2) (DbSignals d))"
  let ?lo = "filter (\<lambda>r. SrTimestamp r < W) ?g" and ?hi = "filter (\<lambda>r. \<not> SrTimestamp r < W) ?g"
  have b: "\<And>r. r \<in> set (groupOf k (filter P (DbSignals d))) \<Longrightarrow> SrSubjectBucket r = ?b" for P
    using group_bucket(1) [OF rb] by (auto simp: groupOf_filter)
  have lo: "groupOf k (filter (beforeBound W) (DbSignals d)) = ?lo"
    using W W2 by (auto simp: groupOf_filter beforeBound_def intro!: filter_cong)
  have hi: "groupOf k (filter (foldWindow W W2) (DbSignals d)) = ?hi"
    using W W2 by (auto simp: groupOf_filter beforeBound_def foldWindow_def intro!: filter_cong)
  have kr: "keyRows pick k (filter P (DbSignals d)) = (if groupOf k (filter P (DbSignals d)) = [] then []
      else [rowOf k ?b (dedupRows pick (groupOf k (filter P (DbSignals d))))])" for P
    by (rule keyRows_rowOf) (rule b)
  have stored: "latestOf k (DbSignalsLatest d) = (if ?lo = [] then [] else [rowOf k ?b (dedupRows pick ?lo)])"
    using ex kr [of "beforeBound W"] by (simp add: exactAt_def lo)
  have tail: "latestOf k ?tail = (if ?hi = [] then [] else [rowOf k ?b (dedupRows pick ?hi)])"
    using kr [of "foldWindow W W2"] by (simp add: select_key hi)
  have goal: "keyRows pick k (filter (beforeBound W2) (DbSignals d)) = (if ?g = [] then [] else [rowOf k ?b (dedupRows pick ?g)])"
    by (rule kr)
  let ?keep = "filter (\<lambda>p. \<not> (\<exists>n \<in> set ?merged. sameRollupKey n p)) (DbSignalsLatest d)"
  have latest: "latestOf k (DbSignalsLatest (foldTx pick W W2 d)) = latestOf k ?keep @ concat (map (joinRow (DbSignalsLatest d)) (latestOf k ?tail))"
    by (simp add: foldTx_def Let_def latestOf_concat_join)
  have key: "(\<exists>n \<in> set ?merged. sameRollupKey n v) = (?hi \<noteq> [])" if v: "v \<in> set (DbSignalsLatest d)" "rollupKey2 v = k" for v
  proof -
    have "sameRollupKey n v = (rollupKey2 n = k)" if n: "n \<in> set ?merged" for n
    proof -
      obtain t where t: "t \<in> set ?tail" "n \<in> set (joinRow (DbSignalsLatest d) t)" using n by auto
      have "RrSubjectBucket n = HashBucket (RrSubject n)"
        using joinRow_key [OF t(2)] select_bucketed [OF rb t(1)] by simp
      then show ?thesis using sameKey_latest(2) [OF lb _ v(1)] v(2) by auto
    qed
    then have "(\<exists>n \<in> set ?merged. sameRollupKey n v) = (latestOf k ?merged \<noteq> [])"
      by (auto simp: latestOf_def filter_empty_conv)
    also have "\<dots> = (?hi \<noteq> [])" by (simp add: latestOf_concat_join tail joinRow_nonempty)
    finally show ?thesis .
  qed
  have keep: "latestOf k ?keep = (if ?hi = [] then latestOf k (DbSignalsLatest d) else [])"
  proof -
    have "latestOf k ?keep = filter (\<lambda>p. rollupKey2 p = k \<and> ?hi = []) (DbSignalsLatest d)"
      unfolding latestOf_def filter_filter by (rule filter_cong) (use key in auto)
    then show ?thesis by (simp add: latestOf_def)
  qed
  show ?thesis
  proof (cases "?hi = []")
    case True
    then have "?lo = ?g" by (auto simp: filter_empty_conv filter_id_conv)
    then show ?thesis using True latest keep tail stored goal by (simp add: exactAt_def foldTx_def Let_def)
  next
    case False
    let ?t = "rowOf k ?b (dedupRows pick ?hi)"
    have "filter (\<lambda>p. sameRollupKey p ?t) (DbSignalsLatest d) = latestOf k (DbSignalsLatest d)"
      unfolding latestOf_def by (rule filter_cong) (use sameKey_latest(1) [OF lb, of ?t] in auto)
    then have "joinRow (DbSignalsLatest d) ?t = [rowOf k ?b (dedupRows pick ?g)]"
      using W stored by (intro join_exact [OF pick _ _ False]) (simp_all add: goodWatermark_def b)
    moreover have "?g \<noteq> []" using False by auto
    moreover have "DbSignals (foldTx pick W W2 d) = DbSignals d" by (simp add: foldTx_def Let_def)
    ultimately show ?thesis using False latest keep tail goal by (simp add: exactAt_def)
  qed
qed

lemma fold_bucketed:
  assumes "rowsBucketed d" "latestBucketed d"
  shows "latestBucketed (foldTx pick W W2 d)"
proof -
  have "RrSubjectBucket n = HashBucket (RrSubject n)"
    if n: "t \<in> set (rollupSelect pick (foldWindow W W2) (DbSignals d))" "n \<in> set (joinRow (DbSignalsLatest d) t)" for n t
    using select_bucketed [OF assms(1) n(1)] joinRow_key [OF n(2)] by simp
  then show ?thesis using assms(2) by (auto simp: latestBucketed_def foldTx_def Let_def)
qed

lemma fold_exact:
  assumes pick: "picksRow pick" and ex: "exactOff pick d W" and W2: "goodWatermark W2" "W < W2"
  shows "exactOff pick (foldTx pick W W2 d) W2"
proof (rule exactOffI [OF W2(1)])
  show "rowsBucketed (foldTx pick W W2 d)" using exactOffD(2) [OF ex] by (simp add: rowsBucketed_def foldTx_def Let_def)
  show "latestBucketed (foldTx pick W W2 d)" by (rule fold_bucketed [OF exactOffD(2,3) [OF ex]])
next
  fix k :: "string \<times> string" assume "fst k \<notin> set (DbLateSubjects (foldTx pick W W2 d))"
  then have "exactAt pick d W k" by (intro exactOffD(4) [OF ex]) (simp add: foldTx_def Let_def)
  then show "exactAt pick (foldTx pick W W2 d) W2 k"
    by (rule fold_key [OF pick exactOffD(1) [OF ex] W2 exactOffD(2,3) [OF ex]])
qed

text \<open>The recompute of a chunk makes its subjects exact and leaves the others alone.\<close>

lemma chunk_key:
  assumes "rowsBucketed d" "latestBucketed d" "\<And>s. s \<in> set ss \<Longrightarrow> HashBucket s = b"
    and "fst k \<in> set ss \<or> exactAt pick d W k"
  shows "exactAt pick (recomputeDailyTx pick W b ss d) W k"
proof -
  have old: "latestOf k (filter (\<lambda>v. \<not> (RrSubjectBucket v = b \<and> RrSubject v \<in> set ss)) (DbSignalsLatest d))
      = (if fst k \<in> set ss then [] else latestOf k (DbSignalsLatest d))"
  proof -
    have "(RrSubjectBucket v = b \<and> RrSubject v \<in> set ss) = (fst k \<in> set ss)"
      if "v \<in> set (DbSignalsLatest d)" "rollupKey2 v = k" for v
    proof -
      have "RrSubject v = fst k" "RrSubjectBucket v = HashBucket (fst k)"
        using that assms(2) by (auto simp: latestBucketed_def rollupKey2_def)
      then show ?thesis using assms(3) [of "fst k"] by (simp add: eq_commute) metis
    qed
    then have "latestOf k (filter (\<lambda>v. \<not> (RrSubjectBucket v = b \<and> RrSubject v \<in> set ss)) (DbSignalsLatest d))
        = filter (\<lambda>v. rollupKey2 v = k \<and> fst k \<notin> set ss) (DbSignalsLatest d)"
      unfolding latestOf_def filter_filter by (intro filter_cong) auto
    then show ?thesis by (simp add: latestOf_def)
  qed
  have new: "keyRows pick k (filter (\<lambda>r. inSubjects b ss r \<and> beforeBound W r) (DbSignals d))
      = (if fst k \<in> set ss then keyRows pick k (filter (beforeBound W) (DbSignals d)) else [])"
    by (rule keyRows_restrict [OF assms(1)]) (use assms(3) in \<open>auto simp: inSubjects_def\<close>)
  show ?thesis using assms(4) old new by (cases "fst k \<in> set ss") (simp_all add: exactAt_def recomputeDailyTx_def select_key)
qed

lemma chunk_exact:
  assumes ex: "exactOff pick d W" and ss: "\<And>s. s \<in> set ss \<Longrightarrow> HashBucket s = b"
  shows "exactOff pick (recomputeDailyTx pick W b ss d) W"
    "set (DbLateSubjects (recomputeDailyTx pick W b ss d)) = set (DbLateSubjects d) - set ss"
proof -
  note rb = exactOffD(2) [OF ex] and lb = exactOffD(3) [OF ex]
  show late: "set (DbLateSubjects (recomputeDailyTx pick W b ss d)) = set (DbLateSubjects d) - set ss"
    by (auto simp: recomputeDailyTx_def)
  show "exactOff pick (recomputeDailyTx pick W b ss d) W"
  proof (rule exactOffI [OF exactOffD(1) [OF ex]])
    show "rowsBucketed (recomputeDailyTx pick W b ss d)" using rb by (simp add: rowsBucketed_def recomputeDailyTx_def)
    show "latestBucketed (recomputeDailyTx pick W b ss d)"
      using lb select_bucketed [OF rb] by (auto simp: latestBucketed_def recomputeDailyTx_def)
  next
    fix k :: "string \<times> string" assume "fst k \<notin> set (DbLateSubjects (recomputeDailyTx pick W b ss d))"
    then have "fst k \<in> set ss \<or> fst k \<notin> set (DbLateSubjects d)" unfolding late by blast
    then have "fst k \<in> set ss \<or> exactAt pick d W k" using exactOffD(4) [OF ex, of k] by blast
    then show "exactAt pick (recomputeDailyTx pick W b ss d) W k" by (intro chunk_key [OF rb lb]) (auto simp: ss)
  qed
qed

text \<open>The seed: the buckets of \<open>B\<close> are done, the others are empty.\<close>

definition seededTo :: "(signalRow list \<Rightarrow> signalRow) \<Rightarrow> time \<Rightarrow> watermarkCell \<Rightarrow> nat set \<Rightarrow> lakeDb \<Rightarrow> bool" where
  "seededTo pick W wm B d = (rowsBucketed d \<and> DbShadow d = None \<and> DbWatermark d = wm \<and> latestBucketed d
     \<and> (\<forall>k. latestOf k (DbSignalsLatest d) =
          (if HashBucket (fst k) \<in> B then keyRows pick k (filter (beforeBound W) (DbSignals d)) else [])))"

lemma seed_bucket:
  assumes "seededTo pick W wm B d" "b \<notin> B"
  shows "seededTo pick W wm (insert b B) (seedBucketTx pick W b d)"
proof -
  have rb: "rowsBucketed d" and lb: "latestBucketed d" using assms(1) by (simp_all add: seededTo_def)
  have "keyRows pick k (filter (\<lambda>r. SrSubjectBucket r = b \<and> beforeBound W r) (DbSignals d))
      = (if HashBucket (fst k) = b then keyRows pick k (filter (beforeBound W) (DbSignals d)) else [])" for k
    by (rule keyRows_restrict [OF rb]) auto
  then have "latestOf k (DbSignalsLatest (seedBucketTx pick W b d)) =
      (if HashBucket (fst k) \<in> insert b B then keyRows pick k (filter (beforeBound W) (DbSignals d)) else [])" for k
    using assms(2) assms(1) [unfolded seededTo_def, THEN conjunct2, THEN conjunct2, THEN conjunct2, THEN conjunct2, rule_format, of k]
    by (simp add: seedBucketTx_def select_key)
  moreover have "latestBucketed (seedBucketTx pick W b d)"
    using lb select_bucketed [OF rb] by (auto simp: latestBucketed_def seedBucketTx_def)
  ultimately show ?thesis using assms(1) by (simp add: seededTo_def rowsBucketed_def seedBucketTx_def)
qed

lemma seed_final:
  assumes "seededTo pick W wm {0..<NumLatestBuckets} d" "goodWatermark W"
  shows "exactOff pick (d\<lparr>DbWatermark := WatermarkAt W, DbLateSubjects := []\<rparr>) W"
proof (rule exactOffI [OF assms(2)])
  fix k :: "string \<times> string"
  have "HashBucket (fst k) \<in> {0..<NumLatestBuckets}" using HashBucket_range by (simp add: NumLatestBuckets_def)
  then have "latestOf k (DbSignalsLatest d) = keyRows pick k (filter (beforeBound W) (DbSignals d))"
    using assms(1) [unfolded seededTo_def, THEN conjunct2, THEN conjunct2, THEN conjunct2, THEN conjunct2, rule_format, of k] by simp
  then show "exactAt pick (d\<lparr>DbWatermark := WatermarkAt W, DbLateSubjects := []\<rparr>) W k" by (simp add: exactAt_def)
qed (use assms(1) in \<open>simp_all add: seededTo_def rowsBucketed_def latestBucketed_def\<close>)

subsection \<open>Predicates that other processes leave alone\<close>

definition sameRollup :: "lakeDb \<Rightarrow> lakeDb \<Rightarrow> bool" where
  "sameRollup d d' = (DbSignals d' = DbSignals d \<and> DbSignalsLatest d' = DbSignalsLatest d \<and> DbShadow d' = DbShadow d
     \<and> DbLateSubjects d' = DbLateSubjects d \<and> DbWatermark d' = DbWatermark d)"

text \<open>One process decodes: the others write none of the tables of the rollup.\<close>

definition quiet :: "('e) lakeEnv_scheme \<Rightarrow> bool" where
  "quiet env = (\<forall>n d. sameRollup d (Others env n d))"

definition sameDaily :: "mat \<Rightarrow> mat \<Rightarrow> bool" where
  "sameDaily m m' = (dailyWatermark m' = dailyWatermark m \<and> dailyStateLoaded m' = dailyStateLoaded m \<and> dailyLateSeen m' = dailyLateSeen m)"

lemma runTx_tables:
  assumes "quiet env" "runTx env f m = (r, m')"
  shows "sameRollup (f (Db m)) (Db m') \<or> r \<noteq> None \<and> sameRollup (Db m) (Db m')" "sameDaily m m'"
  using assms by (auto simp: runTx_def quiet_def tick_def sameDaily_def split: txOutcome.splits if_splits)

lemma readCall_tables:
  assumes "quiet env" "readCall env m = (r, m')"
  shows "sameRollup (Db m) (Db m')" "sameDaily m m'"
  using assms by (auto simp: readCall_def quiet_def tick_def sameDaily_def)

lemma sameDaily_trans: "sameDaily a b \<Longrightarrow> sameDaily b c \<Longrightarrow> sameDaily a c"
  by (simp add: sameDaily_def)

lemma sameDaily_refl [simp]: "sameDaily a a"
  by (simp add: sameDaily_def)

text \<open>
  A claim about the tables of the rollup. A transaction keeps it when its statement does, whether
  the commit fails, lands without an acknowledgement or succeeds; so does a retried statement.
\<close>

locale rollup_claim =
  fixes P :: "lakeDb \<Rightarrow> bool"
  assumes claim_same: "sameRollup d d' \<Longrightarrow> P d \<Longrightarrow> P d'"
begin

lemma tx_keeps:
  assumes "quiet env" "runTx env f m = (r, m')" "P (Db m)" "P (f (Db m))"
  shows "P (Db m')"
  using runTx_tables(1) [OF assms(1,2)] assms(3,4) claim_same by blast

lemma tx_done:
  assumes "quiet env" "runTx env f m = (None, m')" "P (f (Db m))"
  shows "P (Db m')"
  using runTx_tables(1) [OF assms(1,2)] assms(3) claim_same by blast

lemma read_keeps:
  assumes "quiet env" "readCall env m = (r, m')" "P (Db m)"
  shows "P (Db m')"
  using readCall_tables(1) [OF assms(1,2)] assms(3) claim_same by blast

lemma retry_keeps:
  assumes "quiet env" "retryLoop env n f err m = (r, m')" "P (Db m)" "\<And>d. P d \<Longrightarrow> P (f d)"
  shows "P (Db m')"
  using assms(2,3)
proof (induction n arbitrary: err m)
  case (Suc n)
  obtain r1 m1 where tx: "runTx env f m = (r1, m1)" by fastforce
  then have "P (Db m1)" using tx_keeps [OF assms(1) tx Suc.prems(2)] assms(4) [OF Suc.prems(2)] by simp
  then show ?case using Suc tx by (auto split: option.splits if_splits)
qed simp

lemma retry_done:
  assumes "quiet env" "retryLoop env n f err m = (None, m')" "err \<noteq> None \<or> 0 < n"
    and "rollup_claim I" "I (Db m)" "\<And>d. I d \<Longrightarrow> I (f d) \<and> P (f d)"
  shows "P (Db m')"
  using assms(2,3,5)
proof (induction n arbitrary: err m)
  case (Suc n)
  obtain r1 m1 where tx: "runTx env f m = (r1, m1)" by fastforce
  have i: "I (Db m1)" using rollup_claim.tx_keeps [OF assms(4,1) tx Suc.prems(3)] assms(6) [OF Suc.prems(3)] by simp
  show ?case
  proof (cases r1)
    case None
    then show ?thesis using Suc.prems tx tx_done [OF assms(1), of f m m1] assms(6) [OF Suc.prems(3)] by simp
  next
    case (Some e)
    then show ?thesis using Suc.prems Suc.IH [of "Some e" m1] tx i by (simp split: if_splits)
  qed
qed simp

end

lemma retry_daily:
  assumes "quiet env" "retryLoop env n f err m = (r, m')"
  shows "sameDaily m m'"
  using assms(2)
proof (induction n arbitrary: err m)
  case (Suc n)
  obtain r1 m1 where tx: "runTx env f m = (r1, m1)" by fastforce
  show ?case using Suc tx runTx_tables(2) [OF assms(1) tx]
    by (auto split: option.splits if_splits intro: sameDaily_trans)
qed simp

definition refreshedTo :: "(signalRow list \<Rightarrow> signalRow) \<Rightarrow> time \<Rightarrow> lakeDb \<Rightarrow> bool" where
  "refreshedTo pick W d = (DbWatermark d = WatermarkAt W \<and> exactOff pick d W \<and> DbShadow d = None)"

definition lateWithin :: "(signalRow list \<Rightarrow> signalRow) \<Rightarrow> time \<Rightarrow> string set \<Rightarrow> lakeDb \<Rightarrow> bool" where
  "lateWithin pick W L d = (refreshedTo pick W d \<and> set (DbLateSubjects d) \<subseteq> L)"

definition seedFrame :: "watermarkCell \<Rightarrow> lakeDb \<Rightarrow> bool" where
  "seedFrame wm d = (rowsBucketed d \<and> DbShadow d = None \<and> DbWatermark d = wm)"

lemma exactOff_same: "sameRollup d d' \<Longrightarrow> exactOff pick d' W = exactOff pick d W"
  by (simp add: sameRollup_def exactOff_def exactAt_def rowsBucketed_def latestBucketed_def)

lemma lakeExact_same:
  assumes "sameRollup d d'"
  shows "lakeExact pick d' = lakeExact pick d" "lateWithin pick W L d' = lateWithin pick W L d"
proof -
  have e: "exactOff pick d' U = exactOff pick d U" for U by (rule exactOff_same [OF assms])
  have f: "DbSignals d' = DbSignals d" "DbShadow d' = DbShadow d" "DbLateSubjects d' = DbLateSubjects d" "DbWatermark d' = DbWatermark d"
    using assms by (simp_all add: sameRollup_def)
  show "lakeExact pick d' = lakeExact pick d" by (simp add: lakeExact_def e f rowsBucketed_def split: watermarkCell.splits)
  show "lateWithin pick W L d' = lateWithin pick W L d" by (simp add: lateWithin_def refreshedTo_def e f)
qed

interpretation same_tables: rollup_claim "sameRollup d0" for d0
  by unfold_locales (simp add: sameRollup_def)

interpretation lake_exact: rollup_claim "lakeExact pick" for pick
  by unfold_locales (simp add: lakeExact_same)

interpretation late_within: rollup_claim "lateWithin pick W L" for pick W L
  by unfold_locales (simp add: lakeExact_same)

interpretation seed_frame: rollup_claim "seedFrame wm" for wm
  by unfold_locales (simp add: seedFrame_def sameRollup_def rowsBucketed_def)

interpretation seeded_to: rollup_claim "seededTo pick W wm B" for pick W wm B
  by unfold_locales (simp add: seededTo_def sameRollup_def rowsBucketed_def latestBucketed_def)

subsection \<open>The seed\<close>

lemma seededTo_frame: "seededTo pick W wm B d \<Longrightarrow> seedFrame wm d"
  by (simp add: seededTo_def seedFrame_def)

lemma seedFrame_bucket: "seedFrame wm (seedBucketTx pick W b d) = seedFrame wm d"
  by (simp add: seedFrame_def seedBucketTx_def rowsBucketed_def)

lemma seedBuckets_run:
  assumes "quiet env" "seedBuckets env W bs m = (r, m')" "seededTo (Pick env) W wm B (Db m)" "distinct bs" "set bs \<inter> B = {}"
  shows "seedFrame wm (Db m') \<and> sameDaily m m' \<and> (r = None \<longrightarrow> seededTo (Pick env) W wm (set bs \<union> B) (Db m'))"
  using assms(2-)
proof (induction bs arbitrary: m B)
  case Nil
  then show ?case by (simp add: seededTo_frame)
next
  case (Cons b bs)
  obtain r1 m1 where tx: "runTx env (seedBucketTx (Pick env) W b) m = (r1, m1)" by fastforce
  have step: "seededTo (Pick env) W wm (insert b B) (seedBucketTx (Pick env) W b (Db m))"
    by (rule seed_bucket) (use Cons.prems in auto)
  have frame: "seedFrame wm (Db m1)"
    using seed_frame.tx_keeps [OF assms(1) tx] seededTo_frame [OF Cons.prems(2)] by (simp add: seedFrame_bucket)
  note mem = runTx_tables(2) [OF assms(1) tx]
  show ?case
  proof (cases r1)
    case None
    have "seededTo (Pick env) W wm (insert b B) (Db m1)"
      by (rule seeded_to.tx_done [OF assms(1) tx [unfolded None] step])
    moreover have "seedBuckets env W bs m1 = (r, m')" using Cons.prems(1) tx None by simp
    ultimately show ?thesis using Cons.IH [of m1 "insert b B"] Cons.prems(3,4) mem
      by (auto intro: sameDaily_trans)
  next
    case (Some e)
    then show ?thesis using Cons.prems(1) tx frame mem by auto
  qed
qed

lemma seed_run:
  assumes q: "quiet env" and run: "seedDailyRollup env W m = (r, m')" and fr: "seedFrame wm (Db m)" and W: "goodWatermark W"
  shows "(lateWithin (Pick env) W {} (Db m') \<or> r \<noteq> None \<and> seedFrame wm (Db m')) \<and> sameDaily m m'"
proof -
  obtain r1 m1 where clr: "execRetryConflict env (\<lambda>d. d\<lparr>DbSignalsLatest := []\<rparr>) m = (r1, m1)" by fastforce
  have clr': "retryLoop env 5 (\<lambda>d. d\<lparr>DbSignalsLatest := []\<rparr>) None m = (r1, m1)" using clr by (simp add: execRetryConflict_def)
  have empty: "seedFrame wm (d\<lparr>DbSignalsLatest := []\<rparr>) \<and> seededTo (Pick env) W wm {} (d\<lparr>DbSignalsLatest := []\<rparr>)" if "seedFrame wm d" for d
    using that by (simp add: seedFrame_def seededTo_def rowsBucketed_def latestBucketed_def)
  have frame1: "seedFrame wm (Db m1)" by (rule seed_frame.retry_keeps [OF q clr' fr]) (simp add: empty)
  note mem1 = retry_daily [OF q clr']
  show ?thesis
  proof (cases r1)
    case (Some e)
    then show ?thesis using run clr frame1 mem1 by (auto simp: seedDailyRollup_def)
  next
    case None
    have s1: "seededTo (Pick env) W wm {} (Db m1)"
      by (rule seeded_to.retry_done [OF q clr' [unfolded None] _ _ fr empty]) (simp_all add: seed_frame.rollup_claim_axioms)
    obtain r2 m2 where bk: "seedBuckets env W [0..<NumLatestBuckets] m1 = (r2, m2)" by fastforce
    from seedBuckets_run [OF q bk s1]
    have b2: "seedFrame wm (Db m2)" "sameDaily m1 m2" "r2 = None \<Longrightarrow> seededTo (Pick env) W wm {0..<NumLatestBuckets} (Db m2)" by auto
    show ?thesis
    proof (cases r2)
      case (Some e)
      then show ?thesis using run clr None bk b2 mem1 by (auto simp: seedDailyRollup_def intro: sameDaily_trans)
    next
      case None
      let ?f = "\<lambda>d. d\<lparr>DbWatermark := WatermarkAt W, DbLateSubjects := []\<rparr>"
      have tx: "runTx env ?f m2 = (r, m')" using run clr bk \<open>r1 = None\<close> None by (simp add: seedDailyRollup_def)
      have fin: "lateWithin (Pick env) W {} (?f (Db m2))"
        using seed_final [OF b2(3) [OF None] W] b2(1) by (simp add: lateWithin_def refreshedTo_def seedFrame_def)
      have "lateWithin (Pick env) W {} (Db m') \<or> r \<noteq> None \<and> seedFrame wm (Db m')"
        using runTx_tables(1) [OF q tx] late_within.claim_same [OF _ fin] seed_frame.claim_same [OF _ b2(1)] by blast
      then show ?thesis using runTx_tables(2) [OF q tx] mem1 b2(2) by (auto intro: sameDaily_trans)
    qed
  qed
qed

subsection \<open>The late subjects\<close>

lemma chunksOf_set: "0 < n \<Longrightarrow> \<Union> (set ` set (chunksOf n xs)) = set xs"
proof (induction n xs rule: chunksOf.induct)
  case (1 n xs)
  then show ?case
    by (subst chunksOf.simps) (auto dest: in_set_takeD in_set_dropD, metis Un_iff append_take_drop_id set_append)
qed

lemma subjectChunks_bucket:
  assumes "(b, ss) \<in> set (subjectChunks subjects)" "s \<in> set ss"
  shows "HashBucket s = b"
proof -
  have "0 < rollupSubjectChunk" by (simp add: rollupSubjectChunk_def)
  then have "set ss \<subseteq> set (sort (filter (\<lambda>s. HashBucket s = b) subjects))"
    using assms(1) chunksOf_set [of rollupSubjectChunk "sort (filter (\<lambda>s. HashBucket s = b) subjects)"]
    by (auto simp: subjectChunks_def simp del: set_sort set_filter)
  then show ?thesis using assms(2) by auto
qed

lemma subjectChunks_set: "\<Union> ((set \<circ> snd) ` set (subjectChunks subjects)) = set subjects"
proof -
  have c: "0 < rollupSubjectChunk" by (simp add: rollupSubjectChunk_def)
  have "\<Union> ((set \<circ> snd) ` set (subjectChunks subjects))
      = (\<Union>b \<in> HashBucket ` set subjects. \<Union> (set ` set (chunksOf rollupSubjectChunk (sort (filter (\<lambda>s. HashBucket s = b) subjects)))))"
    by (auto simp: subjectChunks_def)
  also have "\<dots> = set subjects" by (auto simp: chunksOf_set [OF c])
  finally show ?thesis .
qed

lemma chunk_within:
  assumes "lateWithin pick W L d" "\<And>s. s \<in> set ss \<Longrightarrow> HashBucket s = b"
  shows "lateWithin pick W (L - set ss) (recomputeDailyTx pick W b ss d)"
  using assms(1) chunk_exact [OF _ assms(2), of pick d W]
  by (auto simp: lateWithin_def refreshedTo_def recomputeDailyTx_def)

lemma lateWithin_mono: "lateWithin pick W L d \<Longrightarrow> L \<subseteq> L' \<Longrightarrow> lateWithin pick W L' d"
  by (auto simp: lateWithin_def)

lemma lateChunks_run:
  assumes "quiet env" "lateChunks env W cs m = (r, m')" "lateWithin (Pick env) W L (Db m)"
    and "\<And>b ss s. (b, ss) \<in> set cs \<Longrightarrow> s \<in> set ss \<Longrightarrow> HashBucket s = b"
  shows "lateWithin (Pick env) W L (Db m') \<and> sameDaily m m'
    \<and> (r = None \<longrightarrow> lateWithin (Pick env) W (L - \<Union> ((set \<circ> snd) ` set cs)) (Db m'))"
  using assms(2-)
proof (induction cs arbitrary: m L)
  case (Cons c cs)
  obtain b ss where c: "c = (b, ss)" by fastforce
  obtain r1 m1 where tx: "runTx env (recomputeDailyTx (Pick env) W b ss) m = (r1, m1)" by fastforce
  have step: "lateWithin (Pick env) W (L - set ss) (recomputeDailyTx (Pick env) W b ss (Db m))"
    by (rule chunk_within [OF Cons.prems(2)]) (use Cons.prems(3) c in auto)
  have any: "lateWithin (Pick env) W L (Db m1)"
    by (rule late_within.tx_keeps [OF assms(1) tx Cons.prems(2) lateWithin_mono [OF step]]) auto
  note mem = runTx_tables(2) [OF assms(1) tx]
  show ?case
  proof (cases r1)
    case (Some e)
    then show ?thesis using Cons.prems(1) c tx any mem by (auto simp: recomputeDailyChunk_def)
  next
    case None
    have w: "lateWithin (Pick env) W (L - set ss) (Db m1)"
      by (rule late_within.tx_done [OF assms(1) tx [unfolded None] step])
    have rest: "lateChunks env W cs m1 = (r, m')" using Cons.prems(1) c tx None by (simp add: recomputeDailyChunk_def)
    have hash: "\<And>b ss s. (b, ss) \<in> set cs \<Longrightarrow> s \<in> set ss \<Longrightarrow> HashBucket s = b"
      by (rule Cons.prems(3) [OF list.set_intros(2)])
    have sets: "L - set ss - \<Union> ((set \<circ> snd) ` set cs) = L - \<Union> ((set \<circ> snd) ` set (c # cs))" using c by auto
    show ?thesis using Cons.IH [OF rest w hash] mem sets lateWithin_mono [of _ W "L - set ss" _ L]
      by (auto intro: sameDaily_trans)
  qed
qed simp

lemma late_run:
  assumes q: "quiet env" and run: "recomputeLateDailySubjects cfg env W m = (r, m')"
    and pre: "refreshedTo (Pick env) W (Db m)"
  shows "(r = None \<longrightarrow> lateWithin (Pick env) W {} (Db m')) \<and> sameDaily m m'
    \<and> (length (remdups (DbLateSubjects (Db m))) \<le> maxDirtySubjects cfg \<longrightarrow> refreshedTo (Pick env) W (Db m'))"
proof -
  let ?ss = "remdups (DbLateSubjects (Db m))"
  obtain r1 m1 where rd: "readCall env m = (r1, m1)" by fastforce
  have W: "goodWatermark W" using pre by (simp add: refreshedTo_def exactOff_def)
  have l0: "lateWithin (Pick env) W (set ?ss) (Db m)" using pre by (simp add: lateWithin_def)
  have l1: "lateWithin (Pick env) W (set ?ss) (Db m1)" by (rule late_within.read_keeps [OF q rd l0])
  note mem1 = readCall_tables(2) [OF q rd]
  consider (err) e where "r1 = Some e" | (none) "r1 = None" "?ss = []"
    | (over) "r1 = None" "?ss \<noteq> []" "maxDirtySubjects cfg < length ?ss"
    | (chunks) "r1 = None" "?ss \<noteq> []" "\<not> maxDirtySubjects cfg < length ?ss"
    by (cases r1) auto
  then show ?thesis
  proof cases
    case err
    then show ?thesis using run rd l1 mem1 by (auto simp: recomputeLateDailySubjects_def lateWithin_def)
  next
    case none
    then show ?thesis using run rd l1 mem1 by (auto simp: recomputeLateDailySubjects_def lateWithin_def)
  next
    case chunks
    then have ch: "lateChunks env W (subjectChunks ?ss) m1 = (r, m')"
      using run rd by (simp add: recomputeLateDailySubjects_def Let_def)
    show ?thesis using lateChunks_run [OF q ch l1 subjectChunks_bucket] subjectChunks_set [of ?ss] mem1
      by (auto simp: lateWithin_def intro: sameDaily_trans)
  next
    case over
    obtain r2 m2 where clr: "execRetryConflict env (\<lambda>d. d\<lparr>DbLateSubjects := []\<rparr>) m1 = (r2, m2)" by fastforce
    then have clr': "retryLoop env 5 (\<lambda>d. d\<lparr>DbLateSubjects := []\<rparr>) None m1 = (r2, m2)" by (simp add: execRetryConflict_def)
    have "seedFrame (WatermarkAt W) (Db m1)"
      using l1 by (simp add: lateWithin_def refreshedTo_def seedFrame_def exactOff_def)
    then have fr: "seedFrame (WatermarkAt W) (Db m2)"
      by (rule seed_frame.retry_keeps [OF q clr']) (simp add: seedFrame_def rowsBucketed_def)
    note mem2 = retry_daily [OF q clr']
    show ?thesis
    proof (cases r2)
      case (Some e)
      then show ?thesis using run rd over clr mem1 mem2
        by (auto simp: recomputeLateDailySubjects_def Let_def intro: sameDaily_trans)
    next
      case None
      then have seed: "seedDailyRollup env W m2 = (r, m')"
        using run rd over clr by (simp add: recomputeLateDailySubjects_def Let_def)
      show ?thesis using seed_run [OF q seed fr W] over mem1 mem2 by (auto intro: sameDaily_trans)
    qed
  qed
qed

subsection \<open>The fold and the refresh\<close>

lemma fold_run:
  assumes q: "quiet env" and run: "foldDailyRollup cfg env W W2 m = (r, m')"
    and pick: "picksRow (Pick env)" and ex: "lakeExact (Pick env) (Db m)" and W2: "goodWatermark W2" "W < W2"
  shows "(r = None \<longrightarrow> lateWithin (Pick env) W2 {} (Db m')) \<and> sameDaily m m'
    \<and> (length (remdups (DbLateSubjects (Db m))) \<le> maxDirtySubjects cfg \<longrightarrow> lakeExact (Pick env) (Db m'))"
proof (cases "DbWatermark (Db m) = WatermarkAt W")
  case False
  then have "r \<noteq> None" "sameRollup (Db m) (Db m')" "sameDaily m m'"
    using q run by (auto simp: foldDailyRollup_def quiet_def tick_def sameDaily_def split: txOutcome.splits)
  then show ?thesis using lake_exact.claim_same [OF _ ex] by blast
next
  case True
  have exW: "exactOff (Pick env) (Db m) W" using ex True by (simp add: lakeExact_def)
  have fr: "refreshedTo (Pick env) W2 (foldTx (Pick env) W W2 (Db m))"
    using fold_exact [OF pick exW W2] ex by (simp add: refreshedTo_def lakeExact_def) (simp add: foldTx_def Let_def)
  have ok: "lakeExact (Pick env) d" if "refreshedTo (Pick env) W2 d" for d
    using that by (simp add: refreshedTo_def lakeExact_def exactOff_def)
  obtain r1 m1 where tx: "runTx env (foldTx (Pick env) W W2) m = (r1, m1)" by fastforce
  note mem1 = runTx_tables(2) [OF q tx]
  have any: "lakeExact (Pick env) (Db m1)" by (rule lake_exact.tx_keeps [OF q tx ex ok [OF fr]])
  show ?thesis
  proof (cases r1)
    case (Some e)
    then have "r \<noteq> None" "m' = m1"
      using run True tx by (auto simp: foldDailyRollup_def split: txOutcome.splits)
    then show ?thesis using any mem1 by auto
  next
    case None
    have l1: "lateWithin (Pick env) W2 (set (DbLateSubjects (Db m))) (Db m1)"
      by (rule late_within.tx_done [OF q tx [unfolded None]]) (use fr in \<open>simp add: lateWithin_def foldTx_def Let_def\<close>)
    then have pre: "refreshedTo (Pick env) W2 (Db m1)" by (simp add: lateWithin_def)
    have same: "DbLateSubjects (Db m1) = DbLateSubjects (Db m)"
      using runTx_tables(1) [OF q tx] None by (auto simp: sameRollup_def foldTx_def Let_def)
    have late: "recomputeLateDailySubjects cfg env W2 m1 = (r, m')" using run True tx None by (simp add: foldDailyRollup_def)
    show ?thesis using late_run [OF q late pre] same ok mem1 by (auto intro: sameDaily_trans)
  qed
qed

text \<open>The memory agrees with the stored watermark; a failed refresh may leave it behind.\<close>

definition dailyInSync :: "mat \<Rightarrow> bool" where
  "dailyInSync m = (case DbWatermark (Db m) of NoWatermark \<Rightarrow> IsZero (dailyWatermark m)
     | BadWatermark \<Rightarrow> False | WatermarkAt W \<Rightarrow> dailyWatermark m = W)"

text \<open>What the refresh needs of the memory: it seeds only when no watermark is stored.\<close>

definition seedsOnlyFresh :: "mat \<Rightarrow> bool" where
  "seedsOnlyFresh m = (dailyStateLoaded m \<and> IsZero (dailyWatermark m) \<longrightarrow> DbWatermark (Db m) = NoWatermark)"

definition justLoaded :: "mat \<Rightarrow> bool" where
  "justLoaded m = (dailyInSync m \<and> dailyLateSeen m = {})"

lemma load_run:
  assumes q: "quiet env" and run: "LoadDailyRollupState cfg env m = (r, m')" and ex: "lakeExact pick (Db m)"
    and fresh: "seedsOnlyFresh m"
  shows "sameRollup (Db m) (Db m') \<and> (r = None \<longrightarrow> dailyConfigured cfg \<longrightarrow> dailyStateLoaded m' \<and> seedsOnlyFresh m'
    \<and> (justLoaded m' \<or> dailyStateLoaded m \<and> m' = m))"
proof (cases "\<not> dailyConfigured cfg \<or> dailyStateLoaded m")
  case True
  then have "r = None" "m' = m" using run by (auto simp: LoadDailyRollupState_def)
  then show ?thesis using True fresh by (simp add: sameRollup_def)
next
  case False
  obtain r1 m1 where rd: "readCall env m = (r1, m1)" by fastforce
  obtain r2 m2 where cr: "execRetryConflict env (\<lambda>d. d) m1 = (r2, m2)" by fastforce
  obtain r3 m3 where ld: "readCall env m2 = (r3, m3)" by fastforce
  have s1: "sameRollup (Db m) (Db m1)" by (rule readCall_tables(1) [OF q rd])
  have s2: "sameRollup (Db m) (Db m2)"
    by (rule same_tables.retry_keeps [OF q cr [unfolded execRetryConflict_def] s1])
  have s3: "sameRollup (Db m) (Db m3)" by (rule same_tables.read_keeps [OF q ld s2])
  have end': "sameRollup (Db m) (Db (dailyLoaded env w m3))" for w
    using s3 q by (simp add: dailyLoaded_def tick_def sameRollup_def quiet_def)
  have nz: "\<not> IsZero W" if "DbWatermark (Db m) = WatermarkAt W" for W
    using ex that by (auto simp: lakeExact_def exactOff_def goodWatermark_nonzero)
  have shadow: "DbShadow (Db m) = None" using ex by (simp add: lakeExact_def)
  have loaded: "sameRollup (Db m) (Db m') \<and> dailyStateLoaded m' \<and> seedsOnlyFresh m' \<and> justLoaded m'"
    if "m' = dailyLoaded env w m3" "DbWatermark (Db m) = NoWatermark \<and> w = zeroTime \<or> DbWatermark (Db m) = WatermarkAt w" for w
    using that end' [of w] nz by (auto simp: justLoaded_def dailyInSync_def seedsOnlyFresh_def sameRollup_def zeroTime_def IsZero_def dailyLoaded_def tick_def)
  consider (rd) e where "r1 = Some e" | (cr) e where "r1 = None" "r2 = Some e" | (ld) e where "r1 = None" "r2 = None" "r3 = Some e"
    | (ok) "r1 = None" "r2 = None" "r3 = None" by (cases r1; cases r2; cases r3) auto
  then show ?thesis
  proof cases
    case ok
    have wm: "DbWatermark (Db m2) = DbWatermark (Db m)" using s2 by (simp add: sameRollup_def)
    have "(r, m') = (case DbWatermark (Db m) of NoWatermark \<Rightarrow> (None, dailyLoaded env zeroTime m3)
        | BadWatermark \<Rightarrow> (Some (Err ''unparseable daily rollup watermark''), m3) | WatermarkAt w \<Rightarrow> (None, dailyLoaded env w m3))"
      using run False ok rd cr ld shadow wm
      by (simp add: LoadDailyRollupState_def loadDailyWatermark_def split: watermarkCell.splits)
    then show ?thesis using loaded s3 by (auto split: watermarkCell.splits)
  qed (use run False rd cr ld s1 s2 s3 in \<open>auto simp: LoadDailyRollupState_def loadDailyWatermark_def\<close>)
qed

lemma refresh_run:
  assumes q: "quiet env" and pick: "picksRow (Pick env)" and ex: "lakeExact (Pick env) (Db m)" and fresh: "seedsOnlyFresh m"
    and cfg: "dailyConfigured cfg" and b: "unixEpoch < boundary"
    and run: "RunDailyRollupRefresh cfg env boundary m = (r, m')"
  shows "(length (remdups (DbLateSubjects (Db m))) \<le> maxDirtySubjects cfg \<longrightarrow> lakeExact (Pick env) (Db m'))
    \<and> (r = None \<longrightarrow> dailyStateLoaded m' \<and>
        (lateWithin (Pick env) boundary {} (Db m') \<and> dailyWatermark m' = boundary \<and> dailyLateSeen m' = {}
         \<or> sameRollup (Db m) (Db m') \<and> boundary \<le> dailyWatermark m' \<and> (justLoaded m' \<or> dailyStateLoaded m \<and> m' = m)))"
proof -
  obtain r1 m1 where ld: "LoadDailyRollupState cfg env m = (r1, m1)" by fastforce
  from load_run [OF q ld ex fresh] have l1: "sameRollup (Db m) (Db m1)"
    and l2: "r1 = None \<Longrightarrow> dailyStateLoaded m1 \<and> seedsOnlyFresh m1 \<and> (justLoaded m1 \<or> dailyStateLoaded m \<and> m1 = m)"
    using cfg by blast+
  have ex1: "lakeExact (Pick env) (Db m1)" by (rule lake_exact.claim_same [OF l1 ex])
  have late1: "DbLateSubjects (Db m1) = DbLateSubjects (Db m)" using l1 by (simp add: sameRollup_def)
  let ?mid = "Equal boundary (Truncate boundary (24 * hour))"
  let ?due = "IsZero (dailyWatermark m1) \<or> After boundary (dailyWatermark m1)"
  let ?work = "if IsZero (dailyWatermark m1) then seedDailyRollup env boundary m1 else foldDailyRollup cfg env (dailyWatermark m1) boundary m1"
  show ?thesis
  proof (cases "r1 = None \<and> ?mid \<and> ?due")
    case False
    then have "m' = m1 \<and> (r = None \<longrightarrow> r1 = None \<and> \<not> ?due)"
      using run ld by (auto simp: RunDailyRollupRefresh_def split: option.splits if_splits)
    then show ?thesis using ex1 l1 l2 by (auto simp: After_def)
  next
    case True
    have good: "goodWatermark boundary"
    proof -
      have "boundary mod (24 * hour) = 0" using True Truncate_mod [of "24 * hour" boundary] by (simp add: Equal_def hour_def)
      then show ?thesis using b by (simp add: goodWatermark_def)
    qed
    obtain r2 m2 where w: "?work = (r2, m2)" by fastforce
    have work: "(r2 = None \<longrightarrow> lateWithin (Pick env) boundary {} (Db m2)) \<and> sameDaily m1 m2
      \<and> (length (remdups (DbLateSubjects (Db m))) \<le> maxDirtySubjects cfg \<longrightarrow> lakeExact (Pick env) (Db m2))"
    proof (cases "IsZero (dailyWatermark m1)")
      case zero: True
      then have "DbWatermark (Db m1) = NoWatermark" using True l2 by (simp add: seedsOnlyFresh_def)
      then have "seedFrame NoWatermark (Db m1)" using ex1 by (simp add: seedFrame_def lakeExact_def)
      from seed_run [OF q _ this good] w zero show ?thesis
        by (auto simp: lakeExact_def seedFrame_def lateWithin_def refreshedTo_def exactOff_def)
    next
      case False
      then have "foldDailyRollup cfg env (dailyWatermark m1) boundary m1 = (r2, m2)" using w by simp
      from fold_run [OF q this pick ex1 good] False True show ?thesis by (simp add: After_def late1)
    qed
    have step: "r = r2 \<and> m' = (if r2 = None then tick env (m2\<lparr>dailyWatermark := boundary, dailyLateSeen := {}\<rparr>) else m2)"
      using run ld True w by (auto simp: RunDailyRollupRefresh_def split: option.splits)
    have "sameRollup (Db m2) (Db m')" using step q by (simp add: tick_def quiet_def sameRollup_def)
    then have "lateWithin (Pick env) boundary {} (Db m') = lateWithin (Pick env) boundary {} (Db m2)"
      "lakeExact (Pick env) (Db m') = lakeExact (Pick env) (Db m2)" by (simp_all add: lakeExact_same)
    then show ?thesis using step work l2 True by (auto simp: tick_def sameDaily_def)
  qed
qed

end
