(* ===== verification/Mat_Exactly_Once.thy ===== *)
theory Mat_Exactly_Once
  imports Mat_Span "HOL-Library.Countable"
begin

section \<open>No row lost, no row twice (internal/materializer/ducklake.go)\<close>

text \<open>
  The properties of the span protocol of \<open>Mat_Span\<close>. The hypotheses on the environment are those
  the code states: the feed returns the rows the snapshots of the range inserted, equal row keys
  mean the same row, and the key of a cloud event determines its subject, time and id.
\<close>

subsection \<open>Pages\<close>

lemma keyLess_less: "keyLess a b \<longleftrightarrow> a < b"
  by (cases a; cases b) (auto simp: keyLess_def less_prod_def less_eq_prod_def order_less_le)

text \<open>The rows already read when the loop stands at \<open>after\<close>.\<close>

definition behind :: "rawRowKey option \<Rightarrow> rawRow \<Rightarrow> bool" where
  "behind after r = (case after of None \<Rightarrow> False | Some k \<Rightarrow> rowKey r \<le> k)"

lemma pageOf_filter:
  "pageOf env after limit rows = take limit (OrderBy env (filter (\<lambda>r. \<not> behind after r) rows))"
proof -
  have "(case after of None \<Rightarrow> True | Some k \<Rightarrow> keyLess k (rowKey r)) = (\<not> behind after r)" for r
    by (cases after) (simp_all add: behind_def keyLess_less not_le)
  then show ?thesis by (simp add: pageOf_def)
qed

lemma page_sub:
  assumes "slice_sort rowKey (OrderBy env)" and "r \<in> set (pageOf env after limit rows)"
  shows "r \<in> set rows" and "\<not> behind after r"
proof -
  have "r \<in> set (OrderBy env (filter (\<lambda>r. \<not> behind after r) rows))"
    using assms(2) by (metis pageOf_filter in_set_takeD)
  then have "r \<in> set (filter (\<lambda>r. \<not> behind after r) rows)" by (simp add: slice_sort.set_srt [OF assms(1)])
  then show "r \<in> set rows" "\<not> behind after r" by simp_all
qed

lemma page_covers:
  assumes srt: "slice_sort rowKey (OrderBy env)" and inj: "inj_on rowKey (set rows)"
    and ne: "pageOf env after limit rows \<noteq> []" and r: "r \<in> set rows" "\<not> behind after r"
    and le: "rowKey r \<le> rowKey (last (pageOf env after limit rows))"
  shows "r \<in> set (pageOf env after limit rows)"
proof -
  let ?ys = "OrderBy env (filter (\<lambda>r. \<not> behind after r) rows)" and ?p = "pageOf env after limit rows"
  have p: "?p = take limit ?ys" by (rule pageOf_filter)
  have ys: "?ys = ?p @ drop limit ?ys" by (simp add: p)
  have "r \<in> set ?ys" using r by (simp add: slice_sort.set_srt [OF srt])
  then consider "r \<in> set ?p" | "r \<in> set (drop limit ?ys)" using ys by (metis Un_iff set_append)
  then show ?thesis
  proof cases
    case 2
    have "sorted (map rowKey (?p @ drop limit ?ys))" using slice_sort.srt_sorted [OF srt, of "filter (\<lambda>r. \<not> behind after r) rows"] ys by simp
    then have "rowKey (last ?p) \<le> rowKey r" using 2 ne by (simp add: sorted_append)
    then have "rowKey r = rowKey (last ?p)" using le by simp
    moreover have "last ?p \<in> set rows" using page_sub(1) [OF srt] ne by (meson last_in_set)
    ultimately have "r = last ?p" using inj r(1) by (auto dest: inj_onD)
    then show ?thesis using ne by simp
  qed
qed

lemma page_exhausted:
  assumes "slice_sort rowKey (OrderBy env)" and "length (pageOf env after limit rows) < limit" and "r \<in> set rows" "\<not> behind after r"
  shows "r \<in> set (pageOf env after limit rows)"
proof -
  let ?ys = "OrderBy env (filter (\<lambda>r. \<not> behind after r) rows)"
  have "take limit ?ys = ?ys" using assms(2) by (simp add: pageOf_filter)
  moreover have "r \<in> set ?ys" using assms(3,4) by (simp add: slice_sort.set_srt [OF assms(1)])
  ultimately show ?thesis by (simp add: pageOf_filter)
qed

lemma behind_last:
  assumes srt: "slice_sort rowKey (OrderBy env)" and "r \<in> set (pageOf env after limit rows)"
  shows "rowKey r \<le> rowKey (last (pageOf env after limit rows))"
proof -
  let ?p = "pageOf env after limit rows"
  have "sorted (map rowKey (OrderBy env (filter (\<lambda>r. \<not> behind after r) rows)))" by (rule slice_sort.srt_sorted [OF srt])
  then have "sorted (map rowKey ?p)" by (simp add: pageOf_filter sorted_wrt_take flip: take_map)
  moreover have "?p \<noteq> []" using assms(2) by auto
  then have "?p = butlast ?p @ [last ?p]" by simp
  ultimately have "sorted (map rowKey (butlast ?p) @ [rowKey (last ?p)])" by (metis list.simps(8,9) map_append)
  then have "\<forall>x \<in> set (butlast ?p). rowKey x \<le> rowKey (last ?p)" by (simp add: sorted_append)
  moreover have "r = last ?p \<or> r \<in> set (butlast ?p)"
    using assms(2) \<open>?p = butlast ?p @ [last ?p]\<close> by (metis Un_iff insert_iff list.simps(15) set_append empty_iff list.set(1))
  ultimately show ?thesis by auto
qed

subsection \<open>What a batch holds\<close>

definition batchIds :: "decodedBatch \<Rightarrow> rowIdent set \<times> rowIdent set" where
  "batchIds b = (signalIdent ` set (BatchSignals b), eventIdent ` set (BatchEvents b))"

definition dbIds :: "lakeDb \<Rightarrow> rowIdent set \<times> rowIdent set" where
  "dbIds d = (signalIdent ` set (DbSignals d), eventIdent ` set (DbEvents d))"

definition subIds :: "rowIdent set \<times> rowIdent set \<Rightarrow> rowIdent set \<times> rowIdent set \<Rightarrow> bool" where
  "subIds a b = (fst a \<subseteq> fst b \<and> snd a \<subseteq> snd b)"

definition unionIds :: "rowIdent set \<times> rowIdent set \<Rightarrow> rowIdent set \<times> rowIdent set \<Rightarrow> rowIdent set \<times> rowIdent set" where
  "unionIds a b = (fst a \<union> fst b, snd a \<union> snd b)"

definition resultIds :: "convResult \<Rightarrow> rowIdent set \<times> rowIdent set" where
  "resultIds c = (signalIdent ` set (CrSignals c), eventIdent ` set (CrEvents c))"

text \<open>
  The fate of a raw row: its payload was permanently unreadable, it is of no decoded type or past no
  vehicle gate, or the rows its event decodes to are among \<open>ids\<close>.
\<close>

definition covers :: "spanEnv \<Rightarrow> rowIdent set \<times> rowIdent set \<Rightarrow> rawRow \<Rightarrow> bool" where
  "covers env ids r = (\<exists>n k. case resolveRow env n r of
      Skipped \<Rightarrow> True
    | Kept ev \<Rightarrow> decodable (Vehicles env) ev \<longrightarrow> subIds (resultIds (convertJob (DecodeAt env k) ev)) ids
    | Transient _ \<Rightarrow> False)"

lemma subIds_refl [simp]: "subIds a a" by (simp add: subIds_def)

lemma subIds_trans: "subIds a b \<Longrightarrow> subIds b c \<Longrightarrow> subIds a c" by (auto simp: subIds_def)

lemma subIds_union [simp]: "subIds a (unionIds a b)" "subIds b (unionIds a b)" by (auto simp: subIds_def unionIds_def)

lemma covers_mono:
  assumes "covers env a r" and "subIds a b"
  shows "covers env b r"
proof -
  obtain n k where "case resolveRow env n r of Skipped \<Rightarrow> True
    | Kept ev \<Rightarrow> decodable (Vehicles env) ev \<longrightarrow> subIds (resultIds (convertJob (DecodeAt env k) ev)) a | Transient _ \<Rightarrow> False"
    using assms(1) by (auto simp: covers_def)
  then show ?thesis unfolding covers_def using subIds_trans [OF _ assms(2)]
    by (intro exI [of _ n] exI [of _ k]) (cases "resolveRow env n r"; simp)
qed

lemma batchIds_append: "batchIds (appendDecoded a b) = unionIds (batchIds a) (batchIds b)"
  by (simp add: batchIds_def unionIds_def appendDecoded_def image_Un)

lemma covers_append:
  "covers env (batchIds a) r \<Longrightarrow> covers env (batchIds (appendDecoded a b)) r"
  "covers env (batchIds b) r \<Longrightarrow> covers env (batchIds (appendDecoded a b)) r"
  unfolding batchIds_append by (erule covers_mono, simp)+

lemma firstOfKeys_sub: "set (firstOfKeys key xs) \<subseteq> set xs"
  by (induction key xs rule: firstOfKeys.induct) auto

lemma firstOfKeys_covers: "x \<in> set xs \<Longrightarrow> \<exists>y \<in> set (firstOfKeys key xs). key y = key x"
proof (induction key xs rule: firstOfKeys.induct)
  case (2 key z zs)
  then show ?case by (cases "key x = key z") auto
qed simp

lemma batchIds_decode:
  "x \<in> set (filter (decodable gate) (firstOfKeys key evs)) \<Longrightarrow>
     subIds (resultIds (convertJob e x)) (batchIds (decodeEvents e key gate evs))"
  unfolding subIds_def resultIds_def batchIds_def fst_conv snd_conv
  by (intro conjI image_mono) (auto simp: decodeEvents_jobs Let_def)

text \<open>The payload is all that resolving changes.\<close>

lemma resolve_header:
  "resolveRow env n r = Kept ev \<Longrightarrow> EvHeader ev = EvHeader (fst r)"
  by (auto simp: resolveRow_def resolveBlob_def split: sum.splits option.splits if_splits blobErr.splits)

lemma resolveBlobs_rows:
  "resolveBlobs env n page = Inr evs \<Longrightarrow> ev \<in> set evs \<longleftrightarrow> (\<exists>r \<in> set page. resolveRow env n r = Kept ev)"
  by (induction env n page arbitrary: evs rule: resolveBlobs.induct)
    (auto split: resolved.splits sum.splits)

lemma resolveBlobs_transient:
  "resolveBlobs env n page = Inr evs \<Longrightarrow> r \<in> set page \<Longrightarrow> resolveRow env n r \<noteq> Transient e"
  by (induction env n page arbitrary: evs rule: resolveBlobs.induct)
    (auto split: resolved.splits sum.splits)

lemma decodePage_covers:
  assumes evs: "resolveBlobs env n page = Inr evs" and r: "r \<in> set page" and inj: "inj_on rowKey (set page)"
    and key: "\<And>a b. RawKey env a = RawKey env b \<Longrightarrow> rowKey (a, []) = rowKey (b, [])"
  shows "covers env (batchIds (decodePage env k evs)) r"
proof (cases "resolveRow env n r")
  case (Kept ev)
  have "subIds (resultIds (convertJob (DecodeAt env k) ev)) (batchIds (decodePage env k evs))" if d: "decodable (Vehicles env) ev"
  proof -
    have "ev \<in> set evs" using resolveBlobs_rows [OF evs] r Kept by blast
    then obtain ev' where ev': "ev' \<in> set (firstOfKeys (RawKey env) evs)" "RawKey env ev' = RawKey env ev"
      by (rule firstOfKeys_covers [of ev evs "RawKey env", THEN bexE])
    have "ev' \<in> set evs" by (rule subsetD [OF firstOfKeys_sub ev'(1)])
    then obtain r' where r': "r' \<in> set page" "resolveRow env n r' = Kept ev'" using resolveBlobs_rows [OF evs] by blast
    have "rowKey (ev', []) = rowKey (ev, [])" by (rule key [OF ev'(2)])
    then have "rowKey r' = rowKey r" by (simp add: rowKey_def resolve_header [OF Kept] resolve_header [OF r'(2)])
    then have "r' = r" using inj r r'(1) by (auto dest: inj_onD)
    then have "ev' = ev" using r'(2) Kept by simp
    then show ?thesis unfolding decodePage_def by (intro batchIds_decode) (use ev' d in simp)
  qed
  then show ?thesis unfolding covers_def by (intro exI [of _ n] exI [of _ k]) (simp add: Kept)
next
  case Skipped
  then show ?thesis unfolding covers_def by (intro exI [of _ n]) simp
next
  case (Transient e)
  then show ?thesis using resolveBlobs_transient [OF evs r] by simp
qed

subsection \<open>Windows\<close>

text \<open>
  The laws of the environment for the rows \<open>ins s\<close> that snapshot \<open>s\<close> inserted.
\<close>

definition rowsBetween :: "(int \<Rightarrow> rawRow list) \<Rightarrow> int \<Rightarrow> int \<Rightarrow> rawRow set" where
  "rowsBetween ins a b = (\<Union>s \<in> {a<..b}. set (ins s))"

definition feedLaws :: "(int \<Rightarrow> rawRow list) \<Rightarrow> spanEnv \<Rightarrow> bool" where
  "feedLaws ins env = (slice_sort rowKey (OrderBy env)
     \<and> (\<forall>n a b rows. Feed env n a b = Inr rows \<longrightarrow> set rows = rowsBetween ins a b)
     \<and> (\<forall>a b. RawKey env a = RawKey env b \<longrightarrow> rowKey (a, []) = rowKey (b, [])))"

definition keysUnique :: "(int \<Rightarrow> rawRow list) \<Rightarrow> bool" where
  "keysUnique ins = inj_on rowKey (\<Union>s. set (ins s))"

lemma rowsBetween_inj: "keysUnique ins \<Longrightarrow> inj_on rowKey (rowsBetween ins a b)"
  by (auto simp: keysUnique_def rowsBetween_def intro: inj_on_subset)

text \<open>The rows a loop has read since it stood at \<open>after0\<close> are in its batch.\<close>

definition readSince :: "(int \<Rightarrow> rawRow list) \<Rightarrow> spanEnv \<Rightarrow> int \<Rightarrow> int \<Rightarrow> rawRowKey option \<Rightarrow> rawRowKey option \<Rightarrow> decodedBatch \<Rightarrow> bool" where
  "readSince ins env a b after0 after win =
     (\<forall>r \<in> rowsBetween ins a b. behind after r \<longrightarrow> behind after0 r \<or> covers env (batchIds win) r)"

lemma feedLaws_sort: "feedLaws ins env \<Longrightarrow> slice_sort rowKey (OrderBy env)"
  unfolding feedLaws_def by (elim conjE)

lemma feedLaws_rows: "feedLaws ins env \<Longrightarrow> Feed env n a b = Inr rows \<Longrightarrow> set rows = rowsBetween ins a b"
  unfolding feedLaws_def by (elim conjE, elim allE) (erule mp)

lemma feedLaws_key: "feedLaws ins env \<Longrightarrow> RawKey env x = RawKey env y \<Longrightarrow> rowKey (x, []) = rowKey (y, [])"
proof -
  assume "feedLaws ins env" and e: "RawKey env x = RawKey env y"
  then have "\<forall>a b. RawKey env a = RawKey env b \<longrightarrow> rowKey (a, []) = rowKey (b, [])" unfolding feedLaws_def by (elim conjE)
  from this [THEN spec, THEN spec, THEN mp, OF e] show ?thesis .
qed

lemma page_read:
  assumes laws: "feedLaws ins env" and uniq: "keysUnique ins"
    and f: "Feed env n a b = Inr rows" and page: "page = pageOf env after limit rows"
    and evs: "resolveBlobs env n' page = Inr evs" and ne: "page \<noteq> []"
    and since: "readSince ins env a b after0 after win"
  shows "readSince ins env a b after0 (Some (rowKey (last page))) (appendDecoded win (decodePage env k evs))"
proof -
  note srt = feedLaws_sort [OF laws] and rows = feedLaws_rows [OF laws f] and key = feedLaws_key [OF laws]
  have inj: "inj_on rowKey (set rows)" using rowsBetween_inj [OF uniq] rows by simp
  have "set page \<subseteq> set rows" using page_sub(1) [OF srt] page by blast
  then have injp: "inj_on rowKey (set page)" using inj by (rule inj_on_subset [rotated])
  have "behind after0 r \<or> covers env (batchIds (appendDecoded win (decodePage env k evs))) r"
    if r: "r \<in> rowsBetween ins a b" "behind (Some (rowKey (last page))) r" for r
  proof (cases "behind after r")
    case True
    then have "behind after0 r \<or> covers env (batchIds win) r" using since r(1) by (simp add: readSince_def)
    then show ?thesis using covers_append(1) by blast
  next
    case False
    then have "r \<in> set page" using page_covers [OF srt inj, of after limit r] r ne rows page by (simp add: behind_def)
    then have "covers env (batchIds (decodePage env k evs)) r" by (rule decodePage_covers [OF evs _ injp key])
    then show ?thesis using covers_append(2) by blast
  qed
  then show ?thesis by (simp add: readSince_def)
qed

lemma readDelta_cases:
  assumes "readDeltaWindow env a b after limit m = (Inr (evs, lastKey, got), m')"
  obtains rows where "Feed env (Ncalls m) a b = Inr rows" "resolveBlobs env (Ncalls m) (pageOf env after limit rows) = Inr evs"
    "got = length (pageOf env after limit rows)" "m' = tick env m"
    "pageOf env after limit rows \<noteq> [] \<Longrightarrow> lastKey = Some (rowKey (last (pageOf env after limit rows)))"
  using assms that by (auto simp: readDeltaWindow_def Let_def split: sum.splits)

lemma readDelta_db: "readDeltaWindow env a b after limit m = (res, m') \<Longrightarrow> m' = tick env m"
  by (auto simp: readDeltaWindow_def Let_def split: sum.splits)

lemma readLimit_pos: "readLimit cfg c = Some limit \<Longrightarrow> 0 < limit"
  by (auto simp: readLimit_def Let_def windowReadChunk_def split: if_splits)

lemma readLimit_fresh: "readLimit cfg noCounts \<noteq> None"
  by (simp add: readLimit_def noCounts_def Let_def)

text \<open>One page of a window: what it reads, and where the loop goes on.\<close>

lemma windowLoop_page:
  assumes w: "windowLoop (Suc fuel) cfg env a b after win c bytes m = Some (Inr (after', win', c'), m')"
    and l: "readLimit cfg c = Some limit"
  obtains rows evs where "Feed env (Ncalls m) a b = Inr rows"
      "resolveBlobs env (Ncalls m) (pageOf env after limit rows) = Inr evs"
      "pageOf env after limit rows = []" "after' = after" "win' = win" "c' = c" "m' = tick env m"
  | rows evs where "Feed env (Ncalls m) a b = Inr rows"
      "resolveBlobs env (Ncalls m) (pageOf env after limit rows) = Inr evs"
      "pageOf env after limit rows \<noteq> []"
      "let k = Some (rowKey (last (pageOf env after limit rows))); d = decodePage env (Ncalls (tick env m)) evs;
           w2 = appendDecoded win d; c2 = addPage d evs (length (pageOf env after limit rows)) c
       in after' = k \<and> win' = w2 \<and> c' = c2 \<and> m' = tick env m
          \<or> windowLoop fuel cfg env a b k w2 c2 (bytes + rawResidentBytes evs) (tick env m) = Some (Inr (after', win', c'), m')"
proof -
  obtain res m1 where rd: "readDeltaWindow env a b after limit m = (res, m1)" by fastforce
  show thesis
  proof (cases res)
    case (Inl e)
    then show ?thesis using w l rd by simp
  next
    case (Inr t)
    obtain evs k got where t: "t = (evs, k, got)" by (cases t) auto
    obtain rows where r: "Feed env (Ncalls m) a b = Inr rows" "resolveBlobs env (Ncalls m) (pageOf env after limit rows) = Inr evs"
      "got = length (pageOf env after limit rows)" "m1 = tick env m"
      "pageOf env after limit rows \<noteq> [] \<Longrightarrow> k = Some (rowKey (last (pageOf env after limit rows)))"
      using rd by (auto simp: Inr t elim: readDelta_cases)
    show ?thesis
    proof (cases "pageOf env after limit rows = []")
      case True
      then show ?thesis using that(1) [OF r(1,2) True] w l rd r(3,4) by (simp add: Inr t)
    next
      case False
      show ?thesis
        by (rule that(2) [OF r(1,2) False]) (use w l rd r(3,4) r(5) [OF False] False in \<open>auto simp: Inr t Let_def split: if_splits\<close>)
    qed
  qed
qed

lemma windowLoop_reads:
  assumes laws: "feedLaws ins env" and uniq: "keysUnique ins"
  shows "windowLoop fuel cfg env a b after win c bytes m = Some (Inr (after', win', c'), m') \<Longrightarrow>
     readSince ins env a b after0 after win \<Longrightarrow>
     readSince ins env a b after0 after' win' \<and> rawRows c \<le> rawRows c'
     \<and> (rawRows c' = rawRows c \<longrightarrow> after' = after \<and> (readLimit cfg c \<noteq> None \<longrightarrow> (\<forall>r \<in> rowsBetween ins a b. behind after r)))"
proof (induction fuel arbitrary: after win c bytes m)
  case (Suc fuel)
  show ?case
  proof (cases "readLimit cfg c")
    case None
    then show ?thesis using Suc.prems by simp
  next
    case (Some limit)
    from Suc.prems(1) Some show ?thesis
    proof (cases rule: windowLoop_page)
      case (1 rows evs)
      then have "behind after r" if "r \<in> rowsBetween ins a b" for r
        using page_exhausted [OF feedLaws_sort [OF laws], of after limit rows r] readLimit_pos [OF Some] that
        by (auto simp: feedLaws_rows [OF laws 1(1)])
      then show ?thesis using Suc.prems(2) 1 by simp
    next
      case (2 rows evs)
      let ?p = "pageOf env after limit rows"
      let ?d = "decodePage env (Ncalls (tick env m)) evs"
      have s: "readSince ins env a b after0 (Some (rowKey (last ?p))) (appendDecoded win ?d)"
        by (rule page_read [OF laws uniq 2(1) refl 2(2,3) Suc.prems(2)])
      have c: "rawRows c < rawRows (addPage ?d evs (length ?p) c)" using 2(3) by (simp add: addPage_def)
      from 2(4) consider "after' = Some (rowKey (last ?p))" "win' = appendDecoded win ?d" "c' = addPage ?d evs (length ?p) c"
        | "windowLoop fuel cfg env a b (Some (rowKey (last ?p))) (appendDecoded win ?d) (addPage ?d evs (length ?p) c)
             (bytes + rawResidentBytes evs) (tick env m) = Some (Inr (after', win', c'), m')"
        unfolding Let_def by blast
      then show ?thesis
      proof cases
        case 1
        then show ?thesis using s c by simp
      next
        case 2
        then show ?thesis using Suc.IH [OF 2 s] c by auto
      qed
    qed
  qed
qed simp

subsection \<open>The tables of a run only evolve\<close>

text \<open>
  \<open>E\<close> are the environments of the passes so far. A snapshot is expired when one of them reported an
  older end of the retained history. \<open>caughtUp\<close> is the meaning of the cursor: all rows at or below
  it are accounted for.
\<close>

definition expired :: "spanEnv set \<Rightarrow> int \<Rightarrow> bool" where
  "expired E s = (\<exists>env \<in> E. \<exists>n oldest. Oldest env n = Inr (Some oldest) \<and> s < oldest)"

definition accounted :: "spanEnv set \<Rightarrow> (int \<Rightarrow> rawRow list) \<Rightarrow> lakeDb \<Rightarrow> int \<Rightarrow> bool" where
  "accounted E ins d s = (expired E s \<or> (\<forall>r \<in> set (ins s). \<exists>env \<in> E. covers env (dbIds d) r))"

definition caughtUp :: "spanEnv set \<Rightarrow> (int \<Rightarrow> rawRow list) \<Rightarrow> lakeDb \<Rightarrow> bool" where
  "caughtUp E ins d = (\<forall>c. DbCursor d = CursorAt c \<longrightarrow> (\<forall>s \<le> c. accounted E ins d s))"

definition evolves :: "spanEnv set \<Rightarrow> (int \<Rightarrow> rawRow list) \<Rightarrow> lakeDb \<Rightarrow> lakeDb \<Rightarrow> bool" where
  "evolves E ins d d' = (subIds (dbIds d) (dbIds d') \<and> (caughtUp E ins d \<longrightarrow> caughtUp E ins d'))"

lemma evolves_refl [simp]: "evolves E ins d d" by (simp add: evolves_def)

lemma evolves_trans [trans]: "evolves E ins a b \<Longrightarrow> evolves E ins b c \<Longrightarrow> evolves E ins a c"
  by (auto simp: evolves_def intro: subIds_trans)

lemma accounted_mono: "accounted E ins d s \<Longrightarrow> subIds (dbIds d) (dbIds d') \<Longrightarrow> accounted E ins d' s"
  unfolding accounted_def by (elim disjE) (simp, metis covers_mono)

lemma evolves_grow: "subIds (dbIds d) (dbIds d') \<Longrightarrow> DbCursor d' = DbCursor d \<Longrightarrow> evolves E ins d d'"
  by (auto simp: evolves_def caughtUp_def intro: accounted_mono)

lemma evolves_advance:
  assumes "DbCursor d = CursorAt a" "DbCursor d' = CursorAt b" "subIds (dbIds d) (dbIds d')"
    and "\<And>s. a < s \<Longrightarrow> s \<le> b \<Longrightarrow> accounted E ins d' s"
  shows "evolves E ins d d'"
proof -
  have "accounted E ins d' s" if "caughtUp E ins d" "s \<le> b" for s
  proof (cases "s \<le> a")
    case True
    then have "accounted E ins d s" using that assms(1) by (simp add: caughtUp_def)
    then show ?thesis by (rule accounted_mono [OF _ assms(3)])
  qed (use assms(4) that in simp)
  then show ?thesis using assms(2,3) by (simp add: evolves_def caughtUp_def)
qed

lemma covered_accounted:
  assumes "env \<in> E" "\<forall>r \<in> rowsBetween ins a b. covers env (dbIds d) r" "a < s" "s \<le> b"
  shows "accounted E ins d s"
proof -
  have "covers env (dbIds d) r" if "r \<in> set (ins s)" for r
    using assms(2-4) that by (auto simp: rowsBetween_def)
  then show ?thesis using assms(1) by (auto simp: accounted_def)
qed

text \<open>What a pass is given.\<close>

definition passLaws :: "spanEnv set \<Rightarrow> (int \<Rightarrow> rawRow list) \<Rightarrow> spanEnv \<Rightarrow> bool" where
  "passLaws E ins env = (env \<in> E \<and> feedLaws ins env \<and> keysUnique ins \<and> (\<forall>s \<le> 0. ins s = [])
     \<and> (\<forall>n d. evolves E ins d (Others env n d)))"

lemma passLaws_D:
  assumes "passLaws E ins env"
  shows "env \<in> E" "feedLaws ins env" "keysUnique ins" "s \<le> 0 \<Longrightarrow> ins s = []" "evolves E ins d (Others env n d)"
  using assms unfolding passLaws_def by blast+

lemma evolves_tick: "passLaws E ins env \<Longrightarrow> evolves E ins (Db m) (Db (tick env m))"
  by (simp add: tick_def passLaws_D(5))

lemma evolves_runTx:
  assumes "passLaws E ins env" "evolves E ins (Db m) (f (Db m))" "runTx env f m = (e, m')"
  shows "evolves E ins (Db m) (Db m')"
  using assms(3) evolves_trans [OF assms(2) passLaws_D(5) [OF assms(1)]] passLaws_D(5) [OF assms(1)]
  by (auto simp: runTx_def tick_def split: txOutcome.splits)

lemma runTx_ok: "runTx env f m = (None, m') \<Longrightarrow> m' = tick env (m\<lparr>Db := f (Db m)\<rparr>)"
  by (auto simp: runTx_def split: txOutcome.splits)

lemma memory_db [simp]:
  "Db (publishLatest cfg dec m) = Db m" "Db (settled cfg dec m) = Db m" "Db (markDirtyFromBatch cfg dec m) = Db m"
  "Db (stampReport env m) = Db m"
  by (simp_all add: publishLatest_def settled_def markDirtyFromBatch_def markLateDailySeen_def stampReport_def Let_def)

lemma dbIds_insert: "dbIds (insertDecodedSteady cfg now m dec d) = unionIds (dbIds d) (batchIds dec)"
  by (simp add: dbIds_def unionIds_def batchIds_def insert_signals)

lemma dbIds_cas [simp]: "dbIds (casCursor a b d) = dbIds d"
  by (simp add: casCursor_def dbIds_def)

lemma evolves_insert: "evolves E ins d (insertDecodedSteady cfg now m dec d)"
  by (rule evolves_grow) (simp_all add: dbIds_insert insert_frame)

lemma windowLoop_evolves:
  assumes laws: "passLaws E ins env"
  shows "windowLoop fuel cfg env a b after win c bytes m = Some (res, m') \<Longrightarrow> evolves E ins (Db m) (Db m')"
proof (induction fuel arbitrary: after win c bytes m)
  case (Suc fuel)
  have t: "evolves E ins (Db m) (Db (tick env m))" by (rule evolves_tick [OF laws])
  obtain r m1 where rd: "readDeltaWindow env a b after (the (readLimit cfg c)) m = (r, m1)" by fastforce
  have m1: "m1 = tick env m" by (rule readDelta_db [OF rd])
  from Suc.prems rd t Suc.IH [of _ _ _ _ "tick env m"] show ?case
    by (auto simp: m1 Let_def split: option.splits sum.splits if_splits intro: evolves_trans)
qed simp

lemma writeWindow_evolves:
  assumes laws: "passLaws E ins env" and w: "writeWindow cfg env dec m = (res, m')"
  shows "evolves E ins (Db m) (Db m')" and "res = Inr () \<Longrightarrow> subIds (batchIds dec) (dbIds (Db m'))"
proof -
  let ?p = "publishLatest cfg dec m"
  let ?f = "insertDecodedSteady cfg (nowAt env ?p) ?p dec"
  obtain e m1 where tx: "runTx env ?f ?p = (e, m1)" by fastforce
  have "evolves E ins (Db ?p) (Db m1)" by (rule evolves_runTx [OF laws evolves_insert tx])
  then have ev: "evolves E ins (Db m) (Db m1)" by simp
  have m': "Db m' = Db m \<and> BatchSignals dec = [] \<and> BatchEvents dec = [] \<or> Db m' = Db m1"
    using w tx by (auto simp: writeWindow_def Let_def split: if_splits option.splits txOutcome.splits)
  then show "evolves E ins (Db m) (Db m')" using ev by (elim disjE conjE) simp_all
  assume ok: "res = Inr ()"
  show "subIds (batchIds dec) (dbIds (Db m'))"
  proof (cases "BatchSignals dec = [] \<and> BatchEvents dec = []")
    case True
    then show ?thesis by (simp add: batchIds_def subIds_def)
  next
    case False
    then have "e = None" using w tx ok by (auto simp: writeWindow_def Let_def split: if_splits option.splits txOutcome.splits)
    then have "m1 = tick env (?p\<lparr>Db := ?f (Db ?p)\<rparr>)" using tx runTx_ok by blast
    then have "evolves E ins (?f (Db m)) (Db m1)" using evolves_tick [OF laws, of "?p\<lparr>Db := ?f (Db ?p)\<rparr>"] by simp
    then have "subIds (dbIds (?f (Db m))) (dbIds (Db m1))" by (simp add: evolves_def)
    then have "subIds (batchIds dec) (dbIds (Db m1))" by (rule subIds_trans [rotated]) (simp add: dbIds_insert)
    then show ?thesis using m' False by simp
  qed
qed

text \<open>The rows of the range are in the tables or in the batch about to be written.\<close>

definition readyUpTo :: "(int \<Rightarrow> rawRow list) \<Rightarrow> spanEnv \<Rightarrow> int \<Rightarrow> int \<Rightarrow> decodedBatch option \<Rightarrow> lakeDb \<Rightarrow> bool" where
  "readyUpTo ins env a b pending d = (\<forall>r \<in> rowsBetween ins a b.
     covers env (dbIds d) r \<or> (\<exists>p. pending = Some p \<and> covers env (batchIds p) r))"

lemma readyUpTo_mono: "readyUpTo ins env a b pending d \<Longrightarrow> subIds (dbIds d) (dbIds d') \<Longrightarrow> readyUpTo ins env a b pending d'"
  unfolding readyUpTo_def using covers_mono by blast

lemma cursor_evolves:
  assumes laws: "passLaws E ins env" and c: "cursor env m = (res, m')"
  shows "evolves E ins (Db m) (Db m')"
proof -
  let ?m = "tick env m"
  have seed: "evolves E ins (Db ?m) (seedCursor (Db ?m))"
    unfolding evolves_def caughtUp_def accounted_def
    using passLaws_D(4) [OF laws] by (auto simp: seedCursor_def dbIds_def)
  obtain e m1 where tx: "runTx env seedCursor ?m = (e, m1)" by fastforce
  have "evolves E ins (Db ?m) (Db m1)" by (rule evolves_runTx [OF laws seed tx])
  moreover have "Db m' = Db ?m \<or> Db m' = Db m1"
    using c tx by (auto simp: cursor_def readCall_def split: option.splits cursorCell.splits)
  ultimately show ?thesis using evolves_tick [OF laws, of m] by (auto intro: evolves_trans)
qed

lemma commit_evolves:
  assumes laws: "passLaws E ins env" and ready: "readyUpTo ins env a b (Some dec) (Db m)"
    and c: "commit cfg env dec a b m = (res, m')"
  shows "evolves E ins (Db m) (Db m')"
proof -
  let ?p = "publishLatest cfg dec m"
  let ?f = "\<lambda>d. casCursor a b (insertDecodedSteady cfg (nowAt env ?p) ?p dec d)"
  obtain e m1 where tx: "runTx env ?f ?p = (e, m1)" by fastforce
  have "evolves E ins (Db m) (?f (Db m))" if cur: "DbCursor (Db m) = CursorAt a"
  proof (rule evolves_advance [OF cur, of _ b])
    show "DbCursor (?f (Db m)) = CursorAt b" by (simp add: casCursor_def insert_frame cur)
    show sub: "subIds (dbIds (Db m)) (dbIds (?f (Db m)))" by (simp add: dbIds_insert)
    have "subIds (batchIds dec) (dbIds (?f (Db m)))" by (simp add: dbIds_insert)
    then have "\<forall>r \<in> rowsBetween ins a b. covers env (dbIds (?f (Db m))) r"
      using ready sub covers_mono unfolding readyUpTo_def by blast
    then show "accounted E ins (?f (Db m)) s" if "a < s" "s \<le> b" for s
      using covered_accounted [OF passLaws_D(1) [OF laws] _ that] by blast
  qed
  then have ev: "evolves E ins (Db m) (Db m1)" if "DbCursor (Db m) = CursorAt a"
    using evolves_runTx [OF laws _ tx] that by simp
  obtain landed m2 where cl: "commitLanded env b m1 = (landed, m2)" by fastforce
  have "evolves E ins (Db m1) (Db m2)"
    using cl cursor_evolves [OF laws, of m1] by (auto simp: commitLanded_def split: prod.splits sum.splits)
  moreover have "DbCursor (Db m) \<noteq> CursorAt a \<and> Db m' = Db (tick env ?p) \<or> DbCursor (Db m) = CursorAt a \<and> (Db m' = Db m1 \<or> Db m' = Db m2)"
    using c tx cl by (auto simp: commit_def commitTx_def split: prod.splits if_splits option.splits txOutcome.splits bool.splits)
  ultimately show ?thesis using ev evolves_tick [OF laws, of ?p] by (auto intro: evolves_trans)
qed

lemma spanLoop_evolves:
  assumes laws: "passLaws E ins env"
  shows "spanLoop fuel k cfg env a b after pending tot m = Some (res, m') \<Longrightarrow>
     \<forall>r \<in> rowsBetween ins a b. behind after r \<longrightarrow> covers env (dbIds (Db m)) r \<or> (\<exists>p. pending = Some p \<and> covers env (batchIds p) r) \<Longrightarrow>
     evolves E ins (Db m) (Db m') \<and> (\<forall>pending' tot'. res = Inr (pending', tot') \<longrightarrow> readyUpTo ins env a b pending' (Db m'))"
proof (induction k arbitrary: after pending tot m)
  case (Suc k)
  note fl = passLaws_D(2) [OF laws] and ku = passLaws_D(3) [OF laws]
  obtain wres m1 where w: "nextWindow fuel cfg env a b after m = Some (wres, m1)"
    using Suc.prems(1) by (auto split: option.splits prod.splits)
  have e1: "evolves E ins (Db m) (Db m1)" using windowLoop_evolves [OF laws] w by (simp add: nextWindow_def)
  then have sub1: "subIds (dbIds (Db m)) (dbIds (Db m1))" by (simp add: evolves_def)
  show ?case
  proof (cases wres)
    case (Inl e)
    then show ?thesis using Suc.prems(1) w e1 by auto
  next
    case (Inr t)
    obtain after' win c where t: "t = (after', win, c)" by (cases t) auto
    have rd: "readSince ins env a b after after' win \<and> (rawRows c = 0 \<longrightarrow> (\<forall>r \<in> rowsBetween ins a b. behind after r))"
      using windowLoop_reads [OF fl ku, of fuel cfg a b after emptyBatch noCounts 0 m after' win c m1 after] w readLimit_fresh [of cfg]
      by (auto simp: nextWindow_def Inr t readSince_def noCounts_def)
    have before: "covers env (dbIds (Db m1)) r \<or> (\<exists>p. pending = Some p \<and> covers env (batchIds p) r)"
      if "r \<in> rowsBetween ins a b" "behind after r" for r
      using Suc.prems(2) that covers_mono [OF _ sub1] by blast
    show ?thesis
    proof (cases "rawRows c = 0")
      case True
      then have "readyUpTo ins env a b pending (Db m1)" using rd before by (simp add: readyUpTo_def)
      moreover have "res = Inr (pending, tot)" "m' = m1" using Suc.prems(1) w True by (simp_all add: Inr t)
      ultimately show ?thesis using e1 by simp
    next
      case False
      obtain pres m2 where wr: "(case pending of None \<Rightarrow> (Inr (), m1) | Some p \<Rightarrow> writeWindow cfg env p m1) = (pres, m2)" by fastforce
      have e2: "evolves E ins (Db m1) (Db m2)" using wr writeWindow_evolves(1) [OF laws] by (auto split: option.splits)
      show ?thesis
      proof (cases pres)
        case (Inl e)
        then show ?thesis using Suc.prems(1) w False wr evolves_trans [OF e1 e2] by (auto simp: Inr t Let_def)
      next
        case ok: (Inr u)
        have stored: "subIds (batchIds p) (dbIds (Db m2))" if "pending = Some p" for p
          using wr that ok writeWindow_evolves(2) [OF laws] by simp
        have "covers env (dbIds (Db m2)) r \<or> (\<exists>p. Some win = Some p \<and> covers env (batchIds p) r)"
          if r: "r \<in> rowsBetween ins a b" "behind after' r" for r
        proof (cases "behind after r")
          case True
          from before [OF r(1) this] e2 stored show ?thesis by (auto simp: evolves_def intro: covers_mono)
        next
          case False
          then have "covers env (batchIds win) r" using rd r unfolding readSince_def by blast
          then show ?thesis by simp
        qed
        moreover have "spanLoop fuel k cfg env a b after' (Some win) (addCounts tot c) m2 = Some (res, m')"
          using Suc.prems(1) w False wr ok by (simp add: Inr t Let_def)
        ultimately show ?thesis using Suc.IH evolves_trans [OF evolves_trans [OF e1 e2]] by blast
      qed
    qed
  qed
qed simp

lemma spanLoop_counts:
  "spanLoop fuel k cfg env a b after pending tot m = Some (Inr (pending', tot'), m') \<Longrightarrow>
     pending = None \<or> 0 < rawRows tot \<Longrightarrow> pending' = None \<or> 0 < rawRows tot'"
proof (induction k arbitrary: after pending tot m)
  case (Suc k)
  obtain t m1 where w: "nextWindow fuel cfg env a b after m = Some (Inr t, m1)"
    using Suc.prems(1) by (auto split: option.splits prod.splits sum.splits)
  obtain after' win c where t: "t = (after', win, c)" by (cases t) auto
  show ?case
  proof (cases "rawRows c = 0")
    case False
    then obtain m2 where "spanLoop fuel k cfg env a b after' (Some win) (addCounts tot c) m2 = Some (Inr (pending', tot'), m')"
      using Suc.prems(1) w by (auto simp: t Let_def split: prod.splits sum.splits)
    from Suc.IH [OF this] show ?thesis using False by (simp add: addCounts_def)
  qed (use Suc.prems w in \<open>simp add: t\<close>)
qed simp

lemma span_evolves:
  assumes laws: "passLaws E ins env" and d: "decodeAndWriteSpan fuel cfg env a b m = Some (res, m')"
  shows "evolves E ins (Db m) (Db m')"
    and "res = Inr c \<Longrightarrow> rawRows c = 0 \<Longrightarrow> \<forall>r \<in> rowsBetween ins a b. covers env (dbIds (Db m')) r"
proof -
  obtain sres m1 where sl: "spanLoop fuel fuel cfg env a b None None noCounts m = Some (sres, m1)"
    using d by (auto simp: decodeAndWriteSpan_def split: option.splits prod.splits)
  have s: "evolves E ins (Db m) (Db m1)" "\<And>p t. sres = Inr (p, t) \<Longrightarrow> readyUpTo ins env a b p (Db m1)"
    using spanLoop_evolves [OF laws sl] by (auto simp: behind_def)
  have both: "evolves E ins (Db m) (Db m') \<and>
      (\<forall>c. res = Inr c \<longrightarrow> rawRows c = 0 \<longrightarrow> (\<forall>r \<in> rowsBetween ins a b. covers env (dbIds (Db m')) r))"
  proof (cases sres)
    case (Inl e)
    then show ?thesis using d sl s(1) by (auto simp: decodeAndWriteSpan_def)
  next
    case (Inr t)
    obtain p tot where t: "t = (p, tot)" by (cases t)
    have ready: "readyUpTo ins env a b p (Db m1)" by (rule s(2)) (simp add: Inr t)
    show ?thesis
    proof (cases p)
      case None
      then show ?thesis using d sl s(1) ready by (auto simp: decodeAndWriteSpan_def Inr t readyUpTo_def)
    next
      case (Some win)
      obtain cres m2 where cm: "commit cfg env win a b m1 = (cres, m2)" by fastforce
      have "evolves E ins (Db m1) (Db m2)" using commit_evolves [OF laws _ cm] ready by (simp add: Some)
      moreover have "0 < rawRows tot" using spanLoop_counts [of fuel fuel cfg env a b None None noCounts m p tot m1] sl by (simp add: Inr t Some)
      ultimately show ?thesis
        using d sl cm evolves_trans [OF s(1)] by (auto simp: decodeAndWriteSpan_def Inr t Some split: sum.splits)
    qed
  qed
  then show "evolves E ins (Db m) (Db m')" by blast
  show "res = Inr c \<Longrightarrow> rawRows c = 0 \<Longrightarrow> \<forall>r \<in> rowsBetween ins a b. covers env (dbIds (Db m')) r" using both by blast
qed

subsection \<open>A pass\<close>

lemma tryReport_evolves:
  assumes "passLaws E ins env" "tryReportProgress env snap m = (ok, m')"
  shows "evolves E ins (Db m) (Db m')"
proof -
  have "evolves E ins (Db m) ((Db m)\<lparr>DbConsumerProgress := Some snap\<rparr>)" by (rule evolves_grow) (simp_all add: dbIds_def)
  then show ?thesis using evolves_runTx [OF assms(1), of m "\<lambda>d. d\<lparr>DbConsumerProgress := Some snap\<rparr>"] assms(2)
    by (auto simp: tryReportProgress_def split: prod.splits option.splits)
qed

lemma report_evolves:
  assumes laws: "passLaws E ins env"
  shows "evolves E ins (Db m) (Db (reportProgressNow env snap m))" "evolves E ins (Db m) (Db (maybeReportProgress env snap m))"
proof -
  obtain ok m1 where t: "tryReportProgress env snap (stampReport env m) = (ok, m1)" by fastforce
  have "evolves E ins (Db m) (Db m1)" using tryReport_evolves [OF laws t] by simp
  then show "evolves E ins (Db m) (Db (reportProgressNow env snap m))" "evolves E ins (Db m) (Db (maybeReportProgress env snap m))"
    using t by (auto simp: reportProgressNow_def maybeReportProgress_def reportAndRecord_def split: bool.splits)
qed

lemma evolves_cas:
  assumes "\<And>s. a < s \<Longrightarrow> s \<le> b \<Longrightarrow> accounted E ins d s"
  shows "evolves E ins d (casCursor a b d)"
proof (cases "DbCursor d = CursorAt a")
  case True
  show ?thesis
  proof (rule evolves_advance [OF True, of _ b])
    show "accounted E ins (casCursor a b d) s" if "a < s" "s \<le> b" for s
      using accounted_mono [OF assms [OF that]] by simp
  qed (simp_all add: casCursor_def True dbIds_def)
qed (simp add: casCursor_def)

lemma recover_evolves:
  assumes laws: "passLaws E ins env" and r: "maybeRecoverExpired env cur m = (res, m')"
  shows "evolves E ins (Db m) (Db m')"
proof -
  obtain ores m1 where os: "oldestSnapshot env m = (ores, m1)" by fastforce
  have m1: "m1 = tick env m" using os by (auto simp: oldestSnapshot_def split: sum.splits option.splits)
  have e1: "evolves E ins (Db m) (Db m1)" unfolding m1 by (rule evolves_tick [OF laws])
  show ?thesis
  proof (cases ores)
    case (Inl e)
    then show ?thesis using r os e1 by (simp add: maybeRecoverExpired_def)
  next
    case (Inr oldest)
    have "accounted E ins (Db m1) s" if "s \<le> oldest - 1" for s
    proof (cases "s \<le> 0")
      case True
      then show ?thesis using passLaws_D(4) [OF laws] by (simp add: accounted_def)
    next
      case False
      then have "Oldest env (Ncalls m) = Inr (Some oldest)"
        using os that by (auto simp: oldestSnapshot_def Inr split: sum.splits option.splits)
      then have "expired E s" using passLaws_D(1) [OF laws] that unfolding expired_def by (intro bexI [of _ env] exI) auto
      then show ?thesis by (simp add: accounted_def)
    qed
    then have cas: "evolves E ins (Db m1) (casCursor cur (oldest - 1) (Db m1))" by (intro evolves_cas) simp
    obtain e m2 where tx: "runTx env (casCursor cur (oldest - 1)) m1 = (e, m2)" by fastforce
    have e2: "evolves E ins (Db m) (Db m2)" by (rule evolves_trans [OF e1 evolves_runTx [OF laws cas tx]])
    have "Db m' = Db m1 \<or> Db m' = Db m2 \<or> Db m' = Db (reportProgressNow env (oldest - 1) m2)"
      using r os tx by (auto simp: maybeRecoverExpired_def Inr split: if_splits option.splits)
    then show ?thesis using e1 e2 evolves_trans [OF e2 report_evolves(1) [OF laws]] by (elim disjE) simp_all
  qed
qed

lemma chunk_evolves:
  assumes laws: "passLaws E ins env" and p: "processChunk fuel cfg env cur head m = Some (res, m')"
  shows "evolves E ins (Db m) (Db m')"
proof -
  let ?to = "chunkEnd cfg cur head"
  obtain dres m1 where d: "decodeAndWriteSpan fuel cfg env cur ?to m = Some (dres, m1)"
    using p by (auto simp: processChunk_def Let_def split: option.splits prod.splits)
  note e1 = span_evolves(1) [OF laws d]
  show ?thesis
  proof (cases dres)
    case (Inl e)
    obtain rres m2 where r: "maybeRecoverExpired env cur m1 = (rres, m2)" by fastforce
    have "Db m' = Db m1 \<or> Db m' = Db m2"
      using p d r by (auto simp: processChunk_def Let_def Inl split: if_splits option.splits)
    then show ?thesis using e1 evolves_trans [OF e1 recover_evolves [OF laws r]] by (elim disjE) simp_all
  next
    case (Inr c)
    obtain e m2 where tx: "runTx env (casCursor cur ?to) m1 = (e, m2)" by fastforce
    have adv: "evolves E ins (Db m1) (Db m2)" if "rawRows c = 0"
    proof (rule evolves_runTx [OF laws evolves_cas tx])
      show "accounted E ins (Db m1) s" if "cur < s" "s \<le> ?to" for s
        by (rule covered_accounted [OF passLaws_D(1) [OF laws] span_evolves(2) [OF laws d Inr \<open>rawRows c = 0\<close>] that])
    qed
    have "Db m' = Db (maybeReportProgress env ?to m1) \<or> Db m' = Db (reportProgressNow env cur m1) \<or> rawRows c = 0 \<and> Db m' = Db m2"
      using p d tx by (auto simp: processChunk_def advanceCursor_def Let_def Inr split: if_splits option.splits sum.splits)
    then show ?thesis
      using evolves_trans [OF e1 report_evolves(1) [OF laws]] evolves_trans [OF e1 report_evolves(2) [OF laws]] evolves_trans [OF e1] adv
      by (elim disjE conjE) simp_all
  qed
qed

lemma chunkLoop_evolves:
  assumes laws: "passLaws E ins env"
  shows "chunkLoop fuel k cfg env cur head m = Some (res, m') \<Longrightarrow> evolves E ins (Db m) (Db m')"
proof (induction k arbitrary: cur m)
  case (Suc k)
  obtain cres m1 where c: "processChunk fuel cfg env cur head m = Some (cres, m1)"
    using Suc.prems by (auto split: option.splits prod.splits)
  from chunk_evolves [OF laws c] Suc c show ?case
    by (cases cres) (auto intro: evolves_trans)
qed simp

lemma pass_evolves:
  assumes laws: "passLaws E ins env" and r: "RunOnce fuel cfg env m = Some (res, m')"
  shows "evolves E ins (Db m) (Db m')"
proof -
  let ?m = "tick env m"
  obtain cres m1 where c: "cursor env ?m = (cres, m1)" by fastforce
  note t = evolves_tick [OF laws, of m]
  note e1 = evolves_trans [OF t cursor_evolves [OF laws c]]
  note e2 = evolves_trans [OF e1 evolves_tick [OF laws]]
  have h: "snd (snapshotHead env m1) = tick env m1"
    by (auto simp: snapshotHead_def split: sum.splits option.splits)
  have "Db m' = Db ?m \<or> Db m' = Db m1 \<or> Db m' = Db (tick env m1) \<or> (\<exists>cur. Db m' = Db (reportProgressNow env cur (tick env m1)))
     \<or> (\<exists>cur head. chunkLoop fuel fuel cfg env cur head (tick env m1) = Some (res, m'))"
    using r c h by (auto simp: RunOnce_def split: sum.splits bool.splits prod.splits if_splits)
  then show ?thesis
    using t e1 e2 evolves_trans [OF e2 report_evolves(1) [OF laws]] evolves_trans [OF e2 chunkLoop_evolves [OF laws]] by (elim disjE exE) simp_all
qed

subsection \<open>Runs\<close>

text \<open>
  The writer's life: passes with any environment of \<open>E\<close>, and restarts, which lose the memory. A
  process that dies inside a pass leaves the tables as a pass does whose remaining calls fail, so a
  crash is such a pass followed by a restart.
\<close>

inductive writerRun :: "spanEnv set \<Rightarrow> matCfg \<Rightarrow> mat \<Rightarrow> mat \<Rightarrow> bool" for E cfg where
  start: "writerRun E cfg m m"
| pass: "writerRun E cfg m m1 \<Longrightarrow> env \<in> E \<Longrightarrow> RunOnce fuel cfg env m1 = Some (res, m2) \<Longrightarrow> writerRun E cfg m m2"
| restart: "writerRun E cfg m m1 \<Longrightarrow> Db m2 = Db m1 \<Longrightarrow> writerRun E cfg m m2"

lemma run_evolves:
  "writerRun E cfg m m' \<Longrightarrow> \<forall>env \<in> E. passLaws E ins env \<Longrightarrow> evolves E ins (Db m) (Db m')"
proof (induction rule: writerRun.induct)
  case (pass m m1 env fuel res m2)
  then have "evolves E ins (Db m1) (Db m2)" using pass_evolves by blast
  then show ?case using pass by (auto intro: evolves_trans)
qed simp_all

text \<open>
  C1. No raw row is lost. After any sequence of passes and restarts, with any failing calls,
  lost acknowledgements and other writers of the same kind, every raw row of a snapshot at or below
  the cursor is accounted for: its snapshot had expired, its payload was permanently unreadable, it
  is not of a decoded type, or every row its event decodes to is in the tables.
\<close>

theorem no_raw_row_lost:
  assumes "\<forall>env \<in> E. passLaws E ins env" and "caughtUp E ins (Db m0)" and "writerRun E cfg m0 m"
    and "DbCursor (Db m) = CursorAt c" and "s \<le> c" and "r \<in> set (ins s)"
  shows "expired E s \<or> (\<exists>env \<in> E. covers env (dbIds (Db m)) r)"
proof -
  have "caughtUp E ins (Db m)" using run_evolves [OF assms(3,1)] assms(2) by (simp add: evolves_def)
  then show ?thesis using assms(4-6) by (auto simp: caughtUp_def accounted_def)
qed

subsection \<open>A pass returns\<close>

definition ahead :: "(int \<Rightarrow> rawRow list) \<Rightarrow> int \<Rightarrow> int \<Rightarrow> rawRowKey option \<Rightarrow> rawRow set" where
  "ahead ins a b after = {r \<in> rowsBetween ins a b. \<not> behind after r}"

lemma finite_rowsBetween: "finite (rowsBetween ins a b)" by (simp add: rowsBetween_def)

lemma card_rowsBetween: "a \<le> a' \<Longrightarrow> b' \<le> b \<Longrightarrow> card (rowsBetween ins a' b') \<le> card (rowsBetween ins a b)"
  unfolding rowsBetween_def by (intro card_mono UN_mono) auto

lemma finite_ahead: "finite (ahead ins a b after)" by (simp add: ahead_def finite_rowsBetween)

lemma page_ahead:
  assumes laws: "feedLaws ins env" and f: "Feed env n a b = Inr rows" and ne: "pageOf env after limit rows \<noteq> []"
  shows "ahead ins a b (Some (rowKey (last (pageOf env after limit rows)))) \<subset> ahead ins a b after"
proof -
  let ?l = "last (pageOf env after limit rows)"
  have l: "?l \<in> rowsBetween ins a b" "\<not> behind after ?l"
    using page_sub [OF feedLaws_sort [OF laws], of ?l after limit rows] ne feedLaws_rows [OF laws f] by simp_all
  have "behind (Some (rowKey ?l)) r" if "behind after r" for r
    using that l(2) by (cases after) (auto simp: behind_def)
  moreover have "behind (Some (rowKey ?l)) ?l" by (simp add: behind_def)
  ultimately show ?thesis using l by (auto simp: ahead_def)
qed

lemma windowLoop_returns:
  assumes laws: "feedLaws ins env"
  shows "card (ahead ins a b after) < fuel \<Longrightarrow> \<exists>res. windowLoop fuel cfg env a b after win c bytes m = Some res"
proof (induction fuel arbitrary: after win c bytes m)
  case (Suc fuel)
  show ?case
  proof (cases "readLimit cfg c")
    case (Some limit)
    obtain r m1 where rd: "readDeltaWindow env a b after limit m = (r, m1)" by fastforce
    show ?thesis
    proof (cases r)
      case (Inr t)
      obtain evs k got where t: "t = (evs, k, got)" by (cases t) auto
      obtain rows where f: "Feed env (Ncalls m) a b = Inr rows" "got = length (pageOf env after limit rows)"
        "pageOf env after limit rows \<noteq> [] \<Longrightarrow> k = Some (rowKey (last (pageOf env after limit rows)))"
        using rd by (auto simp: Inr t elim: readDelta_cases)
      have "card (ahead ins a b k) < fuel" if "got \<noteq> 0"
      proof -
        have ne: "pageOf env after limit rows \<noteq> []" using that f(2) by auto
        have "card (ahead ins a b k) < card (ahead ins a b after)"
          unfolding f(3) [OF ne] by (rule psubset_card_mono [OF finite_ahead page_ahead [OF laws f(1) ne]])
        then show ?thesis using Suc.prems by simp
      qed
      then show ?thesis using Suc.IH [of k] Some rd by (auto simp: Inr t Let_def)
    qed (use Some rd in simp)
  qed simp
qed simp

lemma windowLoop_ahead:
  assumes laws: "feedLaws ins env"
  shows "windowLoop fuel cfg env a b after win c bytes m = Some (Inr (after', win', c'), m') \<Longrightarrow>
     ahead ins a b after' \<subseteq> ahead ins a b after \<and> (rawRows c' \<noteq> rawRows c \<longrightarrow> ahead ins a b after' \<subset> ahead ins a b after)"
proof (induction fuel arbitrary: after win c bytes m)
  case (Suc fuel)
  show ?case
  proof (cases "readLimit cfg c")
    case None
    then show ?thesis using Suc.prems by simp
  next
    case (Some limit)
    from Suc.prems Some show ?thesis
    proof (cases rule: windowLoop_page)
      case (2 rows evs)
      let ?k = "Some (rowKey (last (pageOf env after limit rows)))"
      have "ahead ins a b ?k \<subset> ahead ins a b after" by (rule page_ahead [OF laws 2(1,3)])
      moreover have "ahead ins a b after' \<subseteq> ahead ins a b ?k" using 2(4) Suc.IH unfolding Let_def by blast
      ultimately show ?thesis by blast
    qed simp
  qed
qed simp

lemma spanLoop_returns:
  assumes laws: "feedLaws ins env" and fuel: "card (rowsBetween ins a b) < fuel"
  shows "card (ahead ins a b after) < k \<Longrightarrow> \<exists>res. spanLoop fuel k cfg env a b after pending tot m = Some res"
proof (induction k arbitrary: after pending tot m)
  case (Suc k)
  have "card (ahead ins a b after) \<le> card (rowsBetween ins a b)"
    by (rule card_mono [OF finite_rowsBetween]) (auto simp: ahead_def)
  then obtain wres m1 where w: "nextWindow fuel cfg env a b after m = Some (wres, m1)"
    using windowLoop_returns [OF laws, of a b after fuel] fuel by (fastforce simp: nextWindow_def)
  show ?case
  proof (cases wres)
    case (Inr t)
    obtain after' win c where t: "t = (after', win, c)" by (cases t) auto
    have "card (ahead ins a b after') < k" if "rawRows c \<noteq> 0"
      using windowLoop_ahead [OF laws, of fuel cfg a b after emptyBatch noCounts 0 m after' win c m1] w that Suc.prems
        psubset_card_mono [OF finite_ahead, of "ahead ins a b after'" ins a b after]
      by (simp add: nextWindow_def Inr t noCounts_def)
    then show ?thesis using Suc.IH [of after'] w
      by (cases "rawRows c = 0") (auto simp: Inr t Let_def split: prod.splits sum.splits)
  qed (use w in simp)
qed simp

lemma chunk_returns:
  assumes laws: "feedLaws ins env" and fuel: "card (rowsBetween ins cur head) < fuel" and "cur < head"
  shows "\<exists>res m'. processChunk fuel cfg env cur head m = Some (res, m') \<and> (\<forall>c. res = GoOn c \<longrightarrow> cur < c \<and> c < head)"
proof -
  let ?to = "chunkEnd cfg cur head"
  have to: "cur < ?to" "?to \<le> head" using assms(3) by (auto simp: chunkEnd_def)
  have "card (rowsBetween ins cur ?to) \<le> card (rowsBetween ins cur head)"
    using to by (intro card_rowsBetween) simp_all
  then have f: "card (rowsBetween ins cur ?to) < fuel" using fuel by simp
  have "ahead ins cur ?to None = rowsBetween ins cur ?to" by (simp add: ahead_def behind_def)
  then obtain res m1 where "spanLoop fuel fuel cfg env cur ?to None None noCounts m = Some (res, m1)"
    using spanLoop_returns [OF laws f, of None fuel] f by fastforce
  then have "\<exists>dres m2. decodeAndWriteSpan fuel cfg env cur ?to m = Some (dres, m2)"
    by (auto simp: decodeAndWriteSpan_def split: option.splits prod.splits sum.splits)
  then obtain dres m2 where d: "decodeAndWriteSpan fuel cfg env cur ?to m = Some (dres, m2)" by blast
  show ?thesis
    by (cases dres) (use d to in \<open>auto simp: processChunk_def Let_def split: option.splits prod.splits sum.splits if_splits\<close>)
qed

lemma chunkLoop_returns:
  assumes laws: "feedLaws ins env"
  shows "card (rowsBetween ins cur head) < fuel \<Longrightarrow> nat (head - cur) < k \<Longrightarrow> cur < head \<Longrightarrow>
     \<exists>res. chunkLoop fuel k cfg env cur head m = Some res"
proof (induction k arbitrary: cur m)
  case (Suc k)
  obtain res m' where c: "processChunk fuel cfg env cur head m = Some (res, m')" "\<And>c. res = GoOn c \<Longrightarrow> cur < c \<and> c < head"
    using chunk_returns [OF laws Suc.prems(1,3)] by blast
  show ?case
  proof (cases res)
    case (GoOn c)
    have n: "cur < c" "c < head" using c(2) GoOn by auto
    have "card (rowsBetween ins c head) \<le> card (rowsBetween ins cur head)"
      using n by (intro card_rowsBetween) simp_all
    then show ?thesis using Suc.IH [of c m'] Suc.prems n c(1) by (simp add: GoOn)
  qed (use c in simp)
qed simp

lemma pass_bound:
  assumes "feedLaws ins env"
  shows "\<exists>bound. \<forall>fuel \<ge> bound. \<exists>res m'. RunOnce fuel cfg env m = Some (res, m')"
proof -
  obtain cres m1 where c: "cursor env (tick env m) = (cres, m1)" by fastforce
  obtain hres m2 where h: "snapshotHead env m1 = (hres, m2)" by fastforce
  show ?thesis
  proof (cases "\<exists>cur head. cres = Inr cur \<and> hres = Inr head \<and> cur < head")
    case True
    then obtain cur head where e: "cres = Inr cur" "hres = Inr head" "cur < head" by blast
    have "\<exists>res m'. RunOnce fuel cfg env m = Some (res, m')"
      if "Suc (card (rowsBetween ins cur head) + nat (head - cur)) \<le> fuel" for fuel
    proof -
      have "card (rowsBetween ins cur head) < fuel" "nat (head - cur) < fuel" using that by simp_all
      then obtain r where "chunkLoop fuel fuel cfg env cur head m2 = Some r"
        using chunkLoop_returns [OF assms _ _ e(3)] by blast
      then show ?thesis using c h e by (cases r) (auto simp: RunOnce_def split: sum.splits bool.splits)
    qed
    then show ?thesis by blast
  next
    case False
    then show ?thesis using c h by (intro exI [of _ 0]) (auto simp: RunOnce_def split: sum.splits bool.splits)
  qed
qed

text \<open>
  C18. A pass returns. For every state, configuration and behaviour of the calls there is a bound
  from which on the pass ends with a result, whatever the window and span limits are.
\<close>

theorem pass_returns:
  assumes "feedLaws ins env"
  shows "\<exists>bound. \<forall>fuel \<ge> bound. \<exists>res m'. RunOnce fuel cfg env m = Some (res, m')"
  using assms by (rule pass_bound)

subsection \<open>A concrete run\<close>

definition demoDb :: lakeDb where
  "demoDb = \<lparr>DbSignals = [], DbEvents = [], DbSignalsLatest = [], DbEventsLatest = [], DbShadow = None, DbLateSubjects = [],
     DbCursor = CursorAt 0, DbWatermark = NoWatermark, DbConsumerProgress = None\<rparr>"

definition demoMat :: mat where
  "demoMat = \<lparr>Db = demoDb, Ncalls = 0, dirtySubjects = {}, rollupFullRebuild = False, dirtyEventSubjects = {},
     eventRollupFullRebuild = False, dailyWatermark = zeroTime, dailyStateLoaded = False, dailyLateSeen = {},
     lastProgressReport = zeroTime, lastReportedSnapshot = 0, Published = [], SettledBatches = 0\<rparr>"

definition demoCfg :: matCfg where
  "demoCfg = \<lparr>maxSnapshotSpan = 16, windowByteBudget = 0, maxRowsPerWindow = 0, backfillMode = False,
     maxDirtySubjects = 10, dailyMode = DailyRollupOff, dailyDelay = 0, HasLatestPub = False\<rparr>"

definition demoIns :: "int \<Rightarrow> rawRow list" where
  "demoIns s = (if s = 1 then [(demo_event, [])] else [])"

text \<open>A feed that never fails; a key that is an injective code of subject, time and id.\<close>

definition demoEnv :: spanEnv where
  "demoEnv = \<lparr>Tx = \<lambda>_. TxOk, Rd = \<lambda>_. None, Others = \<lambda>_ d. d, Clock = \<lambda>_. 100, Pick = hd, PickEvent = hd,
     RawEventsExist = \<lambda>_. Inr True, Head = \<lambda>_. Inr (Some 1), Oldest = \<lambda>_. Inr (Some 1),
     Feed = \<lambda>_ a b. Inr (concat (map demoIns [a + 1..b])), OrderBy = sort_key rowKey, BlobStore = None, BlobCipher = None,
     IsSealed = \<lambda>_. False, DecodeAt = \<lambda>_. demo_decodeEnv, RawKey = \<lambda>ev. replicate (to_nat (rowKey (ev, []))) (CHR ''x''),
     Vehicles = \<lparr>ChainID = 0, VehicleNFTAddress = 0, DecodeERC721DID = \<lambda>_. Inl (Err [])\<rparr>\<rparr>"

lemma demo_feedLaws: "feedLaws demoIns demoEnv"
  unfolding feedLaws_def
proof (intro conjI allI impI)
  show "slice_sort rowKey (OrderBy demoEnv)" by (simp add: demoEnv_def slice_sort_sort_key)
next
  fix n a b rows assume "Feed demoEnv n a b = Inr rows"
  then show "set rows = rowsBetween demoIns a b" unfolding rowsBetween_def atLeastPlusOneAtMost_greaterThanAtMost_int [symmetric] by (auto simp: demoEnv_def simp del: atLeastAtMost_iff)
next
  fix x y assume "RawKey demoEnv x = RawKey demoEnv y"
  then have "length (RawKey demoEnv x) = length (RawKey demoEnv y)" by simp
  then show "rowKey (x, []) = rowKey (y, [])" by (simp add: demoEnv_def)
qed

lemma demo_passLaws: "passLaws {demoEnv} demoIns demoEnv"
proof -
  have "keysUnique demoIns" by (auto simp: keysUnique_def demoIns_def inj_on_def split: if_splits)
  moreover have "evolves {demoEnv} demoIns d (Others demoEnv n d)" for n d by (simp add: demoEnv_def)
  ultimately show ?thesis using demo_feedLaws by (simp add: passLaws_def demoIns_def)
qed

lemma demo_window:
  "windowLoop (Suc f) demoCfg demoEnv 0 1 None emptyBatch noCounts 0 m =
     Some (Inr (Some (rowKey (demo_event, [])), appendDecoded emptyBatch (decodePage demoEnv (Ncalls (tick demoEnv m)) [demo_event]),
        addPage (decodePage demoEnv (Ncalls (tick demoEnv m)) [demo_event]) [demo_event] 1 noCounts), tick demoEnv m)"
  "windowLoop (Suc f) demoCfg demoEnv 0 1 (Some (rowKey (demo_event, []))) emptyBatch noCounts 0 m
     = Some (Inr (Some (rowKey (demo_event, [])), emptyBatch, noCounts), tick demoEnv m)"
proof -
  have l: "readLimit demoCfg noCounts = Some windowReadChunk" by (simp add: readLimit_def demoCfg_def)
  have feed: "Feed demoEnv n 0 1 = Inr [(demo_event, [])]" for n by (simp add: demoEnv_def demoIns_def)
  have "pageOf demoEnv None windowReadChunk [(demo_event, [])] = [(demo_event, [])]"
    by (simp add: pageOf_filter behind_def demoEnv_def windowReadChunk_def)
  moreover have "resolveBlobs demoEnv n [(demo_event, [])] = Inr [demo_event]" for n
    by (simp add: resolveRow_def resolveBlob_def demo_event_def)
  ultimately have "readDeltaWindow demoEnv 0 1 None windowReadChunk m
      = (Inr ([demo_event], Some (rowKey (demo_event, [])), 1), tick demoEnv m)"
    by (simp add: readDeltaWindow_def feed)
  then show "windowLoop (Suc f) demoCfg demoEnv 0 1 None emptyBatch noCounts 0 m =
     Some (Inr (Some (rowKey (demo_event, [])), appendDecoded emptyBatch (decodePage demoEnv (Ncalls (tick demoEnv m)) [demo_event]),
        addPage (decodePage demoEnv (Ncalls (tick demoEnv m)) [demo_event]) [demo_event] 1 noCounts), tick demoEnv m)"
    by (simp add: l Let_def windowReadChunk_def)
  have "pageOf demoEnv (Some (rowKey (demo_event, []))) windowReadChunk [(demo_event, [])] = []"
    by (simp add: pageOf_filter behind_def demoEnv_def)
  then have "readDeltaWindow demoEnv 0 1 (Some (rowKey (demo_event, []))) windowReadChunk m = (Inr ([], None, 0), tick demoEnv m)"
    by (simp add: readDeltaWindow_def feed)
  then show "windowLoop (Suc f) demoCfg demoEnv 0 1 (Some (rowKey (demo_event, []))) emptyBatch noCounts 0 m
     = Some (Inr (Some (rowKey (demo_event, [])), emptyBatch, noCounts), tick demoEnv m)"
    by (simp add: l Let_def)
qed

lemma demo_tick: "tick demoEnv m = m\<lparr>Ncalls := Suc (Ncalls m)\<rparr>"
  by (simp add: tick_def demoEnv_def)

lemma demo_calls: "Tx demoEnv n = TxOk" "DbCursor demoDb = CursorAt 0"
  by (simp_all add: demoEnv_def demoDb_def)

lemma demo_pass: "\<exists>m. RunOnce 3 demoCfg demoEnv demoMat = Some (Inr 1, m) \<and> DbCursor (Db m) = CursorAt 1"
proof -
  let ?t = "\<lambda>m. tick demoEnv m"
  let ?m2 = "?t (?t (?t demoMat))"
  have cur: "cursor demoEnv (?t demoMat) = (Inr 0, ?t (?t demoMat))"
    by (simp add: cursor_def readCall_def demo_tick demoMat_def demoDb_def) (simp add: demoEnv_def)
  have hd: "snapshotHead demoEnv (?t (?t demoMat)) = (Inr 1, ?m2)" by (simp add: snapshotHead_def) (simp add: demoEnv_def)
  have end_1: "chunkEnd demoCfg 0 1 = 1" by (simp add: chunkEnd_def demoCfg_def)
  let ?d = "decodePage demoEnv (Ncalls (?t ?m2)) [demo_event]"
  let ?w = "appendDecoded emptyBatch ?d" and ?c = "addCounts noCounts (addPage ?d [demo_event] 1 noCounts)"
  have n0: "rawRows noCounts = 0" and n1: "rawRows (addPage ?d [demo_event] (Suc 0) noCounts) = Suc 0"
    by (simp_all add: addPage_def noCounts_def)
  have sl: "spanLoop 3 3 demoCfg demoEnv 0 1 None None noCounts ?m2 = Some (Inr (Some ?w, ?c), ?t (?t ?m2))"
    unfolding numeral_3_eq_3 using n0 n1 by (simp add: nextWindow_def demo_window del: windowLoop.simps)
  let ?m4 = "?t (?t ?m2)"
  have db4: "Db ?m4 = demoDb" by (simp add: demo_tick demoMat_def)
  obtain m5 where cm: "commit demoCfg demoEnv ?w 0 1 ?m4 = (Inr (), m5)" "DbCursor (Db m5) = CursorAt 1"
  proof -
    have "commitTx demoCfg demoEnv ?w 0 1 (publishLatest demoCfg ?w ?m4) = (Inr (), markDirtyFromBatch demoCfg ?w (?t
        ((publishLatest demoCfg ?w ?m4)\<lparr>Db := casCursor 0 1 (insertDecodedSteady demoCfg (nowAt demoEnv (publishLatest demoCfg ?w ?m4))
            (publishLatest demoCfg ?w ?m4) ?w demoDb)\<rparr>)))"
      by (simp add: commitTx_def runTx_def db4 demo_calls)
    then show thesis
      by (intro that) (auto simp: commit_def demo_tick casCursor_def insert_frame demoDb_def)
  qed
  have dw: "decodeAndWriteSpan 3 demoCfg demoEnv 0 1 ?m2 = Some (Inr ?c, m5)"
    by (simp add: decodeAndWriteSpan_def sl cm)
  have c1: "rawRows ?c = 1" by (simp add: addCounts_def addPage_def noCounts_def)
  have report: "DbCursor (Db (maybeReportProgress demoEnv 1 m5)) = CursorAt 1"
    using cm(2) by (simp add: maybeReportProgress_def reportAndRecord_def tryReportProgress_def runTx_def stampReport_def demo_tick
        split: txOutcome.splits option.splits prod.splits)
  have "processChunk 3 demoCfg demoEnv 0 1 ?m2 = Some (Done (Inr 1), maybeReportProgress demoEnv 1 m5)"
    using c1 by (simp add: processChunk_def end_1 dw)
  then have "chunkLoop 3 3 demoCfg demoEnv 0 1 ?m2 = Some (Inr 1, maybeReportProgress demoEnv 1 m5)" by (simp add: numeral_3_eq_3)
  moreover have "RawEventsExist demoEnv (Ncalls demoMat) = Inr True" by (simp add: demoEnv_def)
  ultimately have "RunOnce 3 demoCfg demoEnv demoMat = Some (Inr 1, maybeReportProgress demoEnv 1 m5)"
    by (simp add: RunOnce_def cur hd)
  then show ?thesis using report by blast
qed

theorem no_raw_row_lost_witness:
  "\<exists>m. writerRun {demoEnv} demoCfg demoMat m \<and> (expired {demoEnv} 1 \<or> (\<exists>env \<in> {demoEnv}. covers env (dbIds (Db m)) (demo_event, [])))"
proof -
  obtain m where m: "RunOnce 3 demoCfg demoEnv demoMat = Some (Inr 1, m)" "DbCursor (Db m) = CursorAt 1" using demo_pass by blast
  have run: "writerRun {demoEnv} demoCfg demoMat m" by (rule writerRun.pass [OF writerRun.start _ m(1)]) simp
  have "caughtUp {demoEnv} demoIns (Db demoMat)" by (simp add: caughtUp_def accounted_def demoMat_def demoDb_def demoIns_def)
  moreover have "\<forall>env \<in> {demoEnv}. passLaws {demoEnv} demoIns env" using demo_passLaws by simp
  moreover have "(demo_event, []) \<in> set (demoIns 1)" by (simp add: demoIns_def)
  ultimately have "expired {demoEnv} 1 \<or> (\<exists>env \<in> {demoEnv}. covers env (dbIds (Db m)) (demo_event, []))"
    using no_raw_row_lost [OF _ _ run m(2) order_refl] by blast
  then show ?thesis using run by blast
qed

theorem pass_returns_witness: "\<exists>bound. \<exists>res m'. RunOnce bound demoCfg demoEnv demoMat = Some (res, m')"
  using pass_returns [OF demo_feedLaws, of demoCfg demoMat] by blast

end
