(* ===== verification/Mat_Stored_Once.thy ===== *)
theory Mat_Stored_Once
  imports Mat_Exactly_Once
begin

section \<open>No identity twice, and the order of publish and commit (internal/materializer/ducklake.go)\<close>

text \<open>
  The second half of the exactly-once claim: with one writer, an identity (bucket, time, event id
  and name) is stored at most once, as long as its time stays within the probe floor of the clock
  and the decoder yields it for one row of the feed, once. The conditions are on that one identity;
  other rows may be older, or collide. What happens to an older one is \<open>old_replay_stored_twice\<close>. Also
  here: what happens when two rows of the feed share the pagination key.
\<close>

subsection \<open>One identity in one batch\<close>

definition crIds :: "rowKind \<Rightarrow> convResult \<Rightarrow> rowIdent list" where
  "crIds k c = (case k of SignalRows \<Rightarrow> map signalIdent (CrSignals c) | EventRows \<Rightarrow> map eventIdent (CrEvents c))"

text \<open>
  The identity \<open>x\<close> is decoded from at most one row of the feed, and from its event once.
\<close>

definition yieldedOnce :: "rowKind \<Rightarrow> (int \<Rightarrow> rawRow list) \<Rightarrow> spanEnv \<Rightarrow> rowIdent \<Rightarrow> bool" where
  "yieldedOnce k ins env x =
     ((\<forall>s. \<forall>r \<in> set (ins s). \<forall>n j ev. resolveRow env n r = Kept ev \<longrightarrow> count_list (crIds k (convertJob (DecodeAt env j) ev)) x \<le> 1)
    \<and> (\<forall>s s'. \<forall>r \<in> set (ins s). \<forall>r' \<in> set (ins s'). r \<noteq> r' \<longrightarrow> (\<forall>n n' j j' ev ev'.
         resolveRow env n r = Kept ev \<longrightarrow> resolveRow env n' r' = Kept ev' \<longrightarrow>
         \<not> (x \<in> set (crIds k (convertJob (DecodeAt env j) ev)) \<and> x \<in> set (crIds k (convertJob (DecodeAt env j') ev'))))))"

text \<open>Its time is never more than the probe floor behind the clock.\<close>

definition young :: "spanEnv \<Rightarrow> rowIdent \<Rightarrow> bool" where
  "young env x = (\<forall>n. Clock env n - dedupProbeFloor \<le> fst (snd x))"

lemma yieldedOnce_count:
  assumes "yieldedOnce k ins env x" "r \<in> rowsBetween ins a b" "resolveRow env n r = Kept ev"
  shows "count_list (crIds k (convertJob (DecodeAt env j) ev)) x \<le> 1"
  using assms unfolding yieldedOnce_def rowsBetween_def by blast

lemma yieldedOnce_row:
  assumes "yieldedOnce k ins env x" "r \<in> rowsBetween ins a b" "r' \<in> rowsBetween ins a b" "r \<noteq> r'"
    "resolveRow env n r = Kept ev" "resolveRow env n' r' = Kept ev'" "x \<in> set (crIds k (convertJob (DecodeAt env j) ev))"
  shows "x \<notin> set (crIds k (convertJob (DecodeAt env j') ev'))"
proof -
  obtain s s' where s: "r \<in> set (ins s)" "r' \<in> set (ins s')" using assms(2,3) by (auto simp: rowsBetween_def)
  have "\<forall>s s'. \<forall>r \<in> set (ins s). \<forall>r' \<in> set (ins s'). r \<noteq> r' \<longrightarrow> (\<forall>n n' j j' ev ev'.
         resolveRow env n r = Kept ev \<longrightarrow> resolveRow env n' r' = Kept ev' \<longrightarrow>
         \<not> (x \<in> set (crIds k (convertJob (DecodeAt env j) ev)) \<and> x \<in> set (crIds k (convertJob (DecodeAt env j') ev'))))"
    using assms(1) unfolding yieldedOnce_def by (rule conjunct2)
  then show ?thesis using s assms(4-7) by metis
qed

text \<open>Stored times are whole microseconds, whatever the module returned.\<close>

lemma job_micro:
  "r \<in> set (CrSignals (convertJob e ev)) \<Longrightarrow> SrTimestamp r mod microsecond = 0"
  "x \<in> set (CrEvents (convertJob e ev)) \<Longrightarrow> ErTimestamp x mod microsecond = 0"
proof -
  have m: "Truncate t microsecond mod microsecond = 0" for t by (simp add: Truncate_mod microsecond_def)
  show "r \<in> set (CrSignals (convertJob e ev)) \<Longrightarrow> SrTimestamp r mod microsecond = 0"
    using m by (auto simp: convertJob_def convertSignals_def signalRows_def signalRowFromVSS_def Let_def split: if_splits option.splits)
  show "x \<in> set (CrEvents (convertJob e ev)) \<Longrightarrow> ErTimestamp x mod microsecond = 0"
    using m by (auto simp: convertJob_def convertEvents_def eventRowFromVSS_def split: if_splits option.splits)
qed

lemma crIds_micro: "x \<in> set (crIds k (convertJob e ev)) \<Longrightarrow> fst (snd x) mod microsecond = 0"
  by (cases k) (auto simp: crIds_def signalIdent_def eventIdent_def job_micro)

lemma count_concat:
  assumes "distinct xs" and "\<And>x. x \<in> set xs \<Longrightarrow> count_list (f x) i \<le> 1"
    and "\<And>x y. x \<in> set xs \<Longrightarrow> y \<in> set xs \<Longrightarrow> x \<noteq> y \<Longrightarrow> i \<in> set (f x) \<Longrightarrow> i \<notin> set (f y)"
  shows "count_list (concat (map f xs)) i \<le> 1"
  using assms
proof (induction xs)
  case (Cons x xs)
  show ?case
  proof (cases "i \<in> set (f x)")
    case True
    have "i \<notin> set (f y)" if "y \<in> set xs" for y
    proof (rule Cons.prems(3) [OF _ _ _ True])
      show "x \<noteq> y" using Cons.prems(1) that by auto
    qed (use that in simp_all)
    then have "count_list (concat (map f xs)) i = 0" by (simp add: count_list_0_iff)
    then show ?thesis using Cons.prems(2) [of x] by simp
  next
    case False
    then have "count_list (f x) i = 0" by (simp add: count_list_0_iff)
    moreover have "count_list (concat (map f xs)) i \<le> 1" by (rule Cons.IH) (use Cons.prems in auto)
    ultimately show ?thesis by simp
  qed
qed simp

lemma firstOfKeys_distinct: "distinct (map key (firstOfKeys key xs))"
proof (induction key xs rule: firstOfKeys.induct)
  case (2 key x xs)
  have "key x \<notin> key ` set (firstOfKeys key (filter (\<lambda>y. key y \<noteq> key x) xs))"
    using firstOfKeys_sub [of key "filter (\<lambda>y. key y \<noteq> key x) xs"] by auto
  then show ?case using 2 by simp
qed simp

lemma kindIds_append [simp]: "kindIds k (appendDecoded a b) = kindIds k a @ kindIds k b"
  by (cases k) (simp_all add: kindIds_def appendDecoded_def)

lemma kindIds_page:
  "kindIds k (decodePage env j evs) = concat (map (\<lambda>e. crIds k (convertJob (DecodeAt env j) e))
     (filter (decodable (Vehicles env)) (firstOfKeys (RawKey env) evs)))"
  by (cases k) (simp_all add: kindIds_def crIds_def decodePage_def decodeEvents_jobs map_concat comp_def Let_def)

text \<open>When the batch holds the identity, a row of the feed in \<open>S\<close> decodes to it.\<close>

definition fromRows :: "rowKind \<Rightarrow> rowIdent \<Rightarrow> spanEnv \<Rightarrow> rawRow set \<Rightarrow> decodedBatch \<Rightarrow> bool" where
  "fromRows k x env S b = (x \<in> set (kindIds k b) \<longrightarrow>
     (\<exists>r \<in> S. \<exists>n j ev. resolveRow env n r = Kept ev \<and> x \<in> set (crIds k (convertJob (DecodeAt env j) ev))))"

lemma page_jobs:
  assumes evs: "resolveBlobs env n page = Inr evs"
    and job: "ev \<in> set (filter (decodable g) (firstOfKeys key evs))"
  obtains r where "r \<in> set page" "resolveRow env n r = Kept ev"
proof -
  have "ev \<in> set evs" using job firstOfKeys_sub [of key evs] by auto
  then show thesis using resolveBlobs_rows [OF evs] that by blast
qed

lemma page_once:
  assumes once: "yieldedOnce k ins env x" and evs: "resolveBlobs env n page = Inr evs" and sub: "set page \<subseteq> rowsBetween ins a b"
  shows "count_list (kindIds k (decodePage env j evs)) x \<le> 1" and "fromRows k x env (set page) (decodePage env j evs)"
proof -
  let ?jobs = "filter (decodable (Vehicles env)) (firstOfKeys (RawKey env) evs)"
  have src: "\<exists>r \<in> set page. resolveRow env n r = Kept e" if "e \<in> set ?jobs" for e
    using page_jobs [OF evs that] by blast
  have d: "distinct ?jobs" using firstOfKeys_distinct [of "RawKey env" evs] by (simp add: distinct_map)
  show "count_list (kindIds k (decodePage env j evs)) x \<le> 1"
    unfolding kindIds_page
  proof (rule count_concat [OF d])
    fix e assume "e \<in> set ?jobs"
    then show "count_list (crIds k (convertJob (DecodeAt env j) e)) x \<le> 1"
      using src yieldedOnce_count [OF once] sub by blast
  next
    fix e e' assume e: "e \<in> set ?jobs" "e' \<in> set ?jobs" "e \<noteq> e'" "x \<in> set (crIds k (convertJob (DecodeAt env j) e))"
    obtain r r' where r: "r \<in> set page" "resolveRow env n r = Kept e" "r' \<in> set page" "resolveRow env n r' = Kept e'"
      using src [OF e(1)] src [OF e(2)] by blast
    have "r \<noteq> r'" using r(2,4) e(3) by auto
    then show "x \<notin> set (crIds k (convertJob (DecodeAt env j) e'))"
      using yieldedOnce_row [OF once _ _ _ r(2,4) e(4)] r(1,3) sub by blast
  qed
  show "fromRows k x env (set page) (decodePage env j evs)"
    unfolding fromRows_def kindIds_page using src by (fastforce simp del: set_filter)
qed

lemma fromRows_mono: "fromRows k x env S b \<Longrightarrow> S \<subseteq> T \<Longrightarrow> fromRows k x env T b"
  unfolding fromRows_def by (meson subsetD)

lemma fromRows_append:
  "fromRows k x env S a \<Longrightarrow> fromRows k x env S b \<Longrightarrow> fromRows k x env S (appendDecoded a b)"
  by (auto simp: fromRows_def)

lemma once_append:
  assumes once: "yieldedOnce k ins env x" and "count_list (kindIds k p) x \<le> 1" "count_list (kindIds k q) x \<le> 1"
    and rows: "fromRows k x env S p" "fromRows k x env T q" and ST: "S \<inter> T = {}" "S \<union> T \<subseteq> rowsBetween ins a b"
  shows "count_list (kindIds k (appendDecoded p q)) x \<le> 1"
proof -
  have "x \<notin> set (kindIds k p) \<or> x \<notin> set (kindIds k q)"
  proof (rule ccontr)
    assume "\<not> (x \<notin> set (kindIds k p) \<or> x \<notin> set (kindIds k q))"
    then obtain r n j ev r' n' j' ev' where r: "r \<in> S" "resolveRow env n r = Kept ev" "x \<in> set (crIds k (convertJob (DecodeAt env j) ev))"
      "r' \<in> T" "resolveRow env n' r' = Kept ev'" "x \<in> set (crIds k (convertJob (DecodeAt env j') ev'))"
      using rows unfolding fromRows_def by blast
    then show False using yieldedOnce_row [OF once _ _ _ r(2,5,3)] ST by blast
  qed
  then show ?thesis using assms(2,3) by (auto simp: count_list_0_iff)
qed

lemma windowLoop_once:
  assumes fl: "feedLaws ins env" and once: "yieldedOnce k ins env x"
  shows "windowLoop fuel cfg env a b after win c bytes m = Some (Inr (after', win', c'), m') \<Longrightarrow>
     count_list (kindIds k win) x \<le> 1 \<Longrightarrow> fromRows k x env {r \<in> rowsBetween ins a b. behind after r} win \<Longrightarrow>
     count_list (kindIds k win') x \<le> 1 \<and> fromRows k x env (rowsBetween ins a b) win'"
proof (induction fuel arbitrary: after win c bytes m)
  case (Suc fuel)
  have all: "fromRows k x env (rowsBetween ins a b) win" by (rule fromRows_mono [OF Suc.prems(3)]) simp
  show ?case
  proof (cases "readLimit cfg c")
    case None
    then show ?thesis using Suc.prems all by simp
  next
    case (Some limit)
    from Suc.prems(1) Some show ?thesis
    proof (cases rule: windowLoop_page)
      case 1
      then show ?thesis using Suc.prems all by simp
    next
      case (2 rows evs)
      let ?p = "pageOf env after limit rows" and ?d = "decodePage env (Ncalls (tick env m)) evs"
      let ?S = "{r \<in> rowsBetween ins a b. behind after r}" and ?l = "Some (rowKey (last (pageOf env after limit rows)))"
      note srt = feedLaws_sort [OF fl]
      have sub: "set ?p \<subseteq> rowsBetween ins a b" using page_sub(1) [OF srt] feedLaws_rows [OF fl 2(1)] by blast
      note pg = page_once [OF once 2(2) sub]
      have dis: "?S \<inter> set ?p = {}" using page_sub(2) [OF srt] by blast
      have cnt: "count_list (kindIds k (appendDecoded win ?d)) x \<le> 1"
        by (rule once_append [OF once Suc.prems(2) pg(1) Suc.prems(3) pg(2) dis]) (use sub in blast)
      have beh: "?S \<union> set ?p \<subseteq> {r \<in> rowsBetween ins a b. behind ?l r}"
      proof -
        have "behind ?l r" if "r \<in> set ?p" for r using behind_last [OF srt that] by (simp add: behind_def)
        moreover have "behind ?l r" if "behind after r" for r
          using page_sub(2) [OF srt last_in_set [OF 2(3)]] that by (cases after) (auto simp: behind_def)
        ultimately show ?thesis using sub by blast
      qed
      have frm: "fromRows k x env {r \<in> rowsBetween ins a b. behind ?l r} (appendDecoded win ?d)"
        by (rule fromRows_mono [OF fromRows_append beh]) (use fromRows_mono Suc.prems(3) pg(2) in \<open>blast+\<close>)
      from 2(4) consider "win' = appendDecoded win ?d"
        | "windowLoop fuel cfg env a b ?l (appendDecoded win ?d) (addPage ?d evs (length ?p) c)
             (bytes + rawResidentBytes evs) (tick env m) = Some (Inr (after', win', c'), m')"
        unfolding Let_def by blast
      then show ?thesis
      proof cases
        case 1
        then show ?thesis using cnt fromRows_mono [OF frm, of "rowsBetween ins a b"] by blast
      next
        case 2
        then show ?thesis by (rule Suc.IH [OF _ cnt frm])
      qed
    qed
  qed
qed simp

text \<open>A window holds the identity at most once, with a time of whole microseconds.\<close>

definition holdsOnce :: "rowKind \<Rightarrow> rowIdent \<Rightarrow> decodedBatch \<Rightarrow> bool" where
  "holdsOnce k x b = (count_list (kindIds k b) x \<le> 1 \<and> (x \<in> set (kindIds k b) \<longrightarrow> fst (snd x) mod microsecond = 0))"

lemma nextWindow_holdsOnce:
  assumes "feedLaws ins env" "yieldedOnce k ins env x" "nextWindow fuel cfg env a b after m = Some (Inr (after', win, c), m')"
  shows "holdsOnce k x win"
proof -
  have "kindIds k emptyBatch = []" by (cases k) (simp_all add: kindIds_def emptyBatch_def)
  then have "count_list (kindIds k win) x \<le> 1" "fromRows k x env (rowsBetween ins a b) win"
    using windowLoop_once [OF assms(1,2), of fuel cfg a b after emptyBatch noCounts 0 m after' win c m'] assms(3)
    by (simp_all add: nextWindow_def fromRows_def)
  then show ?thesis unfolding holdsOnce_def fromRows_def using crIds_micro by blast
qed

subsection \<open>What a pass keeps\<close>

text \<open>
  A property of the tables that every single statement keeps is kept by a pass, when the insert
  keeps it for the batches the windows yield.
\<close>

definition yieldsGood :: "(decodedBatch \<Rightarrow> bool) \<Rightarrow> matCfg \<Rightarrow> spanEnv \<Rightarrow> bool" where
  "yieldsGood G cfg env = (\<forall>fuel a b after m after' win c m'.
     nextWindow fuel cfg env a b after m = Some (Inr (after', win, c), m') \<longrightarrow> G win)"


definition keptBy :: "(decodedBatch \<Rightarrow> bool) \<Rightarrow> (lakeDb \<Rightarrow> bool) \<Rightarrow> matCfg \<Rightarrow> spanEnv \<Rightarrow> bool" where
  "keptBy G Q cfg env = ((\<forall>n d. Q d \<longrightarrow> Q (Others env n d)) \<and> (\<forall>d. Q d \<longrightarrow> Q (seedCursor d)) \<and> (\<forall>a b d. Q d \<longrightarrow> Q (casCursor a b d))
     \<and> (\<forall>x d. Q d \<longrightarrow> Q (d\<lparr>DbConsumerProgress := Some x\<rparr>))
     \<and> (\<forall>n m win d. G win \<longrightarrow> Q d \<longrightarrow> Q (insertDecodedSteady cfg (Clock env n) m win d)))"

lemma keptBy_D:
  assumes "keptBy G Q cfg env"
  shows "Q d \<Longrightarrow> Q (Others env n d)" "Q d \<Longrightarrow> Q (seedCursor d)" "Q d \<Longrightarrow> Q (casCursor a b d)"
    "Q d \<Longrightarrow> Q (d\<lparr>DbConsumerProgress := Some x\<rparr>)"
    "G win \<Longrightarrow> Q d \<Longrightarrow> Q (insertDecodedSteady cfg (Clock env n) m win d)"
  using assms unfolding keptBy_def by blast+

lemma kept_tick: "keptBy G Q cfg env \<Longrightarrow> Q (Db m) \<Longrightarrow> Q (Db (tick env m))"
  by (simp add: tick_def keptBy_D(1))

lemma kept_runTx:
  "keptBy G Q cfg env \<Longrightarrow> Q (Db m) \<Longrightarrow> (Q (Db m) \<Longrightarrow> Q (f (Db m))) \<Longrightarrow> runTx env f m = (e, m') \<Longrightarrow> Q (Db m')"
  using kept_tick [of G Q cfg env m] kept_tick [of G Q cfg env "m\<lparr>Db := f (Db m)\<rparr>"]
  by (auto simp: runTx_def split: txOutcome.splits if_splits)

lemma kept_window:
  assumes k: "keptBy G Q cfg env"
  shows "windowLoop fuel cfg env a b after win c bytes m = Some (res, m') \<Longrightarrow> Q (Db m) \<Longrightarrow> Q (Db m')"
proof (induction fuel arbitrary: after win c bytes m)
  case (Suc fuel)
  have t: "Q (Db (tick env m))" by (rule kept_tick [OF k Suc.prems(2)])
  obtain r m1 where rd: "readDeltaWindow env a b after (the (readLimit cfg c)) m = (r, m1)" by fastforce
  have m1: "m1 = tick env m" by (rule readDelta_db [OF rd])
  from Suc.prems rd t Suc.IH [of _ _ _ _ "tick env m"] show ?case
    by (auto simp: m1 Let_def split: option.splits sum.splits if_splits)
qed simp

lemma kept_write:
  assumes k: "keptBy G Q cfg env" and g: "G win" and q: "Q (Db m)" and w: "writeWindow cfg env win m = (res, m')"
  shows "Q (Db m')"
proof -
  let ?p = "publishLatest cfg win m"
  obtain e m1 where tx: "runTx env (insertDecodedSteady cfg (nowAt env ?p) ?p win) ?p = (e, m1)" by fastforce
  have "Q (Db ?p)" using q by simp
  then have "Q (Db m1)" by (rule kept_runTx [OF k _ _ tx]) (simp add: nowAt_def keptBy_D(5) [OF k g])
  moreover have "Db m' = Db m \<or> Db m' = Db m1"
    using w tx by (auto simp: writeWindow_def Let_def split: if_splits option.splits txOutcome.splits)
  ultimately show ?thesis using q by auto
qed

lemma kept_cursor:
  assumes k: "keptBy G Q cfg env" and q: "Q (Db m)" and c: "cursor env m = (res, m')"
  shows "Q (Db m')"
proof -
  obtain e m1 where tx: "runTx env seedCursor (tick env m) = (e, m1)" by fastforce
  note t = kept_tick [OF k q]
  have "Q (Db m1)" by (rule kept_runTx [OF k t keptBy_D(2) [OF k] tx])
  moreover have "Db m' = Db (tick env m) \<or> Db m' = Db m1"
    using c tx by (auto simp: cursor_def readCall_def split: option.splits cursorCell.splits)
  ultimately show ?thesis using t by auto
qed

lemma kept_commit:
  assumes k: "keptBy G Q cfg env" and g: "G win" and q: "Q (Db m)" and w: "commit cfg env win a b m = (res, m')"
  shows "Q (Db m')"
proof -
  let ?p = "publishLatest cfg win m"
  let ?f = "\<lambda>d. casCursor a b (insertDecodedSteady cfg (nowAt env ?p) ?p win d)"
  obtain e m1 where tx: "runTx env ?f ?p = (e, m1)" by fastforce
  have qp: "Q (Db ?p)" using q by simp
  then have q1: "Q (Db m1)" by (rule kept_runTx [OF k _ _ tx]) (simp add: nowAt_def keptBy_D(3,5) [OF k] g)
  obtain landed m2 where cl: "commitLanded env b m1 = (landed, m2)" by fastforce
  have "Q (Db m2)" using cl kept_cursor [OF k q1] by (auto simp: commitLanded_def split: prod.splits sum.splits)
  moreover have "Db m' = Db (tick env ?p) \<or> Db m' = Db m1 \<or> Db m' = Db m2"
    using w tx cl by (auto simp: commit_def commitTx_def split: prod.splits if_splits option.splits txOutcome.splits bool.splits)
  ultimately show ?thesis using q1 kept_tick [OF k qp] by auto
qed

lemma kept_spanLoop:
  assumes k: "keptBy G Q cfg env" and good: "yieldsGood G cfg env"
  shows "spanLoop fuel j cfg env a b after pending tot m = Some (res, m') \<Longrightarrow> Q (Db m) \<Longrightarrow>
     (\<And>p. pending = Some p \<Longrightarrow> G p) \<Longrightarrow>
     Q (Db m') \<and> (\<forall>p t. res = Inr (Some p, t) \<longrightarrow> G p)"
proof (induction j arbitrary: after pending tot m)
  case (Suc j)
  obtain wres m1 where w: "nextWindow fuel cfg env a b after m = Some (wres, m1)"
    using Suc.prems(1) by (auto split: option.splits prod.splits)
  have q1: "Q (Db m1)" using kept_window [OF k] w Suc.prems(2) by (simp add: nextWindow_def)
  show ?case
  proof (cases wres)
    case (Inl e)
    then show ?thesis using Suc.prems(1) w q1 by auto
  next
    case (Inr t)
    obtain after' win c where t: "t = (after', win, c)" by (cases t) auto
    have g: "G win" using good w unfolding Inr t yieldsGood_def by blast
    obtain pres m2 where wr: "(case pending of None \<Rightarrow> (Inr (), m1) | Some p \<Rightarrow> writeWindow cfg env p m1) = (pres, m2)" by fastforce
    have q2: "Q (Db m2)" using wr q1 kept_write [OF k Suc.prems(3) q1] by (auto split: option.splits)
    show ?thesis
    proof (cases "rawRows c = 0")
      case True
      then show ?thesis using Suc.prems(1,3) w q1 by (auto simp: Inr t)
    next
      case False
      then show ?thesis using Suc.prems(1) w wr q2 g Suc.IH [of after' "Some win" _ m2]
        by (auto simp: Inr t Let_def split: sum.splits)
    qed
  qed
qed simp

lemma kept_report:
  assumes k: "keptBy G Q cfg env" and q: "Q (Db m)"
  shows "Q (Db (reportProgressNow env snap m))" "Q (Db (maybeReportProgress env snap m))"
proof -
  obtain ok m1 where t: "tryReportProgress env snap (stampReport env m) = (ok, m1)" by fastforce
  obtain e m2 where tx: "runTx env (\<lambda>d. d\<lparr>DbConsumerProgress := Some snap\<rparr>) (stampReport env m) = (e, m2)" by fastforce
  have "Q (Db m2)" by (rule kept_runTx [OF k _ keptBy_D(4) [OF k] tx]) (use q in simp_all)
  then have "Q (Db m1)" using t tx by (auto simp: tryReportProgress_def split: option.splits)
  then show "Q (Db (reportProgressNow env snap m))" "Q (Db (maybeReportProgress env snap m))"
    using t q by (auto simp: reportProgressNow_def maybeReportProgress_def reportAndRecord_def split: bool.splits)
qed

lemma kept_recover:
  assumes k: "keptBy G Q cfg env" and q: "Q (Db m)" and r: "maybeRecoverExpired env cur m = (res, m')"
  shows "Q (Db m')"
proof -
  have t: "snd (oldestSnapshot env m) = tick env m" by (auto simp: oldestSnapshot_def split: sum.splits option.splits)
  note q1 = kept_tick [OF k q]
  have "Q (Db m2)" if "runTx env (casCursor cur b) (tick env m) = (e, m2)" for b e m2
    by (rule kept_runTx [OF k q1 keptBy_D(3) [OF k] that])
  then show ?thesis using r t q1 kept_report(1) [OF k]
    by (auto simp: maybeRecoverExpired_def split: prod.splits sum.splits if_splits option.splits)
qed

lemma kept_chunk:
  assumes k: "keptBy G Q cfg env" and good: "yieldsGood G cfg env" and q: "Q (Db m)"
    and p: "processChunk fuel cfg env cur head m = Some (res, m')"
  shows "Q (Db m')"
proof -
  let ?to = "chunkEnd cfg cur head"
  obtain dres m1 where d: "decodeAndWriteSpan fuel cfg env cur ?to m = Some (dres, m1)"
    using p by (auto simp: processChunk_def Let_def split: option.splits prod.splits)
  then obtain sres m0 where sl: "spanLoop fuel fuel cfg env cur ?to None None noCounts m = Some (sres, m0)"
    by (auto simp: decodeAndWriteSpan_def split: option.splits prod.splits)
  have s: "Q (Db m0)" "\<And>p t. sres = Inr (Some p, t) \<Longrightarrow> G p" using kept_spanLoop [OF k good sl q] by auto
  have q1: "Q (Db m1)" using d sl s kept_commit [OF k _ s(1)]
    by (auto simp: decodeAndWriteSpan_def split: option.splits prod.splits sum.splits)
  have "Q (Db m2)" if "advanceCursor env cur ?to m1 = (ares, m2)" for ares m2
    using that kept_runTx [OF k q1 keptBy_D(3) [OF k]] by (auto simp: advanceCursor_def Let_def split: prod.splits option.splits if_splits)
  then show ?thesis using p d q1 kept_report [OF k q1] kept_recover [OF k q1]
    by (auto simp: processChunk_def Let_def split: sum.splits prod.splits if_splits option.splits)
qed

lemma kept_pass:
  assumes k: "keptBy G Q cfg env" and good: "yieldsGood G cfg env" and q: "Q (Db m)"
    and r: "RunOnce fuel cfg env m = Some (res, m')"
  shows "Q (Db m')"
proof -
  have loop: "chunkLoop fuel j cfg env cur head m = Some (res, m') \<Longrightarrow> Q (Db m) \<Longrightarrow> Q (Db m')" for j cur head m
  proof (induction j arbitrary: cur m)
    case (Suc j)
    then show ?case using kept_chunk [OF k good Suc.prems(2)] by (auto split: option.splits prod.splits chunkResult.splits)
  qed simp
  obtain cres m1 where c: "cursor env (tick env m) = (cres, m1)" by fastforce
  note q0 = kept_tick [OF k q]
  note q1 = kept_cursor [OF k q0 c]
  note q2 = kept_tick [OF k q1]
  have h: "snd (snapshotHead env m1) = tick env m1" by (auto simp: snapshotHead_def split: sum.splits option.splits)
  have "Db m' = Db (tick env m) \<or> Db m' = Db m1 \<or> Db m' = Db (tick env m1) \<or> (\<exists>cur. Db m' = Db (reportProgressNow env cur (tick env m1)))
     \<or> (\<exists>cur head. chunkLoop fuel fuel cfg env cur head (tick env m1) = Some (res, m'))"
    using r c h by (auto simp: RunOnce_def split: sum.splits bool.splits prod.splits if_splits)
  then show ?thesis using q0 q1 q2 kept_report(1) [OF k q2] loop by auto
qed

lemma once_kept:
  assumes "\<not> backfillMode cfg" "young env x" "\<And>n d. count_list (storedIds k (Others env n d)) x \<le> count_list (storedIds k d) x"
  shows "keptBy (holdsOnce k x) (\<lambda>d. count_list (storedIds k d) x \<le> 1) cfg env"
  unfolding keptBy_def
proof (intro conjI allI impI)
  fix n m win d assume "holdsOnce k x win" "count_list (storedIds k d) x \<le> 1"
  then show "count_list (storedIds k (insertDecodedSteady cfg (Clock env n) m win d)) x \<le> 1"
    using assms(2) insert_once [OF assms(1)] by (simp add: holdsOnce_def young_def)
next
  fix n d assume "count_list (storedIds k d) x \<le> 1"
  then show "count_list (storedIds k (Others env n d)) x \<le> 1" using assms(3) [of n d] by linarith
qed (cases k; simp add: storedIds_def seedCursor_def casCursor_def)+

text \<open>
  C2. A row is stored at most once. Take any identity: bucket, time, event id and name. Suppose it is
  decoded from at most one row of the feed, and once from that row's event; that its time is
  never more than 30 days (the floor of the duplicate probe) behind the writer's clock; and that
  nobody else adds a row of that identity. Then, in the normal mode, after any sequence of passes and
  restarts, whatever failed, landed without an acknowledgement or was read again, lake.signals
  has at most one row of that identity if it had at most one before; so has lake.events.
  Nothing is assumed of other identities.
\<close>

theorem stored_exactly_once:
  assumes "\<forall>env \<in> E. feedLaws ins env \<and> yieldedOnce k ins env x \<and> young env x
      \<and> (\<forall>n d. count_list (storedIds k (Others env n d)) x \<le> count_list (storedIds k d) x)"
    and "\<not> backfillMode cfg" and "writerRun E cfg m0 m" and "count_list (storedIds k (Db m0)) x \<le> 1"
  shows "count_list (storedIds k (Db m)) x \<le> 1"
  using assms(3,4)
proof (induction rule: writerRun.induct)
  case (pass m m1 env fuel res m2)
  have k: "keptBy (holdsOnce k x) (\<lambda>d. count_list (storedIds k d) x \<le> 1) cfg env"
    using assms(1,2) pass.hyps(2) by (intro once_kept) simp_all
  have "yieldsGood (holdsOnce k x) cfg env"
    unfolding yieldsGood_def using nextWindow_holdsOnce assms(1) pass.hyps(2) by blast
  from kept_pass [OF k this] show ?case using pass by blast
qed simp_all

text \<open>
  A pass that starts where an earlier one stopped between its insert and its cursor: the default
  module decodes the event again, and its speed reading is stored already.
\<close>

definition demoIdent :: rowIdent where
  "demoIdent = (HashBucket ''veh'', 0, ''id1'', ''speed'')"

definition demoReplay :: mat where
  "demoReplay = demoMat\<lparr>Db := demoDb\<lparr>DbSignals := CrSignals (convertJob demo_decodeEnv demo_event)\<rparr>\<rparr>"

lemma demo_idents:
  "crIds SignalRows (convertJob demo_decodeEnv demo_event) = [(HashBucket ''veh'', 0, ''id1'', ''vin''), demoIdent]"
proof -
  let ?h = "(EvHeader demo_event)\<lparr>HType := TypeSignal\<rparr>"
  let ?a = "\<lparr>SHeader = ?h, SName = ''speed'', STimestamp = 9, SCloudEventID = ''id1'', SNumber = Fin 5, SString = [], SLocation = noLocation\<rparr>"
  let ?b = "\<lparr>SHeader = ?h, SName = ''vin'', STimestamp = 8, SCloudEventID = ''id1'', SNumber = Fin 0, SString = ''X'', SLocation = noLocation\<rparr>"
  have "registry_get (SignalRegistry demo_decodeEnv) (HSource (EvHeader demo_event)) = Inr (SignalConvert demo_module)"
    by (simp add: demo_decodeEnv_def registry_get_def Override_def newRegistry_def demo_event_def)
  then have s: "salvage (convertToSignals (SignalRegistry demo_decodeEnv) (HSource (EvHeader demo_event)) demo_event) = Some ([?a, ?b], 1)"
    by (simp add: convertToSignals_def demo_convert wrapConv_def salvage_def)
  have srt: "sort_key sigKey [?a, ?b] = [?b, ?a]" "sort_key sigKey [?b, ?a] = [?b, ?a]" by (simp_all add: sigKey_def less_eq_prod_def)
  have p: "pruneFutureAndDuplicateSignals (sort_key sigKey) 100 [?a, ?b] = ([?b, ?a], [])"
    by (simp add: pruneFutureAndDuplicateSignals_def srt isFutureTimestamp_def After_def Add_def allowableTimeSkew_def minute_def
        pruneSignalName_def signalEqual_def del: sort_key_simps)
  obtain out errs where h: "handleCoordinates ''currentLocationCoordinates'' (sort_key sigKey) [?b, ?a] = (out, errs)" by fastforce
  have np: "filter (\<lambda>s. partName (SName s)) [?b, ?a] = []"
    "filter (\<lambda>s. SName s \<noteq> pruneSignalName \<and> \<not> partName (SName s)) [?b, ?a] = [?b, ?a]"
    by (simp_all add: partName_def field_defs pruneSignalName_def)
  obtain added where o: "out = filter (\<lambda>s. SName s \<noteq> pruneSignalName \<and> \<not> partName (SName s)) (sort_key sigKey [?b, ?a]) @ added"
    "added = createdBy ''currentLocationCoordinates'' (sort_key sigKey [?b, ?a])"
    using handleCoordinates_parts [OF slice_sort_sort_key h] by blast
  have "map timeLoc (createdBy ''currentLocationCoordinates'' [?b, ?a]) = locationsOf (filter (\<lambda>s. partName (SName s)) [?b, ?a])"
    by (rule createdBy_triples) (simp_all add: partName_def field_defs)
  then have "added = []" unfolding o(2) srt(2) np(1) by (simp add: locationsOf_def List.map_filter_def)
  then have "out = [?b, ?a]" using o(1) unfolding srt(2) np(2) by simp
  then have rows: "signalRows demo_decodeEnv demo_event [?a, ?b] = map (signalRowFromVSS demo_event) [?b, ?a]"
    using p h by (simp add: signalRows_def demo_decodeEnv_def)
  have "\<forall>r \<in> set (map (signalRowFromVSS demo_event) [?b, ?a]). finiteSignalRow r"
    by (simp add: finiteSignalRow_def isFinite_def signalRowFromVSS_def noLocation_def isNaN_def isInf_def)
  then have "convertSignals demo_decodeEnv demo_event = Some (map (signalRowFromVSS demo_event) [?b, ?a], 1)"
    unfolding convertSignals_def s by (simp add: rows Let_def)
  moreover have "HType (EvHeader demo_event) = TypeStatus" by (simp add: demo_event_def)
  ultimately have "CrSignals (convertJob demo_decodeEnv demo_event) = map (signalRowFromVSS demo_event) [?b, ?a]"
    by (simp add: convertJob_def)
  then show ?thesis
    by (simp add: crIds_def signalIdent_def signalRowFromVSS_def demoIdent_def Truncate_def microsecond_def orStr_def)
      (simp add: demo_event_def)
qed

lemma demo_yields: "yieldedOnce SignalRows demoIns demoEnv demoIdent"
proof -
  have d: "DecodeAt demoEnv j = demo_decodeEnv" for j by (simp add: demoEnv_def)
  have r: "resolveRow demoEnv n (demo_event, []) = Kept demo_event" for n
    by (simp add: resolveRow_def resolveBlob_def demo_event_def)
  have "count_list (crIds SignalRows (convertJob demo_decodeEnv demo_event)) demoIdent \<le> 1"
    unfolding demo_idents by (simp add: demoIdent_def)
  then show ?thesis unfolding yieldedOnce_def d by (simp add: demoIns_def r)
qed

theorem stored_exactly_once_witness:
  "\<exists>fuel res m. RunOnce fuel demoCfg demoEnv demoReplay = Some (res, m)
     \<and> count_list (storedIds SignalRows (Db m)) demoIdent \<le> 1 \<and> demoIdent \<in> set (storedIds SignalRows (Db m))"
proof -
  obtain bound where "\<forall>fuel \<ge> bound. \<exists>res m'. RunOnce fuel demoCfg demoEnv demoReplay = Some (res, m')"
    using pass_bound [OF demo_feedLaws] by blast
  then obtain res m where r: "RunOnce bound demoCfg demoEnv demoReplay = Some (res, m)" by blast
  have run: "writerRun {demoEnv} demoCfg demoReplay m" by (rule writerRun.pass [OF writerRun.start _ r]) simp
  have o: "Others demoEnv n d = d" for n d by (simp add: demoEnv_def)
  have b: "\<not> backfillMode demoCfg" by (simp add: demoCfg_def)
  have y: "young demoEnv demoIdent" by (simp add: young_def demoEnv_def demoIdent_def dedupProbeFloor_def hour_def)
  have st: "storedIds SignalRows (Db demoReplay) = [(HashBucket ''veh'', 0, ''id1'', ''vin''), demoIdent]"
    using demo_idents by (simp add: storedIds_def demoReplay_def crIds_def)
  then have "count_list (storedIds SignalRows (Db demoReplay)) demoIdent \<le> 1" by (simp add: demoIdent_def)
  from stored_exactly_once [OF _ b run this] have "count_list (storedIds SignalRows (Db m)) demoIdent \<le> 1"
    using demo_feedLaws demo_yields y o by simp
  moreover have "keptBy (\<lambda>_. True) (\<lambda>d. demoIdent \<in> set (storedIds SignalRows d)) demoCfg demoEnv"
    using o insert_signals(1) by (simp add: keptBy_def storedIds_def seedCursor_def casCursor_def)
  then have "demoIdent \<in> set (storedIds SignalRows (Db m))"
    by (rule kept_pass [OF _ _ _ r]) (simp_all add: st yieldsGood_def)
  ultimately show ?thesis using r by blast
qed

subsection \<open>Two rows with one pagination key\<close>

text \<open>An event of another source with the subject, time and id of \<open>demo_event\<close>.\<close>

definition twinEvent :: rawEvent where
  "twinEvent = demo_event\<lparr>EvHeader := (EvHeader demo_event)\<lparr>HSource := ''other''\<rparr>\<rparr>"

definition twinEnv :: spanEnv where
  "twinEnv = demoEnv\<lparr>Feed := \<lambda>_ a b. Inr [(demo_event, []), (twinEvent, [])], RawKey := \<lambda>ev. HSource (EvHeader ev)\<rparr>"

definition oneRowCfg :: matCfg where "oneRowCfg = demoCfg\<lparr>maxRowsPerWindow := 1\<rparr>"

lemma twin_key: "rowKey (twinEvent, []) = rowKey (demo_event, [])"
  by (simp add: rowKey_def twinEvent_def)

lemma twin_pages:
  "pageOf twinEnv None 1 [(demo_event, []), (twinEvent, [])] = [(demo_event, [])]"
  "pageOf twinEnv (Some (rowKey (demo_event, []))) 1 [(demo_event, []), (twinEvent, [])] = []"
proof -
  have o: "OrderBy twinEnv = sort_key rowKey" by (simp add: twinEnv_def demoEnv_def)
  have "sort_key rowKey [(demo_event, []), (twinEvent, [])] = [(demo_event, []), (twinEvent, [])]"
    by (rule sort_key_sorted) (simp add: twin_key)
  then show "pageOf twinEnv None 1 [(demo_event, []), (twinEvent, [])] = [(demo_event, [])]"
    by (simp add: pageOf_filter behind_def o)
  show "pageOf twinEnv (Some (rowKey (demo_event, []))) 1 [(demo_event, []), (twinEvent, [])] = []"
    by (simp add: pageOf_filter behind_def o twin_key)
qed

lemma twin_windows:
  "nextWindow 2 oneRowCfg twinEnv 0 1 None m = Some (Inr (Some (rowKey (demo_event, [])),
      appendDecoded emptyBatch (decodePage twinEnv (Ncalls (tick twinEnv m)) [demo_event]),
      addPage (decodePage twinEnv (Ncalls (tick twinEnv m)) [demo_event]) [demo_event] 1 noCounts), tick twinEnv m)"
  "nextWindow 2 oneRowCfg twinEnv 0 1 (Some (rowKey (demo_event, []))) m
     = Some (Inr (Some (rowKey (demo_event, [])), emptyBatch, noCounts), tick twinEnv m)"
proof -
  have l: "readLimit oneRowCfg noCounts = Some 1" by (simp add: readLimit_def oneRowCfg_def noCounts_def windowReadChunk_def)
  have full: "readLimit oneRowCfg (addPage d evs (Suc 0) noCounts) = None" for d evs
    by (simp add: readLimit_def oneRowCfg_def addPage_def noCounts_def)
  have budget: "windowByteBudget oneRowCfg = 0" by (simp add: oneRowCfg_def demoCfg_def)
  have feed: "Feed twinEnv n 0 1 = Inr [(demo_event, []), (twinEvent, [])]" for n by (simp add: twinEnv_def)
  have "resolveBlobs twinEnv n [(demo_event, [])] = Inr [demo_event]" for n
    by (simp add: resolveRow_def resolveBlob_def demo_event_def)
  then have "readDeltaWindow twinEnv 0 1 None 1 m = (Inr ([demo_event], Some (rowKey (demo_event, [])), 1), tick twinEnv m)"
    by (simp only: readDeltaWindow_def feed sum.case Let_def twin_pages) simp
  then show "nextWindow 2 oneRowCfg twinEnv 0 1 None m = Some (Inr (Some (rowKey (demo_event, [])),
      appendDecoded emptyBatch (decodePage twinEnv (Ncalls (tick twinEnv m)) [demo_event]),
      addPage (decodePage twinEnv (Ncalls (tick twinEnv m)) [demo_event]) [demo_event] 1 noCounts), tick twinEnv m)"
    by (simp add: nextWindow_def numeral_2_eq_2 l full budget Let_def)
  have "readDeltaWindow twinEnv 0 1 (Some (rowKey (demo_event, []))) 1 m = (Inr ([], None, 0), tick twinEnv m)"
    by (simp only: readDeltaWindow_def feed sum.case Let_def twin_pages) simp
  then show "nextWindow 2 oneRowCfg twinEnv 0 1 (Some (rowKey (demo_event, []))) m
     = Some (Inr (Some (rowKey (demo_event, [])), emptyBatch, noCounts), tick twinEnv m)"
    by (simp add: nextWindow_def numeral_2_eq_2 l Let_def)
qed

text \<open>
  When two events of different sources share subject, time and id, and a page ends between
  them, the span is read as one event: the batch that moves the cursor past both holds the first
  alone, although the deduplication key tells them apart.
\<close>

theorem pagination_skips_equal_keys:
  "RawKey twinEnv demo_event \<noteq> RawKey twinEnv twinEvent
   \<and> Feed twinEnv 0 0 1 = Inr [(demo_event, []), (twinEvent, [])]
   \<and> (\<exists>c m. spanLoop 2 2 oneRowCfg twinEnv 0 1 None None noCounts demoMat
        = Some (Inr (Some (appendDecoded emptyBatch (decodePage twinEnv (Ncalls (tick twinEnv demoMat)) [demo_event])), c), m)
        \<and> rawRows c = 1)"
proof -
  let ?d = "decodePage twinEnv (Ncalls (tick twinEnv demoMat)) [demo_event]"
  have n: "rawRows noCounts = 0" "rawRows (addPage ?d [demo_event] (Suc 0) noCounts) = Suc 0"
    "rawRows (addCounts noCounts (addPage ?d [demo_event] (Suc 0) noCounts)) = 1"
    by (simp_all add: addPage_def addCounts_def noCounts_def)
  have s: "spanLoop 2 (Suc (Suc 0)) oneRowCfg twinEnv 0 1 None None noCounts demoMat
      = Some (Inr (Some (appendDecoded emptyBatch ?d), addCounts noCounts (addPage ?d [demo_event] (Suc 0) noCounts)),
          tick twinEnv (tick twinEnv demoMat))"
    using n twin_windows by simp
  have "HSource (EvHeader demo_event) \<noteq> HSource (EvHeader twinEvent)" by (simp add: demo_event_def twinEvent_def)
  then show ?thesis using s n(3) by (simp add: twinEnv_def numeral_2_eq_2)
qed

end
