(* ===== verification/Mat_Daily_Run.thy ===== *)
theory Mat_Daily_Run
  imports Mat_Daily_Exact Mat_Stored_Once
begin

section \<open>Decoding and refreshing together\<close>

text \<open>
  The insert path and the refresh share the watermark, the late table and the set of subjects already
  recorded. The theory shows that no interleaving of decoded batches, with whatever outcome, and of
  refreshes that return without an error leaves a subject outside the late set stale, and gives the
  runs in which a refresh that fails half way does.
\<close>

subsection \<open>Late marks\<close>

lemma lateLoop_set:
  "set (lateLoop m seen rs) = SrSubject ` {r \<in> set rs. Before (SrTimestamp r) (dailyWatermark m)} - dailyLateSeen m - seen"
  by (induction m seen rs rule: lateLoop.induct) auto

lemma late_marked:
  assumes "r \<in> set signals" "Before (SrTimestamp r) (dailyWatermark m)"
  shows "SrSubject r \<in> dailyLateSeen m \<union> set (lateDailyInsert m signals)"
  using assms by (auto simp: lateDailyInsert_def lateLoop_set)

lemma insert_rows:
  obtains new where "DbSignals (insertDecodedSteady cfg now m dec d) = DbSignals d @ new" "set new \<subseteq> set (BatchSignals dec)"
proof (cases "BatchSignals dec = []")
  case True
  then have "DbSignals (insertDecodedSteady cfg now m dec d) = DbSignals d @ []" by (simp add: insertDecodedSteady_def Let_def)
  then show ?thesis using that [of "[]"] by simp
next
  case False
  obtain new where n: "antiJoinInsert signalIdent w skip (BatchSignals dec) (DbSignals d) = DbSignals d @ new"
    "set new \<subseteq> set (BatchSignals dec)" if "w = timeRange now SrTimestamp (BatchSignals dec)" "skip = backfillMode cfg" for w skip
    by (cases "backfillMode cfg") (auto simp: antiJoinInsert_def)
  show ?thesis by (rule that [of new]) (use n False in \<open>simp_all add: insertDecodedSteady_def Let_def\<close>)
qed

lemma insert_late:
  "DbLateSubjects (insertDecodedSteady cfg now m dec d) =
     DbLateSubjects d @ (if BatchSignals dec \<noteq> [] \<and> dailyActive cfg m then lateDailyInsert m (BatchSignals dec) else [])"
  "DbShadow (insertDecodedSteady cfg now m dec d) = DbShadow d"
  by (simp_all add: insertDecodedSteady_def Let_def)

text \<open>Memory and tables in step: what decoding and refreshing need of each other.\<close>

definition dailyHealthy :: "(signalRow list \<Rightarrow> signalRow) \<Rightarrow> mat \<Rightarrow> bool" where
  "dailyHealthy pick m = (lakeExact pick (Db m) \<and> dailyStateLoaded m \<and> dailyInSync m
     \<and> dailyLateSeen m \<subseteq> set (DbLateSubjects (Db m)))"

definition batchBucketed :: "decodedBatch \<Rightarrow> bool" where
  "batchBucketed dec = (\<forall>r \<in> set (BatchSignals dec). SrSubjectBucket r = HashBucket (SrSubject r))"

lemma groupOf_append: "groupOf k (xs @ ys) = groupOf k xs @ groupOf k ys"
  by (simp add: groupOf_def)

lemma insert_exact:
  assumes h: "dailyHealthy pick m" and cfg: "dailyConfigured cfg" and b: "batchBucketed dec"
  shows "lakeExact pick (insertDecodedSteady cfg now m dec (Db m))"
proof -
  let ?d = "insertDecodedSteady cfg now m dec (Db m)"
  obtain new where n: "DbSignals ?d = DbSignals (Db m) @ new" "set new \<subseteq> set (BatchSignals dec)" by (rule insert_rows)
  have ex: "lakeExact pick (Db m)" and seen: "dailyLateSeen m \<subseteq> set (DbLateSubjects (Db m))"
    using h by (simp_all add: dailyHealthy_def)
  have rb: "rowsBucketed ?d" using ex b n by (auto simp: lakeExact_def rowsBucketed_def batchBucketed_def)
  have "exactOff pick ?d W" if wm: "DbWatermark (Db m) = WatermarkAt W" for W
  proof -
    have exW: "exactOff pick (Db m) W" using ex wm by (simp add: lakeExact_def)
    note W = exactOffD(1) [OF exW]
    have mem: "dailyWatermark m = W" using h wm by (simp add: dailyHealthy_def dailyInSync_def)
    have act: "dailyActive cfg m" using h cfg goodWatermark_nonzero [OF W] mem by (simp add: dailyActive_def dailyHealthy_def)
    show ?thesis
    proof (rule exactOffI [OF W rb])
      show "latestBucketed ?d" using exactOffD(3) [OF exW] by (simp add: latestBucketed_def insert_frame)
    next
      fix k :: "string \<times> string" assume k: "fst k \<notin> set (DbLateSubjects ?d)"
      have "filter (beforeBound W) (groupOf k new) = []"
      proof (rule ccontr)
        assume "filter (beforeBound W) (groupOf k new) \<noteq> []"
        then obtain r where r: "r \<in> set new" "SrSubject r = fst k" "SrTimestamp r < W"
          using W by (auto simp: filter_empty_conv groupOf_def signalKey2_def beforeBound_def)
        then have rb: "r \<in> set (BatchSignals dec)" using n(2) by blast
        then have "fst k \<in> dailyLateSeen m \<union> set (lateDailyInsert m (BatchSignals dec))"
          using late_marked [of r "BatchSignals dec" m] r mem by (simp add: Before_def)
        then show False using k seen act rb by (auto simp: insert_late)
      qed
      then have "groupOf k (filter (beforeBound W) (DbSignals ?d)) = groupOf k (filter (beforeBound W) (DbSignals (Db m)))"
        by (simp add: n(1) groupOf_append groupOf_filter)
      then have "exactAt pick ?d W k = exactAt pick (Db m) W k"
        unfolding exactAt_def by (simp add: insert_frame cong: keyRows_cong)
      then show "exactAt pick ?d W k" using exactOffD(4) [OF exW, of k] k by (simp add: insert_late)
    qed
  qed
  then show ?thesis using rb ex by (simp add: lakeExact_def insert_frame insert_late split: watermarkCell.splits)
qed

subsection \<open>A batch, whatever becomes of its commit\<close>

lemma mark_dirty_daily:
  "Db (markDirtyFromBatch cfg dec m) = Db m" "dailyWatermark (markDirtyFromBatch cfg dec m) = dailyWatermark m"
  "dailyStateLoaded (markDirtyFromBatch cfg dec m) = dailyStateLoaded m"
  "dailyLateSeen (markDirtyFromBatch cfg dec m) \<subseteq> dailyLateSeen m \<union>
     (if dailyActive cfg m then SrSubject ` {r \<in> set (BatchSignals dec). Before (SrTimestamp r) (dailyWatermark m)} else {})"
  by (auto simp: markDirtyFromBatch_def Let_def markLateDailySeen_def dailyActive_def)

lemma publish_daily [simp]:
  "Db (publishLatest cfg dec m) = Db m" "sameDaily m (publishLatest cfg dec m)" "Ncalls (publishLatest cfg dec m) = Ncalls m"
  "Db (settled cfg dec m) = Db m" "sameDaily m (settled cfg dec m)"
  by (simp_all add: publishLatest_def settled_def sameDaily_def)

lemma inSync_same:
  "DbWatermark (Db m') = DbWatermark (Db m) \<Longrightarrow> dailyWatermark m' = dailyWatermark m \<Longrightarrow> dailyInSync m' = dailyInSync m"
  by (simp add: dailyInSync_def split: watermarkCell.splits)

lemma healthy_same:
  assumes "dailyHealthy pick m" "sameRollup (Db m) (Db m')" "sameDaily m m'"
  shows "dailyHealthy pick m'"
  using assms lakeExact_same(1) [OF assms(2), of pick]
    inSync_same [of m' m] by (simp add: dailyHealthy_def sameDaily_def) (simp add: sameRollup_def)

text \<open>The tables after the insert landed; the memory is marked only when the caller knows.\<close>

lemma healthy_landed:
  assumes h: "dailyHealthy pick m" and cfg: "dailyConfigured cfg" and b: "batchBucketed dec"
    and d: "sameRollup (insertDecodedSteady cfg now m dec (Db m)) (Db m')" and mem: "sameDaily m m'"
  shows "dailyHealthy pick m'" "dailyHealthy pick (markDirtyFromBatch cfg dec m')"
proof -
  let ?d = "insertDecodedSteady cfg now m dec (Db m)"
  have ex: "lakeExact pick (Db m')" using lakeExact_same(1) [OF d] insert_exact [OF h cfg b] by simp
  have late: "DbLateSubjects (Db m') = DbLateSubjects ?d" "DbWatermark (Db m') = DbWatermark (Db m)"
    using d by (simp_all add: sameRollup_def insert_frame)
  have sync: "dailyStateLoaded m'" "dailyInSync m'"
    using h mem inSync_same [OF late(2)] by (simp_all add: dailyHealthy_def sameDaily_def)
  have seen: "dailyLateSeen m \<subseteq> set (DbLateSubjects (Db m))" using h by (simp add: dailyHealthy_def)
  have act: "dailyActive cfg m' = dailyActive cfg m" using mem by (simp add: dailyActive_def sameDaily_def)
  have "dailyLateSeen m' \<subseteq> set (DbLateSubjects (Db m'))" using seen mem by (auto simp: late insert_late sameDaily_def)
  then show h': "dailyHealthy pick m'" using ex sync by (simp add: dailyHealthy_def)
  have "SrSubject r \<in> set (DbLateSubjects (Db m'))"
    if "dailyActive cfg m" "r \<in> set (BatchSignals dec)" "Before (SrTimestamp r) (dailyWatermark m)" for r
    using late_marked [OF that(2,3)] seen that(1,2) by (auto simp: late insert_late)
  then have "dailyLateSeen (markDirtyFromBatch cfg dec m') \<subseteq> set (DbLateSubjects (Db m'))"
    using mark_dirty_daily(4) [of cfg dec m'] h' mem act by (auto simp: dailyHealthy_def sameDaily_def split: if_splits)
  then show "dailyHealthy pick (markDirtyFromBatch cfg dec m')"
    using ex sync inSync_same [of "markDirtyFromBatch cfg dec m'" m'] by (simp add: dailyHealthy_def mark_dirty_daily(1-3))
qed

lemma window_healthy:
  assumes q: "quiet env" and h: "dailyHealthy pick m" and cfg: "dailyConfigured cfg" and b: "batchBucketed dec"
    and run: "writeWindow cfg env dec m = (r, m')"
  shows "dailyHealthy pick m'"
proof (cases "BatchSignals dec = [] \<and> BatchEvents dec = []")
  case True
  then show ?thesis using run h by (auto simp: writeWindow_def)
next
  case False
  let ?p = "publishLatest cfg dec m"
  have hp: "dailyHealthy pick ?p" by (rule healthy_same [OF h]) (simp_all add: sameRollup_def)
  obtain e m1 where tx: "runTx env (insertDecodedSteady cfg (nowAt env ?p) ?p dec) ?p = (e, m1)" by fastforce
  note mem = runTx_tables(2) [OF q tx]
  have m1: "dailyHealthy pick m1 \<and> (e = None \<longrightarrow> dailyHealthy pick (markDirtyFromBatch cfg dec m1))"
    using runTx_tables(1) [OF q tx] healthy_landed [OF hp cfg b _ mem] healthy_same [OF hp _ mem] by blast
  have "\<exists>m2. dailyHealthy pick m2 \<and> m' = settled cfg dec m2"
    using run False tx m1 by (auto simp: writeWindow_def Let_def split: option.splits txOutcome.splits)
  then show ?thesis using healthy_same [of pick _ m'] by (auto simp: sameRollup_def)
qed

text \<open>The commit of a span; no other process moves the cursor.\<close>

definition oneWriter :: "('e) lakeEnv_scheme \<Rightarrow> bool" where
  "oneWriter env = (quiet env \<and> (\<forall>n d. DbCursor (Others env n d) = DbCursor d))"

lemma cursor_tables:
  assumes q: "oneWriter env" and run: "cursor env m = (r, m')" and c: "DbCursor (Db m) = CursorAt n"
  shows "sameRollup (Db m) (Db m')" "sameDaily m m'" "r = Inr c' \<Longrightarrow> c' = n"
proof -
  have "m' = tick env m \<and> (\<forall>c'. r = Inr c' \<longrightarrow> c' = n)"
    using q run c by (auto simp: cursor_def readCall_def tick_def oneWriter_def split: option.splits)
  moreover have "sameRollup (Db m) (Db (tick env m))" "sameDaily m (tick env m)"
    using q by (simp_all add: tick_def oneWriter_def quiet_def sameDaily_def)
  ultimately show "sameRollup (Db m) (Db m')" "sameDaily m m'" "r = Inr c' \<Longrightarrow> c' = n" by auto
qed

lemma sameRollup_cas: "sameRollup d d' \<Longrightarrow> sameRollup d (casCursor a b d')"
  by (simp add: sameRollup_def casCursor_def)

lemma commitTx_healthy:
  assumes w: "oneWriter env" and h: "dailyHealthy pick m" and cfg: "dailyConfigured cfg" and b: "batchBucketed dec"
    and ne: "start \<noteq> upTo" and run: "commitTx cfg env dec start upTo m = (r, m')"
  shows "dailyHealthy pick m'"
proof -
  have q: "quiet env" using w by (simp add: oneWriter_def)
  let ?ins = "insertDecodedSteady cfg (nowAt env m) m dec"
  let ?f = "\<lambda>d. casCursor start upTo (?ins d)"
  show ?thesis
  proof (cases "DbCursor (Db m) = CursorAt start")
    case False
    then have "m' = tick env m" using run by (auto simp: commitTx_def split: txOutcome.splits)
    then show ?thesis using healthy_same [OF h, of m'] q by (simp add: tick_def quiet_def sameDaily_def)
  next
    case cur: True
    obtain e m1 where tx: "runTx env ?f m = (e, m1)" by fastforce
    note mem = runTx_tables(2) [OF q tx]
    have ins: "dailyHealthy pick m1 \<and> dailyHealthy pick (markDirtyFromBatch cfg dec m1)" if "sameRollup (?f (Db m)) (Db m1)"
      using healthy_landed [OF h cfg b _ mem] that sameRollup_cas [of "?ins (Db m)"]
      by (simp add: sameRollup_def casCursor_def split: if_splits)
    have hm1: "dailyHealthy pick m1" using runTx_tables(1) [OF q tx] ins healthy_same [OF h _ mem] by blast
    show ?thesis
    proof (cases e)
      case None
      then show ?thesis using run cur tx ins runTx_tables(1) [OF q tx] by (auto simp: commitTx_def)
    next
      case (Some err)
      obtain ok m2 where cl: "commitLanded env upTo m1 = (ok, m2)" by fastforce
      obtain cr m3 where cm: "cursor env m1 = (cr, m3)" by fastforce
      then have m3: "m3 = m2" "ok = (cr = Inr upTo)" using cl by (auto simp: commitLanded_def split: sum.splits)
      have at: "DbCursor (Db m1) = CursorAt upTo \<and> sameRollup (?f (Db m)) (Db m1) \<or> DbCursor (Db m1) = CursorAt start"
        if "Tx env (Ncalls m) = TxCommitErr l x" for l x
        using tx that w cur by (auto simp: runTx_def tick_def oneWriter_def quiet_def casCursor_def insert_frame split: if_splits)
      have m2: "dailyHealthy pick m2" "ok \<Longrightarrow> dailyHealthy pick (markDirtyFromBatch cfg dec m2)"
        if "Tx env (Ncalls m) = TxCommitErr l x" for l x
      proof -
        from at [OF that] obtain n where n: "DbCursor (Db m1) = CursorAt n" "n = upTo \<longrightarrow> sameRollup (?f (Db m)) (Db m1)"
          using ne by auto
        note cur2 = cursor_tables [OF w cm n(1)]
        show "dailyHealthy pick m2" using healthy_same [OF hm1] cur2(1,2) m3 by simp
        assume ok
        then have "n = upTo" using m3 cur2(3) by simp
        then have "sameRollup (?ins (Db m)) (Db m2)"
          using n(2) cur2(1) m3 by (simp add: sameRollup_def casCursor_def split: if_splits)
        then show "dailyHealthy pick (markDirtyFromBatch cfg dec m2)"
          using healthy_landed(2) [OF h cfg b] sameDaily_trans [OF mem] cur2(2) m3 by simp
      qed
      show ?thesis using run cur tx Some hm1 m2 cl
        by (auto simp: commitTx_def split: txOutcome.splits if_splits bool.splits)
    qed
  qed
qed

subsection \<open>Steps of the process\<close>

text \<open>A process that starts: what it knew of the daily state is gone.\<close>

definition restarted :: "mat \<Rightarrow> mat" where
  "restarted m = m\<lparr>dirtySubjects := {}, rollupFullRebuild := False, dirtyEventSubjects := {}, eventRollupFullRebuild := False,
     dailyWatermark := zeroTime, dailyStateLoaded := False, dailyLateSeen := {}\<rparr>"

text \<open>
  The steps: an intermediate window or a commit with any outcome, a refresh that returns no error,
  a restart whose load of the state succeeds. Every step may meet another behaviour of the database.
\<close>

inductive dailyStep :: "matCfg \<Rightarrow> (signalRow list \<Rightarrow> signalRow) \<Rightarrow> mat \<Rightarrow> mat \<Rightarrow> bool" for cfg pick where
  window: "oneWriter env \<Longrightarrow> Pick env = pick \<Longrightarrow> batchBucketed dec \<Longrightarrow> writeWindow cfg env dec m = (r, m') \<Longrightarrow> dailyStep cfg pick m m'"
| span: "oneWriter env \<Longrightarrow> Pick env = pick \<Longrightarrow> batchBucketed dec \<Longrightarrow> start \<noteq> upTo \<Longrightarrow> commit cfg env dec start upTo m = (r, m')
    \<Longrightarrow> dailyStep cfg pick m m'"
| refresh: "oneWriter (env :: spanEnv) \<Longrightarrow> Pick env = pick \<Longrightarrow> unixEpoch < boundary \<Longrightarrow> RunDailyRollupRefresh cfg env boundary m = (None, m')
    \<Longrightarrow> dailyStep cfg pick m m'"
| restart: "oneWriter (env :: spanEnv) \<Longrightarrow> Pick env = pick \<Longrightarrow> LoadDailyRollupState cfg env (restarted m) = (None, m') \<Longrightarrow> dailyStep cfg pick m m'"

lemma healthy_fresh: "dailyHealthy pick m \<Longrightarrow> seedsOnlyFresh m"
  by (auto simp: dailyHealthy_def seedsOnlyFresh_def dailyInSync_def lakeExact_def exactOff_def
      dest: goodWatermark_nonzero split: watermarkCell.splits)

lemma commit_healthy:
  assumes "oneWriter env" "dailyHealthy pick m" "dailyConfigured cfg" "batchBucketed dec" "start \<noteq> upTo"
    and "commit cfg env dec start upTo m = (r, m')"
  shows "dailyHealthy pick m'"
proof -
  let ?p = "publishLatest cfg dec m"
  obtain r1 m1 where c: "commitTx cfg env dec start upTo ?p = (r1, m1)" by fastforce
  have "dailyHealthy pick ?p" by (rule healthy_same [OF assms(2)]) (simp_all add: sameRollup_def)
  then have "dailyHealthy pick m1" using commitTx_healthy [OF assms(1) _ assms(3-5) c] by simp
  moreover have "m' = settled cfg dec m1" using assms(6) c by (simp add: commit_def)
  ultimately show ?thesis using healthy_same [of pick m1 m'] by (simp add: sameRollup_def)
qed

lemma refreshed_healthy:
  assumes "lateWithin pick W {} (Db m)" "dailyStateLoaded m" "dailyWatermark m = W" "dailyLateSeen m = {}"
  shows "dailyHealthy pick m"
  using assms by (auto simp: dailyHealthy_def lateWithin_def refreshedTo_def lakeExact_def dailyInSync_def exactOff_def)

lemma refresh_healthy:
  assumes "quiet env" "picksRow (Pick env)" "dailyHealthy (Pick env) m" "dailyConfigured cfg" "unixEpoch < boundary"
    and "RunDailyRollupRefresh cfg env boundary m = (None, m')"
  shows "dailyHealthy (Pick env) m'"
proof -
  have ex: "lakeExact (Pick env) (Db m)" using assms(3) by (simp add: dailyHealthy_def)
  from refresh_run [OF assms(1,2) ex healthy_fresh [OF assms(3)] assms(4-6)] have
    l: "dailyStateLoaded m'" and c: "lateWithin (Pick env) boundary {} (Db m') \<and> dailyWatermark m' = boundary \<and> dailyLateSeen m' = {}
      \<or> sameRollup (Db m) (Db m') \<and> (justLoaded m' \<or> m' = m)" by blast+
  from c show ?thesis
  proof
    assume "lateWithin (Pick env) boundary {} (Db m') \<and> dailyWatermark m' = boundary \<and> dailyLateSeen m' = {}"
    then show ?thesis using refreshed_healthy [of "Pick env" boundary m'] l by simp
  next
    assume s: "sameRollup (Db m) (Db m') \<and> (justLoaded m' \<or> m' = m)"
    then have "lakeExact (Pick env) (Db m')" using lake_exact.claim_same ex by blast
    then show ?thesis using s l assms(3) by (auto simp: dailyHealthy_def justLoaded_def)
  qed
qed

lemma step_healthy:
  assumes "dailyStep cfg pick m m'" "picksRow pick" "dailyConfigured cfg" "dailyHealthy pick m"
  shows "dailyHealthy pick m'"
  using assms(1)
proof cases
  case (window env dec r)
  then show ?thesis using window_healthy [OF _ assms(4,3), of env dec r m'] by (simp add: oneWriter_def)
next
  case (span env dec start upTo r)
  then show ?thesis using commit_healthy [OF _ assms(4,3), of env dec start upTo r m'] by simp
next
  case (refresh env boundary)
  then show ?thesis using refresh_healthy [of env m cfg boundary m'] assms(2-4) by (simp add: oneWriter_def)
next
  case (restart env)
  have ex: "lakeExact pick (Db (restarted m))" using assms(4) by (simp add: dailyHealthy_def restarted_def)
  have fresh: "seedsOnlyFresh (restarted m)" by (simp add: seedsOnlyFresh_def restarted_def)
  have q: "quiet env" using restart(1) by (simp add: oneWriter_def)
  have "sameRollup (Db (restarted m)) (Db m')" "dailyStateLoaded m'" "justLoaded m'"
    using load_run [OF q restart(3) ex fresh] assms(3) by (auto simp: restarted_def)
  then show ?thesis using lake_exact.claim_same [OF _ ex] by (auto simp: dailyHealthy_def justLoaded_def)
qed

lemma steps_healthy:
  assumes "(dailyStep cfg pick)\<^sup>*\<^sup>* m m'" "picksRow pick" "dailyConfigured cfg" "dailyHealthy pick m"
  shows "dailyHealthy pick m'"
  using assms(1) by (induction rule: rtranclp_induct) (use assms(2-4) step_healthy in blast)+

subsection \<open>The rows of a subject\<close>

lemma latestOf_subject:
  "latestOf k (filter (\<lambda>v. RrSubject v = s) tab) = (if fst k = s then latestOf k tab else [])"
  by (auto simp: latestOf_def rollupKey2_def filter_empty_conv intro!: filter_cong)

lemma subject_exact:
  assumes ex: "exactOff pick d W" and s: "s \<notin> set (DbLateSubjects d)"
  shows "mset (filter (\<lambda>v. RrSubject v = s) (DbSignalsLatest d))
    = mset (rollupSelect pick (\<lambda>r. SrSubject r = s \<and> SrTimestamp r < W) (DbSignals d))"
proof (rule mset_by_key)
  fix k :: "string \<times> string"
  have "keyRows pick k (filter (\<lambda>r. SrSubject r = s \<and> SrTimestamp r < W) (DbSignals d))
      = (if fst k = s then keyRows pick k (filter (\<lambda>r. SrTimestamp r < W) (DbSignals d)) else [])"
    by (rule keyRows_restrict [OF exactOffD(2) [OF ex]]) auto
  moreover have "filter (beforeBound W) (DbSignals d) = filter (\<lambda>r. SrTimestamp r < W) (DbSignals d)"
    by (rule filter_cong) (simp_all add: beforeBound_def exactOffD(1) [OF ex])
  ultimately show "latestOf k (filter (\<lambda>v. RrSubject v = s) (DbSignalsLatest d))
      = latestOf k (rollupSelect pick (\<lambda>r. SrSubject r = s \<and> SrTimestamp r < W) (DbSignals d))"
    using exactOffD(4) [OF ex, of k] s by (simp add: latestOf_subject select_key exactAt_def)
qed

text \<open>A day with one reading, stored after the watermark of the day before.\<close>

definition demoMidnight :: "int \<Rightarrow> time" where "demoMidnight n = unixEpoch + n * (24 * hour)"

definition demoReading :: signalRow where
  "demoReading = \<lparr>SrSubject = ''s'', SrSubjectBucket = HashBucket ''s'', SrName = ''speed'', SrTimestamp = demoMidnight 1 + hour,
     SrSource = ''a'', SrProducer = ''p'', SrCloudEventID = ''1'', SrValueNumber = Fin 7, SrValueString = [],
     SrLocLat = Fin 0, SrLocLon = Fin 0, SrLocHDOP = Fin 0, SrLocHeading = Fin 0\<rparr>"

definition demoDailyCfg :: matCfg where "demoDailyCfg = demoCfg\<lparr>dailyMode := DailyRollupOn\<rparr>"

definition demoDay :: "signalRow list \<Rightarrow> mat" where
  "demoDay rows = demoMat\<lparr>Db := demoDb\<lparr>DbSignals := rows, DbWatermark := WatermarkAt (demoMidnight 1)\<rparr>,
     dailyWatermark := demoMidnight 1, dailyStateLoaded := True\<rparr>"

lemma demoMidnight_good: "0 < n \<Longrightarrow> goodWatermark (demoMidnight n)"
  by (simp add: goodWatermark_def demoMidnight_def unixEpoch_def hour_def)

lemma demoDailyCfg_on: "dailyConfigured demoDailyCfg"
  by (simp add: demoDailyCfg_def dailyConfigured_def DailyRollupOn_def DailyRollupOff_def)

lemma demo_picks: "picksRow (Pick demoEnv)"
  by (simp add: picksRow_def demoEnv_def)

lemma demo_oneWriter: "oneWriter demoEnv"
  by (simp add: oneWriter_def quiet_def sameRollup_def demoEnv_def)

lemma demoDay_healthy: "dailyHealthy pick (demoDay [demoReading])"
proof -
  let ?d = "Db (demoDay [demoReading])"
  have "filter (beforeBound (demoMidnight 1)) [demoReading] = []"
    using demoMidnight_good [of 1] by (simp add: beforeBound_def) (simp add: demoReading_def hour_def)
  then have "exactAt pick ?d (demoMidnight 1) k" for k
    by (simp add: exactAt_def demoDay_def demoDb_def keyRows_def groupOf_def)
  then have ex: "exactOff pick ?d (demoMidnight 1)"
    by (intro exactOffI) (simp_all add: demoMidnight_good rowsBucketed_def latestBucketed_def demoDay_def demoDb_def demoReading_def)
  have "DbWatermark ?d = WatermarkAt (demoMidnight 1)" "DbShadow ?d = None" "dailyStateLoaded (demoDay [demoReading])"
    "dailyWatermark (demoDay [demoReading]) = demoMidnight 1" "dailyLateSeen (demoDay [demoReading]) = {}"
    by (simp_all add: demoDay_def demoDb_def demoMat_def)
  then show ?thesis using ex exactOffD(2) [OF ex] by (simp add: dailyHealthy_def lakeExact_def dailyInSync_def)
qed

lemma demo_refresh:
  "RunDailyRollupRefresh demoDailyCfg demoEnv (demoMidnight 2) (demoDay [demoReading])
    = (None, snd (RunDailyRollupRefresh demoDailyCfg demoEnv (demoMidnight 2) (demoDay [demoReading])))"
  "DbLateSubjects (Db (snd (RunDailyRollupRefresh demoDailyCfg demoEnv (demoMidnight 2) (demoDay [demoReading])))) = []"
  "DbWatermark (Db (snd (RunDailyRollupRefresh demoDailyCfg demoEnv (demoMidnight 2) (demoDay [demoReading])))) = WatermarkAt (demoMidnight 2)"
  by (simp_all add: RunDailyRollupRefresh_def LoadDailyRollupState_def demoDay_def demoMat_def demoDb_def demoMidnight_def unixEpoch_def hour_def
      Equal_def Truncate_def IsZero_def After_def foldDailyRollup_def runTx_def demo_tick demo_calls foldTx_def Let_def
      recomputeLateDailySubjects_def readCall_def) (simp_all add: demoEnv_def tick_def)

subsection \<open>The theorems\<close>

text \<open>C3. After any decoded batches (committed, failed or with a lost acknowledgement), successful refreshes and
  restarts, the rollup rows of a subject outside the late set are exactly what the full recompute up to
  the stored watermark gives.\<close>

theorem rollup_exact_outside_late:
  assumes "picksRow pick" and "dailyConfigured cfg" and "dailyHealthy pick m" and "(dailyStep cfg pick)\<^sup>*\<^sup>* m m'"
    and "DbWatermark (Db m') = WatermarkAt W" and "s \<notin> set (DbLateSubjects (Db m'))"
  shows "mset (filter (\<lambda>v. RrSubject v = s) (DbSignalsLatest (Db m')))
    = mset (rollupSelect pick (\<lambda>r. SrSubject r = s \<and> SrTimestamp r < W) (DbSignals (Db m')))"
proof -
  have "dailyHealthy pick m'" by (rule steps_healthy [OF assms(4,1-3)])
  then have "exactOff pick (Db m') W" using assms(5) by (simp add: dailyHealthy_def lakeExact_def)
  then show ?thesis using assms(6) by (rule subject_exact)
qed

theorem rollup_exact_outside_late_witness:
  "(let m = snd (RunDailyRollupRefresh demoDailyCfg demoEnv (demoMidnight 2) (demoDay [demoReading])) in
    mset (filter (\<lambda>v. RrSubject v = ''s'') (DbSignalsLatest (Db m)))
    = mset (rollupSelect (Pick demoEnv) (\<lambda>r. SrSubject r = ''s'' \<and> SrTimestamp r < demoMidnight 2) (DbSignals (Db m))))"
proof -
  let ?m = "snd (RunDailyRollupRefresh demoDailyCfg demoEnv (demoMidnight 2) (demoDay [demoReading]))"
  have "dailyStep demoDailyCfg (Pick demoEnv) (demoDay [demoReading]) ?m"
    by (rule dailyStep.refresh [OF demo_oneWriter refl _ demo_refresh(1)]) (simp add: demoMidnight_def hour_def)
  then have "(dailyStep demoDailyCfg (Pick demoEnv))\<^sup>*\<^sup>* (demoDay [demoReading]) ?m" by simp
  from rollup_exact_outside_late [OF demo_picks demoDailyCfg_on demoDay_healthy this demo_refresh(3)]
  show ?thesis unfolding Let_def by (simp only: demo_refresh(2) list.set empty_iff not_False_eq_True)
qed





subsection \<open>Refreshes that fail half way\<close>

text \<open>C38. Once the stored watermark is ahead of the one in memory, every later refresh of this process ends in an
  error and changes neither: the retry the log line announces cannot succeed.\<close>

theorem stale_watermark_sticks:
  assumes "quiet env" and "dailyStateLoaded m" and "\<not> IsZero (dailyWatermark m)" and "DbWatermark (Db m) = WatermarkAt W"
    and "W \<noteq> dailyWatermark m" and "dailyWatermark m < boundary" and "boundary mod (24 * hour) = 0"
  shows "fst (RunDailyRollupRefresh cfg env boundary m) \<noteq> None
    \<and> sameRollup (Db m) (Db (snd (RunDailyRollupRefresh cfg env boundary m)))
    \<and> dailyWatermark (snd (RunDailyRollupRefresh cfg env boundary m)) = dailyWatermark m"
proof -
  have "Truncate boundary (24 * hour) = boundary" using assms(7) by (simp add: Truncate_def)
  then show ?thesis using assms
    by (auto simp: RunDailyRollupRefresh_def LoadDailyRollupState_def Equal_def After_def foldDailyRollup_def
        quiet_def tick_def split: txOutcome.splits)
qed

text \<open>A database that fails the reads of a run from call \<open>n\<close> on.\<close>

definition demoFailRead :: "nat \<Rightarrow> spanEnv" where
  "demoFailRead n = demoEnv\<lparr>Rd := \<lambda>k. if n \<le> k then Some (Err ''lost'') else None\<rparr>"

definition demoFailTx :: "nat \<Rightarrow> spanEnv" where
  "demoFailTx n = demoEnv\<lparr>Tx := \<lambda>k. if n \<le> k then TxStmt (Err ''lost'') else TxOk\<rparr>"

theorem stale_watermark_sticks_witness:
  "(let m = (demoDay [])\<lparr>dailyWatermark := demoMidnight 0\<rparr> in fst (RunDailyRollupRefresh demoDailyCfg demoEnv (demoMidnight 3) m) \<noteq> None)"
  unfolding Let_def
  by (rule conjunct1 [OF stale_watermark_sticks [where W = "demoMidnight 1"]])
    (use demo_oneWriter demoMidnight_good [of 3] in \<open>simp_all add: oneWriter_def demoDay_def demoDb_def demoMidnight_def unixEpoch_def hour_def IsZero_def\<close>)

text \<open>The read of the late set fails after the fold committed. The catalog is at the new midnight, the process
  at the old one: a reading stamped between them is stored unmarked and is in no later fold, so the
  rollup misses it although its watermark covers it.\<close>

theorem failed_refresh_hides_rows:
  "(let (e, m1) = RunDailyRollupRefresh demoDailyCfg (demoFailRead 0) (demoMidnight 2) (demoDay []);
        (r, m2) = writeWindow demoDailyCfg demoEnv (emptyBatch\<lparr>BatchSignals := [demoReading]\<rparr>) m1
    in e \<noteq> None \<and> r = Inr () \<and> DbWatermark (Db m2) = WatermarkAt (demoMidnight 2) \<and> DbLateSubjects (Db m2) = []
       \<and> DbSignalsLatest (Db m2) = [] \<and> rollupSelect hd (beforeBound (demoMidnight 2)) (DbSignals (Db m2)) \<noteq> [])"
proof -
  let ?m1 = "(demoDay [])\<lparr>Db := (Db (demoDay []))\<lparr>DbWatermark := WatermarkAt (demoMidnight 2)\<rparr>, Ncalls := 2\<rparr>"
  have "RunDailyRollupRefresh demoDailyCfg (demoFailRead 0) (demoMidnight 2) (demoDay []) = (Some (Wrap ''reading late subjects'' (Err ''lost'')), ?m1)"
    by (simp add: RunDailyRollupRefresh_def LoadDailyRollupState_def demoDay_def demoMat_def demoDb_def demoMidnight_def unixEpoch_def hour_def
      Equal_def Truncate_def IsZero_def After_def foldDailyRollup_def runTx_def foldTx_def rollupSelect_def Let_def
      recomputeLateDailySubjects_def readCall_def demoFailRead_def demoEnv_def tick_def)
  moreover have "rollupSelect hd (beforeBound (demoMidnight 2)) [demoReading] \<noteq> []"
    by (simp add: rollupSelect_def Let_def beforeBound_def demoMidnight_good) (simp add: demoReading_def demoMidnight_def hour_def)
  moreover have "lateDailyInsert m [demoReading] = []" if "dailyWatermark m = demoMidnight 1" for m
    using that by (simp add: lateDailyInsert_def Before_def demoReading_def hour_def)
  ultimately show ?thesis
    by (simp add: writeWindow_def publishLatest_def settled_def demoDailyCfg_def demoCfg_def emptyBatch_def runTx_def demo_calls demo_tick
      insertDecodedSteady_def Let_def antiJoinInsert_def mark_dirty_daily(1)) (simp add: demoDay_def demoDb_def)
qed

text \<open>The late set overflows, the code empties it and reseeds; the seed fails after its first statement. The
  rollup is empty and nothing is marked late, but the watermark row is still there.\<close>

theorem failed_reseed_keeps_watermark:
  "(let m0 = (demoDay [demoReading]);
        m0 = m0\<lparr>Db := (Db m0)\<lparr>DbLateSubjects := [''s'']\<rparr>\<rparr>;
        (e, m1) = RunDailyRollupRefresh (demoDailyCfg\<lparr>maxDirtySubjects := 0\<rparr>) (demoFailTx 4) (demoMidnight 2) m0
    in e \<noteq> None \<and> DbWatermark (Db m1) = WatermarkAt (demoMidnight 2) \<and> DbLateSubjects (Db m1) = []
       \<and> DbSignalsLatest (Db m1) = [] \<and> rollupSelect hd (beforeBound (demoMidnight 2)) (DbSignals (Db m1)) \<noteq> [])"
proof -
  let ?env = "demoFailTx 4" and ?m0 = "(demoDay [demoReading])\<lparr>Db := (Db (demoDay [demoReading]))\<lparr>DbLateSubjects := [''s'']\<rparr>\<rparr>"
  let ?cfg = "demoDailyCfg\<lparr>maxDirtySubjects := 0\<rparr>"
  have tx: "runTx ?env f m = (if 4 \<le> Ncalls m then (Some (Err ''lost''), m\<lparr>Ncalls := Suc (Ncalls m)\<rparr>)
      else (None, m\<lparr>Db := f (Db m), Ncalls := Suc (Ncalls m)\<rparr>))" for f m
    by (simp add: runTx_def demoFailTx_def demoEnv_def tick_def)
  have rd: "readCall ?env m = (None, m\<lparr>Ncalls := Suc (Ncalls m)\<rparr>)" for m
    by (simp add: readCall_def demoFailTx_def demoEnv_def tick_def)
  have ex: "execRetryConflict ?env f m = (None, m\<lparr>Db := f (Db m), Ncalls := Suc (Ncalls m)\<rparr>)" if "Ncalls m < 4" for f m
  proof -
    have "(5::nat) = Suc 4" by simp
    then show ?thesis using that by (simp only: execRetryConflict_def retryLoop.simps tx) simp
  qed
  have "[0..<256::nat] = 0 # [Suc 0..<256]" by (rule upt_conv_Cons) simp
  then have up: "[0..<NumLatestBuckets] = 0 # [Suc 0..<256]" by (simp add: NumLatestBuckets_def)
  have seed: "seedDailyRollup ?env W m = (Some (Wrap (''daily seed bucket '' @ nat_str 0) (Err ''lost'')),
      m\<lparr>Db := (Db m)\<lparr>DbSignalsLatest := []\<rparr>, Ncalls := 5\<rparr>)" if "Ncalls m = 3" for W m
    using that by (simp add: seedDailyRollup_def ex up tx)
  have late: "recomputeLateDailySubjects ?cfg ?env W m = (Some (Wrap (''daily seed bucket '' @ nat_str 0) (Err ''lost'')),
      m\<lparr>Db := (Db m)\<lparr>DbLateSubjects := [], DbSignalsLatest := []\<rparr>, Ncalls := 5\<rparr>)" if "Ncalls m = 1" "DbLateSubjects (Db m) = [''s'']" for W m
    using that by (simp add: recomputeLateDailySubjects_def rd ex seed)
  have m0: "Ncalls ?m0 = 0" "dailyStateLoaded ?m0" "dailyWatermark ?m0 = demoMidnight 1" "DbWatermark (Db ?m0) = WatermarkAt (demoMidnight 1)"
    "DbLateSubjects (Db ?m0) = [''s'']" "DbSignals (Db ?m0) = [demoReading]"
    by (simp_all add: demoDay_def demoMat_def demoDb_def)
  have mid: "Equal (demoMidnight 2) (Truncate (demoMidnight 2) (24 * hour))" "\<not> IsZero (demoMidnight 1)" "After (demoMidnight 2) (demoMidnight 1)"
    by (simp_all add: demoMidnight_def unixEpoch_def hour_def Equal_def Truncate_def IsZero_def After_def)
  have fr: "DbLateSubjects (foldTx p v w d) = DbLateSubjects d" "DbWatermark (foldTx p v w d) = WatermarkAt w" "DbSignals (foldTx p v w d) = DbSignals d" for p v w d
    by (simp_all add: foldTx_def Let_def)
  have run: "RunDailyRollupRefresh ?cfg ?env (demoMidnight 2) m = (Some (Wrap (''daily seed bucket '' @ nat_str 0) (Err ''lost'')),
      m\<lparr>Db := (foldTx (Pick ?env) (demoMidnight 1) (demoMidnight 2) (Db m))\<lparr>DbLateSubjects := [], DbSignalsLatest := []\<rparr>, Ncalls := 5\<rparr>)"
    if "Ncalls m = 0" "dailyStateLoaded m" "dailyWatermark m = demoMidnight 1" "DbWatermark (Db m) = WatermarkAt (demoMidnight 1)" "DbLateSubjects (Db m) = [''s'']" for m
    using that mid by (simp add: RunDailyRollupRefresh_def LoadDailyRollupState_def foldDailyRollup_def tx late fr)
  have "rollupSelect hd (beforeBound (demoMidnight 2)) [demoReading] \<noteq> []"
    by (simp add: rollupSelect_def Let_def beforeBound_def demoMidnight_good) (simp add: demoReading_def demoMidnight_def hour_def)
  then show ?thesis unfolding Let_def run [OF m0(1-5)] prod.case using m0(6) by (simp add: fr)
qed

end
