(* ===== verification/Mat_Event_Rollup.thy ===== *)
theory Mat_Event_Rollup
  imports Mat_Daily_Exact Mat_Stored_Once
begin

section \<open>Flushing the event rollup\<close>

text \<open>
  lake.events_latest is recomputed for the subjects whose events changed. A subject leaves the dirty
  set only with its rows recomputed from the base table, whichever call of the flush fails.
\<close>

definition eventsBucketed :: "lakeDb \<Rightarrow> bool" where
  "eventsBucketed d = ((\<forall>r \<in> set (DbEvents d). ErSubjectBucket r = HashBucket (ErSubject r))
     \<and> (\<forall>v \<in> set (DbEventsLatest d). XrSubjectBucket v = HashBucket (XrSubject v)))"

text \<open>The rows stored for a subject are the rows of the select.\<close>

definition eventExact :: "(eventRow list \<Rightarrow> eventRow) \<Rightarrow> lakeDb \<Rightarrow> string \<Rightarrow> bool" where
  "eventExact pick d s = (filter (\<lambda>v. XrSubject v = s) (DbEventsLatest d) = eventRollupSelect pick (\<lambda>r. ErSubject r = s) (DbEvents d))"

definition quietEvents :: "('e) lakeEnv_scheme \<Rightarrow> bool" where
  "quietEvents env = (\<forall>n d. DbEvents (Others env n d) = DbEvents d \<and> DbEventsLatest (Others env n d) = DbEventsLatest d)"

lemma eventRow_key [simp]: "XrSubject (eventGroupRow pick rows k) = fst k"
  by (simp add: eventGroupRow_def Let_def)

lemma event_select_subject:
  "filter (\<lambda>v. XrSubject v = s) (eventRollupSelect pick wh tab) = eventRollupSelect pick (\<lambda>r. ErSubject r = s \<and> wh r) tab"
proof -
  let ?rows = "filter wh tab" and ?mine = "filter (\<lambda>r. ErSubject r = s \<and> wh r) tab"
  have mine: "?mine = filter (\<lambda>r. ErSubject r = s) ?rows" by (simp add: conj_commute)
  have group: "eventGroupRow pick ?rows k = eventGroupRow pick ?mine k" if "fst k = s" for k
  proof -
    have "filter (\<lambda>r. eventKey2 r = k) ?mine = filter (\<lambda>r. eventKey2 r = k) ?rows"
      unfolding mine filter_filter by (rule filter_cong) (use that in \<open>auto simp: eventKey2_def\<close>)
    then show ?thesis by (simp add: eventGroupRow_def)
  qed
  have "filter (\<lambda>v. XrSubject v = s) (eventRollupSelect pick wh tab)
      = map (eventGroupRow pick ?rows) (remdups (map eventKey2 (filter (\<lambda>r. ErSubject r = s) ?rows)))"
    by (simp add: eventRollupSelect_def Let_def filter_map comp_def remdups_filter [symmetric] eventKey2_def)
  also have "\<dots> = map (eventGroupRow pick ?mine) (remdups (map eventKey2 ?mine))"
    unfolding mine [symmetric] by (rule map_cong) (use group in \<open>auto simp: eventKey2_def\<close>)
  finally show ?thesis by (simp add: eventRollupSelect_def Let_def)
qed

lemma event_select_cong:
  "(\<And>r. r \<in> set tab \<Longrightarrow> P r = Q r) \<Longrightarrow> eventRollupSelect pick P tab = eventRollupSelect pick Q tab"
  by (simp add: eventRollupSelect_def cong: filter_cong)

lemma event_select_none: "eventRollupSelect pick (\<lambda>r. False) tab = []"
  by (simp add: eventRollupSelect_def)

lemma event_select_bucketed:
  assumes "eventsBucketed d" "v \<in> set (eventRollupSelect pick wh (DbEvents d))"
  shows "XrSubjectBucket v = HashBucket (XrSubject v)"
proof -
  obtain k where k: "k \<in> eventKey2 ` set (filter wh (DbEvents d))" "v = eventGroupRow pick (filter wh (DbEvents d)) k"
    using assms(2) by (auto simp: eventRollupSelect_def Let_def)
  let ?g = "filter (\<lambda>r. eventKey2 r = k) (filter wh (DbEvents d))"
  have "?g \<noteq> []" using k(1) by (auto simp: filter_empty_conv)
  then have "hd ?g \<in> set ?g" by (rule hd_in_set)
  then have "hd ?g \<in> set (DbEvents d)" "eventKey2 (hd ?g) = k" by simp_all
  moreover have "ErSubjectBucket x = HashBucket (fst k)" if "x \<in> set (DbEvents d)" "eventKey2 x = k" for x
    using that assms(1) by (auto simp: eventsBucketed_def eventKey2_def)
  ultimately have "ErSubjectBucket (hd ?g) = HashBucket (fst k)" by blast
  then show ?thesis by (simp add: k(2) eventGroupRow_def Let_def del: filter_filter)
qed

text \<open>One recompute: the subjects it selects become exact, the others keep their rows.\<close>

definition recomputeEvents :: "(eventRow list \<Rightarrow> eventRow) \<Rightarrow> (nat \<Rightarrow> string \<Rightarrow> bool) \<Rightarrow> lakeDb \<Rightarrow> lakeDb" where
  "recomputeEvents pick sel d = d\<lparr>DbEventsLatest := filter (\<lambda>v. \<not> sel (XrSubjectBucket v) (XrSubject v)) (DbEventsLatest d)
     @ eventRollupSelect pick (\<lambda>r. sel (ErSubjectBucket r) (ErSubject r)) (DbEvents d)\<rparr>"

lemma recompute_cases:
  "recomputeEventSubjectsTx pick b ss = recomputeEvents pick (\<lambda>c s. c = b \<and> s \<in> set ss)"
  "recomputeEventBucketTx pick b = recomputeEvents pick (\<lambda>c s. c = b)"
  by (simp_all add: fun_eq_iff recomputeEventSubjectsTx_def recomputeEventBucketTx_def recomputeEvents_def)

lemma recompute_exact:
  assumes "eventsBucketed d"
  shows "eventsBucketed (recomputeEvents pick sel d)"
    "eventExact pick (recomputeEvents pick sel d) s = (sel (HashBucket s) s \<or> eventExact pick d s)"
proof -
  show "eventsBucketed (recomputeEvents pick sel d)"
    using assms event_select_bucketed [OF assms] by (auto simp: eventsBucketed_def recomputeEvents_def)
  have keep: "filter (\<lambda>v. XrSubject v = s) (filter (\<lambda>v. \<not> sel (XrSubjectBucket v) (XrSubject v)) (DbEventsLatest d))
      = (if sel (HashBucket s) s then [] else filter (\<lambda>v. XrSubject v = s) (DbEventsLatest d))"
    using assms by (auto simp: eventsBucketed_def filter_empty_conv intro!: filter_cong)
  have new: "eventRollupSelect pick (\<lambda>r. ErSubject r = s \<and> sel (ErSubjectBucket r) (ErSubject r)) (DbEvents d)
      = (if sel (HashBucket s) s then eventRollupSelect pick (\<lambda>r. ErSubject r = s) (DbEvents d) else [])"
  proof -
    have "eventRollupSelect pick (\<lambda>r. ErSubject r = s \<and> sel (ErSubjectBucket r) (ErSubject r)) (DbEvents d)
        = eventRollupSelect pick (\<lambda>r. ErSubject r = s \<and> sel (HashBucket s) s) (DbEvents d)"
      using assms by (intro event_select_cong) (auto simp: eventsBucketed_def)
    then show ?thesis by (simp add: event_select_none)
  qed
  show "eventExact pick (recomputeEvents pick sel d) s = (sel (HashBucket s) s \<or> eventExact pick d s)"
    using keep new by (auto simp: eventExact_def recomputeEvents_def event_select_subject)
qed

text \<open>The subjects of \<open>S\<close> are exact; a transaction that recomputes more keeps it whatever happens.\<close>

definition eventsExactOn :: "(eventRow list \<Rightarrow> eventRow) \<Rightarrow> string set \<Rightarrow> lakeDb \<Rightarrow> bool" where
  "eventsExactOn pick S d = (eventsBucketed d \<and> (\<forall>s \<in> S. eventExact pick d s))"

lemma recompute_tx:
  assumes "quietEvents env" "runTx env (recomputeEvents pick sel) m = (r, m')" "eventsExactOn pick S (Db m)"
  shows "eventsExactOn pick S (Db m')" "r = None \<Longrightarrow> eventsExactOn pick (S \<union> {s. sel (HashBucket s) s}) (Db m')"
    "dirtyEventSubjects m' = dirtyEventSubjects m"
proof -
  have same: "eventsExactOn pick T (Others env n d) = eventsExactOn pick T d" for T n d
    using assms(1) by (simp add: eventsExactOn_def eventsBucketed_def eventExact_def quietEvents_def)
  have "eventsExactOn pick (S \<union> {s. sel (HashBucket s) s}) (recomputeEvents pick sel (Db m))"
    using assms(3) recompute_exact [of "Db m" pick sel] by (auto simp: eventsExactOn_def)
  moreover have "eventsExactOn pick S d" if "eventsExactOn pick (S \<union> {s. sel (HashBucket s) s}) d" for d
    using that by (simp add: eventsExactOn_def)
  ultimately show "eventsExactOn pick S (Db m')" "r = None \<Longrightarrow> eventsExactOn pick (S \<union> {s. sel (HashBucket s) s}) (Db m')"
    "dirtyEventSubjects m' = dirtyEventSubjects m"
    using assms(2,3) by (auto simp: runTx_def tick_def same split: txOutcome.splits if_splits)
qed

lemma eventBuckets_run:
  assumes "quietEvents env" "recomputeEventBuckets env bs m = (r, m')" "eventsExactOn (PickEvent env) S (Db m)"
  shows "eventsExactOn (PickEvent env) S (Db m') \<and> dirtyEventSubjects m' = dirtyEventSubjects m
    \<and> (r = None \<longrightarrow> eventsExactOn (PickEvent env) (S \<union> {s. HashBucket s \<in> set bs}) (Db m'))"
  using assms(2,3)
proof (induction bs arbitrary: m S)
  case (Cons b bs)
  obtain r1 m1 where tx: "runTx env (recomputeEventBucketTx (PickEvent env) b) m = (r1, m1)" by fastforce
  note step = recompute_tx [OF assms(1) tx [unfolded recompute_cases] Cons.prems(2)]
  show ?case
  proof (cases r1)
    case None
    have "eventsExactOn (PickEvent env) (S \<union> {s. HashBucket s = b}) (Db m1)" using step(2) [OF None] by simp
    moreover have "recomputeEventBuckets env bs m1 = (r, m')" using Cons.prems(1) tx None by simp
    moreover have "S \<union> {s. HashBucket s = b} \<union> {s. HashBucket s \<in> set bs} = S \<union> {s. HashBucket s \<in> set (b # bs)}" by auto
    ultimately show ?thesis using Cons.IH [of m1 "S \<union> {s. HashBucket s = b}"] step(3) by (auto simp: eventsExactOn_def)
  next
    case (Some e)
    then show ?thesis using Cons.prems(1) tx step(1,3) by auto
  qed
qed simp

lemma eventChunks_run:
  assumes "quietEvents env" "flushEventChunks env cs m = (r, m')" "eventsExactOn (PickEvent env) S (Db m)"
    and "\<And>b ss s. (b, ss) \<in> set cs \<Longrightarrow> s \<in> set ss \<Longrightarrow> HashBucket s = b"
  shows "eventsExactOn (PickEvent env) (S \<union> (dirtyEventSubjects m - dirtyEventSubjects m')) (Db m')
    \<and> (r = None \<longrightarrow> dirtyEventSubjects m' = dirtyEventSubjects m - \<Union> ((set \<circ> snd) ` set cs))"
  using assms(2-)
proof (induction cs arbitrary: m S)
  case (Cons c cs)
  obtain b ss where c: "c = (b, ss)" by fastforce
  obtain r1 m1 where tx: "runTx env (recomputeEventSubjectsTx (PickEvent env) b ss) m = (r1, m1)" by fastforce
  note step = recompute_tx [OF assms(1) tx [unfolded recompute_cases] Cons.prems(2)]
  have hash: "\<And>b ss s. (b, ss) \<in> set cs \<Longrightarrow> s \<in> set ss \<Longrightarrow> HashBucket s = b"
    by (rule Cons.prems(3) [OF list.set_intros(2)])
  have mine: "{s. HashBucket s = b \<and> s \<in> set ss} = set ss" using Cons.prems(3) [of b ss] c by auto
  show ?case
  proof (cases r1)
    case None
    let ?m = "m1\<lparr>dirtyEventSubjects := dirtyEventSubjects m1 - set ss\<rparr>"
    have ex: "eventsExactOn (PickEvent env) (S \<union> set ss) (Db ?m)" using step(2) [OF None] mine by simp
    have rest: "flushEventChunks env cs ?m = (r, m')" using Cons.prems(1) c tx None by simp
    from Cons.IH [OF rest ex hash]
    have ih: "eventsExactOn (PickEvent env) (S \<union> set ss \<union> (dirtyEventSubjects m - set ss - dirtyEventSubjects m')) (Db m')"
      "r = None \<Longrightarrow> dirtyEventSubjects m' = dirtyEventSubjects m - set ss - \<Union> ((set \<circ> snd) ` set cs)"
      by (simp_all add: step(3))
    then show ?thesis using c by (auto simp: eventsExactOn_def)
  next
    case (Some e)
    then show ?thesis using Cons.prems(1) c tx step(1,3) by auto
  qed
qed simp

lemma event_flush_run:
  assumes "quietEvents env" and start: "eventsExactOn (PickEvent env) S (Db m)" and "set order = dirtyEventSubjects m"
    and "FlushEventRollup env order m = (r, m')"
  shows "eventsExactOn (PickEvent env) (S \<union> (dirtyEventSubjects m - dirtyEventSubjects m')) (Db m')
    \<and> (r = None \<longrightarrow> dirtyEventSubjects m' = {} \<and> (eventRollupFullRebuild m \<longrightarrow> eventsExactOn (PickEvent env) UNIV (Db m')))"
proof -
  consider (full) "eventRollupFullRebuild m" | (none) "\<not> eventRollupFullRebuild m" "dirtyEventSubjects m = {}"
    | (chunks) "\<not> eventRollupFullRebuild m" "dirtyEventSubjects m \<noteq> {}" by blast
  then show ?thesis
  proof cases
    case full
    obtain r1 m1 where run: "recomputeEventBuckets env [0..<NumLatestBuckets] m = (r1, m1)" by fastforce
    have "UNIV = {s. HashBucket s \<in> set [0..<NumLatestBuckets]}" using HashBucket_range by (simp add: NumLatestBuckets_def)
    then show ?thesis using eventBuckets_run [OF assms(1) run start] assms(4) full run
      by (auto simp: FlushEventRollup_def RecomputeEventRollup_def eventsExactOn_def split: option.splits)
  next
    case none
    then show ?thesis using assms(4) start by (auto simp: FlushEventRollup_def)
  next
    case chunks
    then have "flushEventChunks env (subjectChunks order) m = (r, m')" using assms(4) by (simp add: FlushEventRollup_def)
    from eventChunks_run [OF assms(1) this start subjectChunks_bucket] show ?thesis
      using assms(3) subjectChunks_set [of order] chunks(1) by (auto simp: eventsExactOn_def)
  qed
qed

text \<open>A flush that fails half way leaves exactly the subjects dirty that it did not recompute: every subject
  that left the dirty set has the rows of the full recompute, and a flush that returns no error leaves
  none dirty.\<close>

theorem event_flush_exact:
  assumes "quietEvents env" and "eventsBucketed (Db m)" and "set order = dirtyEventSubjects m"
    and "FlushEventRollup env order m = (r, m')"
  shows "(\<forall>s \<in> dirtyEventSubjects m - dirtyEventSubjects m'. eventExact (PickEvent env) (Db m') s)
    \<and> (r = None \<longrightarrow> dirtyEventSubjects m' = {})"
  using event_flush_run [OF assms(1) _ assms(3,4), of "{}"] assms(2) by (simp add: eventsExactOn_def)

definition demoEventRow :: eventRow where
  "demoEventRow = \<lparr>ErSubject = ''s'', ErSubjectBucket = HashBucket ''s'', ErSource = ''a'', ErProducer = ''p'', ErCloudEventID = ''1'',
     ErType = ''t'', ErDataVersion = [], ErRowName = ''brake'', ErTimestamp = 5, ErDurationNs = 0, ErMetadata = [], ErTags = []\<rparr>"

definition demoEventMat :: mat where
  "demoEventMat = demoMat\<lparr>Db := demoDb\<lparr>DbEvents := [demoEventRow]\<rparr>, dirtyEventSubjects := {''s''}\<rparr>"

theorem event_flush_exact_witness:
  "(let m = snd (FlushEventRollup demoEnv [''s''] demoEventMat) in eventExact hd (Db m) ''s'' \<and> dirtyEventSubjects m = {})"
proof -
  let ?r = "FlushEventRollup demoEnv [''s''] demoEventMat"
  have q: "quietEvents demoEnv" by (simp add: quietEvents_def demoEnv_def)
  have b: "eventsBucketed (Db demoEventMat)" by (simp add: eventsBucketed_def demoEventMat_def demoDb_def demoEventRow_def)
  have o: "set [''s''] = dirtyEventSubjects demoEventMat" by (simp add: demoEventMat_def)
  have "subjectChunks [''s''] = [(HashBucket ''s'', [''s''])]"
    by (simp add: subjectChunks_def chunksOf.simps rollupSubjectChunk_def)
  then have "fst ?r = None"
    by (simp add: FlushEventRollup_def demoEventMat_def demoMat_def runTx_def demo_calls demo_tick)
  then have run: "FlushEventRollup demoEnv [''s''] demoEventMat = (None, snd ?r)" by (metis prod.collapse)
  from event_flush_exact [OF q b o run] have d: "dirtyEventSubjects (snd ?r) = {}" by blast
  with event_flush_exact [OF q b o run] have "\<forall>s \<in> dirtyEventSubjects demoEventMat. eventExact (PickEvent demoEnv) (Db (snd ?r)) s" by simp
  then show ?thesis using d by (simp add: demoEventMat_def) (simp add: demoEnv_def)
qed

end
