(* ===== verification/Duck_Summaries.thy ===== *)
theory Duck_Summaries
  imports Mat_Daily_Run Mat_Event_Rollup Repo_Signals
begin

section \<open>Summaries read from the rollups (internal/service/duck: latest.go, lake_rollup_union.go, events.go)\<close>

text \<open>
  The query service answers the data summary of a vehicle from the rollup up to the watermark and the
  stored rows after it, and the event summary from lake.events_latest; with a source filter, or
  without the rollup, it scans the base tables. The theory shows that the fast answers are the answers
  of the scan whenever the writer's invariants hold for the subject.

  A query is one call to the database: its error is a parameter, the rows are what its text denotes.
  \<open>ethrAddress\<close> is the decoder of an Ethr DID source, whose error leaves the source as it is. Metrics
  are left out.
\<close>

subsection \<open>Deduplicated rows\<close>

text \<open>\<open>QUALIFY ROW_NUMBER() OVER (PARTITION BY key ORDER BY cloud_event_id) = 1\<close>.\<close>

definition deduped :: "('r list \<Rightarrow> 'r) \<Rightarrow> ('r \<Rightarrow> 'k) \<Rightarrow> 'r list \<Rightarrow> 'r list" where
  "deduped pick key rows = map (\<lambda>k. pick (filter (\<lambda>r. key r = k) rows)) (remdups (map key rows))"



definition LakeEventsDeduped :: "(eventRow list \<Rightarrow> eventRow) \<Rightarrow> string \<Rightarrow> eventRow list \<Rightarrow> eventRow list" where
  "LakeEventsDeduped pick subject tab =
     deduped pick (\<lambda>r. (ErSubject r, ErTimestamp r, ErRowName r, ErSource r)) (filter (\<lambda>r. ErSubjectBucket r = HashBucket subject) tab)"

subsection \<open>Signal summaries\<close>














definition queried :: "string \<Rightarrow> goerr option \<Rightarrow> 'a \<Rightarrow> 'a res" where
  "queried what err rows = (case err of None \<Rightarrow> Inr rows | Some e \<Rightarrow> Inl (Wrap what e))"


subsection \<open>Event summaries\<close>

definition eventSummaryOf :: "string \<Rightarrow> time list \<Rightarrow> eventSummary" where
  "eventSummaryOf name ts = \<lparr>EsName = name, EsCount = length ts, EsFirstSeen = Min (set ts), EsLastSeen = Max (set ts)\<rparr>"

definition getEventSummariesLake :: "(eventRow list \<Rightarrow> eventRow) \<Rightarrow> string \<Rightarrow> lakeDb \<Rightarrow> eventSummary list" where
  "getEventSummariesLake pick subject d =
     (let rows = filter (\<lambda>r. ErSubject r = subject) (LakeEventsDeduped pick subject (DbEvents d))
      in map (\<lambda>n. eventSummaryOf n (map ErTimestamp (filter (\<lambda>r. ErRowName r = n) rows))) (sort (remdups (map ErRowName rows))))"

definition getEventSummariesRollup :: "string \<Rightarrow> lakeDb \<Rightarrow> eventSummary list" where
  "getEventSummariesRollup subject d =
     sort_key EsName (map (\<lambda>v. \<lparr>EsName = XrName v, EsCount = XrCount v, EsFirstSeen = XrFirstSeen v, EsLastSeen = XrLastSeen v\<rparr>)
       (filter (\<lambda>v. XrSubject v = subject \<and> XrSubjectBucket v = HashBucket subject) (DbEventsLatest d)))"

text \<open>\<open>ready\<close> is the cached flag, \<open>exists\<close> what the metadata query finds (with its error); two queries may run.\<close>

definition eventsRollupAvailable :: "bool res \<Rightarrow> bool \<Rightarrow> bool \<times> bool" where
  "eventsRollupAvailable exists ready = (if ready then (True, True) else (case exists of Inr True \<Rightarrow> (True, True) | _ \<Rightarrow> (False, False)))"

definition GetEventSummaries ::
  "(eventRow list \<Rightarrow> eventRow) \<Rightarrow> bool res \<Rightarrow> goerr option \<Rightarrow> goerr option \<Rightarrow> lakeDb \<Rightarrow> lakeDb \<Rightarrow> string \<Rightarrow> bool \<Rightarrow> eventSummary list res \<times> bool" where
  "GetEventSummaries pick exists err0 err1 d0 d1 subject ready =
     (let (available, ready) = eventsRollupAvailable exists ready;
          scan = queried ''failed querying duckdb for event summaries'' err1 (getEventSummariesLake pick subject d1)
      in if available
         then (case queried ''failed querying duckdb for event summaries'' err0 (getEventSummariesRollup subject d0) of
                 Inl e \<Rightarrow> (Inl e, ready)
               | Inr summaries \<Rightarrow> (if summaries \<noteq> [] then Inr summaries else scan, ready))
         else (scan, ready))"

subsection \<open>The reference: a summary by its set of times\<close>


definition timesOf :: "string \<Rightarrow> lakeDb \<Rightarrow> string \<Rightarrow> time set" where
  "timesOf s d n = SrTimestamp ` {r \<in> set (DbSignals d). SrSubject r = s \<and> SrName r = n}"



lemma sort_key_map: "sort_key f (map g xs) = map g (sort_key (\<lambda>x. f (g x)) xs)"
proof -
  have ins: "insort_key f (g x) (map g ys) = map g (insort_key (\<lambda>x. f (g x)) x ys)" for x ys by (induction ys) auto
  show ?thesis by (induction xs) (simp_all add: ins)
qed

lemma sorted_by_name:
  assumes "distinct ns" "\<And>n. key (f n) = n"
  shows "sort_key key (map f ns) = map f (sorted_list_of_set (set ns))"
proof -
  have "sort_key (\<lambda>n. key (f n)) ns = sort ns" by (simp add: assms(2))
  moreover have "sort ns = sorted_list_of_set (set ns)"
    using assms(1) by (simp add: sorted_list_of_set_sort_remdups distinct_remdups_id)
  ultimately show ?thesis by (simp add: sort_key_map)
qed

lemma deduped_keys:
  assumes "\<And>xs. xs \<noteq> [] \<Longrightarrow> pick xs \<in> set xs"
  shows "map key (deduped pick key rows) = remdups (map key rows)"
proof -
  have "key (pick (filter (\<lambda>r. key r = k) rows)) = k" if "k \<in> key ` set rows" for k
  proof -
    have "filter (\<lambda>r. key r = k) rows \<noteq> []" using that by (auto simp: filter_empty_conv)
    from assms [OF this] show ?thesis by simp
  qed
  then show ?thesis unfolding deduped_def map_map comp_def by (intro map_idI) simp
qed

lemma filter_keys:
  "map g (filter P (filter Q rows)) = map h (filter R (map key rows))"
  if "\<And>r. r \<in> set rows \<Longrightarrow> g r = h (key r)" "\<And>r. r \<in> set rows \<Longrightarrow> (Q r \<and> P r) = R (key r)"
proof -
  have "filter P (filter Q rows) = filter (\<lambda>r. R (key r)) rows"
    unfolding filter_filter by (rule filter_cong) (use that(2) in auto)
  moreover have "filter R (map key rows) = map key (filter (\<lambda>r. R (key r)) rows)" by (simp add: filter_map comp_def)
  ultimately show ?thesis using that(1) by auto
qed

lemma finite_timesOf [simp]: "finite (timesOf s d n)"
  by (simp add: timesOf_def)


subsection \<open>The union of rollup and tail\<close>











subsection \<open>The event rollup\<close>

definition picksEvent :: "(eventRow list \<Rightarrow> eventRow) \<Rightarrow> bool" where
  "picksEvent pick = (\<forall>xs. xs \<noteq> [] \<longrightarrow> pick xs \<in> set xs)"

lemma event_times:
  assumes "picksEvent pick"
  shows "map ErTimestamp (dedupEvents pick g) = map fst (remdups (map (\<lambda>r. (ErTimestamp r, ErSource r)) g))"
proof -
  have "map (\<lambda>r. (ErTimestamp r, ErSource r)) (dedupEvents pick g) = remdups (map (\<lambda>r. (ErTimestamp r, ErSource r)) g)"
    using deduped_keys [of pick "\<lambda>r. (ErTimestamp r, ErSource r)" g] assms by (simp add: picksEvent_def dedupEvents_def deduped_def)
  from arg_cong [OF this, of "map fst"] show ?thesis by (simp add: comp_def)
qed

definition pairsOf :: "string \<Rightarrow> lakeDb \<Rightarrow> string \<Rightarrow> (time \<times> string) set" where
  "pairsOf s d n = (\<lambda>r. (ErTimestamp r, ErSource r)) ` {r \<in> set (DbEvents d). ErSubject r = s \<and> ErRowName r = n}"

definition eventSummaryT :: "string \<Rightarrow> (time \<times> string) set \<Rightarrow> eventSummary" where
  "eventSummaryT n P = \<lparr>EsName = n, EsCount = card P, EsFirstSeen = Min (fst ` P), EsLastSeen = Max (fst ` P)\<rparr>"

definition eventSummariesOf :: "string \<Rightarrow> lakeDb \<Rightarrow> eventSummary list" where
  "eventSummariesOf s d = map (\<lambda>n. eventSummaryT n (pairsOf s d n)) (sorted_list_of_set {n. pairsOf s d n \<noteq> {}})"

lemma event_summary_distinct: "distinct ps \<Longrightarrow> eventSummaryOf n (map fst ps) = eventSummaryT n (set ps)"
  by (simp add: eventSummaryOf_def eventSummaryT_def distinct_card)

lemma lake_event_summaries:
  assumes pick: "picksEvent pick" and eb: "eventsBucketed d"
  shows "getEventSummariesLake pick s d = eventSummariesOf s d"
proof -
  let ?key = "\<lambda>r. (ErSubject r, ErTimestamp r, ErRowName r, ErSource r)"
  let ?base = "filter (\<lambda>r. ErSubjectBucket r = HashBucket s) (DbEvents d)"
  let ?D = "deduped pick ?key ?base"
  let ?rows = "filter (\<lambda>r. ErSubject r = s) ?D"
  have "map ?key ?D = remdups (map ?key ?base)"
    by (rule deduped_keys) (use pick in \<open>simp add: picksEvent_def\<close>)
  then have keys: "distinct (map ?key ?D)" "set (map ?key ?D) = set (map ?key ?base)"
    by (simp_all only: distinct_remdups set_remdups)
  have base: "(s, t, n, c) \<in> set (map ?key ?D) \<longleftrightarrow> (t, c) \<in> pairsOf s d n" for t n c
  proof -
    have "(s, t, n, c) \<in> set (map ?key ?base) \<longleftrightarrow>
        (\<exists>r \<in> set (DbEvents d). ErSubject r = s \<and> ErTimestamp r = t \<and> ErRowName r = n \<and> ErSource r = c)"
      using eb by (auto simp: eventsBucketed_def image_iff)
    then show ?thesis unfolding keys(2) by (auto simp: pairsOf_def)
  qed
  have times: "eventSummaryOf n (map ErTimestamp (filter (\<lambda>r. ErRowName r = n) ?rows)) = eventSummaryT n (pairsOf s d n)" for n
  proof -
    let ?ps = "map (\<lambda>(a, t, b, c). (t, c)) (filter (\<lambda>(a, t, b, c). a = s \<and> b = n) (map ?key ?D))"
    have ts: "map ErTimestamp (filter (\<lambda>r. ErRowName r = n) ?rows) = map fst ?ps"
      unfolding map_map by (rule filter_keys) auto
    have dist: "distinct ?ps" using keys(1) by (subst distinct_map) (auto simp: inj_on_def intro: distinct_filter)
    have setp: "set ?ps = pairsOf s d n"
    proof -
      have "(t, c) \<in> set (map (\<lambda>(a, t, b, c). (t, c)) (filter (\<lambda>(a, t, b, c). a = s \<and> b = n) ks)) \<longleftrightarrow> (s, t, n, c) \<in> set ks"
        for ks :: "(string \<times> time \<times> string \<times> string) list" and t c by (force simp: image_iff)
      then show ?thesis using base [of _ n] by (auto simp only: set_eq_iff split_paired_all)
    qed
    show ?thesis unfolding ts event_summary_distinct [OF dist] setp ..
  qed
  have names: "ErRowName ` set ?rows = {n. pairsOf s d n \<noteq> {}}"
  proof (rule set_eqI)
    fix n
    have "n \<in> ErRowName ` set ?rows \<longleftrightarrow> (\<exists>t c. (s, t, n, c) \<in> set (map ?key ?D))" by (auto simp: image_iff)
    then show "n \<in> ErRowName ` set ?rows \<longleftrightarrow> n \<in> {n. pairsOf s d n \<noteq> {}}" using base [of _ n] by auto
  qed
  have "sort (remdups (map ErRowName ?rows)) = sorted_list_of_set {n. pairsOf s d n \<noteq> {}}"
    unfolding sorted_list_of_set_sort_remdups [symmetric] set_map names ..
  then show ?thesis
    using times by (simp add: getEventSummariesLake_def LakeEventsDeduped_def eventSummariesOf_def Let_def del: filter_filter)
qed

lemma rollup_event_summaries:
  assumes pick: "picksEvent pick" and eb: "eventsBucketed d" and ex: "eventExact pick d s"
  shows "getEventSummariesRollup s d = eventSummariesOf s d"
proof -
  let ?rows = "filter (\<lambda>r. ErSubject r = s) (DbEvents d)"
  let ?ks = "remdups (map eventKey2 ?rows)"
  let ?sum = "\<lambda>v. \<lparr>EsName = XrName v, EsCount = XrCount v, EsFirstSeen = XrFirstSeen v, EsLastSeen = XrLastSeen v\<rparr>"
  have mine: "filter (\<lambda>v. XrSubject v = s \<and> XrSubjectBucket v = HashBucket s) (DbEventsLatest d) = map (eventGroupRow pick ?rows) ?ks"
  proof -
    have "filter (\<lambda>v. XrSubject v = s \<and> XrSubjectBucket v = HashBucket s) (DbEventsLatest d) = filter (\<lambda>v. XrSubject v = s) (DbEventsLatest d)"
      by (rule filter_cong) (use eb in \<open>auto simp: eventsBucketed_def\<close>)
    then show ?thesis using ex by (simp add: eventExact_def eventRollupSelect_def Let_def)
  qed
  have ks: "fst k = s" if "k \<in> set ?ks" for k using that by (auto simp: eventKey2_def)
  have row: "?sum (eventGroupRow pick ?rows k) = eventSummaryT (snd k) (pairsOf s d (snd k))" if "k \<in> set ?ks" for k
  proof -
    let ?g = "filter (\<lambda>r. eventKey2 r = k) ?rows"
    let ?ps = "remdups (map (\<lambda>r. (ErTimestamp r, ErSource r)) ?g)"
    have "set ?ps = pairsOf s d (snd k)" using ks [OF that] by (auto simp: pairsOf_def eventKey2_def)
    moreover have "?sum (eventGroupRow pick ?rows k) = eventSummaryOf (snd k) (map fst ?ps)"
      by (simp only: eventGroupRow_def Let_def eventSummaryOf_def event_times [OF pick] eventRollupRow.select_convs)
    ultimately show ?thesis using event_summary_distinct [of ?ps "snd k"] by simp
  qed
  have "inj_on snd (set ?ks)" by (rule inj_onI) (simp only: prod_eq_iff ks simp_thms)
  then have d: "distinct (map snd ?ks)" by (simp only: distinct_map distinct_remdups simp_thms)
  have n: "set (map snd ?ks) = {n. pairsOf s d n \<noteq> {}}" by (force simp: pairsOf_def eventKey2_def)
  have "map ?sum (map (eventGroupRow pick ?rows) ?ks) = map (\<lambda>n. eventSummaryT n (pairsOf s d n)) (map snd ?ks)"
    unfolding map_map comp_def by (rule map_cong [OF refl]) (rule row)
  then have "getEventSummariesRollup s d = sort_key EsName (map (\<lambda>n. eventSummaryT n (pairsOf s d n)) (map snd ?ks))"
    unfolding getEventSummariesRollup_def mine by (rule arg_cong)
  also have "\<dots> = eventSummariesOf s d"
    unfolding eventSummariesOf_def n [symmetric] by (rule sorted_by_name [OF d]) (simp add: eventSummaryT_def)
  finally show ?thesis .
qed

subsection \<open>The theorems\<close>



text \<open>C22. After a flush of the event rollup, whether it succeeded or failed half way, the event summary of a subject,
  served from the rollup or from its fallback, is the one a scan of its events gives, provided the subject is
  not dirty any more and was dirty before the flush, or its rollup rows were exact before, or the flush was
  a full rebuild that succeeded. Nobody else writes the two event tables meanwhile, and their rows carry the
  hash bucket of their subject. A subject whose events were stored but whose mark was lost with a restart
  is none of these until it is marked again.\<close>

theorem event_summaries_exact:
  assumes "picksEvent (PickEvent env)" and "quietEvents env" and "eventsBucketed (Db m)" and "set order = dirtyEventSubjects m"
    and "FlushEventRollup env order m = (r, m')" and "s \<notin> dirtyEventSubjects m'"
    and "s \<in> dirtyEventSubjects m \<or> eventExact (PickEvent env) (Db m) s \<or> (eventRollupFullRebuild m \<and> r = None)"
  shows "fst (GetEventSummaries (PickEvent env) exists None None (Db m') (Db m') s ready)
    = Inr (getEventSummariesLake (PickEvent env) s (Db m'))"
proof -
  have st: "eventsExactOn (PickEvent env) {s. eventExact (PickEvent env) (Db m) s} (Db m)" using assms(3) by (simp add: eventsExactOn_def)
  have e: "eventsBucketed (Db m')" "eventExact (PickEvent env) (Db m') s"
    using event_flush_run [OF assms(2) st assms(4,5)] assms(6,7) by (auto simp: eventsExactOn_def)
  show ?thesis
    using rollup_event_summaries [OF assms(1) e] lake_event_summaries [OF assms(1) e(1), of s]
    by (simp add: GetEventSummaries_def queried_def Let_def split: prod.splits)
qed

theorem event_summaries_exact_witness:
  "(let m = snd (FlushEventRollup demoEnv [''s''] demoEventMat) in
    fst (GetEventSummaries (PickEvent demoEnv) (Inr True) None None (Db m) (Db m) ''s'' False)
    = Inr (getEventSummariesLake (PickEvent demoEnv) ''s'' (Db m)))"
  unfolding Let_def
proof (rule event_summaries_exact [OF _ _ _ _ prod.collapse [symmetric]])
  show "picksEvent (PickEvent demoEnv)" by (simp add: picksEvent_def demoEnv_def)
  show "quietEvents demoEnv" by (simp add: quietEvents_def demoEnv_def)
  show "eventsBucketed (Db demoEventMat)" by (simp add: eventsBucketed_def demoEventMat_def demoDb_def demoEventRow_def)
  show "set [''s''] = dirtyEventSubjects demoEventMat" by (simp add: demoEventMat_def)
  show "''s'' \<in> dirtyEventSubjects demoEventMat \<or> eventExact (PickEvent demoEnv) (Db demoEventMat) ''s''
      \<or> eventRollupFullRebuild demoEventMat \<and> fst (FlushEventRollup demoEnv [''s''] demoEventMat) = None"
    by (simp add: demoEventMat_def)
  have "subjectChunks [''s''] = [(HashBucket ''s'', [''s''])]"
    by (simp add: subjectChunks_def chunksOf.simps rollupSubjectChunk_def)
  then show "''s'' \<notin> dirtyEventSubjects (snd (FlushEventRollup demoEnv [''s''] demoEventMat))"
    by (simp add: FlushEventRollup_def demoEventMat_def demoMat_def runTx_def demo_calls demo_tick)
qed

end
