(* ===== verification/Lake_Fetch.thy ===== *)
theory Lake_Fetch
  imports Access Duck_Summaries "HOL-Library.Countable"
begin

section \<open>Cloud events from the lake (internal/service/duck: lake_fetch.go, raw.go; pkg/eventrepo)\<close>

text \<open>
  \<open>LakeEventService\<close> answers the queries for cloud events from lake.raw_events: the translation of search
  options to a filter, the filtered, void-free and deduplicated rows, the indexes and the payloads by
  index, the blob objects, and the summary of event types from the scan or its rollup. The theory proves
  that the service implements the interface the access checks rely on (locale \<open>event_service\<close> of
  \<open>Access\<close>), that an index leads back to the row it was made from, what rows a search returns, and that
  the type rollup answers as the scan does.

  Parameters (\<open>fetchEnv\<close>): which query fails, the row that \<open>ROW_NUMBER\<close> keeps among rows of one time, the
  JSON of the extras column, \<open>CloudEventHeader.Key\<close>, the object store, the cipher and the presigner, the
  order in which a map is walked (\<open>MapRank\<close>) and in which the concurrent downloads of one call finish (\<open>JobRank\<close>). Columns of
  lake.raw_events that are read into plain strings are never null. Rows that the \<open>ORDER BY\<close> leaves tied keep
  the order of the table. Metrics and logs are left out.
\<close>

subsection \<open>Rows and events\<close>

record rawTableRow =
  RtSubject :: string
  RtTime :: time
  RtType :: string
  RtId :: string
  RtSource :: string
  RtProducer :: string
  RtDataContentType :: string
  RtDataVersion :: string
  RtExtras :: "string option"
  RtData :: "string option"
  RtDataBase64 :: "string option"
  RtDataIndexKey :: "string option"
  RtVoidsId :: "string option"

text \<open>The header of a cloud event but for its subject, which an index carries itself; \<open>HdRest\<close> holds the
  fields that have no column.\<close>

record 'x eventHeader =
  HdTime :: time
  HdType :: string
  HdId :: string
  HdSource :: string
  HdProducer :: string
  HdDataContentType :: string
  HdDataVersion :: string
  HdRest :: 'x

record 'x storedEvent =
  SeSubject :: string
  SeHeader :: "'x eventHeader"
  SeData :: string
  SeDataBase64 :: string
  SeDataIndexKey :: string
  SeVoidsId :: string

record 'x payloadEvent =
  PeSubject :: string
  PeHeader :: "'x eventHeader"
  PeData :: string
  PeDataBase64 :: string

text \<open>A row of lake.raw_types_latest.\<close>

record typeRow =
  TyRowSubject :: string
  TyRowType :: string
  TyRowCount :: nat
  TyRowFirstSeen :: time
  TyRowLastSeen :: time

record lakeTables =
  LtRawEvents :: "rawTableRow list"
  LtRawTypes :: "typeRow list"

subsection \<open>Object store (s3_reader.go)\<close>

datatype s3Error = S3NoSuchKey | S3NotFound | S3Api string | S3Other string

text \<open>An answer of \<open>GetObject\<close>: its content length, the bytes of its body, and the error that follows them.\<close>

datatype s3Object = S3Object (ContentLength: "int option") (Body: string) (BodyErr: "string option")

datatype objError = GetFailed s3Error | TooLarge | TooLargePlain | ReadFailed string

definition IsObjectTooLarge :: "objError \<Rightarrow> bool" where "IsObjectTooLarge e = (e = TooLarge)"

fun IsObjectNotFound :: "objError \<Rightarrow> bool" where
  "IsObjectNotFound (GetFailed S3NoSuchKey) = True"
| "IsObjectNotFound (GetFailed S3NotFound) = True"
| "IsObjectNotFound (GetFailed (S3Api code)) = (code \<in> {''NoSuchKey'', ''NotFound'', ''NotFoundException'', ''404''})"
| "IsObjectNotFound e = False"

definition readLimited :: "s3Object \<Rightarrow> nat \<Rightarrow> objError + string" where
  "readLimited resp maxSize =
     (let data = take (Suc maxSize) (Body resp) in
      if length data \<le> maxSize \<and> BodyErr resp \<noteq> None then Inl (ReadFailed (the (BodyErr resp)))
      else if maxSize < length data then Inl TooLargePlain else Inr data)"

definition downloadS3Object :: "(string \<Rightarrow> s3Error + s3Object) \<Rightarrow> string \<Rightarrow> nat \<Rightarrow> objError + string" where
  "downloadS3Object getObject key maxSize =
     (case getObject key of
        Inl e \<Rightarrow> Inl (GetFailed e)
      | Inr resp \<Rightarrow>
          (case ContentLength resp of
             None \<Rightarrow> readLimited resp maxSize
           | Some n \<Rightarrow>
               if n \<le> 0 then readLimited resp maxSize
               else if int maxSize < n then Inl TooLarge
               else if nat n \<le> length (Body resp) then Inr (take (nat n) (Body resp))
               else Inl (ReadFailed (case BodyErr resp of None \<Rightarrow> ''unexpected EOF'' | Some e \<Rightarrow> e))))"

definition maxObjectSize :: nat where "maxObjectSize = 50 * 2 ^ 20"

definition DownloadObject :: "(string \<Rightarrow> s3Error + s3Object) \<Rightarrow> string \<Rightarrow> objError + string" where
  "DownloadObject getObject key = downloadS3Object getObject key maxObjectSize"

subsection \<open>Filters (raw.go)\<close>

record rawFilter =
  RfSubject :: string
  RfSubjects :: "string list"
  RfTypes :: "string list"
  RfTypesNotIn :: "string list"
  RfSources :: "string list"
  RfSourcesNotIn :: "string list"
  RfProducers :: "string list"
  RfProducersNotIn :: "string list"
  RfIDs :: "string list"
  RfIDsNotIn :: "string list"
  RfDataVersions :: "string list"
  RfDataVersionsNotIn :: "string list"
  RfTags :: "string list"
  RfTagsAll :: "string list"
  RfTagsNotContainAny :: "string list"
  RfTagsNotContainAll :: "string list"
  RfExtras :: "string list"
  RfExtrasNotIn :: "string list"
  RfAfter :: time
  RfBefore :: time
  RfExcludeVoided :: bool
  RfTimestampAsc :: bool

definition emptyRawFilter :: rawFilter where
  "emptyRawFilter = \<lparr>RfSubject = [], RfSubjects = [], RfTypes = [], RfTypesNotIn = [], RfSources = [], RfSourcesNotIn = [],
     RfProducers = [], RfProducersNotIn = [], RfIDs = [], RfIDsNotIn = [], RfDataVersions = [], RfDataVersionsNotIn = [],
     RfTags = [], RfTagsAll = [], RfTagsNotContainAny = [], RfTagsNotContainAll = [], RfExtras = [], RfExtrasNotIn = [],
     RfAfter = zeroTime, RfBefore = zeroTime, RfExcludeVoided = False, RfTimestampAsc = False\<rparr>"

subsection \<open>The environment of the service\<close>

record 'x fetchEnv =
  QueryErr :: "string \<Rightarrow> rawFilter \<Rightarrow> string option"
  FetchNow :: time
  RowChoice :: "rawTableRow list \<Rightarrow> nat"
  TagsOf :: "string option \<Rightarrow> string list"
  BindTime :: "time \<Rightarrow> time"
  ParseExtras :: "string \<Rightarrow> 'x option"
  NoExtras :: 'x
  EventKey :: "string \<Rightarrow> 'x eventHeader \<Rightarrow> string"
  Getter :: "(string \<Rightarrow> s3Error + s3Object) option"
  BlobCipher :: "(string \<Rightarrow> string \<Rightarrow> string + string) option"
  PresignGetObject :: "(string \<Rightarrow> string + string) option"
  FetchBucket :: string
  RollupTableExists :: "bool res"
  MapRank :: "string \<Rightarrow> nat"
  JobRank :: "nat \<Rightarrow> nat"

definition addIn :: "string list \<Rightarrow> string \<Rightarrow> bool" where "addIn vals v = (vals = [] \<or> v \<in> set vals)"

definition addNotIn :: "string list \<Rightarrow> string \<Rightarrow> bool" where "addNotIn vals v = (vals = [] \<or> v \<notin> set vals)"

text \<open>A null column is in no list and, in SQL, not outside one either.\<close>

definition nullIn :: "(string \<Rightarrow> bool) \<Rightarrow> string list \<Rightarrow> string option \<Rightarrow> bool" where
  "nullIn cond vals v = (vals = [] \<or> (case v of None \<Rightarrow> False | Some s \<Rightarrow> cond s))"

definition subjectCond :: "rawFilter \<Rightarrow> string \<Rightarrow> bool" where
  "subjectCond f s = (if RfSubjects f \<noteq> [] then s \<in> set (RfSubjects f) else if RfSubject f \<noteq> [] then s = RfSubject f else True)"

text \<open>\<open>TagsOf\<close> is the tags array of the extras column, empty where it cannot be cast; \<open>BindTime\<close> is the precision of a bound timestamp.\<close>

definition whereClauseQ :: "'x fetchEnv \<Rightarrow> rawFilter \<Rightarrow> rawTableRow \<Rightarrow> bool" where
  "whereClauseQ env f r =
     (subjectCond f (RtSubject r)
      \<and> addIn (RfTypes f) (RtType r) \<and> addNotIn (RfTypesNotIn f) (RtType r)
      \<and> addIn (RfSources f) (RtSource r) \<and> addNotIn (RfSourcesNotIn f) (RtSource r)
      \<and> addIn (RfProducers f) (RtProducer r) \<and> addNotIn (RfProducersNotIn f) (RtProducer r)
      \<and> addIn (RfIDs f) (RtId r) \<and> addNotIn (RfIDsNotIn f) (RtId r)
      \<and> addIn (RfDataVersions f) (RtDataVersion r) \<and> addNotIn (RfDataVersionsNotIn f) (RtDataVersion r)
      \<and> nullIn (addIn (RfExtras f)) (RfExtras f) (RtExtras r) \<and> nullIn (addNotIn (RfExtrasNotIn f)) (RfExtrasNotIn f) (RtExtras r)
      \<and> (RfTags f = [] \<or> list_ex (\<lambda>t. t \<in> set (TagsOf env (RtExtras r))) (RfTags f))
      \<and> (RfTagsAll f = [] \<or> list_all (\<lambda>t. t \<in> set (TagsOf env (RtExtras r))) (RfTagsAll f))
      \<and> (RfTagsNotContainAny f = [] \<or> \<not> list_ex (\<lambda>t. t \<in> set (TagsOf env (RtExtras r))) (RfTagsNotContainAny f))
      \<and> (RfTagsNotContainAll f = [] \<or> \<not> list_all (\<lambda>t. t \<in> set (TagsOf env (RtExtras r))) (RfTagsNotContainAll f))
      \<and> (IsZero (RfAfter f) \<or> BindTime env (RfAfter f) < RtTime r)
      \<and> (IsZero (RfBefore f) \<or> RtTime r < BindTime env (RfBefore f)))"

text \<open>\<open>voidingClause\<close>: no tombstone, and no event that a tombstone of its subject voids.\<close>

definition voids :: "rawTableRow \<Rightarrow> string option" where
  "voids t = (case RtVoidsId t of None \<Rightarrow> None | Some v \<Rightarrow> if v = [] then None else Some v)"

definition voidingClause :: "rawTableRow list \<Rightarrow> rawTableRow \<Rightarrow> bool" where
  "voidingClause tab r = (voids r = None \<and> \<not> list_ex (\<lambda>t. voids t = Some (RtId r) \<and> RtSubject t = RtSubject r) tab)"

subsection \<open>Searching raw events\<close>

definition defaultFetchScanWindow :: duration where "defaultFetchScanWindow = 400 * 24 * hour"

definition maxLakeQueryLimit :: nat where "maxLakeQueryLimit = 1000"

text \<open>The header key of the dedup, and the row it keeps: one of the earliest.\<close>

definition headerKey :: "rawTableRow \<Rightarrow> string \<times> int \<times> string \<times> string \<times> string" where
  "headerKey r = (RtSubject r, RtTime r div second, RtType r, RtSource r, RtId r)"

definition firstRow :: "'x fetchEnv \<Rightarrow> rawTableRow list \<Rightarrow> rawTableRow" where
  "firstRow env rows =
     (let earliest = filter (\<lambda>r. RtTime r = Min (RtTime ` set rows)) rows
      in earliest ! (RowChoice env earliest mod length earliest))"

definition rawEventDedupQualify :: "'x fetchEnv \<Rightarrow> rawTableRow list \<Rightarrow> rawTableRow list" where
  "rawEventDedupQualify env rows = deduped (firstRow env) headerKey rows"

definition rowOrder :: "rawTableRow \<Rightarrow> time \<times> string \<times> string" where "rowOrder r = (RtTime r, RtId r, RtType r)"

definition nonColumnFields :: "'x fetchEnv \<Rightarrow> string option \<Rightarrow> 'x" where
  "nonColumnFields env extras =
     (case extras of None \<Rightarrow> NoExtras env
      | Some e \<Rightarrow> if e = [] \<or> e = ''{}'' then NoExtras env
                  else (case ParseExtras env e of None \<Rightarrow> NoExtras env | Some x \<Rightarrow> x))"

definition headerOf :: "'x fetchEnv \<Rightarrow> rawTableRow \<Rightarrow> 'x eventHeader" where
  "headerOf env r = \<lparr>HdTime = RtTime r, HdType = RtType r, HdId = RtId r, HdSource = RtSource r, HdProducer = RtProducer r,
     HdDataContentType = RtDataContentType r, HdDataVersion = RtDataVersion r, HdRest = nonColumnFields env (RtExtras r)\<rparr>"

definition scanStoredEvent :: "'x fetchEnv \<Rightarrow> rawTableRow \<Rightarrow> 'x storedEvent" where
  "scanStoredEvent env r =
     (let b64 = (case RtDataBase64 r of None \<Rightarrow> [] | Some b \<Rightarrow> b);
          data = (case RtData r of None \<Rightarrow> [] | Some d \<Rightarrow> d)
      in \<lparr>SeSubject = RtSubject r, SeHeader = headerOf env r, SeData = (if b64 \<noteq> [] then [] else data), SeDataBase64 = b64,
          SeDataIndexKey = (case RtDataIndexKey r of None \<Rightarrow> [] | Some k \<Rightarrow> k), SeVoidsId = (case RtVoidsId r of None \<Rightarrow> [] | Some v \<Rightarrow> v)\<rparr>)"

text \<open>The two projections of a row.\<close>

definition rawEventIndexColumns :: "rawTableRow \<Rightarrow> rawTableRow" where
  "rawEventIndexColumns r = r\<lparr>RtData := None, RtDataBase64 := None\<rparr>"

definition RawEventColumns :: "rawTableRow \<Rightarrow> rawTableRow" where "RawEventColumns r = r"

text \<open>The rows a search finds, and their page.\<close>

definition scanWindow :: "'x fetchEnv \<Rightarrow> rawFilter \<Rightarrow> rawFilter" where
  "scanWindow env f =
     (if IsZero (RfAfter f) \<and> RfIDs f = [] \<and> RfSubject f = [] \<and> RfSubjects f = []
      then f\<lparr>RfAfter := (if \<not> IsZero (RfBefore f) then RfBefore f else FetchNow env) - defaultFetchScanWindow\<rparr> else f)"

definition foundRows :: "'x fetchEnv \<Rightarrow> rawTableRow list \<Rightarrow> rawFilter \<Rightarrow> rawTableRow list" where
  "foundRows env tab f =
     (let rows = rawEventDedupQualify env (filter (\<lambda>r. whereClauseQ env f r \<and> (RfExcludeVoided f \<longrightarrow> voidingClause tab r)) tab)
      in if RfTimestampAsc f then sort_key rowOrder rows else rev (sort_key rowOrder (rev rows)))"

definition queryLakeRawCols ::
  "'x fetchEnv \<Rightarrow> lakeTables \<Rightarrow> rawFilter \<Rightarrow> nat \<Rightarrow> (rawTableRow \<Rightarrow> rawTableRow) \<Rightarrow> string \<Rightarrow> svcError + 'x storedEvent list" where
  "queryLakeRawCols env lt flt limit cols op =
     (let f = scanWindow env flt in
      (case QueryErr env op f of
         Some e \<Rightarrow> Inl (OtherError e)
       | None \<Rightarrow> Inr (map (\<lambda>r. scanStoredEvent env (cols r)) (take limit (foundRows env (LtRawEvents lt) f)))))"

definition queryLakeRaw :: "'x fetchEnv \<Rightarrow> lakeTables \<Rightarrow> rawFilter \<Rightarrow> nat \<Rightarrow> string \<Rightarrow> svcError + 'x storedEvent list" where
  "queryLakeRaw env lt flt limit op = queryLakeRawCols env lt flt limit RawEventColumns op"

subsection \<open>Search options\<close>

text \<open>The fields of the plain search options besides the subject.\<close>

record searchRest =
  SrAfter :: "time option"
  SrBefore :: "time option"
  SrTimestampAsc :: "bool option"
  SrType :: "string option"
  SrDataVersion :: "string option"
  SrSourceOpt :: "string option"
  SrProducer :: "string option"
  SrExtras :: "string option"
  SrId :: "string option"

definition errOrClauseUnsupported :: svcError where
  "errOrClauseUnsupported = OtherError ''lake fetch: Or clauses in advanced filter are not yet supported''"

definition applyString :: "stringFilterOption option \<Rightarrow> svcError + string list \<times> string list" where
  "applyString opt =
     (case opt of None \<Rightarrow> Inr ([], [])
      | Some v \<Rightarrow> if GetOr v \<noteq> [] then Inl errOrClauseUnsupported else Inr (GetIn v, GetNotIn v))"

fun andThen :: "'e + 'a \<Rightarrow> ('a \<Rightarrow> 'e + 'b) \<Rightarrow> 'e + 'b" where
  "andThen (Inl e) k = Inl e"
| "andThen (Inr x) k = k x"

definition filterFromAdvanced :: "advancedSearchOptions option \<Rightarrow> svcError + rawFilter" where
  "filterFromAdvanced opts0 =
     (let f = emptyRawFilter\<lparr>RfExcludeVoided := True\<rparr> in
      (case opts0 of None \<Rightarrow> Inr f
       | Some opts \<Rightarrow>
           andThen (applyString (AdvSubject opts)) (\<lambda>(subjects, _).
           andThen (applyString (AdvType opts)) (\<lambda>(types, typesNotIn).
           andThen (applyString (AdvSource opts)) (\<lambda>(sources, sourcesNotIn).
           andThen (applyString (AdvProducer opts)) (\<lambda>(producers, producersNotIn).
           andThen (applyString (AdvId opts)) (\<lambda>(ids, idsNotIn).
           andThen (applyString (AdvDataVersion opts)) (\<lambda>(versions, versionsNotIn).
           andThen (applyString (AdvExtras opts)) (\<lambda>(extras, extrasNotIn).
           andThen (case AdvTags opts of None \<Rightarrow> Inr ([], [], [], [])
                    | Some t \<Rightarrow> if ArrayOr t \<noteq> [] then Inl errOrClauseUnsupported
                               else Inr (ContainsAny t, ContainsAll t, NotContainsAny t, NotContainsAll t)) (\<lambda>(tags, tagsAll, notAny, notAll).
           Inr (f\<lparr>RfSubjects := subjects, RfTypes := types, RfTypesNotIn := typesNotIn, RfSources := sources, RfSourcesNotIn := sourcesNotIn,
             RfProducers := producers, RfProducersNotIn := producersNotIn, RfIDs := ids, RfIDsNotIn := idsNotIn,
             RfDataVersions := versions, RfDataVersionsNotIn := versionsNotIn, RfExtras := extras, RfExtrasNotIn := extrasNotIn,
             RfTags := tags, RfTagsAll := tagsAll, RfTagsNotContainAny := notAny, RfTagsNotContainAll := notAll,
             RfAfter := (case AdvAfter opts of None \<Rightarrow> zeroTime | Some t \<Rightarrow> t), RfBefore := (case AdvBefore opts of None \<Rightarrow> zeroTime | Some t \<Rightarrow> t),
             RfTimestampAsc := (case AdvTimestampAsc opts of None \<Rightarrow> False | Some b \<Rightarrow> b)\<rparr>)))))))))))"

definition toAdvanced :: "searchRest searchOptions option \<Rightarrow> advancedSearchOptions option" where
  "toAdvanced opts0 =
     map_option (\<lambda>opts. let r = SoOther opts in
       \<lparr>AdvAfter = SrAfter r, AdvBefore = SrBefore r, AdvTimestampAsc = SrTimestampAsc r, AdvType = oneOf (SrType r), AdvDataVersion = oneOf (SrDataVersion r),
        AdvSubject = oneOf (SoSubject opts), AdvSource = oneOf (SrSourceOpt r), AdvProducer = oneOf (SrProducer r), AdvExtras = oneOf (SrExtras r),
        AdvId = oneOf (SrId r), AdvTags = None\<rparr>) opts0"

subsection \<open>Indexes\<close>

definition toIndex :: "'x storedEvent \<Rightarrow> 'x eventHeader objectIndex" where
  "toIndex ev = \<lparr>IxSubject = SeSubject ev,
     IxKey = (if SeDataIndexKey ev = [] then ''lake://'' @ SeSubject ev @ ''/'' @ HdId (SeHeader ev) else SeDataIndexKey ev), IxHeader = SeHeader ev\<rparr>"

definition lakeListIndexesAdvanced ::
  "'x fetchEnv \<Rightarrow> lakeTables \<Rightarrow> int \<Rightarrow> advancedSearchOptions option \<Rightarrow> svcError + 'x eventHeader objectIndex list" where
  "lakeListIndexesAdvanced env lt limit opts =
     (let limit = (if limit \<le> 0 then 1 else limit);
          limit = (if int maxLakeQueryLimit < limit then int maxLakeQueryLimit else limit)
      in andThen (filterFromAdvanced opts) (\<lambda>f.
         andThen (queryLakeRawCols env lt f (nat limit) rawEventIndexColumns ''fetchIndexSearch'') (\<lambda>evs.
         Inr (map toIndex evs))))"

definition lakeGetLatestIndexAdvanced ::
  "'x fetchEnv \<Rightarrow> lakeTables \<Rightarrow> advancedSearchOptions option \<Rightarrow> svcError + 'x eventHeader objectIndex" where
  "lakeGetLatestIndexAdvanced env lt opts =
     andThen (filterFromAdvanced opts) (\<lambda>f.
     andThen (queryLakeRawCols env lt (f\<lparr>RfTimestampAsc := False\<rparr>) 1 rawEventIndexColumns ''fetchLatestIndex'') (\<lambda>evs.
     case evs of [] \<Rightarrow> Inl NoRows | ev # _ \<Rightarrow> Inr (toIndex ev)))"

subsection \<open>Payloads\<close>

definition toRawEvent :: "'x storedEvent \<Rightarrow> 'x payloadEvent" where
  "toRawEvent ev = \<lparr>PeSubject = SeSubject ev, PeHeader = SeHeader ev, PeData = SeData ev, PeDataBase64 = SeDataBase64 ev\<rparr>"

definition resolvePayload :: "'x fetchEnv \<Rightarrow> 'x storedEvent \<Rightarrow> svcError + 'x payloadEvent" where
  "resolvePayload env ev =
     (let raw = toRawEvent ev in
      if PeData raw \<noteq> [] \<or> PeDataBase64 raw \<noteq> [] then Inr raw
      else if \<not> hasPrefix BlobKeyPrefix (SeDataIndexKey ev) then Inr raw
      else (case Getter env of
              None \<Rightarrow> Inl (OtherError ''blob payload requires an object store but none is configured'')
            | Some get \<Rightarrow>
                (case DownloadObject get (SeDataIndexKey ev) of
                   Inl err \<Rightarrow> if IsObjectNotFound err then Inr raw else Inl (OtherError ''fetch blob payload'')
                 | Inr data \<Rightarrow>
                     (case BlobCipher env of
                        None \<Rightarrow> Inr (raw\<lparr>PeData := data\<rparr>)
                      | Some open' \<Rightarrow> (case open' (SeDataIndexKey ev) data of
                            Inl e \<Rightarrow> Inl (OtherError ''decrypt blob payload'') | Inr plain \<Rightarrow> Inr (raw\<lparr>PeData := plain\<rparr>))))))"

definition idRowExpansion :: nat where "idRowExpansion = 8"

definition idsPerFetchBatch :: nat where "idsPerFetchBatch = maxLakeQueryLimit div idRowExpansion"

definition byID :: "string \<Rightarrow> string list \<Rightarrow> rawFilter" where
  "byID subject ids = emptyRawFilter\<lparr>RfSubject := subject, RfIDs := ids, RfExcludeVoided := True\<rparr>"

definition seKey :: "'x fetchEnv \<Rightarrow> 'x storedEvent \<Rightarrow> string" where "seKey env ev = EventKey env (SeSubject ev) (SeHeader ev)"

definition ixKey :: "'x fetchEnv \<Rightarrow> 'x eventHeader objectIndex \<Rightarrow> string" where "ixKey env i = EventKey env (IxSubject i) (IxHeader i)"

definition lakeGetCloudEventFromIndex :: "'x fetchEnv \<Rightarrow> lakeTables \<Rightarrow> 'x eventHeader objectIndex \<Rightarrow> svcError + 'x payloadEvent" where
  "lakeGetCloudEventFromIndex env lt index =
     andThen (queryLakeRaw env lt (byID (IxSubject index) [HdId (IxHeader index)]) idRowExpansion ''fetchByID'') (\<lambda>evs.
     case evs of [] \<Rightarrow> Inl NoRows
     | ev # _ \<Rightarrow> resolvePayload env (case find (\<lambda>e. seKey env e = ixKey env index) evs of None \<Rightarrow> ev | Some e \<Rightarrow> e))"

text \<open>\<open>ListCloudEventsFromIndexes\<close>: the ids by subject without duplicates, the rows of each batch, the row of each index.\<close>

definition idsBySubject :: "'x eventHeader objectIndex list \<Rightarrow> string \<Rightarrow> string list" where
  "idsBySubject indexes subject = rev (remdups (rev (map (\<lambda>i. HdId (IxHeader i)) (filter (\<lambda>i. IxSubject i = subject) indexes))))"

record 'x fetched =
  Found :: "string \<rightharpoonup> 'x storedEvent"
  BySubjectID :: "string \<times> string \<rightharpoonup> 'x storedEvent"

definition recordEvent :: "'x fetchEnv \<Rightarrow> 'x storedEvent \<Rightarrow> 'x fetched \<Rightarrow> 'x fetched" where
  "recordEvent env ev s =
     (let k = (SeSubject ev, HdId (SeHeader ev)) in
      s\<lparr>Found := (Found s)(seKey env ev \<mapsto> ev),
        BySubjectID := (if BySubjectID s k = None then (BySubjectID s)(k \<mapsto> ev) else BySubjectID s)\<rparr>)"

fun batchLoop :: "'x fetchEnv \<Rightarrow> lakeTables \<Rightarrow> string \<Rightarrow> string list list \<Rightarrow> 'x fetched \<Rightarrow> svcError + 'x fetched" where
  "batchLoop env lt subject [] s = Inr s"
| "batchLoop env lt subject (batch # rest) s =
     andThen (queryLakeRaw env lt (byID subject batch) (length batch * idRowExpansion) ''fetchByIDBatch'') (\<lambda>evs.
     batchLoop env lt subject rest (fold (recordEvent env) evs s))"

fun subjectLoop :: "'x fetchEnv \<Rightarrow> lakeTables \<Rightarrow> 'x eventHeader objectIndex list \<Rightarrow> string list \<Rightarrow> 'x fetched \<Rightarrow> svcError + 'x fetched" where
  "subjectLoop env lt indexes [] s = Inr s"
| "subjectLoop env lt indexes (subject # rest) s =
     andThen (batchLoop env lt subject (chunksOf idsPerFetchBatch (idsBySubject indexes subject)) s) (\<lambda>s.
     subjectLoop env lt indexes rest s)"

fun matchLoop :: "'x fetchEnv \<Rightarrow> 'x fetched \<Rightarrow> 'x eventHeader objectIndex list \<Rightarrow> svcError + 'x storedEvent list" where
  "matchLoop env s [] = Inr []"
| "matchLoop env s (i # rest) =
     (case (case Found s (ixKey env i) of Some ev \<Rightarrow> Some ev | None \<Rightarrow> BySubjectID s (IxSubject i, HdId (IxHeader i))) of
        None \<Rightarrow> Inl NoRows
      | Some ev \<Rightarrow> andThen (matchLoop env s rest) (\<lambda>evs. Inr (ev # evs)))"

definition maxListPayloadBytes :: nat where "maxListPayloadBytes = 256 * 2 ^ 20"

text \<open>The concurrent resolutions, in the order in which they finish; the first error is the one the group reports.\<close>

fun resolveJobs :: "'x fetchEnv \<Rightarrow> 'x storedEvent list \<Rightarrow> nat \<Rightarrow> svcError option" where
  "resolveJobs env [] payloadBytes = None"
| "resolveJobs env (ev # evs) payloadBytes =
     (if maxListPayloadBytes < payloadBytes then Some PayloadBudgetExceeded
      else (case resolvePayload env ev of
              Inl err \<Rightarrow> Some err
            | Inr raw \<Rightarrow> let n = payloadBytes + length (PeData raw) in
                if maxListPayloadBytes < n then Some PayloadBudgetExceeded else resolveJobs env evs n))"

definition lakeListCloudEventsFromIndexes ::
  "'x fetchEnv \<Rightarrow> lakeTables \<Rightarrow> 'x eventHeader objectIndex list \<Rightarrow> svcError + 'x payloadEvent list" where
  "lakeListCloudEventsFromIndexes env lt indexes =
     (if indexes = [] then Inr []
      else andThen (subjectLoop env lt indexes (sort_key (MapRank env) (remdups (map IxSubject indexes))) \<lparr>Found = Map.empty, BySubjectID = Map.empty\<rparr>) (\<lambda>s.
           andThen (matchLoop env s indexes) (\<lambda>evs.
           case resolveJobs env (map (nth evs) (sort_key (JobRank env) [0..<length evs])) 0 of
             Some err \<Rightarrow> Inl err
           | None \<Rightarrow> Inr (map (\<lambda>ev. projr (resolvePayload env ev)) evs))))"

definition lakePresignBlobURL :: "'x fetchEnv \<Rightarrow> string \<Rightarrow> svcError + string" where
  "lakePresignBlobURL env key =
     (if \<not> hasPrefix BlobKeyPrefix key then Inl (OtherError ''presign: key is not a blob ref'')
      else (case PresignGetObject env of
              None \<Rightarrow> Inl (OtherError ''presigner not configured'')
            | Some presign \<Rightarrow>
                if FetchBucket env = [] then Inl (OtherError ''bucket not configured'')
                else (case presign key of Inl e \<Rightarrow> Inl (OtherError e) | Inr url \<Rightarrow> Inr url)))"

subsection \<open>Type summaries\<close>

definition typeSummaryRollupServable :: "rawFilter \<Rightarrow> bool" where
  "typeSummaryRollupServable f =
     (RfSources f = [] \<and> RfSourcesNotIn f = [] \<and> RfProducers f = [] \<and> RfProducersNotIn f = [] \<and> RfIDs f = [] \<and> RfIDsNotIn f = []
      \<and> RfDataVersions f = [] \<and> RfDataVersionsNotIn f = [] \<and> RfExtras f = [] \<and> RfExtrasNotIn f = []
      \<and> RfTags f = [] \<and> RfTagsAll f = [] \<and> RfTagsNotContainAny f = [] \<and> RfTagsNotContainAll f = []
      \<and> IsZero (RfAfter f) \<and> IsZero (RfBefore f))"

text \<open>The deduplicated rows a summary counts.\<close>

definition countedRows :: "'x fetchEnv \<Rightarrow> rawFilter \<Rightarrow> rawTableRow list \<Rightarrow> rawTableRow list" where
  "countedRows env f tab = rawEventDedupQualify env (filter (\<lambda>r. whereClauseQ env f r \<and> voidingClause tab r) tab)"

definition getTypeSummariesScan :: "'x fetchEnv \<Rightarrow> rawFilter \<Rightarrow> lakeTables \<Rightarrow> typeSummary list" where
  "getTypeSummariesScan env f lt =
     (let rows = countedRows env f (LtRawEvents lt) in
      map (\<lambda>ty. let ts = map RtTime (filter (\<lambda>r. RtType r = ty) rows)
                in \<lparr>TsType = ty, TsCount = length ts, TsFirstSeen = Min (set ts), TsLastSeen = Max (set ts)\<rparr>)
        (sort (remdups (map RtType rows))))"

definition RawTypesRollupSelect :: "'x fetchEnv \<Rightarrow> rawTableRow list \<Rightarrow> typeRow list" where
  "RawTypesRollupSelect env tab =
     (let rows = countedRows env emptyRawFilter tab in
      map (\<lambda>(s, ty). let ts = map RtTime (filter (\<lambda>r. RtSubject r = s \<and> RtType r = ty) rows)
                     in \<lparr>TyRowSubject = s, TyRowType = ty, TyRowCount = length ts, TyRowFirstSeen = Min (set ts), TyRowLastSeen = Max (set ts)\<rparr>)
        (remdups (map (\<lambda>r. (RtSubject r, RtType r)) rows)))"

text \<open>The where clause of a servable filter on the rollup has only the conditions on subject and type.\<close>

definition getTypeSummariesRollup :: "rawFilter \<Rightarrow> lakeTables \<Rightarrow> typeSummary list" where
  "getTypeSummariesRollup f lt =
     (let rows = filter (\<lambda>v. subjectCond f (TyRowSubject v) \<and> addIn (RfTypes f) (TyRowType v) \<and> addNotIn (RfTypesNotIn f) (TyRowType v)) (LtRawTypes lt) in
      map (\<lambda>ty. let vs = filter (\<lambda>v. TyRowType v = ty) rows
                in \<lparr>TsType = ty, TsCount = sum_list (map TyRowCount vs), TsFirstSeen = Min (TyRowFirstSeen ` set vs), TsLastSeen = Max (TyRowLastSeen ` set vs)\<rparr>)
        (sort (remdups (map TyRowType rows))))"

text \<open>\<open>ready\<close> is the cached flag of the service.\<close>

definition rawTypesRollupAvailable :: "'x fetchEnv \<Rightarrow> bool \<Rightarrow> bool \<times> bool" where
  "rawTypesRollupAvailable env ready =
     (if ready then (True, True) else (case RollupTableExists env of Inr True \<Rightarrow> (True, True) | _ \<Rightarrow> (False, False)))"

definition scanTypeSummaries :: "'x fetchEnv \<Rightarrow> string \<Rightarrow> rawFilter \<Rightarrow> typeSummary list \<Rightarrow> svcError + typeSummary list" where
  "scanTypeSummaries env op f rows = (case QueryErr env op f of Some e \<Rightarrow> Inl (OtherError e) | None \<Rightarrow> Inr rows)"

definition lakeGetCloudEventTypeSummariesAdvanced ::
  "'x fetchEnv \<Rightarrow> lakeTables \<Rightarrow> advancedSearchOptions option \<Rightarrow> bool \<Rightarrow> (svcError + typeSummary list) \<times> bool" where
  "lakeGetCloudEventTypeSummariesAdvanced env lt opts ready =
     (case filterFromAdvanced opts of
        Inl err \<Rightarrow> (Inl err, ready)
      | Inr f \<Rightarrow>
          let scan = scanTypeSummaries env ''fetchTypeSummary'' f (getTypeSummariesScan env f lt);
              (available, ready') = (if typeSummaryRollupServable f then rawTypesRollupAvailable env ready else (False, ready))
          in if available
             then (case scanTypeSummaries env ''fetchTypeSummaryRollup'' f (getTypeSummariesRollup f lt) of
                     Inl err \<Rightarrow> (Inl err, ready')
                   | Inr out \<Rightarrow> (if out \<noteq> [] then Inr out else scan, ready'))
             else (scan, ready'))"

text \<open>The rebuild of the rollup (raw_types.go): one transaction, which fails as a whole.\<close>

definition RecomputeRawTypesRollup :: "'x fetchEnv \<Rightarrow> bool res \<Rightarrow> txOutcome \<Rightarrow> lakeTables \<Rightarrow> goerr option \<times> lakeTables" where
  "RecomputeRawTypesRollup env exists tx lt =
     (let done = lt\<lparr>LtRawTypes := RawTypesRollupSelect env (LtRawEvents lt)\<rparr> in
      (case exists of
         Inl err \<Rightarrow> (Some err, lt)
       | Inr False \<Rightarrow> (None, lt)
       | Inr True \<Rightarrow> (case tx of TxOk \<Rightarrow> (None, done) | TxStmt e \<Rightarrow> (Some e, lt) | TxCommitErr landed e \<Rightarrow> (Some e, if landed then done else lt))))"

subsection \<open>The service\<close>

definition lakeService :: "'x fetchEnv \<Rightarrow> bool \<Rightarrow> lakeTables \<Rightarrow> (searchRest, 'x eventHeader, 'x payloadEvent) eventService" where
  "lakeService env ready lt =
     \<lparr>SvcGetLatestIndex = \<lambda>p. lakeGetLatestIndexAdvanced env lt (toAdvanced (Some p)),
      SvcGetLatestIndexAdvanced = \<lambda>a. lakeGetLatestIndexAdvanced env lt (Some a),
      SvcListIndexes = \<lambda>n p. lakeListIndexesAdvanced env lt n (toAdvanced (Some p)),
      SvcListIndexesAdvanced = \<lambda>n a. lakeListIndexesAdvanced env lt n (Some a),
      SvcGetCloudEventTypeSummariesAdvanced = \<lambda>a. fst (lakeGetCloudEventTypeSummariesAdvanced env lt (Some a) ready),
      SvcGetCloudEventFromIndex = lakeGetCloudEventFromIndex env lt,
      SvcListCloudEventsFromIndexes = lakeListCloudEventsFromIndexes env lt,
      SvcPresignBlobURL = lakePresignBlobURL env,
      SvcBlobsMaybeSealed = (BlobCipher env \<noteq> None)\<rparr>"

subsection \<open>What a search finds\<close>

lemma firstRow_in: "rows \<noteq> [] \<Longrightarrow> firstRow env rows \<in> set rows"
proof -
  assume "rows \<noteq> []"
  let ?e = "filter (\<lambda>r. RtTime r = Min (RtTime ` set rows)) rows"
  have "Min (RtTime ` set rows) \<in> RtTime ` set rows" using \<open>rows \<noteq> []\<close> by (intro Min_in) auto
  then have "?e \<noteq> []" by (auto simp: filter_empty_conv)
  then have "?e ! (RowChoice env ?e mod length ?e) \<in> set ?e" by (intro nth_mem) simp
  then show ?thesis unfolding firstRow_def Let_def by (metis (no_types, lifting) filter_is_subset subsetD)
qed

lemma deduped_part: "k \<in> key ` set rows \<Longrightarrow> filter (\<lambda>r. key r = k) rows \<noteq> []"
  by (auto simp: filter_empty_conv)

lemma deduped_key:
  assumes "k \<in> headerKey ` set rows"
  shows "headerKey (firstRow env (filter (\<lambda>r. headerKey r = k) rows)) = k"
    "firstRow env (filter (\<lambda>r. headerKey r = k) rows) \<in> set rows"
  using firstRow_in [OF deduped_part [OF assms], of env] by auto

lemma dedup_in: "r \<in> set (rawEventDedupQualify env rows) \<Longrightarrow> r \<in> set rows"
  unfolding rawEventDedupQualify_def deduped_def by (simp add: image_iff) (metis deduped_key(2) imageI)

lemma dedup_keys: "map headerKey (rawEventDedupQualify env rows) = remdups (map headerKey rows)"
proof -
  have "map (headerKey \<circ> (\<lambda>k. firstRow env (filter (\<lambda>r. headerKey r = k) rows))) (remdups (map headerKey rows)) = map id (remdups (map headerKey rows))"
    by (intro map_cong) (auto simp: deduped_key(1))
  then show ?thesis by (simp add: rawEventDedupQualify_def deduped_def)
qed

lemma foundRows_mset: "mset (foundRows env tab f)
    = mset (rawEventDedupQualify env (filter (\<lambda>r. whereClauseQ env f r \<and> (RfExcludeVoided f \<longrightarrow> voidingClause tab r)) tab))"
  by (simp add: foundRows_def Let_def)

lemma foundRows_in:
  assumes "r \<in> set (foundRows env tab f)"
  shows "r \<in> set tab" "whereClauseQ env f r" "RfExcludeVoided f \<Longrightarrow> voidingClause tab r"
proof -
  have "r \<in> set (filter (\<lambda>r. whereClauseQ env f r \<and> (RfExcludeVoided f \<longrightarrow> voidingClause tab r)) tab)"
    by (rule dedup_in) (use assms mset_eq_setD [OF foundRows_mset [of env tab f]] in blast)
  then show "r \<in> set tab" "whereClauseQ env f r" "RfExcludeVoided f \<Longrightarrow> voidingClause tab r" by simp_all
qed

lemma foundRows_distinct: "distinct (map headerKey (foundRows env tab f))"
proof -
  have "mset (map headerKey (foundRows env tab f)) = mset (remdups (map headerKey (filter (\<lambda>r. whereClauseQ env f r \<and> (RfExcludeVoided f \<longrightarrow> voidingClause tab r)) tab)))"
    by (simp only: mset_map foundRows_mset flip: dedup_keys [of env])
  then show ?thesis by (metis distinct_remdups mset_eq_imp_distinct_iff)
qed

subsection \<open>The service depends only on the rows of the subjects it is asked for\<close>

definition sameRows :: "string set \<Rightarrow> lakeTables \<Rightarrow> lakeTables \<Rightarrow> bool" where
  "sameRows S lt lt' = (filter (\<lambda>r. RtSubject r \<in> S) (LtRawEvents lt') = filter (\<lambda>r. RtSubject r \<in> S) (LtRawEvents lt)
     \<and> filter (\<lambda>v. TyRowSubject v \<in> S) (LtRawTypes lt') = filter (\<lambda>v. TyRowSubject v \<in> S) (LtRawTypes lt))"

definition boundTo :: "string set \<Rightarrow> rawFilter \<Rightarrow> bool" where "boundTo S f = (\<forall>s. subjectCond f s \<longrightarrow> s \<in> S)"

lemma voiding_same:
  assumes "filter (\<lambda>r. RtSubject r \<in> S) tab' = filter (\<lambda>r. RtSubject r \<in> S) tab" and "RtSubject r \<in> S"
  shows "voidingClause tab' r = voidingClause tab r"
proof -
  have "t \<in> set tab' \<longleftrightarrow> t \<in> set tab" if "RtSubject t = RtSubject r" for t
  proof -
    have "t \<in> set (filter (\<lambda>r. RtSubject r \<in> S) tab') \<longleftrightarrow> t \<in> set (filter (\<lambda>r. RtSubject r \<in> S) tab)" by (simp only: assms(1))
    then show ?thesis using assms(2) that by simp
  qed
  then have "(\<exists>t \<in> set tab'. voids t = Some (RtId r) \<and> RtSubject t = RtSubject r) \<longleftrightarrow> (\<exists>t \<in> set tab. voids t = Some (RtId r) \<and> RtSubject t = RtSubject r)"
    by blast
  then show ?thesis by (simp add: voidingClause_def list_ex_iff)
qed

lemma selected_same:
  assumes "filter (\<lambda>r. RtSubject r \<in> S) tab' = filter (\<lambda>r. RtSubject r \<in> S) tab" and "boundTo S f"
  shows "filter (\<lambda>r. whereClauseQ env f r \<and> (b \<longrightarrow> voidingClause tab' r)) tab' = filter (\<lambda>r. whereClauseQ env f r \<and> (b \<longrightarrow> voidingClause tab r)) tab"
proof -
  have in_S: "whereClauseQ env f r \<Longrightarrow> RtSubject r \<in> S" for r using assms(2) by (simp add: whereClauseQ_def boundTo_def)
  have "filter (\<lambda>r. whereClauseQ env f r \<and> (b \<longrightarrow> voidingClause t r)) t
      = filter (\<lambda>r. whereClauseQ env f r \<and> (b \<longrightarrow> voidingClause t r)) (filter (\<lambda>r. RtSubject r \<in> S) t)" for t
    using in_S by (auto intro: filter_cong)
  moreover have "filter (\<lambda>r. whereClauseQ env f r \<and> (b \<longrightarrow> voidingClause tab' r)) (filter (\<lambda>r. RtSubject r \<in> S) tab)
      = filter (\<lambda>r. whereClauseQ env f r \<and> (b \<longrightarrow> voidingClause tab r)) (filter (\<lambda>r. RtSubject r \<in> S) tab)"
    using voiding_same [OF assms(1)] by (intro filter_cong) auto
  ultimately show ?thesis using assms(1) by metis
qed

lemma query_same:
  assumes "sameRows S lt lt'" and "boundTo S f"
  shows "queryLakeRawCols env lt' f n cols op = queryLakeRawCols env lt f n cols op"
proof -
  have "boundTo S (scanWindow env f)" using assms(2) by (simp add: boundTo_def subjectCond_def scanWindow_def)
  then have "foundRows env (LtRawEvents lt') (scanWindow env f) = foundRows env (LtRawEvents lt) (scanWindow env f)"
    unfolding foundRows_def using assms(1) by (simp only: selected_same [of S "LtRawEvents lt'" "LtRawEvents lt"] sameRows_def)
  then show ?thesis by (simp add: queryLakeRawCols_def Let_def split: option.splits)
qed

lemma andThen_Inr: "andThen x k = Inr y \<longleftrightarrow> (\<exists>z. x = Inr z \<and> k z = Inr y)"
  by (cases x) auto

lemma query_Inr: "queryLakeRawCols env lt f n cols op = Inr evs \<longleftrightarrow> QueryErr env op (scanWindow env f) = None
    \<and> evs = map (\<lambda>r. scanStoredEvent env (cols r)) (take n (foundRows env (LtRawEvents lt) (scanWindow env f)))"
  by (auto simp: queryLakeRawCols_def Let_def split: option.splits)

lemma scan_subject: "SeSubject (scanStoredEvent env r) = RtSubject r"
  by (simp add: scanStoredEvent_def Let_def)

lemma query_subject:
  assumes "queryLakeRawCols env lt f n rawEventIndexColumns op = Inr evs" and "ev \<in> set evs"
  shows "subjectCond f (SeSubject ev)"
proof -
  obtain r where r: "r \<in> set (foundRows env (LtRawEvents lt) (scanWindow env f))" "ev = scanStoredEvent env (rawEventIndexColumns r)"
    using assms by (auto simp: query_Inr dest: in_set_takeD)
  have "subjectCond (scanWindow env f) (RtSubject r)" using foundRows_in(2) [OF r(1)] by (simp add: whereClauseQ_def)
  then show ?thesis by (simp add: r(2) scan_subject rawEventIndexColumns_def subjectCond_def scanWindow_def split: if_splits)
qed

lemma advanced_filter:
  assumes "filterFromAdvanced (Some a) = Inr f" and "AdvSubject a = Some (StringFilterOption xs [] [])"
  shows "RfSubjects f = xs" "RfSubject f = []" "RfExcludeVoided f"
proof -
  have "applyString (AdvSubject a) = Inr (xs, [])" by (simp add: assms(2) applyString_def)
  then show "RfSubjects f = xs" "RfSubject f = []" "RfExcludeVoided f"
    using assms(1) by (auto simp: filterFromAdvanced_def Let_def andThen_Inr emptyRawFilter_def)
qed

lemma advanced_cond:
  "filterFromAdvanced (Some a) = Inr f \<Longrightarrow> AdvSubject a = Some (StringFilterOption xs [] []) \<Longrightarrow> xs \<noteq> [] \<Longrightarrow> subjectCond f s \<longleftrightarrow> s \<in> set xs"
  using advanced_filter [of a f xs] by (simp add: subjectCond_def)

lemma advanced_bound:
  "filterFromAdvanced (Some a) = Inr f \<Longrightarrow> AdvSubject a = Some (StringFilterOption xs [] []) \<Longrightarrow> xs \<noteq> [] \<Longrightarrow> set xs \<subseteq> S \<Longrightarrow> boundTo S f"
  by (auto simp: boundTo_def advanced_cond)

lemma bound_asc: "boundTo S (f\<lparr>RfTimestampAsc := b\<rparr>) = boundTo S f" "subjectCond (f\<lparr>RfTimestampAsc := b\<rparr>) = subjectCond f"
  by (simp_all add: boundTo_def subjectCond_def fun_eq_iff)

lemma toAdvanced_subject:
  "SoSubject p = Some s \<Longrightarrow> \<exists>a. toAdvanced (Some p) = Some a \<and> AdvSubject a = Some (StringFilterOption [s] [] [])"
  by (simp add: toAdvanced_def oneOf_def Let_def)

lemma list_subject:
  assumes "lakeListIndexesAdvanced env lt n (Some a) = Inr ixs" and "AdvSubject a = Some (StringFilterOption xs [] [])" and "xs \<noteq> []" and "i \<in> set ixs"
  shows "IxSubject i \<in> set xs"
proof -
  obtain f m evs where f: "filterFromAdvanced (Some a) = Inr f" "queryLakeRawCols env lt f m rawEventIndexColumns ''fetchIndexSearch'' = Inr evs" "ixs = map toIndex evs"
    using assms(1) by (auto simp: lakeListIndexesAdvanced_def Let_def andThen_Inr)
  then obtain ev where "ev \<in> set evs" "i = toIndex ev" using assms(4) by auto
  then show ?thesis using query_subject [OF f(2)] advanced_cond [OF f(1) assms(2,3)] by (simp add: toIndex_def)
qed

lemma latest_subject:
  assumes "lakeGetLatestIndexAdvanced env lt (Some a) = Inr i" and "AdvSubject a = Some (StringFilterOption xs [] [])" and "xs \<noteq> []"
  shows "IxSubject i \<in> set xs"
proof -
  obtain f evs where f: "filterFromAdvanced (Some a) = Inr f"
    "queryLakeRawCols env lt (f\<lparr>RfTimestampAsc := False\<rparr>) 1 rawEventIndexColumns ''fetchLatestIndex'' = Inr evs"
    "(case evs of [] \<Rightarrow> Inl NoRows | ev # _ \<Rightarrow> Inr (toIndex ev)) = Inr i"
    using assms(1) unfolding lakeGetLatestIndexAdvanced_def andThen_Inr by blast
  then obtain ev where "ev \<in> set evs" "i = toIndex ev" by (cases evs) auto
  then show ?thesis using query_subject [OF f(2)] advanced_cond [OF f(1) assms(2,3)] by (simp add: toIndex_def bound_asc)
qed

lemma lake_honest: "honest (lakeService env ready lt)"
  unfolding honest_def
proof (intro conjI allI impI)
  show "IxSubject i = s" if "SoSubject p = Some s" "SvcGetLatestIndex (lakeService env ready lt) p = Inr i" for p s i
    using toAdvanced_subject [OF that(1)] latest_subject [of env lt _ i "[s]"] that(2) by (auto simp: lakeService_def)
  show "IxSubject i = s" if "SoSubject p = Some s" "SvcListIndexes (lakeService env ready lt) n p = Inr is" "i \<in> set is" for n p s "is" i
    using toAdvanced_subject [OF that(1)] list_subject [of env lt n _ "is" "[s]" i] that(2,3) by (auto simp: lakeService_def)
qed (auto simp: lakeService_def intro: latest_subject list_subject)

lemma byID_same: "sameRows S lt lt' \<Longrightarrow> s \<in> S \<Longrightarrow> s \<noteq> [] \<Longrightarrow> queryLakeRaw env lt' (byID s ids) n op = queryLakeRaw env lt (byID s ids) n op"
  unfolding queryLakeRaw_def by (rule query_same) (simp_all add: boundTo_def subjectCond_def byID_def emptyRawFilter_def)

lemma batchLoop_same: "sameRows S lt lt' \<Longrightarrow> s \<in> S \<Longrightarrow> s \<noteq> [] \<Longrightarrow> batchLoop env lt' s bs st = batchLoop env lt s bs st"
  by (induction bs arbitrary: st) (simp_all add: byID_same)

lemma subjectLoop_same:
  "sameRows S lt lt' \<Longrightarrow> set ss \<subseteq> S \<Longrightarrow> [] \<notin> S \<Longrightarrow> subjectLoop env lt' ixs ss st = subjectLoop env lt ixs ss st"
proof (induction ss arbitrary: st)
  case (Cons s ss)
  then have s: "s \<noteq> []" "s \<in> S" by auto
  have "subjectLoop env lt' ixs ss = subjectLoop env lt ixs ss" using Cons by (intro ext) simp
  then show ?case by (simp add: batchLoop_same [OF Cons.prems(1) s(2,1)])
qed simp

lemma listEvents_same:
  assumes "sameRows S lt lt'" and "[] \<notin> S" and "IxSubject ` set ixs \<subseteq> S"
  shows "lakeListCloudEventsFromIndexes env lt' ixs = lakeListCloudEventsFromIndexes env lt ixs"
proof -
  have "set (sort_key (MapRank env) (remdups (map IxSubject ixs))) \<subseteq> S" using assms(3) by simp
  then show ?thesis by (simp add: lakeListCloudEventsFromIndexes_def subjectLoop_same [OF assms(1) _ assms(2)])
qed

lemma getEvent_same:
  assumes "sameRows S lt lt'" and "[] \<notin> S" and "IxSubject i \<in> S"
  shows "lakeGetCloudEventFromIndex env lt' i = lakeGetCloudEventFromIndex env lt i"
proof -
  have "IxSubject i \<noteq> []" using assms(2,3) by metis
  then show ?thesis unfolding lakeGetCloudEventFromIndex_def by (subst byID_same [OF assms(1,3)]) simp_all
qed

lemma scan_same:
  assumes "sameRows S lt lt'" and "boundTo S f"
  shows "getTypeSummariesScan env f lt' = getTypeSummariesScan env f lt"
proof -
  have "countedRows env f (LtRawEvents lt') = countedRows env f (LtRawEvents lt)"
    using selected_same [of S "LtRawEvents lt'" "LtRawEvents lt" f env True] assms by (simp add: countedRows_def sameRows_def)
  then show ?thesis by (simp add: getTypeSummariesScan_def)
qed

lemma rollup_same:
  assumes "sameRows S lt lt'" and "boundTo S f"
  shows "getTypeSummariesRollup f lt' = getTypeSummariesRollup f lt"
proof -
  let ?P = "\<lambda>v. subjectCond f (TyRowSubject v) \<and> addIn (RfTypes f) (TyRowType v) \<and> addNotIn (RfTypesNotIn f) (TyRowType v)"
  have sub: "filter ?P t = filter ?P (filter (\<lambda>v. TyRowSubject v \<in> S) t)" for t
    using assms(2) by (auto simp: boundTo_def intro: filter_cong)
  have "filter (\<lambda>v. TyRowSubject v \<in> S) (LtRawTypes lt') = filter (\<lambda>v. TyRowSubject v \<in> S) (LtRawTypes lt)"
    using assms(1) by (simp add: sameRows_def)
  then have "filter ?P (LtRawTypes lt') = filter ?P (LtRawTypes lt)" by (subst (1 2) sub) (rule arg_cong)
  then show ?thesis by (simp add: getTypeSummariesRollup_def)
qed

lemma summaries_same:
  assumes "sameRows S lt lt'" and "AdvSubject a = Some (StringFilterOption xs [] [])" and "xs \<noteq> []" and "set xs \<subseteq> S"
  shows "lakeGetCloudEventTypeSummariesAdvanced env lt' (Some a) ready = lakeGetCloudEventTypeSummariesAdvanced env lt (Some a) ready"
proof (cases "filterFromAdvanced (Some a)")
  case (Inr f)
  have b: "boundTo S f" by (rule advanced_bound [OF Inr assms(2-4)])
  show ?thesis 
    by (simp add: lakeGetCloudEventTypeSummariesAdvanced_def Inr scan_same [OF assms(1) b] rollup_same [OF assms(1) b] Let_def split: prod.splits sum.splits)
qed (simp add: lakeGetCloudEventTypeSummariesAdvanced_def)

lemma index_same:
  assumes "sameRows S lt lt'" and "AdvSubject a = Some (StringFilterOption xs [] [])" and "xs \<noteq> []" and "set xs \<subseteq> S"
  shows "lakeListIndexesAdvanced env lt' n (Some a) = lakeListIndexesAdvanced env lt n (Some a)"
    "lakeGetLatestIndexAdvanced env lt' (Some a) = lakeGetLatestIndexAdvanced env lt (Some a)"
proof -
  have q: "queryLakeRawCols env lt' f n cols op = queryLakeRawCols env lt f n cols op"
    "queryLakeRawCols env lt' (f\<lparr>RfTimestampAsc := b\<rparr>) n cols op = queryLakeRawCols env lt (f\<lparr>RfTimestampAsc := b\<rparr>) n cols op"
    if "filterFromAdvanced (Some a) = Inr f" for f b n cols op
    using query_same [OF assms(1), of f] query_same [OF assms(1), of "f\<lparr>RfTimestampAsc := b\<rparr>"] advanced_bound [OF that assms(2-4)]
    by (simp_all add: bound_asc)
  show "lakeListIndexesAdvanced env lt' n (Some a) = lakeListIndexesAdvanced env lt n (Some a)"
    by (cases "filterFromAdvanced (Some a)") (simp_all add: lakeListIndexesAdvanced_def q(1))
  show "lakeGetLatestIndexAdvanced env lt' (Some a) = lakeGetLatestIndexAdvanced env lt (Some a)"
    by (cases "filterFromAdvanced (Some a)") (simp_all add: lakeGetLatestIndexAdvanced_def q(2))
qed

lemma lake_scoped:
  assumes "sameRows S lt lt'" and "[] \<notin> S"
  shows "agreeOn S (lakeService env ready lt) (lakeService env ready lt')"
proof -
  have p: "lakeListIndexesAdvanced env lt' n (toAdvanced (Some p)) = lakeListIndexesAdvanced env lt n (toAdvanced (Some p))"
    "lakeGetLatestIndexAdvanced env lt' (toAdvanced (Some p)) = lakeGetLatestIndexAdvanced env lt (toAdvanced (Some p))"
    if "SoSubject p = Some s" "s \<in> S" for p s n
    using toAdvanced_subject [OF that(1)] index_same [OF assms(1), of _ "[s]"] that(2) by auto
  show ?thesis
    unfolding agreeOn_def
  proof (intro conjI allI impI)
    fix a :: advancedSearchOptions and xs :: "string list" and n :: int
    assume a: "AdvSubject a = Some (StringFilterOption xs [] [])" "xs \<noteq> []" "set xs \<subseteq> S"
    show "SvcGetLatestIndexAdvanced (lakeService env ready lt') a = SvcGetLatestIndexAdvanced (lakeService env ready lt) a"
      "SvcListIndexesAdvanced (lakeService env ready lt') n a = SvcListIndexesAdvanced (lakeService env ready lt) n a"
      "SvcGetCloudEventTypeSummariesAdvanced (lakeService env ready lt') a = SvcGetCloudEventTypeSummariesAdvanced (lakeService env ready lt) a"
      by (simp_all add: lakeService_def index_same [OF assms(1) a] summaries_same [OF assms(1) a])
  qed (simp_all add: lakeService_def p getEvent_same [OF assms] listEvents_same [OF assms])
qed

interpretation lake: event_service "lakeService env ready" sameRows
  by unfold_locales (rule lake_honest, rule lake_scoped)

subsection \<open>Access to the lake\<close>

text \<open>
  C6. Whatever lake.raw_events holds for subjects outside the caller's token, the fetch service answers every
  request the same; a call the interceptor admits no token for gets an answer that depends on nothing
  stored. Two lakes are compared that agree on the rows of the granted subjects.
\<close>

theorem rpc_reads_only_granted:
  assumes "DQClaimKey ctx = None" and "didsPrinted idn"
    and "\<And>c. admittedClaim tc ValidateToken md = Some c \<Longrightarrow> sameRows {s. granted idn c s} lt lt'"
  shows "NewGRPCFetchAuthInterceptor tc ValidateToken require md (fetchServer idn (lakeService env ready lt') req) ctx
    = NewGRPCFetchAuthInterceptor tc ValidateToken require md (fetchServer idn (lakeService env ready lt) req) ctx"
  by (rule lake.rpc_scoped [OF assms])

definition demoEnv :: "unit fetchEnv" where
  "demoEnv = \<lparr>QueryErr = \<lambda>_ _. None, FetchNow = 100, RowChoice = \<lambda>_. 0, TagsOf = \<lambda>_. [], BindTime = \<lambda>t. t, ParseExtras = \<lambda>_. None, NoExtras = (),
     EventKey = \<lambda>s h. replicate (to_nat (s, HdTime h div second, HdType h, HdSource h, HdId h)) (CHR ''k''), Getter = None, BlobCipher = None, PresignGetObject = None, FetchBucket = [], RollupTableExists = Inr True,
     MapRank = \<lambda>_. 0, JobRank = \<lambda>_. 0\<rparr>"

definition demoRow :: "string \<Rightarrow> string \<Rightarrow> string \<Rightarrow> rawTableRow" where
  "demoRow subject id' data = \<lparr>RtSubject = subject, RtTime = 7, RtType = ''dimo.status'', RtId = id', RtSource = ''src'', RtProducer = ''p'',
     RtDataContentType = ''json'', RtDataVersion = ''v1'', RtExtras = None, RtData = Some data, RtDataBase64 = None, RtDataIndexKey = None, RtVoidsId = None\<rparr>"

definition demoLake :: "string \<Rightarrow> lakeTables" where
  "demoLake secret = \<lparr>LtRawEvents = [demoRow ''veh'' ''e1'' ''own'', demoRow ''other'' ''e2'' secret], LtRawTypes = []\<rparr>"

lemma demo_granted: "granted demoIdentity demoClaim s = (s = ''veh'')"
  by (auto simp: granted_def demoIdentity_def demoClaim_def)

lemma demo_same: "didsPrinted demoIdentity" "sameRows {s. granted demoIdentity demoClaim s} (demoLake a) (demoLake b)"
  by (simp_all add: didsPrinted_def demoIdentity_def sameRows_def demo_granted [unfolded demoIdentity_def] demoLake_def demoRow_def)

theorem rpc_reads_only_granted_witness:
  "(let serve = (\<lambda>secret. NewGRPCFetchAuthInterceptor demoPerms (\<lambda>_. Inr (DQClaims demoClaim)) True (Some [''Bearer t''])
      (fetchServer demoIdentity (lakeService demoEnv False (demoLake secret)) (GetLatestIndexRequest (RpcOpts None
         (Some \<lparr>SoSubject = Some ''other'', SoOther = \<lparr>SrAfter = None, SrBefore = None, SrTimestampAsc = None, SrType = None,
            SrDataVersion = None, SrSourceOpt = None, SrProducer = None, SrExtras = None, SrId = None\<rparr>\<rparr>)))) (demoCtx None))
    in serve ''x'' = serve ''y'')"
  unfolding Let_def by (rule rpc_reads_only_granted) (use demo_same in \<open>simp_all add: demoCtx_def admittedClaim_def split: if_splits\<close>)

text \<open>
  C12. The cloud event queries of the GraphQL service (latest, list and types) answer from the rows of the
  token's subjects only, for a token with a nonempty asset.
\<close>

theorem cloud_event_queries_only_granted:
  assumes "didsPrinted idn" and "\<And>c. requireRawDataToken tc ctx = Inr c \<Longrightarrow> Asset c \<noteq> [] \<and> sameRows {s. granted idn c s} lt lt'"
  shows "LatestCloudEvent tc idn (lakeService env ready lt') fetchData ctx subject flt
      = LatestCloudEvent tc idn (lakeService env ready lt) fetchData ctx subject flt
    \<and> CloudEvents tc idn (lakeService env ready lt') fetchData ctx subject limit flt
      = CloudEvents tc idn (lakeService env ready lt) fetchData ctx subject limit flt
    \<and> AvailableCloudEventTypes tc idn (lakeService env ready lt') ctx subject flt
      = AvailableCloudEventTypes tc idn (lakeService env ready lt) ctx subject flt"
  by (rule lake.queries_scoped [OF assms])

theorem cloud_event_queries_only_granted_witness:
  "LatestCloudEvent demoPerms demoIdentity (lakeService demoEnv False (demoLake ''x'')) True (demoCtx (Some demoClaim)) ''other'' None
    = LatestCloudEvent demoPerms demoIdentity (lakeService demoEnv False (demoLake ''y'')) True (demoCtx (Some demoClaim)) ''other'' None"
proof -
  have "Asset c \<noteq> [] \<and> sameRows {s. granted demoIdentity c s} (demoLake ''y'') (demoLake ''x'')"
    if "requireRawDataToken demoPerms (demoCtx (Some demoClaim)) = Inr c" for c
  proof -
    have "c = demoClaim" using that by (simp add: requireRawDataToken_def demoCtx_def split: if_splits)
    then show ?thesis using demo_same(2) by (simp add: demoClaim_def)
  qed
  from cloud_event_queries_only_granted [OF demo_same(1) this] show ?thesis by blast
qed

subsection \<open>What a search returns\<close>

lemma filter_excludes: "filterFromAdvanced opts = Inr f \<Longrightarrow> RfExcludeVoided f"
  by (cases opts) (auto simp: filterFromAdvanced_def Let_def andThen_Inr emptyRawFilter_def)

lemma foundRows_sorted: "sorted (map rowOrder (if RfTimestampAsc f then foundRows env tab f else rev (foundRows env tab f)))"
  by (simp add: foundRows_def Let_def)

lemma sorted_part: "sorted (map k xs) \<Longrightarrow> sorted (map k (take m xs))" "sorted (map k xs) \<Longrightarrow> sorted (map k (drop m xs))"
  by (simp_all add: sorted_wrt_take sorted_wrt_drop flip: take_map drop_map)

lemma foundRows_keys:
  "headerKey ` set (foundRows env tab f) = headerKey ` {r \<in> set tab. whereClauseQ env f r \<and> (RfExcludeVoided f \<longrightarrow> voidingClause tab r)}"
proof -
  have "headerKey ` set (foundRows env tab f) = set (map headerKey (rawEventDedupQualify env (filter (\<lambda>r. whereClauseQ env f r \<and> (RfExcludeVoided f \<longrightarrow> voidingClause tab r)) tab)))"
    by (simp only: list.set_map mset_eq_setD [OF foundRows_mset])
  then show ?thesis by (simp only: dedup_keys set_remdups list.set_map set_filter)
qed

text \<open>
  C15. The indexes of a list query are at most 1000 and, for a positive limit, at most as many as asked for.
  They are made from stored rows that match the filter and are not voided, one per header key, in the
  requested order of time; unless the page is full, no matching event is missing.
\<close>

theorem search_sound:
  assumes "lakeListIndexesAdvanced env lt n opts = Inr ixs"
  shows "length ixs \<le> maxLakeQueryLimit \<and> (0 < n \<longrightarrow> int (length ixs) \<le> n)
    \<and> (\<exists>f rows. filterFromAdvanced opts = Inr f \<and> ixs = map (\<lambda>r. toIndex (scanStoredEvent env (rawEventIndexColumns r))) rows
        \<and> distinct (map headerKey rows) \<and> sorted (map RtTime (if RfTimestampAsc f then rows else rev rows))
        \<and> (\<forall>r \<in> set rows. r \<in> set (LtRawEvents lt) \<and> whereClauseQ env (scanWindow env f) r \<and> voidingClause (LtRawEvents lt) r)
        \<and> (length rows < maxLakeQueryLimit \<and> int (length rows) < n
            \<longrightarrow> (\<forall>r \<in> set (LtRawEvents lt). whereClauseQ env (scanWindow env f) r \<and> voidingClause (LtRawEvents lt) r
                \<longrightarrow> headerKey r \<in> headerKey ` set rows)))"
proof -
  define m where "m = nat (if int maxLakeQueryLimit < (if n \<le> 0 then 1 else n) then int maxLakeQueryLimit else if n \<le> 0 then 1 else n)"
  have m: "m \<le> maxLakeQueryLimit" "0 < n \<Longrightarrow> int m \<le> n" "0 < n \<Longrightarrow> m = maxLakeQueryLimit \<or> int m = n" by (auto simp: m_def maxLakeQueryLimit_def)
  obtain f evs where f: "filterFromAdvanced opts = Inr f" "queryLakeRawCols env lt f m rawEventIndexColumns ''fetchIndexSearch'' = Inr evs" "ixs = map toIndex evs"
    using assms by (auto simp: lakeListIndexesAdvanced_def Let_def andThen_Inr m_def)
  let ?g = "scanWindow env f" let ?tab = "LtRawEvents lt"
  let ?rows = "take m (foundRows env ?tab ?g)"
  have ixs: "ixs = map (\<lambda>r. toIndex (scanStoredEvent env (rawEventIndexColumns r))) ?rows" using f(2,3) by (simp add: query_Inr)
  have ex: "RfExcludeVoided ?g" and asc: "RfTimestampAsc ?g = RfTimestampAsc f"
    using filter_excludes [OF f(1)] by (simp_all add: scanWindow_def)
  have "sorted (map rowOrder (if RfTimestampAsc f then ?rows else rev ?rows))"
    using foundRows_sorted [of ?g env ?tab] sorted_part(1) [of rowOrder "foundRows env ?tab ?g" m]
      sorted_part(2) [of rowOrder "rev (foundRows env ?tab ?g)" "length (foundRows env ?tab ?g) - m"]
    by (cases "RfTimestampAsc f") (simp_all only: asc if_True if_False rev_take)
  then have "sorted (map RtTime (if RfTimestampAsc f then ?rows else rev ?rows))"
    unfolding sorted_wrt_map by (rule sorted_wrt_mono_rel [rotated]) (auto simp: rowOrder_def less_eq_prod_def)
  moreover have "distinct (map headerKey ?rows)" using foundRows_distinct [of env ?tab ?g] by (simp only: distinct_take flip: take_map)
  moreover have "\<forall>r \<in> set ?rows. r \<in> set ?tab \<and> whereClauseQ env ?g r \<and> voidingClause ?tab r"
    using foundRows_in [of _ env ?tab ?g] ex by (auto dest: in_set_takeD)
  moreover have "headerKey r \<in> headerKey ` set ?rows"
    if "length ?rows < maxLakeQueryLimit" "int (length ?rows) < n" "r \<in> set ?tab" "whereClauseQ env ?g r" "voidingClause ?tab r" for r
  proof -
    have "?rows = foundRows env ?tab ?g" using that(1,2) m by (cases "0 < n") auto
    then show ?thesis using that(3-5) foundRows_keys [of env ?tab ?g] by (metis (mono_tags, lifting) image_eqI mem_Collect_eq)
  qed
  ultimately show ?thesis using f(1) ixs m(1,2) by (intro conjI exI [of _ f] exI [of _ ?rows]) auto
qed

theorem search_sound_witness:
  "\<exists>ixs. lakeListIndexesAdvanced demoEnv (demoLake ''x'') 1 None = Inr ixs \<and> length ixs \<le> 1"
proof -
  have "\<exists>ixs. lakeListIndexesAdvanced demoEnv (demoLake ''x'') 1 None = Inr ixs"
    by (simp add: lakeListIndexesAdvanced_def filterFromAdvanced_def queryLakeRawCols_def demoEnv_def Let_def)
  then obtain ixs where "lakeListIndexesAdvanced demoEnv (demoLake ''x'') 1 None = Inr ixs" ..
  with search_sound [OF this] show ?thesis by (intro exI [of _ ixs]) simp
qed

subsection \<open>An index leads back to its event\<close>

text \<open>
  \<open>CloudEventHeader.Key\<close> tells headers apart by subject, second, type, source and id, as its callers
  rely on; an id of a subject has at most the budgeted number of events.
\<close>

definition ixHeaderKey :: "'x eventHeader objectIndex \<Rightarrow> string \<times> int \<times> string \<times> string \<times> string" where
  "ixHeaderKey i = (IxSubject i, HdTime (IxHeader i) div second, HdType (IxHeader i), HdSource (IxHeader i), HdId (IxHeader i))"

definition keyFaithful :: "'x fetchEnv \<Rightarrow> bool" where
  "keyFaithful env = (\<forall>s h s' h'. EventKey env s h = EventKey env s' h' \<longleftrightarrow> s = s' \<and> HdTime h div second = HdTime h' div second
     \<and> HdType h = HdType h' \<and> HdSource h = HdSource h' \<and> HdId h = HdId h')"

definition withinBudget :: "rawTableRow list \<Rightarrow> bool" where
  "withinBudget tab = (\<forall>s id'. card (headerKey ` {r \<in> set tab. RtSubject r = s \<and> RtId r = id'}) \<le> idRowExpansion)"

text \<open>The row that stands for a header key.\<close>

definition rowFor :: "'x fetchEnv \<Rightarrow> rawTableRow list \<Rightarrow> string \<times> int \<times> string \<times> string \<times> string \<Rightarrow> rawTableRow" where
  "rowFor env tab k = firstRow env (filter (\<lambda>r. voidingClause tab r \<and> headerKey r = k) tab)"

definition live :: "rawTableRow list \<Rightarrow> rawTableRow \<Rightarrow> bool" where "live tab r = (r \<in> set tab \<and> voidingClause tab r)"

lemma rowFor_live:
  assumes "live tab q"
  shows "live tab (rowFor env tab (headerKey q))" "headerKey (rowFor env tab (headerKey q)) = headerKey q"
proof -
  let ?rows = "filter (\<lambda>r. voidingClause tab r \<and> headerKey r = headerKey q) tab"
  have "q \<in> set ?rows" using assms by (simp add: live_def)
  then have "?rows \<noteq> []" by (metis list.set(1) empty_iff)
  then have "rowFor env tab (headerKey q) \<in> set ?rows" unfolding rowFor_def by (rule firstRow_in)
  then show "live tab (rowFor env tab (headerKey q))" "headerKey (rowFor env tab (headerKey q)) = headerKey q"
    by (simp_all add: live_def)
qed

lemma key_of_row: "keyFaithful env \<Longrightarrow> seKey env (scanStoredEvent env r) = ixKey env i \<longleftrightarrow> headerKey r = ixHeaderKey i"
  "keyFaithful env \<Longrightarrow> seKey env (scanStoredEvent env r) = seKey env (scanStoredEvent env q) \<longleftrightarrow> headerKey r = headerKey q"
  by (auto simp: keyFaithful_def seKey_def ixKey_def scanStoredEvent_def headerOf_def headerKey_def ixHeaderKey_def Let_def)

lemma byID_where: "s \<noteq> [] \<Longrightarrow> ids \<noteq> [] \<Longrightarrow> whereClauseQ env (byID s ids) r \<longleftrightarrow> RtSubject r = s \<and> RtId r \<in> set ids"
  by (simp add: whereClauseQ_def byID_def emptyRawFilter_def subjectCond_def addIn_def addNotIn_def nullIn_def IsZero_def zeroTime_def)

lemma byID_window: "s \<noteq> [] \<Longrightarrow> scanWindow env (byID s ids) = byID s ids" "RfExcludeVoided (byID s ids)"
  by (simp_all add: scanWindow_def byID_def emptyRawFilter_def)

lemma byID_rows:
  assumes "s \<noteq> []" and "ids \<noteq> []"
  shows "set (foundRows env tab (byID s ids)) = (\<lambda>q. rowFor env tab (headerKey q)) ` {q. live tab q \<and> RtSubject q = s \<and> RtId q \<in> set ids}"
proof -
  let ?rows = "filter (\<lambda>r. (RtSubject r = s \<and> RtId r \<in> set ids) \<and> voidingClause tab r) tab"
  have part: "filter (\<lambda>r. headerKey r = headerKey q) ?rows = filter (\<lambda>r. voidingClause tab r \<and> headerKey r = headerKey q) tab" if "q \<in> set ?rows" for q
    using that unfolding filter_filter by (intro filter_cong) (auto simp: headerKey_def)
  have "set (foundRows env tab (byID s ids)) = set (rawEventDedupQualify env ?rows)"
    using mset_eq_setD [OF foundRows_mset [of env tab "byID s ids"]] by (simp add: byID_where [OF assms] byID_window)
  also have "\<dots> = (\<lambda>q. firstRow env (filter (\<lambda>r. headerKey r = headerKey q) ?rows)) ` set ?rows"
    by (simp add: rawEventDedupQualify_def deduped_def image_image)
  also have "\<dots> = (\<lambda>q. rowFor env tab (headerKey q)) ` set ?rows" unfolding rowFor_def by (intro image_cong refl) (simp only: part)
  also have "set ?rows = {q. live tab q \<and> RtSubject q = s \<and> RtId q \<in> set ids}" by (auto simp: live_def)
  finally show ?thesis .
qed

lemma byID_count:
  assumes "s \<noteq> []" and "ids \<noteq> []" and "withinBudget tab"
  shows "length (foundRows env tab (byID s ids)) \<le> length ids * idRowExpansion"
proof -
  let ?of = "\<lambda>id'. headerKey ` {r \<in> set tab. RtSubject r = s \<and> RtId r = id'}"
  have "length (foundRows env tab (byID s ids)) = card (headerKey ` set (foundRows env tab (byID s ids)))"
    using distinct_card [OF foundRows_distinct [of env tab "byID s ids"]] by (simp only: length_map list.set_map)
  also have "\<dots> \<le> card (\<Union>id' \<in> set ids. ?of id')"
    by (intro card_mono) (auto simp: foundRows_keys byID_where [OF assms(1,2)])
  also have "\<dots> \<le> (\<Sum>id' \<in> set ids. card (?of id'))" by (rule card_UN_le) simp
  also have "\<dots> \<le> (\<Sum>id' \<in> set ids. idRowExpansion)" using assms(3) by (intro sum_mono) (simp add: withinBudget_def)
  also have "\<dots> \<le> length ids * idRowExpansion" by (simp add: card_length)
  finally show ?thesis .
qed

lemma byID_query:
  assumes "s \<noteq> []" and "ids \<noteq> []" and "withinBudget (LtRawEvents lt)" and "QueryErr env op (byID s ids) = None"
  shows "queryLakeRaw env lt (byID s ids) (length ids * idRowExpansion) op = Inr (map (scanStoredEvent env) (foundRows env (LtRawEvents lt) (byID s ids)))"
  using byID_count [OF assms(1-3), of env] assms(4) by (simp add: queryLakeRaw_def query_Inr byID_window(1) [OF assms(1)] RawEventColumns_def)

lemma fold_found:
  "Found (fold (recordEvent env) evs st) k = Some ev \<Longrightarrow> (ev \<in> set evs \<and> seKey env ev = k) \<or> Found st k = Some ev"
  "Found st k \<noteq> None \<Longrightarrow> Found (fold (recordEvent env) evs st) k \<noteq> None"
  "ev \<in> set evs \<Longrightarrow> Found (fold (recordEvent env) evs st) (seKey env ev) \<noteq> None"
proof -
  have rec: "Found (recordEvent env e s) = (Found s)(seKey env e \<mapsto> e)" for e s by (simp add: recordEvent_def Let_def)
  show mono: "Found st k \<noteq> None \<Longrightarrow> Found (fold (recordEvent env) evs st) k \<noteq> None" for k evs st
    by (induction evs arbitrary: st) (simp_all add: rec)
  show "Found (fold (recordEvent env) evs st) k = Some ev \<Longrightarrow> (ev \<in> set evs \<and> seKey env ev = k) \<or> Found st k = Some ev"
    by (induction evs arbitrary: st) (fastforce simp: rec split: if_splits)+
  show "ev \<in> set evs \<Longrightarrow> Found (fold (recordEvent env) evs st) (seKey env ev) \<noteq> None"
  proof (induction evs arbitrary: st)
    case (Cons e evs)
    then show ?case using mono [of "recordEvent env e st" "seKey env e" evs] by (cases "ev = e") (auto simp: rec)
  qed simp
qed

text \<open>What a state of the lookup holds: rows that stand for their key; and what it has to hold for an event.\<close>

definition rightRows :: "'x fetchEnv \<Rightarrow> rawTableRow list \<Rightarrow> 'x fetched \<Rightarrow> bool" where
  "rightRows env tab st = (\<forall>k ev. Found st k = Some ev \<longrightarrow> k = seKey env ev \<and> (\<exists>q. live tab q \<and> ev = scanStoredEvent env (rowFor env tab (headerKey q))))"

definition holds :: "'x fetchEnv \<Rightarrow> rawTableRow list \<Rightarrow> 'x fetched \<Rightarrow> rawTableRow \<Rightarrow> bool" where
  "holds env tab st q = (Found st (seKey env (scanStoredEvent env (rowFor env tab (headerKey q)))) \<noteq> None)"

lemma batchLoop_holds:
  assumes "s \<noteq> []" and "withinBudget (LtRawEvents lt)" and "\<And>op f. QueryErr env op f = None"
  shows "(\<forall>b \<in> set bs. b \<noteq> []) \<Longrightarrow> rightRows env (LtRawEvents lt) st \<Longrightarrow> \<exists>st'. batchLoop env lt s bs st = Inr st' \<and> rightRows env (LtRawEvents lt) st'
    \<and> (\<forall>q. holds env (LtRawEvents lt) st q \<longrightarrow> holds env (LtRawEvents lt) st' q)
    \<and> (\<forall>q. live (LtRawEvents lt) q \<longrightarrow> RtSubject q = s \<longrightarrow> RtId q \<in> \<Union> (set ` set bs) \<longrightarrow> holds env (LtRawEvents lt) st' q)"
proof (induction bs arbitrary: st)
  case (Cons b bs)
  let ?tab = "LtRawEvents lt"
  let ?evs = "map (scanStoredEvent env) (foundRows env ?tab (byID s b))"
  let ?st = "fold (recordEvent env) ?evs st"
  have b: "b \<noteq> []" using Cons.prems(1) by simp
  have rows: "set ?evs = (\<lambda>q. scanStoredEvent env (rowFor env ?tab (headerKey q))) ` {q. live ?tab q \<and> RtSubject q = s \<and> RtId q \<in> set b}"
    by (simp add: byID_rows [OF assms(1) b] image_image)
  have new: "holds env ?tab ?st q" if "live ?tab q" "RtSubject q = s" "RtId q \<in> set b" for q
    unfolding holds_def by (rule fold_found(3)) (use rows that in blast)
  have "rightRows env ?tab ?st" unfolding rightRows_def
  proof (intro allI impI)
    fix k ev
    assume "Found ?st k = Some ev"
    from fold_found(1) [OF this] show "k = seKey env ev \<and> (\<exists>q. live ?tab q \<and> ev = scanStoredEvent env (rowFor env ?tab (headerKey q)))"
      using rows Cons.prems(2) unfolding rightRows_def by blast
  qed
  then obtain st' where st': "batchLoop env lt s bs ?st = Inr st'" "rightRows env ?tab st'" "\<And>q. holds env ?tab ?st q \<Longrightarrow> holds env ?tab st' q"
    "\<And>q. live ?tab q \<Longrightarrow> RtSubject q = s \<Longrightarrow> RtId q \<in> \<Union> (set ` set bs) \<Longrightarrow> holds env ?tab st' q"
    using Cons.IH [of ?st] Cons.prems(1) by auto
  have "batchLoop env lt s (b # bs) st = Inr st'" using byID_query [OF assms(1) b assms(2,3)] st'(1) by simp
  moreover have "holds env ?tab st' q" if "holds env ?tab st q" for q
    using st'(3) fold_found(2) that unfolding holds_def by blast
  ultimately show ?case using st' new by auto
qed auto

lemma chunks_nonempty: "b \<in> set (chunksOf n xs) \<Longrightarrow> b \<noteq> []"
proof (induction n xs rule: chunksOf.induct)
  case (1 n xs)
  then show ?case by (subst (asm) (2) chunksOf.simps) (auto split: if_splits)
qed

lemma subjectLoop_holds:
  assumes "withinBudget (LtRawEvents lt)" and "\<And>op f. QueryErr env op f = None"
  shows "[] \<notin> set ss \<Longrightarrow> rightRows env (LtRawEvents lt) st \<Longrightarrow> \<exists>st'. subjectLoop env lt ixs ss st = Inr st' \<and> rightRows env (LtRawEvents lt) st'
    \<and> (\<forall>q. holds env (LtRawEvents lt) st q \<longrightarrow> holds env (LtRawEvents lt) st' q)
    \<and> (\<forall>q. live (LtRawEvents lt) q \<longrightarrow> RtSubject q \<in> set ss \<longrightarrow> RtId q \<in> set (idsBySubject ixs (RtSubject q)) \<longrightarrow> holds env (LtRawEvents lt) st' q)"
proof (induction ss arbitrary: st)
  case (Cons s ss)
  let ?tab = "LtRawEvents lt"
  let ?bs = "chunksOf idsPerFetchBatch (idsBySubject ixs s)"
  have ids: "\<Union> (set ` set ?bs) = set (idsBySubject ixs s)"
    by (rule chunksOf_set) (simp add: idsPerFetchBatch_def maxLakeQueryLimit_def idRowExpansion_def)
  obtain st1 where st1: "batchLoop env lt s ?bs st = Inr st1" "rightRows env ?tab st1" "\<And>q. holds env ?tab st q \<Longrightarrow> holds env ?tab st1 q"
    "\<And>q. live ?tab q \<Longrightarrow> RtSubject q = s \<Longrightarrow> RtId q \<in> set (idsBySubject ixs s) \<Longrightarrow> holds env ?tab st1 q"
    using batchLoop_holds [OF _ assms, of s ?bs st] Cons.prems chunks_nonempty unfolding ids by fastforce
  obtain st2 where "subjectLoop env lt ixs ss st1 = Inr st2" "rightRows env ?tab st2" "\<And>q. holds env ?tab st1 q \<Longrightarrow> holds env ?tab st2 q"
    "\<And>q. live ?tab q \<Longrightarrow> RtSubject q \<in> set ss \<Longrightarrow> RtId q \<in> set (idsBySubject ixs (RtSubject q)) \<Longrightarrow> holds env ?tab st2 q"
    using Cons.IH [OF _ st1(2)] Cons.prems(1) by auto
  then show ?case using st1 by auto
qed auto

lemma matchLoop_found:
  assumes "keyFaithful env" and "rightRows env tab st" and "\<And>i. i \<in> set ixs \<Longrightarrow> \<exists>q. live tab q \<and> headerKey q = ixHeaderKey i \<and> holds env tab st q"
  shows "matchLoop env st ixs = Inr (map (\<lambda>i. scanStoredEvent env (rowFor env tab (ixHeaderKey i))) ixs)"
  using assms(3)
proof (induction ixs)
  case (Cons i ixs)
  obtain q where q: "live tab q" "headerKey q = ixHeaderKey i" "holds env tab st q" using Cons.prems by auto
  have "seKey env (scanStoredEvent env (rowFor env tab (headerKey q))) = ixKey env i"
    using rowFor_live(2) [OF q(1)] q(2) by (simp add: key_of_row(1) [OF assms(1)])
  then obtain ev where ev: "Found st (ixKey env i) = Some ev" using q(3) by (auto simp: holds_def)
  then obtain q' where q': "live tab q'" "ev = scanStoredEvent env (rowFor env tab (headerKey q'))" "ixKey env i = seKey env ev"
    using assms(2) unfolding rightRows_def by blast
  have "headerKey q' = ixHeaderKey i"
    using q'(3) rowFor_live(2) [OF q'(1), of env] key_of_row(1) [OF assms(1)] unfolding q'(2) by metis
  then show ?case using Cons ev q'(2) by simp
qed simp

lemma list_rows:
  assumes "lakeListIndexesAdvanced env lt n opts = Inr ixs" and "i \<in> set ixs"
  shows "\<exists>r. live (LtRawEvents lt) r \<and> headerKey r = ixHeaderKey i"
proof -
  obtain f m evs where f: "filterFromAdvanced opts = Inr f" "queryLakeRawCols env lt f m rawEventIndexColumns ''fetchIndexSearch'' = Inr evs" "ixs = map toIndex evs"
    using assms(1) by (auto simp: lakeListIndexesAdvanced_def Let_def andThen_Inr)
  then obtain r where r: "r \<in> set (foundRows env (LtRawEvents lt) (scanWindow env f))" "i = toIndex (scanStoredEvent env (rawEventIndexColumns r))"
    using assms(2) by (auto simp: query_Inr dest: in_set_takeD)
  have "RfExcludeVoided (scanWindow env f)" using filter_excludes [OF f(1)] by (simp add: scanWindow_def)
  then have "live (LtRawEvents lt) r" using foundRows_in [OF r(1)] by (simp add: live_def)
  moreover have "headerKey r = ixHeaderKey i"
    by (simp add: r(2) headerKey_def ixHeaderKey_def toIndex_def scanStoredEvent_def headerOf_def rawEventIndexColumns_def Let_def)
  ultimately show ?thesis by blast
qed

lemma get_by_index:
  assumes "keyFaithful env" and "withinBudget (LtRawEvents lt)" and "\<And>op f. QueryErr env op f = None"
    and "live (LtRawEvents lt) q" and "headerKey q = ixHeaderKey i" and "RtSubject q \<noteq> []"
  shows "lakeGetCloudEventFromIndex env lt i = resolvePayload env (scanStoredEvent env (rowFor env (LtRawEvents lt) (ixHeaderKey i)))"
proof -
  let ?tab = "LtRawEvents lt"
  let ?ev = "scanStoredEvent env (rowFor env ?tab (ixHeaderKey i))"
  let ?evs = "map (scanStoredEvent env) (foundRows env ?tab (byID (IxSubject i) [HdId (IxHeader i)]))"
  have i: "IxSubject i = RtSubject q" "HdId (IxHeader i) = RtId q" using assms(5) by (simp_all add: headerKey_def ixHeaderKey_def)
  have q: "queryLakeRaw env lt (byID (IxSubject i) [HdId (IxHeader i)]) idRowExpansion ''fetchByID'' = Inr ?evs"
    using byID_query [OF _ _ assms(2,3), of "IxSubject i" "[HdId (IxHeader i)]" "''fetchByID''"] i(1) assms(6) by simp
  have evs: "set ?evs = (\<lambda>q. scanStoredEvent env (rowFor env ?tab (headerKey q))) ` {r. live ?tab r \<and> RtSubject r = RtSubject q \<and> RtId r = RtId q}"
    using byID_rows [of "RtSubject q" "[RtId q]" env ?tab] assms(6) by (simp add: i image_image)
  have "?ev \<in> set ?evs" unfolding evs by (rule image_eqI [of _ _ q]) (use assms(4,5) in simp_all)
  moreover have "seKey env ?ev = ixKey env i" using rowFor_live(2) [OF assms(4), of env] assms(5) by (simp add: key_of_row(1) [OF assms(1)])
  ultimately obtain e where e: "find (\<lambda>e. seKey env e = ixKey env i) ?evs = Some e" by (meson find_None_iff not_None_eq)
  have "e \<in> set ?evs" "seKey env e = ixKey env i" using e by (auto simp: find_Some_iff)
  then obtain r where r: "live ?tab r" "e = scanStoredEvent env (rowFor env ?tab (headerKey r))" using evs by auto
  have "headerKey r = ixHeaderKey i"
    using \<open>seKey env e = ixKey env i\<close> rowFor_live(2) [OF r(1), of env] key_of_row(1) [OF assms(1)] unfolding r(2) by metis
  then have "e = ?ev" by (simp add: r(2))
  moreover obtain x xs where "?evs = x # xs" using \<open>e \<in> set ?evs\<close> by (cases ?evs) auto
  ultimately show ?thesis using e unfolding lakeGetCloudEventFromIndex_def q by simp
qed

text \<open>
  C13. Every index of a list query leads back to the event it names: while no id has more events than the
  budget of the lookup by id, both the single and the batched lookup find, for each index and in the order
  of the indexes, the row that stands for its header key, and answer with the payload of that row.
\<close>

theorem index_leads_back:
  assumes "keyFaithful env" and "withinBudget (LtRawEvents lt)" and "\<And>op f. QueryErr env op f = None"
    and "[] \<notin> RtSubject ` set (LtRawEvents lt)" and "lakeListIndexesAdvanced env lt n opts = Inr ixs"
  shows "let row = (\<lambda>i. rowFor env (LtRawEvents lt) (ixHeaderKey i)); evs = map (\<lambda>i. scanStoredEvent env (row i)) ixs in
    (\<forall>i \<in> set ixs. row i \<in> set (LtRawEvents lt) \<and> headerKey (row i) = ixHeaderKey i
       \<and> lakeGetCloudEventFromIndex env lt i = resolvePayload env (scanStoredEvent env (row i)))
    \<and> lakeListCloudEventsFromIndexes env lt ixs
      = (case resolveJobs env (map (nth evs) (sort_key (JobRank env) [0..<length evs])) 0 of
           Some err \<Rightarrow> Inl err | None \<Rightarrow> Inr (map (\<lambda>ev. projr (resolvePayload env ev)) evs))"
proof -
  let ?tab = "LtRawEvents lt"
  let ?ss = "sort_key (MapRank env) (remdups (map IxSubject ixs))"
  let ?row = "\<lambda>i. rowFor env ?tab (ixHeaderKey i)"
  have q: "\<exists>q. live ?tab q \<and> headerKey q = ixHeaderKey i \<and> RtSubject q \<noteq> [] \<and> RtSubject q = IxSubject i \<and> RtId q = HdId (IxHeader i)" if "i \<in> set ixs" for i
  proof -
    obtain q where q: "live ?tab q" "headerKey q = ixHeaderKey i" using list_rows [OF assms(5) \<open>i \<in> set ixs\<close>] by blast
    have "RtSubject q \<noteq> []" using q(1) assms(4) unfolding live_def by (metis imageI)
    then show ?thesis using q by (auto simp: headerKey_def ixHeaderKey_def)
  qed
  have each: "?row i \<in> set ?tab \<and> headerKey (?row i) = ixHeaderKey i \<and> lakeGetCloudEventFromIndex env lt i = resolvePayload env (scanStoredEvent env (?row i))"
    if "i \<in> set ixs" for i
  proof -
    obtain q where q: "live ?tab q" "headerKey q = ixHeaderKey i" "RtSubject q \<noteq> []" using q [OF \<open>i \<in> set ixs\<close>] by blast
    show ?thesis using rowFor_live [OF q(1), of env] get_by_index [OF assms(1-3) q] unfolding live_def q(2) by simp
  qed
  have "[] \<notin> set ?ss" using q by fastforce
  then obtain st where st: "subjectLoop env lt ixs ?ss \<lparr>Found = Map.empty, BySubjectID = Map.empty\<rparr> = Inr st" "rightRows env ?tab st"
    "\<And>q. live ?tab q \<Longrightarrow> RtSubject q \<in> set ?ss \<Longrightarrow> RtId q \<in> set (idsBySubject ixs (RtSubject q)) \<Longrightarrow> holds env ?tab st q"
    using subjectLoop_holds [OF assms(2,3), of ?ss "\<lparr>Found = Map.empty, BySubjectID = Map.empty\<rparr>" ixs] by (auto simp: rightRows_def)
  have "matchLoop env st ixs = Inr (map (\<lambda>i. scanStoredEvent env (?row i)) ixs)"
  proof (rule matchLoop_found [OF assms(1) st(2)])
    fix i
    assume i: "i \<in> set ixs"
    then obtain q where q: "live ?tab q" "headerKey q = ixHeaderKey i" "RtSubject q = IxSubject i" "RtId q = HdId (IxHeader i)" using q [OF i] by blast
    have "holds env ?tab st q" by (rule st(3) [OF q(1)]) (use q i in \<open>auto simp: idsBySubject_def\<close>)
    then show "\<exists>q. live ?tab q \<and> headerKey q = ixHeaderKey i \<and> holds env ?tab st q" using q by blast
  qed
  then have "lakeListCloudEventsFromIndexes env lt ixs
      = (case resolveJobs env (map (nth (map (\<lambda>i. scanStoredEvent env (?row i)) ixs)) (sort_key (JobRank env) [0..<length (map (\<lambda>i. scanStoredEvent env (?row i)) ixs)])) 0 of
           Some err \<Rightarrow> Inl err | None \<Rightarrow> Inr (map (\<lambda>ev. projr (resolvePayload env ev)) (map (\<lambda>i. scanStoredEvent env (?row i)) ixs)))"
    using st(1) by (cases "ixs = []") (simp_all add: lakeListCloudEventsFromIndexes_def)
  then show ?thesis using each unfolding Let_def by blast
qed

lemma demo_keyFaithful: "keyFaithful demoEnv"
  by (auto simp: keyFaithful_def demoEnv_def)

lemma short_withinBudget: "length tab \<le> idRowExpansion \<Longrightarrow> withinBudget tab"
proof -
  assume "length tab \<le> idRowExpansion"
  moreover have "card (headerKey ` {r \<in> set tab. RtSubject r = s \<and> RtId r = id'}) \<le> length tab" for s id'
    by (rule order.trans [OF card_image_le order.trans [OF card_mono card_length]]) auto
  ultimately show ?thesis unfolding withinBudget_def using order.trans by blast
qed

theorem index_leads_back_witness:
  "\<exists>ixs. lakeListIndexesAdvanced demoEnv (demoLake ''x'') 10 None = Inr ixs
     \<and> (\<forall>i \<in> set ixs. lakeGetCloudEventFromIndex demoEnv (demoLake ''x'') i
          = resolvePayload demoEnv (scanStoredEvent demoEnv (rowFor demoEnv (LtRawEvents (demoLake ''x'')) (ixHeaderKey i))))"
proof -
  have "\<exists>ixs. lakeListIndexesAdvanced demoEnv (demoLake ''x'') 10 None = Inr ixs"
    by (simp add: lakeListIndexesAdvanced_def filterFromAdvanced_def queryLakeRawCols_def demoEnv_def Let_def)
  then obtain ixs where ixs: "lakeListIndexesAdvanced demoEnv (demoLake ''x'') 10 None = Inr ixs" ..
  have "withinBudget (LtRawEvents (demoLake ''x''))" by (rule short_withinBudget) (simp add: demoLake_def idRowExpansion_def)
  moreover have "QueryErr demoEnv op f = None" for op f by (simp add: demoEnv_def)
  moreover have "[] \<notin> RtSubject ` set (LtRawEvents (demoLake ''x''))" by (simp add: demoLake_def demoRow_def)
  ultimately show ?thesis using index_leads_back [OF demo_keyFaithful _ _ _ ixs] ixs unfolding Let_def by blast
qed

end
