(* ===== verification/Lake_Types.thy ===== *)
theory Lake_Types
  imports Lake_Fetch
begin

section \<open>The type rollup and the errors of the fetch service\<close>

text \<open>
  The rebuild of lake.raw_types_latest (internal/materializer/raw_types.go) makes the summaries it serves equal to
  the scan of lake.raw_events for every filter; and what the fetch service answers when an event is
  missing or a response is too large.
\<close>

subsection \<open>Filtering by key commutes with the dedup\<close>

lemma remdups_filter_key: "remdups (map key (filter (\<lambda>r. P (key r)) rows)) = filter P (remdups (map key rows))"
  by (induction rows) auto

lemma dedup_filter:
  assumes P: "\<And>r. P r = Q (headerKey r)"
  shows "rawEventDedupQualify env (filter P rows) = filter P (rawEventDedupQualify env rows)"
proof -
  let ?g = "\<lambda>k. firstRow env (filter (\<lambda>r. headerKey r = k) rows)"
  have P': "P = (\<lambda>r. Q (headerKey r))" using P by auto
  have part: "filter (\<lambda>r. headerKey r = k) (filter P rows) = filter (\<lambda>r. headerKey r = k) rows" if "Q k" for k
    using that unfolding filter_filter P' by (intro filter_cong) auto
  have "rawEventDedupQualify env (filter P rows) = map (\<lambda>k. firstRow env (filter (\<lambda>r. headerKey r = k) (filter P rows))) (filter Q (remdups (map headerKey rows)))"
    unfolding rawEventDedupQualify_def deduped_def by (simp only: P' remdups_filter_key)
  also have "\<dots> = map ?g (filter Q (remdups (map headerKey rows)))" by (intro map_cong refl) (simp only: part set_filter mem_Collect_eq)
  also have "filter Q (remdups (map headerKey rows)) = filter (P \<circ> ?g) (remdups (map headerKey rows))"
    by (intro filter_cong refl) (simp only: P' comp_def deduped_key(1) set_remdups list.set_map)
  finally show ?thesis by (simp only: rawEventDedupQualify_def deduped_def filter_map)
qed

subsection \<open>Aggregates over groups\<close>

lemma sum_of_groups: "distinct ks \<Longrightarrow> key ` set xs \<subseteq> set ks \<Longrightarrow> (\<Sum>k\<leftarrow>ks. length (filter (\<lambda>r. key r = k) xs)) = length xs"
proof (induction xs)
  case (Cons x xs)
  have one: "(\<Sum>k\<leftarrow>ks. if key x = k then Suc (f k) else f k) = Suc (\<Sum>k\<leftarrow>ks. f k)" if "distinct ks" "key x \<in> set ks" for f :: "_ \<Rightarrow> nat" and ks
    using that
  proof (induction ks)
    case (Cons k ks)
    then show ?case by (cases "key x = k") (auto intro!: arg_cong [where f = sum_list] map_cong)
  qed simp
  have "(\<Sum>k\<leftarrow>ks. length (filter (\<lambda>r. key r = k) (x # xs))) = (\<Sum>k\<leftarrow>ks. if key x = k then Suc (length (filter (\<lambda>r. key r = k) xs)) else length (filter (\<lambda>r. key r = k) xs))"
    by (intro arg_cong [where f = sum_list] map_cong) simp_all
  then show ?case using Cons one by simp
qed simp

lemma Min_of_groups:
  fixes A :: "'i \<Rightarrow> time set"
  assumes "finite I" "I \<noteq> {}" "\<And>i. i \<in> I \<Longrightarrow> finite (A i) \<and> A i \<noteq> {}"
  shows "Min ((\<lambda>i. Min (A i)) ` I) = Min (\<Union>i \<in> I. A i)" "Max ((\<lambda>i. Max (A i)) ` I) = Max (\<Union>i \<in> I. A i)"
proof -
  have U: "finite (\<Union>i \<in> I. A i)" "(\<Union>i \<in> I. A i) \<noteq> {}" using assms by auto
  obtain i where i: "i \<in> I" "Min (\<Union>i \<in> I. A i) \<in> A i" using Min_in [OF U] by auto
  show "Min ((\<lambda>i. Min (A i)) ` I) = Min (\<Union>i \<in> I. A i)"
  proof (rule antisym)
    show "Min ((\<lambda>i. Min (A i)) ` I) \<le> Min (\<Union>i \<in> I. A i)"
    proof (rule order.trans)
      show "Min ((\<lambda>i. Min (A i)) ` I) \<le> Min (A i)" using i(1) assms(1) by (intro Min_le) auto
      show "Min (A i) \<le> Min (\<Union>i \<in> I. A i)" using i assms(3) by (intro Min_le) auto
    qed
    show "Min (\<Union>i \<in> I. A i) \<le> Min ((\<lambda>i. Min (A i)) ` I)"
    proof (rule Min.boundedI)
      show "Min (\<Union>i \<in> I. A i) \<le> x" if "x \<in> (\<lambda>i. Min (A i)) ` I" for x
        using that assms(3) U(1) by (auto intro!: Min_antimono)
    qed (use assms in auto)
  qed
  obtain j where j: "j \<in> I" "Max (\<Union>i \<in> I. A i) \<in> A j" using Max_in [OF U] by auto
  show "Max ((\<lambda>i. Max (A i)) ` I) = Max (\<Union>i \<in> I. A i)"
  proof (rule antisym)
    show "Max (\<Union>i \<in> I. A i) \<le> Max ((\<lambda>i. Max (A i)) ` I)"
    proof (rule order.trans)
      show "Max (A j) \<le> Max ((\<lambda>i. Max (A i)) ` I)" using j(1) assms(1) by (intro Max_ge) auto
      show "Max (\<Union>i \<in> I. A i) \<le> Max (A j)" using j assms(3) by (intro Max_ge) auto
    qed
    show "Max ((\<lambda>i. Max (A i)) ` I) \<le> Max (\<Union>i \<in> I. A i)"
    proof (rule Max.boundedI)
      show "x \<le> Max (\<Union>i \<in> I. A i)" if "x \<in> (\<lambda>i. Max (A i)) ` I" for x
        using that assms(3) U(1) by (auto intro!: Max_mono)
    qed (use assms in auto)
  qed
qed

subsection \<open>The rollup serves what the scan counts\<close>

definition subjectType :: "rawTableRow \<Rightarrow> string \<times> string" where "subjectType r = (RtSubject r, RtType r)"

definition typeCond :: "rawFilter \<Rightarrow> string \<times> string \<Rightarrow> bool" where
  "typeCond f p = (subjectCond f (fst p) \<and> addIn (RfTypes f) (snd p) \<and> addNotIn (RfTypesNotIn f) (snd p))"

lemma servable_where: "typeSummaryRollupServable f \<Longrightarrow> whereClauseQ env f r = typeCond f (subjectType r)"
  by (simp add: typeSummaryRollupServable_def whereClauseQ_def typeCond_def subjectType_def addIn_def addNotIn_def nullIn_def)

lemma counted_filter:
  assumes "typeSummaryRollupServable f"
  shows "countedRows env f tab = filter (\<lambda>r. typeCond f (subjectType r)) (countedRows env emptyRawFilter tab)"
proof -
  have e: "whereClauseQ env emptyRawFilter r" for r
    by (simp add: whereClauseQ_def emptyRawFilter_def subjectCond_def addIn_def addNotIn_def nullIn_def IsZero_def zeroTime_def)
  have key: "typeCond f (subjectType r) = (\<lambda>k. typeCond f (fst k, fst (snd (snd k)))) (headerKey r)" for r
    by (simp add: subjectType_def headerKey_def)
  have "filter (\<lambda>r. whereClauseQ env f r \<and> voidingClause tab r) tab = filter (\<lambda>r. typeCond f (subjectType r)) (filter (\<lambda>r. whereClauseQ env emptyRawFilter r \<and> voidingClause tab r) tab)"
    unfolding filter_filter by (intro filter_cong refl) (auto simp: servable_where [OF assms] e)
  then show ?thesis unfolding countedRows_def
    by (simp only: dedup_filter [where P = "\<lambda>r. typeCond f (subjectType r)" and Q = "\<lambda>k. typeCond f (fst k, fst (snd (snd k)))", OF key])
qed

definition typeRowOf :: "rawTableRow list \<Rightarrow> string \<times> string \<Rightarrow> typeRow" where
  "typeRowOf rows p = (let ts = map RtTime (filter (\<lambda>r. subjectType r = p) rows)
     in \<lparr>TyRowSubject = fst p, TyRowType = snd p, TyRowCount = length ts, TyRowFirstSeen = Min (set ts), TyRowLastSeen = Max (set ts)\<rparr>)"

lemma select_rows: "RawTypesRollupSelect env tab = (let rows = countedRows env emptyRawFilter tab in map (typeRowOf rows) (remdups (map subjectType rows)))"
proof -
  have "(\<lambda>r. RtSubject r = s \<and> RtType r = ty) = (\<lambda>r. subjectType r = (s, ty))" for s ty by (auto simp: subjectType_def)
  then show ?thesis unfolding RawTypesRollupSelect_def typeRowOf_def Let_def by (auto simp: subjectType_def [abs_def])
qed

lemma rollup_filtered:
  assumes "typeSummaryRollupServable f"
  shows "filter (\<lambda>v. typeCond f (TyRowSubject v, TyRowType v)) (RawTypesRollupSelect env tab)
    = map (typeRowOf (countedRows env f tab)) (remdups (map subjectType (countedRows env f tab)))"
proof -
  let ?C = "countedRows env emptyRawFilter tab"
  have same: "typeRowOf (countedRows env f tab) p = typeRowOf ?C p" if "typeCond f p" for p
  proof -
    have "filter (\<lambda>r. subjectType r = p) (countedRows env f tab) = filter (\<lambda>r. subjectType r = p) ?C"
      unfolding counted_filter [OF assms] filter_filter using that by (intro filter_cong) auto
    then show ?thesis by (simp only: typeRowOf_def)
  qed
  have "filter (\<lambda>v. typeCond f (TyRowSubject v, TyRowType v)) (RawTypesRollupSelect env tab) = map (typeRowOf ?C) (filter (typeCond f) (remdups (map subjectType ?C)))"
    unfolding select_rows Let_def filter_map by (simp add: comp_def typeRowOf_def Let_def)
  also have "\<dots> = map (typeRowOf (countedRows env f tab)) (filter (typeCond f) (remdups (map subjectType ?C)))"
    using same by (intro map_cong) simp_all
  finally show ?thesis unfolding counted_filter [OF assms] remdups_filter_key .
qed

lemma sort_types: "sort (remdups (map snd (remdups (map subjectType rows)))) = sort (remdups (map RtType rows))"
proof -
  have "snd ` set (remdups (map subjectType rows)) = set (map RtType rows)" by (auto simp: subjectType_def image_image)
  then show ?thesis by (simp flip: sorted_list_of_set_sort_remdups)
qed

lemma rollup_exact:
  assumes "typeSummaryRollupServable f" and "LtRawTypes lt = RawTypesRollupSelect env (LtRawEvents lt)"
  shows "getTypeSummariesRollup f lt = getTypeSummariesScan env f lt"
proof -
  let ?C = "countedRows env f (LtRawEvents lt)"
  let ?ps = "remdups (map subjectType ?C)"
  have rows: "filter (\<lambda>v. subjectCond f (TyRowSubject v) \<and> addIn (RfTypes f) (TyRowType v) \<and> addNotIn (RfTypesNotIn f) (TyRowType v)) (LtRawTypes lt) = map (typeRowOf ?C) ?ps"
    using rollup_filtered [OF assms(1), of env "LtRawEvents lt"] by (simp add: assms(2) typeCond_def)
  have types: "map TyRowType (map (typeRowOf ?C) ?ps) = map snd ?ps" by (simp add: typeRowOf_def Let_def)
  have "\<lparr>TsType = ty, TsCount = sum_list (map TyRowCount vs), TsFirstSeen = Min (TyRowFirstSeen ` set vs), TsLastSeen = Max (TyRowLastSeen ` set vs)\<rparr>
      = \<lparr>TsType = ty, TsCount = length ts, TsFirstSeen = Min (set ts), TsLastSeen = Max (set ts)\<rparr>"
    if "ty \<in> set (map RtType ?C)" and vs: "vs = filter (\<lambda>v. TyRowType v = ty) (map (typeRowOf ?C) ?ps)"
      and ts: "ts = map RtTime (filter (\<lambda>r. RtType r = ty) ?C)" for ty vs ts
  proof -
    let ?X = "filter (\<lambda>r. RtType r = ty) ?C"
    let ?qs = "filter (\<lambda>p. snd p = ty) ?ps"
    let ?g = "\<lambda>p. RtTime ` {r \<in> set ?C. subjectType r = p}"
    have v: "vs = map (typeRowOf ?C) ?qs" by (simp add: vs filter_map comp_def typeRowOf_def Let_def)
    have grp: "filter (\<lambda>r. subjectType r = p) ?C = filter (\<lambda>r. subjectType r = p) ?X" if "p \<in> set ?qs" for p
      using that unfolding filter_filter by (intro filter_cong) (auto simp: subjectType_def)
    have "sum_list (map TyRowCount vs) = (\<Sum>p\<leftarrow>?qs. length (filter (\<lambda>r. subjectType r = p) ?X))"
      unfolding v map_map comp_def using grp by (intro arg_cong [where f = sum_list] map_cong) (simp_all add: typeRowOf_def Let_def)
    also have "\<dots> = length ?X" by (rule sum_of_groups) (auto simp: subjectType_def)
    finally have count: "sum_list (map TyRowCount vs) = length ts" by (simp add: ts)
    have I: "finite (set ?qs)" "set ?qs \<noteq> {}" "\<And>p. p \<in> set ?qs \<Longrightarrow> finite (?g p) \<and> ?g p \<noteq> {}" using that(1) by (auto simp: subjectType_def)
    have U: "(\<Union>p \<in> set ?qs. ?g p) = set ts" by (auto simp: ts subjectType_def)
    have "TyRowFirstSeen ` set vs = (\<lambda>p. Min (?g p)) ` set ?qs" "TyRowLastSeen ` set vs = (\<lambda>p. Max (?g p)) ` set ?qs"
      unfolding v list.set_map image_image by (intro image_cong refl; simp add: typeRowOf_def Let_def)+
    moreover have "Min ((\<lambda>p. Min (?g p)) ` set ?qs) = Min (set ts)" "Max ((\<lambda>p. Max (?g p)) ` set ?qs) = Max (set ts)"
      using Min_of_groups [of "set ?qs" ?g, OF I] unfolding U by blast+
    ultimately show ?thesis using count by simp
  qed
  then show ?thesis unfolding getTypeSummariesRollup_def getTypeSummariesScan_def Let_def rows types sort_types
    by (intro map_cong refl) (simp only: set_sort set_remdups)
qed

text \<open>
  C14. After a rebuild of lake.raw_types_latest, and until raw events change, the summary of event types is the one
  of the scan for every filter, whichever of the rollup, its empty fallback or the scan serves it.
\<close>

theorem type_rollup_exact:
  assumes "RecomputeRawTypesRollup env (Inr True) tx lt0 = (None, lt)" and "\<And>op f. QueryErr env op f = None"
  shows "fst (lakeGetCloudEventTypeSummariesAdvanced env lt opts ready) = map_sum id (\<lambda>f. getTypeSummariesScan env f lt) (filterFromAdvanced opts)"
proof (cases "filterFromAdvanced opts")
  case (Inr f)
  have "LtRawTypes lt = RawTypesRollupSelect env (LtRawEvents lt)"
    using assms(1) by (auto simp: RecomputeRawTypesRollup_def Let_def split: txOutcome.splits)
  then have "typeSummaryRollupServable f \<Longrightarrow> getTypeSummariesRollup f lt = getTypeSummariesScan env f lt" by (rule rollup_exact [rotated])
  then show ?thesis using Inr by (simp add: lakeGetCloudEventTypeSummariesAdvanced_def scanTypeSummaries_def assms(2) Let_def split: prod.splits)
qed (simp add: lakeGetCloudEventTypeSummariesAdvanced_def)

theorem type_rollup_exact_witness:
  "fst (lakeGetCloudEventTypeSummariesAdvanced demoEnv ((demoLake ''x'')\<lparr>LtRawTypes := RawTypesRollupSelect demoEnv (LtRawEvents (demoLake ''x''))\<rparr>) None False)
    = Inr (getTypeSummariesScan demoEnv (emptyRawFilter\<lparr>RfExcludeVoided := True\<rparr>)
        ((demoLake ''x'')\<lparr>LtRawTypes := RawTypesRollupSelect demoEnv (LtRawEvents (demoLake ''x''))\<rparr>))"
proof -
  have "RecomputeRawTypesRollup demoEnv (Inr True) TxOk (demoLake ''x'')
      = (None, (demoLake ''x'')\<lparr>LtRawTypes := RawTypesRollupSelect demoEnv (LtRawEvents (demoLake ''x''))\<rparr>)"
    by (simp add: RecomputeRawTypesRollup_def)
  from type_rollup_exact [OF this, of None False] show ?thesis by (simp add: filterFromAdvanced_def demoEnv_def)
qed

subsection \<open>Errors of the fetch service\<close>

lemma resolve_errors: "resolvePayload env ev = Inl e \<Longrightarrow> \<exists>m. e = OtherError m"
  by (auto simp: resolvePayload_def Let_def split: if_splits option.splits sum.splits)

lemma resolveJobs_errors: "resolveJobs env evs n = Some e \<Longrightarrow> e = PayloadBudgetExceeded \<or> (\<exists>m. e = OtherError m)"
  by (induction evs arbitrary: n) (auto simp: Let_def split: if_splits sum.splits dest: resolve_errors)

lemma andThen_Inl: "andThen x k = Inl e \<longleftrightarrow> x = Inl e \<or> (\<exists>y. x = Inr y \<and> k y = Inl e)"
  by (cases x) auto

lemma query_errors: "queryLakeRawCols env lt f n cols op = Inl e \<Longrightarrow> \<exists>m. e = OtherError m"
  by (auto simp: queryLakeRawCols_def Let_def split: option.splits)

lemma batchLoop_errors: "batchLoop env lt s bs st = Inl e \<Longrightarrow> \<exists>m. e = OtherError m"
  by (induction bs arbitrary: st) (auto simp: andThen_Inl queryLakeRaw_def dest: query_errors)

lemma subjectLoop_errors: "subjectLoop env lt ixs ss st = Inl e \<Longrightarrow> \<exists>m. e = OtherError m"
  by (induction ss arbitrary: st) (auto simp: andThen_Inl dest: batchLoop_errors)

lemma matchLoop_errors: "matchLoop env st ixs = Inl e \<Longrightarrow> e = NoRows"
  by (induction ixs) (auto simp: andThen_Inl split: option.splits)

lemma no_NoSuchKey: "lakeListCloudEventsFromIndexes env lt ixs \<noteq> Inl NoSuchKey"
  by (auto simp: lakeListCloudEventsFromIndexes_def andThen_Inl split: option.splits if_splits
      dest: subjectLoop_errors matchLoop_errors resolveJobs_errors)

lemma keys_status: "keysLoop idn ctx ixs = Inl (Status code m) \<Longrightarrow> code \<in> {InvalidArgument, Unauthenticated, PermissionDenied}"
  by (induction ixs) (auto simp: authorizeSubject_def split: if_splits sum.splits option.splits)

text \<open>An index that leads nowhere: no live row has its subject and id, and none has its key.\<close>

definition unmatched :: "'x fetchEnv \<Rightarrow> rawTableRow list \<Rightarrow> 'x eventHeader objectIndex \<Rightarrow> bool" where
  "unmatched env tab i = (\<forall>q. live tab q \<longrightarrow> (RtSubject q, RtId q) \<noteq> (IxSubject i, HdId (IxHeader i))
     \<and> EventKey env (RtSubject q) (headerOf env q) \<noteq> ixKey env i)"

definition liveLookup :: "'x fetchEnv \<Rightarrow> rawTableRow list \<Rightarrow> 'x fetched \<Rightarrow> bool" where
  "liveLookup env tab st =
     ((\<forall>k ev. Found st k = Some ev \<longrightarrow> (\<exists>q. live tab q \<and> k = EventKey env (RtSubject q) (headerOf env q)))
    \<and> (\<forall>k ev. BySubjectID st k = Some ev \<longrightarrow> (\<exists>q. live tab q \<and> k = (RtSubject q, RtId q))))"

lemma liveLookup_record: "live tab q \<Longrightarrow> liveLookup env tab st \<Longrightarrow> liveLookup env tab (recordEvent env (scanStoredEvent env q) st)"
  by (auto simp: liveLookup_def recordEvent_def scanStoredEvent_def seKey_def headerOf_def Let_def)

lemma liveLookup_batch:
  "batchLoop env lt s bs st = Inr st' \<Longrightarrow> liveLookup env (LtRawEvents lt) st \<Longrightarrow> liveLookup env (LtRawEvents lt) st'"
proof (induction bs arbitrary: st)
  case (Cons b bs)
  obtain evs where evs: "queryLakeRaw env lt (byID s b) (length b * idRowExpansion) ''fetchByIDBatch'' = Inr evs"
    and rest: "batchLoop env lt s bs (fold (recordEvent env) evs st) = Inr st'"
    using Cons.prems(1) by (cases "queryLakeRaw env lt (byID s b) (length b * idRowExpansion) ''fetchByIDBatch''") auto
  have "\<exists>q. live (LtRawEvents lt) q \<and> ev = scanStoredEvent env q" if ev: "ev \<in> set evs" for ev
  proof -
    obtain q where q: "q \<in> set (foundRows env (LtRawEvents lt) (scanWindow env (byID s b)))" "ev = scanStoredEvent env q"
      using evs ev by (auto simp: queryLakeRaw_def query_Inr RawEventColumns_def dest: in_set_takeD)
    have "RfExcludeVoided (scanWindow env (byID s b))" by (simp add: scanWindow_def byID_def)
    then have "live (LtRawEvents lt) q" using foundRows_in(1,3) [OF q(1)] by (simp add: live_def)
    then show ?thesis using q(2) by blast
  qed
  then have "liveLookup env (LtRawEvents lt) (fold (recordEvent env) evs st)"
    using Cons.prems(2)
  proof (induction evs arbitrary: st)
    case (Cons e evs)
    obtain q where "live (LtRawEvents lt) q" "e = scanStoredEvent env q" using Cons.prems(1) [of e] by auto
    then have "liveLookup env (LtRawEvents lt) (recordEvent env e st)" using liveLookup_record Cons.prems(2) by blast
    then show ?case using Cons.IH Cons.prems(1) by simp
  qed simp
  from Cons.IH [OF rest this] show ?case .
qed simp

lemma liveLookup_subjects:
  "subjectLoop env lt ixs ss st = Inr st' \<Longrightarrow> liveLookup env (LtRawEvents lt) st \<Longrightarrow> liveLookup env (LtRawEvents lt) st'"
proof (induction ss arbitrary: st)
  case (Cons s ss)
  then show ?case
    by (cases "batchLoop env lt s (chunksOf idsPerFetchBatch (idsBySubject ixs s)) st") (auto dest: liveLookup_batch)
qed simp

lemma matchLoop_unmatched:
  "liveLookup env tab st \<Longrightarrow> i \<in> set ixs \<Longrightarrow> unmatched env tab i \<Longrightarrow> \<exists>e. matchLoop env st ixs = Inl e"
proof (induction ixs)
  case (Cons i' ixs)
  show ?case
  proof (cases "i = i'")
    case True
    have "Found st (ixKey env i) = None" "BySubjectID st (IxSubject i, HdId (IxHeader i)) = None"
      using Cons.prems(1,3) unfolding liveLookup_def unmatched_def by (metis option.exhaust)+
    then show ?thesis using True by simp
  next
    case False
    then obtain e where "matchLoop env st ixs = Inl e" using Cons by auto
    then show ?thesis by (simp split: option.splits)
  qed
qed simp

lemma missing_event_fails:
  assumes "i \<in> set ixs" "unmatched env (LtRawEvents lt) i"
  shows "\<exists>e. lakeListCloudEventsFromIndexes env lt ixs = Inl e"
proof -
  let ?st = "\<lparr>Found = Map.empty, BySubjectID = Map.empty\<rparr>" and ?ss = "sort_key (MapRank env) (remdups (map IxSubject ixs))"
  have "liveLookup env (LtRawEvents lt) ?st" by (simp add: liveLookup_def)
  then have "\<exists>e. matchLoop env st ixs = Inl e" if "subjectLoop env lt ixs ?ss ?st = Inr st" for st
    using matchLoop_unmatched [OF liveLookup_subjects [OF that] assms] by blast
  then show ?thesis
    using assms(1) by (cases "subjectLoop env lt ixs ?ss ?st") (auto simp: lakeListCloudEventsFromIndexes_def)
qed

text \<open>
  C40. The fetch by index keys never answers that an object is missing nor that the response is too large.
  When the keys are accepted, every failure of the lake service comes out as the same internal error, the
  payload budget included; and it fails whenever no live event has the subject and id of one of the
  indexes, nor its key, however many of the others are there. For the lake reports a missing
  event as no rows, and the handler looks only for the error of an object store.
\<close>

theorem keys_never_not_found:
  "ListCloudEventsFromIndex idn (lakeService env ready lt) ctx ixs \<noteq> Inl (Status NotFoundCode m)
   \<and> ListCloudEventsFromIndex idn (lakeService env ready lt) ctx ixs \<noteq> Inl (Status ResourceExhausted m)
   \<and> (length ixs \<le> maxIndexKeysPerRequest \<and> keysLoop idn ctx ixs = Inr ()
       \<and> ((\<exists>e. lakeListCloudEventsFromIndexes env lt ixs = Inl e) \<or> (\<exists>i \<in> set ixs. unmatched env (LtRawEvents lt) i)) \<longrightarrow>
      ListCloudEventsFromIndex idn (lakeService env ready lt) ctx ixs = Inl (Status InternalCode ''failed to get objects''))"
proof (intro conjI impI)
  have st: "ListCloudEventsFromIndex idn (lakeService env ready lt) ctx ixs \<noteq> Inl (Status code m)" if "code \<in> {NotFoundCode, ResourceExhausted}" for code
    using that no_NoSuchKey [of env lt ixs] keys_status [of idn ctx ixs code m]
    by (auto simp: ListCloudEventsFromIndex_def ListCloudEventsFromIndexes_def lakeService_def split: sum.splits svcError.splits if_splits)
  show "ListCloudEventsFromIndex idn (lakeService env ready lt) ctx ixs \<noteq> Inl (Status NotFoundCode m)"
    "ListCloudEventsFromIndex idn (lakeService env ready lt) ctx ixs \<noteq> Inl (Status ResourceExhausted m)" using st by simp_all
  assume a: "length ixs \<le> maxIndexKeysPerRequest \<and> keysLoop idn ctx ixs = Inr ()
       \<and> ((\<exists>e. lakeListCloudEventsFromIndexes env lt ixs = Inl e) \<or> (\<exists>i \<in> set ixs. unmatched env (LtRawEvents lt) i))"
  then obtain e where e: "lakeListCloudEventsFromIndexes env lt ixs = Inl e" using missing_event_fails by blast
  then have "e \<noteq> NoSuchKey" "ixs \<noteq> []" using no_NoSuchKey by (auto simp: lakeListCloudEventsFromIndexes_def)
  then show "ListCloudEventsFromIndex idn (lakeService env ready lt) ctx ixs = Inl (Status InternalCode ''failed to get objects'')"
    using a e by (auto simp: ListCloudEventsFromIndex_def ListCloudEventsFromIndexes_def lakeService_def split: svcError.splits)
qed

text \<open>Of two indexes one is stored; the answer is an internal error.\<close>

theorem keys_never_not_found_witness:
  "ListCloudEventsFromIndex demoIdentity (lakeService demoEnv False \<lparr>LtRawEvents = [demoRow ''veh'' ''e1'' ''x''], LtRawTypes = []\<rparr>) (demoCtx (Some demoClaim))
     [\<lparr>IxSubject = ''veh'', IxKey = ''lake://veh/e1'', IxHeader = headerOf demoEnv (demoRow ''veh'' ''e1'' ''x'')\<rparr>,
      \<lparr>IxSubject = ''veh'', IxKey = ''lake://veh/e2'', IxHeader = headerOf demoEnv (demoRow ''veh'' ''e2'' ''x'')\<rparr>]
   = Inl (Status InternalCode ''failed to get objects'')"
proof -
  let ?e1 = "\<lparr>IxSubject = ''veh'', IxKey = ''lake://veh/e1'', IxHeader = headerOf demoEnv (demoRow ''veh'' ''e1'' ''x'')\<rparr>"
  let ?e2 = "\<lparr>IxSubject = ''veh'', IxKey = ''lake://veh/e2'', IxHeader = headerOf demoEnv (demoRow ''veh'' ''e2'' ''x'')\<rparr>"
  let ?lt = "\<lparr>LtRawEvents = [demoRow ''veh'' ''e1'' ''x''], LtRawTypes = []\<rparr>"
  have "keysLoop demoIdentity (demoCtx (Some demoClaim)) [?e1, ?e2] = Inr ()"
    by (simp add: validObjectKey_def authorizeSubject_def demoCtx_def DQClaimFromContext_def demoClaim_def)
  moreover have "EventKey demoEnv ''veh'' (headerOf demoEnv (demoRow ''veh'' ''e1'' ''x'')) \<noteq> ixKey demoEnv ?e2"
  proof
    assume "EventKey demoEnv ''veh'' (headerOf demoEnv (demoRow ''veh'' ''e1'' ''x'')) = ixKey demoEnv ?e2"
    then have "length (EventKey demoEnv ''veh'' (headerOf demoEnv (demoRow ''veh'' ''e1'' ''x''))) = length (ixKey demoEnv ?e2)" by simp
    then show False by (simp add: demoEnv_def ixKey_def headerOf_def demoRow_def)
  qed
  then have "unmatched demoEnv (LtRawEvents ?lt) ?e2"
    by (auto simp: unmatched_def live_def demoRow_def headerOf_def)
  moreover have "length [?e1, ?e2] \<le> maxIndexKeysPerRequest" by (simp add: maxIndexKeysPerRequest_def)
  ultimately show ?thesis using keys_never_not_found by (metis list.set_intros)
qed

text \<open>The error of an object that is too large is recognized only when the store announces its length.\<close>

lemma too_large_unannounced:
  "int maxSize < n \<Longrightarrow> 0 < n \<Longrightarrow> downloadS3Object (\<lambda>_. Inr (S3Object (Some n) body e)) key maxSize = Inl TooLarge"
  "maxSize < length body \<Longrightarrow> downloadS3Object (\<lambda>_. Inr (S3Object None body e)) key maxSize = Inl TooLargePlain"
  "IsObjectTooLarge TooLarge" "\<not> IsObjectTooLarge TooLargePlain"
  by (simp_all add: downloadS3Object_def readLimited_def IsObjectTooLarge_def)

end
