(* ===== verification/Request_Limits.thy ===== *)
theory Request_Limits
  imports Go_Time "HOL-Library.Multiset"
begin

section \<open>Request limits (internal/limits)\<close>

text \<open>
  Two limits guard the pool of database connections: a process-wide cap on requests in flight and a
  cap per caller. Their state is shared by the goroutines of all requests; a request is the sequence
  of its critical sections, interleaved with those of the others. The theory shows that the slots
  taken and the counters of the callers are the requests in flight, that neither cap is exceeded, that a request is shed only at the cap,
  and that the map of callers holds nobody without a request.

  The wait of the global limiter for a free slot ends with a slot, its timer or the request's context;
  which of them comes first is the choice of the step.
\<close>

subsection \<open>Limiters\<close>

record concurrencyLimiter =
  CMax :: int
  inflight :: "string \<rightharpoonup> int"

definition NewConcurrencyLimiter :: "int \<Rightarrow> concurrencyLimiter" where
  "NewConcurrencyLimiter n = \<lparr>CMax = n, inflight = Map.empty\<rparr>"

text \<open>Reading a missing key of the map gives 0.\<close>

definition inflightOf :: "concurrencyLimiter \<Rightarrow> string \<Rightarrow> int" where
  "inflightOf c key = (case inflight c key of None \<Rightarrow> 0 | Some n \<Rightarrow> n)"

definition acquireKey :: "string \<Rightarrow> concurrencyLimiter \<Rightarrow> bool \<times> concurrencyLimiter" where
  "acquireKey key c =
     (if inflightOf c key \<ge> CMax c then (False, c)
      else (True, c\<lparr>inflight := (inflight c)(key \<mapsto> inflightOf c key + 1)\<rparr>))"

definition releaseKey :: "string \<Rightarrow> concurrencyLimiter \<Rightarrow> concurrencyLimiter" where
  "releaseKey key c =
     (if inflightOf c key \<le> 1 then c\<lparr>inflight := (inflight c)(key := None)\<rparr>
      else c\<lparr>inflight := (inflight c)(key \<mapsto> inflightOf c key - 1)\<rparr>)"

text \<open>The semaphore: its capacity and the tokens in it; \<open>None\<close> is the disabled limiter.\<close>

record globalLimiter =
  Sem :: "(nat \<times> nat) option"

definition globalAcquireWait :: duration where "globalAcquireWait = 100 * millisecond"

definition NewGlobalLimiter :: "int \<Rightarrow> globalLimiter" where
  "NewGlobalLimiter n = (if n \<le> 0 then \<lparr>Sem = None\<rparr> else \<lparr>Sem = Some (nat n, 0)\<rparr>)"

text \<open>A send that does not block.\<close>

definition trySend :: "globalLimiter \<Rightarrow> globalLimiter option" where
  "trySend g = (case Sem g of None \<Rightarrow> Some g | Some (cap, n) \<Rightarrow> if n < cap then Some (g\<lparr>Sem := Some (cap, Suc n)\<rparr>) else None)"

definition releaseGlobal :: "globalLimiter \<Rightarrow> globalLimiter" where
  "releaseGlobal g = (case Sem g of None \<Rightarrow> g | Some (cap, n) \<Rightarrow> g\<lparr>Sem := Some (cap, n - 1)\<rparr>)"

definition defaultMaxRequestDuration :: duration where "defaultMaxRequestDuration = 5 * minute"

text \<open>\<open>New\<close> of the request timeout; \<open>parse\<close> is \<open>time.ParseDuration\<close>.\<close>

definition NewLimiter :: "(string \<Rightarrow> duration res) \<Rightarrow> string \<Rightarrow> duration res" where
  "NewLimiter parse s =
     (if s = [] then Inr defaultMaxRequestDuration
      else (case parse s of
              Inl err \<Rightarrow> Inl (Wrap ''couldn't parse duration'' err)
            | Inr mrd \<Rightarrow> if mrd \<le> 0 then Inl (Err ''duration was not positive'') else Inr mrd))"

subsection \<open>Requests in flight\<close>

text \<open>
  A request passes the global middleware, then the one of its caller: \<open>Waiting\<close> for a slot of the first
  with its second \<open>select\<close>, \<open>Admitted\<close> by it, \<open>Running\<close> the handler. \<open>Shed\<close> counts rejections. The
  authentication between the two may turn an admitted request away; a request of the gRPC server meets
  only the first limit and carries the empty key.
\<close>

record limitState =
  Global :: globalLimiter
  PerKey :: concurrencyLimiter
  Waiting :: "string multiset"
  Admitted :: "string multiset"
  Running :: "string multiset"
  Shed :: nat

definition initLimits :: "int \<Rightarrow> int \<Rightarrow> limitState" where
  "initLimits total' perSubject = \<lparr>Global = NewGlobalLimiter total', PerKey = NewConcurrencyLimiter perSubject,
     Waiting = {#}, Admitted = {#}, Running = {#}, Shed = 0\<rparr>"

text \<open>Whether the caller's middleware limits this key at all.\<close>

definition keyLimited :: "concurrencyLimiter \<Rightarrow> string \<Rightarrow> bool" where
  "keyLimited c key = (0 < CMax c \<and> key \<noteq> [])"

inductive limitStep :: "limitState \<Rightarrow> limitState \<Rightarrow> bool" where
  fast: "trySend (Global s) = Some g \<Longrightarrow> limitStep s (s\<lparr>Global := g, Admitted := add_mset key (Admitted s)\<rparr>)"
| wait: "trySend (Global s) = None \<Longrightarrow> limitStep s (s\<lparr>Waiting := add_mset key (Waiting s)\<rparr>)"
| slot: "key \<in># Waiting s \<Longrightarrow> trySend (Global s) = Some g
    \<Longrightarrow> limitStep s (s\<lparr>Global := g, Waiting := Waiting s - {#key#}, Admitted := add_mset key (Admitted s)\<rparr>)"
| gaveUp: "key \<in># Waiting s \<Longrightarrow> limitStep s (s\<lparr>Waiting := Waiting s - {#key#}, Shed := Suc (Shed s)\<rparr>)"
| denied: "key \<in># Admitted s
    \<Longrightarrow> limitStep s (s\<lparr>Admitted := Admitted s - {#key#}, Global := releaseGlobal (Global s)\<rparr>)"
| pass: "key \<in># Admitted s \<Longrightarrow> \<not> keyLimited (PerKey s) key
    \<Longrightarrow> limitStep s (s\<lparr>Admitted := Admitted s - {#key#}, Running := add_mset key (Running s)\<rparr>)"
| enter: "key \<in># Admitted s \<Longrightarrow> keyLimited (PerKey s) key \<Longrightarrow> acquireKey key (PerKey s) = (True, c)
    \<Longrightarrow> limitStep s (s\<lparr>PerKey := c, Admitted := Admitted s - {#key#}, Running := add_mset key (Running s)\<rparr>)"
| tooMany: "key \<in># Admitted s \<Longrightarrow> keyLimited (PerKey s) key \<Longrightarrow> acquireKey key (PerKey s) = (False, c)
    \<Longrightarrow> limitStep s (s\<lparr>PerKey := c, Admitted := Admitted s - {#key#}, Global := releaseGlobal (Global s), Shed := Suc (Shed s)\<rparr>)"
| finish: "key \<in># Running s \<Longrightarrow> limitStep s (s\<lparr>Running := Running s - {#key#},
      PerKey := (if keyLimited (PerKey s) key then releaseKey key (PerKey s) else PerKey s), Global := releaseGlobal (Global s)\<rparr>)"

subsection \<open>The caps hold\<close>

definition perKeyOk :: "limitState \<Rightarrow> bool" where
  "perKeyOk s = (\<forall>key. keyLimited (PerKey s) key \<longrightarrow> int (count (Running s) key) \<le> CMax (PerKey s)
     \<and> inflight (PerKey s) key = (if key \<in># Running s then Some (int (count (Running s) key)) else None))"

definition globalOk :: "limitState \<Rightarrow> bool" where
  "globalOk s = (case Sem (Global s) of None \<Rightarrow> True
     | Some (cap, n) \<Rightarrow> n = size (Admitted s) + size (Running s) \<and> n \<le> cap)"

lemma inflightOf_count: "perKeyOk s \<Longrightarrow> keyLimited (PerKey s) key \<Longrightarrow> inflightOf (PerKey s) key = int (count (Running s) key)"
  by (auto simp: perKeyOk_def inflightOf_def count_eq_zero_iff)

lemma keyLimited_same: "CMax c = CMax d \<Longrightarrow> keyLimited c key = keyLimited d key"
  by (simp add: keyLimited_def)

lemma acquire_ok:
  assumes "perKeyOk s" "keyLimited (PerKey s) key" "acquireKey key (PerKey s) = (ok, c)"
  shows "ok \<longleftrightarrow> int (count (Running s) key) < CMax (PerKey s)"
    "ok \<Longrightarrow> perKeyOk (s\<lparr>PerKey := c, Admitted := A, Running := add_mset key (Running s)\<rparr>)"
    "\<not> ok \<Longrightarrow> c = PerKey s"
  using assms inflightOf_count [OF assms(1,2)] by (auto simp: acquireKey_def perKeyOk_def keyLimited_def split: if_splits)

lemma in_diff_single: "k \<in># M - {#x#} \<longleftrightarrow> (if k = x then 1 < count M x else k \<in># M)"
  by (auto simp: in_diff_count not_in_iff)

lemma release_ok:
  assumes "perKeyOk s" "keyLimited (PerKey s) key" "key \<in># Running s"
  shows "perKeyOk (s\<lparr>Running := Running s - {#key#}, PerKey := releaseKey key (PerKey s), Global := g\<rparr>)"
proof -
  have pos: "0 < count (Running s) key" using assms(3) by (simp add: count_greater_zero_iff)
  show ?thesis using assms(1) inflightOf_count [OF assms(1,2)] pos
    by (auto simp: perKeyOk_def releaseKey_def keyLimited_def of_nat_diff in_diff_single split: if_splits)
qed

lemma step_perKey: "limitStep s s' \<Longrightarrow> perKeyOk s \<Longrightarrow> perKeyOk s'"
proof (induction rule: limitStep.induct)
  case (enter key s c)
  then show ?case using acquire_ok(2) [of s key True c] by simp
next
  case (tooMany key s c)
  then show ?case using acquire_ok(3) [of s key False c] by (simp add: perKeyOk_def)
next
  case (finish key s)
  show ?case
  proof (cases "keyLimited (PerKey s) key")
    case True
    then show ?thesis using release_ok [OF finish(2) True finish(1)] by simp
  next
    case False
    then show ?thesis using finish by (auto simp: perKeyOk_def in_diff_single split: if_splits)
  qed
next
  case (pass key s)
  then show ?case by (auto simp: perKeyOk_def split: if_splits)
qed (simp_all add: perKeyOk_def)

lemma member_size: "x \<in># M \<Longrightarrow> 0 < size M"
  by (metis empty_not_add_mset insert_DiffM nonempty_has_size)

lemma step_global: "limitStep s s' \<Longrightarrow> globalOk s \<Longrightarrow> globalOk s'"
proof (induction rule: limitStep.induct)
  case (denied key s)
  have "0 < size (Admitted s)" by (rule member_size [OF denied(1)])
  then show ?case using denied by (auto simp: globalOk_def releaseGlobal_def size_Diff_singleton split: option.splits)
next
  case (pass key s)
  have "0 < size (Admitted s)" by (rule member_size [OF pass(1)])
  then show ?case using pass by (auto simp: globalOk_def size_Diff_singleton split: option.splits)
next
  case (enter key s c)
  have "0 < size (Admitted s)" by (rule member_size [OF enter(1)])
  then show ?case using enter by (auto simp: globalOk_def size_Diff_singleton split: option.splits)
next
  case (tooMany key s c)
  have "0 < size (Admitted s)" by (rule member_size [OF tooMany(1)])
  then show ?case using tooMany by (auto simp: globalOk_def releaseGlobal_def size_Diff_singleton split: option.splits)
next
  case (finish key s)
  have "0 < size (Running s)" by (rule member_size [OF finish(1)])
  then show ?case using finish by (auto simp: globalOk_def releaseGlobal_def size_Diff_singleton split: option.splits)
qed (auto simp: globalOk_def trySend_def split: option.splits if_splits)

lemma step_caps: "limitStep s s' \<Longrightarrow> CMax (PerKey s') = CMax (PerKey s) \<and> map_option fst (Sem (Global s')) = map_option fst (Sem (Global s))"
  by (induction rule: limitStep.induct)
    (auto simp: acquireKey_def releaseKey_def trySend_def releaseGlobal_def split: option.splits if_splits)

lemma reachable_limits:
  assumes "limitStep\<^sup>*\<^sup>* (initLimits n k) s"
  shows "perKeyOk s \<and> globalOk s \<and> CMax (PerKey s) = k \<and> map_option fst (Sem (Global s)) = (if n \<le> 0 then None else Some (nat n))"
  using assms
proof (induction rule: rtranclp_induct)
  case base
  then show ?case by (simp add: initLimits_def perKeyOk_def globalOk_def NewGlobalLimiter_def NewConcurrencyLimiter_def keyLimited_def)
next
  case (step s s')
  then show ?case using step_perKey [OF step(2)] step_global [OF step(2)] step_caps [OF step(2)] by simp
qed

text \<open>
  C16. However the requests interleave, at most \<open>MAX_CONCURRENT_REQUESTS\<close> of them are inside the global
  limiter when it is enabled; its semaphore then holds exactly one token for each request inside, so
  that no slot leaks, and a slot is refused only when that many requests are inside; when it is
  disabled no slot is ever refused. At most \<open>MAX_CONCURRENT_REQUESTS_PER_SUBJECT\<close> of each caller run their
  handler when that limit is enabled, the counter of a caller is the number of its running requests and
  the map has an entry for exactly the callers that have one; and a caller is turned away by its own
  limit only when it has all its requests running.
\<close>

theorem limits_hold:
  assumes "limitStep\<^sup>*\<^sup>* (initLimits n k) s"
  shows "(0 < n \<longrightarrow> int (size (Admitted s) + size (Running s)) \<le> n
          \<and> Sem (Global s) = Some (nat n, size (Admitted s) + size (Running s)))
    \<and> (trySend (Global s) = None \<longleftrightarrow> 0 < n \<and> int (size (Admitted s) + size (Running s)) = n)
    \<and> (\<forall>key. 0 < k \<and> key \<noteq> [] \<longrightarrow> int (count (Running s) key) \<le> k
          \<and> inflight (PerKey s) key = (if key \<in># Running s then Some (int (count (Running s) key)) else None)
          \<and> (fst (acquireKey key (PerKey s)) \<longleftrightarrow> int (count (Running s) key) < k))"
proof (intro conjI impI allI)
  note inv = reachable_limits [OF assms]
  show "int (size (Admitted s) + size (Running s)) \<le> n" if "0 < n"
    using inv that by (cases "Sem (Global s)") (auto simp: globalOk_def)
  show sem: "Sem (Global s) = Some (nat n, size (Admitted s) + size (Running s))" if "0 < n"
    using inv that by (cases "Sem (Global s)") (auto simp: globalOk_def)
  show "trySend (Global s) = None \<longleftrightarrow> 0 < n \<and> int (size (Admitted s) + size (Running s)) = n"
  proof (cases "0 < n")
    case True
    then show ?thesis using sem [OF True] inv by (auto simp: trySend_def globalOk_def)
  qed (use inv in \<open>simp add: trySend_def\<close>)
  fix key :: string
  assume key: "0 < k \<and> key \<noteq> []"
  then have lim: "keyLimited (PerKey s) key" using inv by (simp add: keyLimited_def)
  then show "int (count (Running s) key) \<le> k"
    "inflight (PerKey s) key = (if key \<in># Running s then Some (int (count (Running s) key)) else None)"
    using inv by (auto simp: perKeyOk_def)
  show "fst (acquireKey key (PerKey s)) \<longleftrightarrow> int (count (Running s) key) < k"
    using acquire_ok(1) [OF _ lim surjective_pairing] inv by simp
qed

theorem limits_hold_witness:
  "limitStep\<^sup>*\<^sup>* (initLimits 2 1)
      \<lparr>Global = \<lparr>Sem = Some (2, 1)\<rparr>, PerKey = \<lparr>CMax = 1, inflight = [''a'' \<mapsto> 1]\<rparr>, Waiting = {#}, Admitted = {#}, Running = {#''a''#}, Shed = 0\<rparr>
    \<and> \<not> fst (acquireKey ''a'' \<lparr>CMax = 1, inflight = [''a'' \<mapsto> 1]\<rparr>) \<and> trySend \<lparr>Sem = Some (2, 1)\<rparr> \<noteq> None"
proof (intro conjI)
  have one: "limitStep (initLimits 2 1)
      \<lparr>Global = \<lparr>Sem = Some (2, 1)\<rparr>, PerKey = \<lparr>CMax = 1, inflight = Map.empty\<rparr>, Waiting = {#}, Admitted = {#''a''#}, Running = {#}, Shed = 0\<rparr>"
    using limitStep.fast [of "initLimits 2 1" "\<lparr>Sem = Some (2, 1)\<rparr>" "''a''"]
    by (simp add: initLimits_def NewGlobalLimiter_def NewConcurrencyLimiter_def trySend_def)
  have two: "limitStep
      \<lparr>Global = \<lparr>Sem = Some (2, 1)\<rparr>, PerKey = \<lparr>CMax = 1, inflight = Map.empty\<rparr>, Waiting = {#}, Admitted = {#''a''#}, Running = {#}, Shed = 0\<rparr>
      \<lparr>Global = \<lparr>Sem = Some (2, 1)\<rparr>, PerKey = \<lparr>CMax = 1, inflight = [''a'' \<mapsto> 1]\<rparr>, Waiting = {#}, Admitted = {#}, Running = {#''a''#}, Shed = 0\<rparr>"
    using limitStep.enter [of "''a''" "\<lparr>Global = \<lparr>Sem = Some (2, 1)\<rparr>, PerKey = \<lparr>CMax = 1, inflight = Map.empty\<rparr>, Waiting = {#}, Admitted = {#''a''#}, Running = {#}, Shed = 0\<rparr>"
        "\<lparr>CMax = 1, inflight = [''a'' \<mapsto> 1]\<rparr>"]
    by (simp add: keyLimited_def acquireKey_def inflightOf_def)
  show run: "limitStep\<^sup>*\<^sup>* (initLimits 2 1)
      \<lparr>Global = \<lparr>Sem = Some (2, 1)\<rparr>, PerKey = \<lparr>CMax = 1, inflight = [''a'' \<mapsto> 1]\<rparr>, Waiting = {#}, Admitted = {#}, Running = {#''a''#}, Shed = 0\<rparr>"
    using one two by (meson r_into_rtranclp rtranclp.rtrancl_into_rtrancl)
  show "\<not> fst (acquireKey ''a'' \<lparr>CMax = 1, inflight = [''a'' \<mapsto> 1]\<rparr>)"
    using limits_hold [OF run] by simp
  show "trySend \<lparr>Sem = Some (2, 1)\<rparr> \<noteq> None" using limits_hold [OF run] by simp
qed

end
