(* ===== verification/Spec2Isabelle.thy ===== *)
theory Spec2Isabelle
  imports Kv_Cas Kv_Coverage Repo_Daily Lake_Types Request_Limits
begin

text \<open>
  \<^bold>\<open>Verification of dq, the DIMO telemetry query service\<close>

  \<^bold>\<open>The program.\<close> dq has two halves. The \<^emph>\<open>materializer\<close> (internal/materializer) reads raw cloud events from
  the change feed of lake.raw_events, decodes them into rows of lake.signals and lake.events, keeps the
  rollups lake.signals_latest, lake.events_latest and lake.raw_types_latest, and publishes the latest
  readings of a subject to a key-value bucket (internal/latestkv). The \<^emph>\<open>query service\<close> answers GraphQL and
  gRPC requests from these tables: internal/graph and internal/fetch check the caller's token (internal/auth)
  and the request limits (internal/limits), internal/repositories validates the arguments and assembles
  the answers, internal/segments detects trips, idling, refuelling and charging, and
  internal/service/duck runs the SQL.

  \<^bold>\<open>Shared theories.\<close>
  \<^item> \<open>Prelude\<close>: errors as values (\<open>goerr\<close>, \<open>'a res\<close>), 64-bit wrap-around and saturation, the contract of
    Go's sorts, binary search.
  \<^item> \<open>Go_Float\<close>, \<open>Go_Time\<close>: binary64 arithmetic with rounding; instants and durations in nanoseconds.

  \<^bold>\<open>Segments\<close> (internal/segments).
  \<^item> \<open>Seg_Util\<close>, \<open>Seg_Merge\<close>: source.go, util.go; merging of ranges equals a reference of maximal runs, merged
    ranges are apart.
  \<^item> \<open>Seg_Windows\<close> (frequency.go, changepoint.go), \<open>Seg_Ignition\<close>, \<open>Seg_Idling\<close>, \<open>Seg_Refuel\<close>, \<open>Seg_Recharge\<close>,
    \<open>Seg_Registry\<close>: one theory per detector and the interface; debouncing meets its specification, the two
    idling paths agree, at most one segment is ongoing.

  \<^bold>\<open>Repositories\<close> (internal/repositories, internal/graph/model).
  \<^item> \<open>Repo_Validate\<close>: validate.go; accepted arguments bound the number of buckets of the window as \<open>Time.Sub\<close>
    measures it; a window beyond its range passes with more.
  \<^item> \<open>Repo_Segments\<close>, \<open>Repo_Paging\<close>, \<open>Repo_Summary\<close>: segments.go; the pages of a cursor read every segment once,
    each segment carries the summaries of its own rows.
  \<^item> \<open>Repo_Daily\<close>: daily activity on a time zone given by its transitions; one record per calendar day.
  \<^item> \<open>Repo_Signals\<close>: signals.go; buckets of the aggregation, latest, summary, snapshot and event queries.

  \<^bold>\<open>Latest cache\<close> (internal/latestkv).
  \<^item> \<open>Latest_Kv\<close>: the fold of readings into an entry converges in any order and under redelivery.
  \<^item> \<open>Kv_Store\<close>, \<open>Kv_Cas\<close>: store.go; a publish can be read back, keys are injective, concurrent writers lose
    no reading and the retries end.
  \<^item> \<open>Kv_Coverage\<close>: coverage.go as interleaved steps; while the writer asserts completeness every subject of
    the lake has a key, except those a backfill failed to publish, as long as each reconcile finds the rollup
    and the watermark as its comments describe; concrete runs show each condition is needed.

  \<^bold>\<open>Materializer\<close> (internal/materializer).
  \<^item> \<open>Mat_Coordinates\<close>, \<open>Mat_Decode\<close>: location.go, decode.go, defaultmodule.go, registry.go; pruning and
    the merging of coordinates; stored rows are well formed whatever a module returns, a batch decodes event
    by event, a null entry of the default payload loses its event.
  \<^item> \<open>Mat_Db\<close>: the state of \<open>DuckLakeMaterializer\<close>, the tables and the insert path of ducklake.go.
  \<^item> \<open>Mat_Span\<close>, \<open>Mat_Exactly_Once\<close>, \<open>Mat_Stored_Once\<close>: a decode pass; no raw row is lost, an identity that
    the decoder yields once and that is younger than the probe floor is stored at most once, and a pass returns.
  \<^item> \<open>Mat_Rollup\<close>, \<open>Mat_Daily\<close>, \<open>Mat_Daily_Exact\<close>, \<open>Mat_Daily_Run\<close>, \<open>Mat_Event_Rollup\<close>: the rollups and
    daily_rollup.go; the folded table equals the recompute from scratch for every subject outside the late
    set, under any interleaving of batches and refreshes that return without an error; concrete runs show
    where a refresh that fails half way breaks this.

  \<^bold>\<open>Query service.\<close>
  \<^item> \<open>Duck_Summaries\<close>: latest.go, lake_rollup_union.go, events.go of internal/service/duck; the summaries served
    from the rollups equal those of the scan under the invariants of the materializer; for events, after a
    flush or a full rebuild that reports no error.
  \<^item> \<open>Access\<close>: internal/auth, internal/fetch, and the resolvers of internal/graph that check tokens, over the
    interface \<open>event_service\<close>.
  \<^item> \<open>Lake_Fetch\<close>, \<open>Lake_Types\<close>: lake_fetch.go, raw.go, pkg/eventrepo and raw_types.go; the lake implements that
    interface, so no answer depends on rows of subjects outside the token; an index leads back to its
    event; the type rollup equals the scan; the errors a missing event turns into.
  \<^item> \<open>Request_Limits\<close>: internal/limits as interleaved requests; the caps hold, and the slots taken and the
    counters are exactly the requests in flight.

  \<^bold>\<open>Interfaces as locales.\<close> Each is interpreted on the definitions of the model: the last-write-wins register of
  the entry fold, the key-value client laws of the store, the detector contract, the claims about a rollup
  that survive inserts (\<open>rollup_claim\<close>), and the event service.

  \<^bold>\<open>Parameters and hypotheses.\<close> The database engine is a parameter: which call fails, whether a commit that
  reports an error has landed, which of several equal rows a query keeps. So are the change feed, the
  object store and its cipher, the JetStream bucket, the JWT validator, the DID decoder, the identity
  service, JSON, the vendor modules and the clock. What a theorem needs of them is a named hypothesis
  with a witness: the laws of the feed, one writer at a time, a faithful header key, ids within the
  lookup budget, printed DIDs that are not empty. SQL statements are translated to functions on lists of
  rows. Concurrency is the interleaving of critical sections, or an arbitrary order of completion.

  \<^bold>\<open>Fuel.\<close> The loops of a decode pass, which page until the feed is exhausted, take fuel; \<open>pass_returns\<close> shows
  that enough fuel exists for every environment, and the safety theorems hold for every amount. All other
  loops are total functions.

  \<^bold>\<open>Not modelled.\<close> Generated GraphQL and protobuf code, the wiring of the application, configuration,
  metrics and logging, the HTTP identity client, the AES framing of blobs, the life cycle of the DuckDB
  instance, the timer loop of the materializer, and the SQL of windowed aggregates, segment inputs and
  latest values, whose results are parameters of the theories that use them.
\<close>

end
